(* ===== verification/Prelude.thy ===== *)
theory Prelude
  imports Complex_Main "HOL-Library.Word" "HOL-Library.AList"
begin

text \<open>
  Shared vocabulary of the development: Python byte strings, the exception classes of the
  library and of the standard library that the code can raise, results that are either an
  exception or a value, Python slices, the integer/byte conversions of
  \<^verbatim>\<open>int.to_bytes\<close>, \<^verbatim>\<open>int.from_bytes\<close> and \<^verbatim>\<open>struct.pack\<close>, and dictionaries that
  remember insertion order.  The lemmas on these notions are collected in
  \<open>byte_simps\<close> and \<open>res_simps\<close>.
\<close>

unbundle bit_operations_syntax

named_theorems res_simps
named_theorems byte_simps

subsection \<open>Exceptions\<close>

text \<open>
  One constructor per exception class of exceptions.py, and the classes of the standard
  library and of Bleak and cryptography that the modelled code raises or catches.  The
  messages are not modelled.
\<close>

datatype py_error =
    TuyaBLEMeshError | MeshConnectionError | DeviceNotFoundError | MeshTimeoutError
  | ProvisioningError | ProtocolError | MalformedPacketError | CryptoError
  | AuthenticationError | SecretAccessError | SIGMeshError | SIGMeshKeyError
  | PowerControlError | DisconnectedError | CommandQueueFullError | CommandExpiredError
  | InvalidRequestError | InvalidResultError | CorrelationConflictError
  | BaseException | PyException | ValueError | UnicodeEncodeError | OverflowError
  | StructError | IndexError | KeyError | TypeError | AssertionError | OSError
  | TimeoutError | EOFError | AttributeError | NameError | RuntimeError | CancelledError | BleakError | ClientError | InvalidTag

text \<open>
  The base class of each class.  Python's \<^verbatim>\<open>TimeoutError\<close> is an
  \<^verbatim>\<open>OSError\<close>; \<^verbatim>\<open>asyncio.CancelledError\<close> is not an \<^verbatim>\<open>Exception\<close>.
\<close>

fun exn_parent :: "py_error \<Rightarrow> py_error option" where
  "exn_parent BaseException = None"
| "exn_parent PyException = Some BaseException"
| "exn_parent CancelledError = Some BaseException"
| "exn_parent MalformedPacketError = Some ProtocolError"
| "exn_parent AuthenticationError = Some CryptoError"
| "exn_parent SIGMeshKeyError = Some SIGMeshError"
| "exn_parent DisconnectedError = Some MeshConnectionError"
| "exn_parent UnicodeEncodeError = Some ValueError"
| "exn_parent TimeoutError = Some OSError"
| "exn_parent e =
     (if e \<in> {MeshConnectionError, DeviceNotFoundError, MeshTimeoutError, ProvisioningError,
              ProtocolError, CryptoError, SecretAccessError, SIGMeshError, PowerControlError,
              CommandQueueFullError, CommandExpiredError, InvalidRequestError,
              InvalidResultError, CorrelationConflictError}
      then Some TuyaBLEMeshError else Some PyException)"

fun exn_ancestors :: "nat \<Rightarrow> py_error \<Rightarrow> py_error list" where
  "exn_ancestors 0 e = [e]"
| "exn_ancestors (Suc n) e =
     e # (case exn_parent e of None \<Rightarrow> [] | Some p \<Rightarrow> exn_ancestors n p)"

text \<open>\<open>isinstance e c\<close>: an \<^verbatim>\<open>except c\<close> clause catches \<open>e\<close>.\<close>

definition isinstance :: "py_error \<Rightarrow> py_error \<Rightarrow> bool" where
  "isinstance e c \<longleftrightarrow> c \<in> set (exn_ancestors 5 e)"

lemma exn_ancestors_reach_root: "BaseException \<in> set (exn_ancestors 5 e)"
  by (cases e) (simp_all add: eval_nat_numeral)

lemma isinstance_refl [simp]: "isinstance e e"
  by (simp add: isinstance_def eval_nat_numeral)

subsection \<open>Results\<close>

type_synonym 'a res = "py_error + 'a"

fun bindR :: "'a res \<Rightarrow> ('a \<Rightarrow> 'b res) \<Rightarrow> 'b res" where
  "bindR (Inl e) f = Inl e"
| "bindR (Inr x) f = f x"

lemma bindR_eq_Inr_iff [res_simps]:
  "bindR m f = Inr y \<longleftrightarrow> (\<exists>x. m = Inr x \<and> f x = Inr y)"
  by (cases m) auto

lemma bindR_eq_Inl_iff:
  "bindR m f = Inl e \<longleftrightarrow> m = Inl e \<or> (\<exists>x. m = Inr x \<and> f x = Inl e)"
  by (cases m) auto

lemma bindR_assoc: "bindR (bindR m f) g = bindR m (\<lambda>x. bindR (f x) g)"
  by (cases m) auto

lemma bindR_cong [fundef_cong]:
  "m = m' \<Longrightarrow> (\<And>x. m' = Inr x \<Longrightarrow> f x = f' x) \<Longrightarrow> bindR m f = bindR m' f'"
  by (cases m') auto

subsection \<open>Bytes and slices\<close>

type_synonym byte = "8 word"
type_synonym bytes = "byte list"

text \<open>\<open>slice a b xs\<close> is \<^verbatim>\<open>xs[a:b]\<close> for indices that are not negative.\<close>

definition slice :: "nat \<Rightarrow> nat \<Rightarrow> 'a list \<Rightarrow> 'a list" where
  "slice a b xs = take (b - a) (drop a xs)"

lemma length_slice [byte_simps]: "length (slice a b xs) = min (b - a) (length xs - a)"
  by (simp add: slice_def)

lemma slice_append_drop: "a \<le> b \<Longrightarrow> slice a b xs @ drop b xs = drop a xs"
  using append_take_drop_id [of "b - a" "drop a xs"] by (simp add: slice_def)

text \<open>\<open>py_index xs i\<close> is \<^verbatim>\<open>xs[i]\<close> where nothing checks the length before.\<close>

definition py_index :: "'a list \<Rightarrow> nat \<Rightarrow> 'a res" where
  "py_index xs i = (if i < length xs then Inr (xs ! i) else Inl IndexError)"

text \<open>\<open>to_byte x\<close> is the element of \<^verbatim>\<open>bytes([x])\<close>, which must be in 0..255.\<close>

definition to_byte :: "int \<Rightarrow> byte res" where
  "to_byte x = (if 0 \<le> x \<and> x \<le> 255 then Inr (word_of_int x) else Inl ValueError)"

lemma to_byte_ok: "0 \<le> x \<Longrightarrow> x \<le> 255 \<Longrightarrow> to_byte x = Inr (word_of_int x)"
  by (simp add: to_byte_def)

text \<open>The byte-wise XOR over \<^verbatim>\<open>zip(a, b, strict=True)\<close>.\<close>

definition xor_bytes :: "bytes \<Rightarrow> bytes \<Rightarrow> bytes" where
  "xor_bytes a b = map2 (XOR) a b"

definition xor_strict :: "bytes \<Rightarrow> bytes \<Rightarrow> bytes res" where
  "xor_strict a b = (if length a = length b then Inr (xor_bytes a b) else Inl ValueError)"

lemma length_xor_bytes [simp]: "length (xor_bytes a b) = min (length a) (length b)"
  by (simp add: xor_bytes_def)

lemma nth_xor_bytes:
  "i < length a \<Longrightarrow> i < length b \<Longrightarrow> xor_bytes a b ! i = a ! i XOR b ! i"
  by (simp add: xor_bytes_def)

lemma xor_bytes_cancel: "length a = length b \<Longrightarrow> xor_bytes a (xor_bytes a b) = b"
  by (rule nth_equalityI) (auto simp: nth_xor_bytes simp flip: xor.assoc)

lemma xor_bytes_comm: "xor_bytes a b = xor_bytes b a"
  by (rule nth_equalityI) (auto simp: nth_xor_bytes xor.commute)

lemma xor_bytes_append:
  "length a = length c \<Longrightarrow> xor_bytes (a @ b) (c @ d) = xor_bytes a c @ xor_bytes b d"
  by (simp add: xor_bytes_def)

lemma xor_strict_ok [simp]: "length a = length b \<Longrightarrow> xor_strict a b = Inr (xor_bytes a b)"
  by (simp add: xor_strict_def)

lemma xor_strict_eq_Inr [res_simps]:
  "xor_strict a b = Inr c \<longleftrightarrow> length a = length b \<and> c = xor_bytes a b"
  by (auto simp: xor_strict_def)

subsection \<open>Integers as bytes\<close>

text \<open>\<open>le_int\<close>/\<open>be_int\<close> are \<^verbatim>\<open>int.from_bytes\<close>; \<open>le_bytes\<close>/\<open>be_bytes\<close> produce
  the low \<open>n\<close> bytes; \<open>to_bytes_*\<close> and \<open>pack_*\<close> add the range check of
  \<^verbatim>\<open>int.to_bytes\<close> (OverflowError) and \<^verbatim>\<open>struct.pack\<close> (struct.error).\<close>

fun le_int :: "bytes \<Rightarrow> int" where
  "le_int [] = 0"
| "le_int (b # bs) = uint b + 256 * le_int bs"

definition be_int :: "bytes \<Rightarrow> int" where
  "be_int bs = le_int (rev bs)"

fun le_bytes :: "nat \<Rightarrow> int \<Rightarrow> bytes" where
  "le_bytes 0 x = []"
| "le_bytes (Suc n) x = word_of_int x # le_bytes n (x div 256)"

definition be_bytes :: "nat \<Rightarrow> int \<Rightarrow> bytes" where
  "be_bytes n x = rev (le_bytes n x)"

definition fits_unsigned :: "nat \<Rightarrow> int \<Rightarrow> bool" where
  "fits_unsigned n x \<longleftrightarrow> 0 \<le> x \<and> x < 256 ^ n"

definition to_bytes_le :: "int \<Rightarrow> nat \<Rightarrow> bytes res" where
  "to_bytes_le x n = (if fits_unsigned n x then Inr (le_bytes n x) else Inl OverflowError)"

definition to_bytes_be :: "int \<Rightarrow> nat \<Rightarrow> bytes res" where
  "to_bytes_be x n = (if fits_unsigned n x then Inr (be_bytes n x) else Inl OverflowError)"

definition pack_le :: "nat \<Rightarrow> int \<Rightarrow> bytes res" where
  "pack_le n x = (if fits_unsigned n x then Inr (le_bytes n x) else Inl StructError)"

definition pack_be :: "nat \<Rightarrow> int \<Rightarrow> bytes res" where
  "pack_be n x = (if fits_unsigned n x then Inr (be_bytes n x) else Inl StructError)"

text \<open>Two's complement: the \<^verbatim>\<open>h\<close> and \<^verbatim>\<open>i\<close> formats of \<^verbatim>\<open>struct\<close>.\<close>

definition fits_signed :: "nat \<Rightarrow> int \<Rightarrow> bool" where
  "fits_signed n x \<longleftrightarrow> - (256 ^ n) \<le> 2 * x \<and> 2 * x < 256 ^ n"

definition to_signed :: "nat \<Rightarrow> int \<Rightarrow> int" where
  "to_signed n x = (if 2 * x < 256 ^ n then x else x - 256 ^ n)"

lemma length_le_bytes [simp]: "length (le_bytes n x) = n"
  by (induction n arbitrary: x) auto

lemma length_be_bytes [simp]: "length (be_bytes n x) = n"
  by (simp add: be_bytes_def)

lemma uint_byte_of_int: "uint (word_of_int x :: byte) = x mod 256"
  by (simp add: uint_word_of_int)

lemma uint_byte_bounds: "0 \<le> uint (b :: byte)" "uint (b :: byte) < 256"
  using uint_lt2p [of b] by simp_all

lemma unat_byte_less: "unat (b :: byte) < 256"
  unfolding unat_eq_nat_uint using uint_byte_bounds [of b] by linarith

lemma unat_byte_of_nat: "n < 256 \<Longrightarrow> unat (word_of_int (int n) :: byte) = n"
  unfolding unat_eq_nat_uint uint_byte_of_int by simp

lemma le_int_le_bytes [byte_simps]: "le_int (le_bytes n x) = x mod 256 ^ n"
proof (induction n arbitrary: x)
  case (Suc n)
  have "x mod 256 ^ Suc n = x mod 256 + 256 * (x div 256 mod 256 ^ n)"
    by (simp add: zmod_zmult2_eq)
  with Suc show ?case by (simp add: uint_byte_of_int)
qed simp

lemma be_int_be_bytes [byte_simps]: "be_int (be_bytes n x) = x mod 256 ^ n"
  by (simp add: be_int_def be_bytes_def le_int_le_bytes)

lemma le_int_bounds: "0 \<le> le_int bs \<and> le_int bs < 256 ^ length bs"
proof (induction bs)
  case (Cons b bs)
  then show ?case using uint_byte_bounds [of b] by auto
qed simp

lemma be_int_bounds: "0 \<le> be_int bs" "be_int bs < 256 ^ length bs"
  using le_int_bounds [of "rev bs"] by (simp_all add: be_int_def)

lemma le_bytes_le_int [byte_simps]: "le_bytes (length bs) (le_int bs) = bs"
proof (induction bs)
  case (Cons b bs)
  have "(uint b + 256 * le_int bs) div 256 = le_int bs"
    using uint_byte_bounds [of b] by simp
  moreover have "(word_of_int (uint b + 256 * le_int bs) :: byte) = b"
  proof (rule word_uint_eqI)
    show "uint (word_of_int (uint b + 256 * le_int bs) :: byte) = uint b"
      unfolding uint_byte_of_int using uint_byte_bounds [of b] by simp
  qed
  ultimately show ?case using Cons by simp
qed simp

lemma be_bytes_be_int: "length bs = n \<Longrightarrow> be_bytes n (be_int bs) = bs"
  using le_bytes_le_int [of "rev bs"] by (simp add: be_bytes_def be_int_def)

lemma fits_unsigned_mod [simp]: "fits_unsigned n x \<Longrightarrow> x mod 256 ^ n = x"
  by (simp add: fits_unsigned_def)

lemma bytes_2:
  "le_bytes 2 x = [word_of_int x, word_of_int (x div 256)]"
  "be_bytes 2 x = [word_of_int (x div 256), word_of_int x]"
  by (simp_all add: be_bytes_def eval_nat_numeral)

lemma be_int_append:
  "be_int (a @ b) = be_int a * 256 ^ length b + be_int b"
proof (induction b rule: rev_induct)
  case (snoc x xs)
  then show ?case by (simp add: be_int_def algebra_simps)
qed (simp add: be_int_def)

lemma be_int_Nil [simp]: "be_int [] = 0"
  by (simp add: be_int_def)

lemma be_int_single [simp]: "be_int [b] = uint b"
  by (simp add: be_int_def)

lemma be_bytes_inj:
  "be_bytes n x = be_bytes n y \<Longrightarrow> fits_unsigned n x \<Longrightarrow> fits_unsigned n y \<Longrightarrow> x = y"
  by (metis be_int_be_bytes fits_unsigned_mod)

lemma le_bytes_inj:
  "le_bytes n x = le_bytes n y \<Longrightarrow> fits_unsigned n x \<Longrightarrow> fits_unsigned n y \<Longrightarrow> x = y"
  by (metis le_int_le_bytes fits_unsigned_mod)

lemma to_signed_mod: "0 < n \<Longrightarrow> fits_signed n x \<Longrightarrow> to_signed n (x mod 256 ^ n) = x"
proof -
  assume n: "0 < n" and fit: "fits_signed n x"
  have pos: "(0 :: int) < 256 ^ n" by simp
  show ?thesis
  proof (cases "0 \<le> x")
    case True
    with fit pos have "x mod 256 ^ n = x" by (simp add: fits_signed_def)
    with True fit show ?thesis by (simp add: to_signed_def fits_signed_def)
  next
    case False
    with fit pos have "(x + 256 ^ n) mod 256 ^ n = x + 256 ^ n"
      by (intro mod_pos_pos_trivial) (auto simp: fits_signed_def)
    then have "x mod 256 ^ n = x + 256 ^ n" by simp
    with False fit show ?thesis by (simp add: to_signed_def fits_signed_def)
  qed
qed

subsection \<open>Bit fields of integers\<close>

text \<open>A field below bit \<open>n\<close> and a multiple of \<open>2 ^ n\<close> do not overlap: OR is addition.\<close>

lemma or_disjoint:
  fixes a b :: int
  assumes "0 \<le> b" "b < 2 ^ n"
  shows "push_bit n a OR b = a * 2 ^ n + b"
proof -
  have b: "take_bit n b = b" using assms by (simp add: take_bit_int_eq_self_iff)
  have "push_bit n a AND take_bit n b = 0"
    by (rule bit_eqI) (auto simp: bit_simps)
  then have "push_bit n a AND b = 0" by (simp add: b)
  then have "push_bit n a OR b = push_bit n a + b" by (simp add: disjunctive_add_eq_or)
  then show ?thesis by (simp add: push_bit_eq_mult)
qed

lemma and_exp_minus_1: "x AND (2 ^ n - 1) = x mod 2 ^ n" for x :: int
  by (simp flip: take_bit_eq_mod add: take_bit_eq_mask mask_eq_exp_minus_1)

lemma and_mask_mod:
  fixes x :: int
  shows "x AND 0xFF = x mod 256"
    and "x AND 0x7F = x mod 128"
    and "x AND 0x3F = x mod 64"
    and "x AND 0x1F = x mod 32"
    and "x AND 0x1FFF = x mod 8192"
    and "x AND 0xFFF = x mod 4096"
    and "x AND 0x03 = x mod 4"
    and "x AND 1 = x mod 2"
proof -
  show "x AND 0xFF = x mod 256" using and_exp_minus_1 [of x 8] by simp
  show "x AND 0x7F = x mod 128" using and_exp_minus_1 [of x 7] by simp
  show "x AND 0x3F = x mod 64" using and_exp_minus_1 [of x 6] by simp
  show "x AND 0x1F = x mod 32" using and_exp_minus_1 [of x 5] by simp
  show "x AND 0x1FFF = x mod 8192" using and_exp_minus_1 [of x 13] by simp
  show "x AND 0xFFF = x mod 4096" using and_exp_minus_1 [of x 12] by simp
  show "x AND 0x03 = x mod 4" using and_exp_minus_1 [of x 2] by simp
  show "x AND 1 = x mod 2" by (rule and_one_eq)
qed

lemma or_be16:
  "push_bit 8 (uint (a :: byte)) OR uint (b :: byte) = be_int [a, b]"
  using or_disjoint [of "uint b" 8 "uint a"] uint_byte_bounds [of b]
  by (simp add: be_int_def)

lemma or_be24:
  "push_bit 16 (uint (a :: byte)) OR push_bit 8 (uint (b :: byte)) OR uint (c :: byte)
     = be_int [a, b, c]"
proof -
  have "push_bit 16 (uint a) OR be_int [b, c] = uint a * 2 ^ 16 + be_int [b, c]"
    by (rule or_disjoint) (use be_int_bounds [of "[b, c]"] in simp_all)
  then show ?thesis by (simp add: or_be16 or.assoc) (simp add: be_int_def)
qed

lemma and_bit_byte:
  "uint (b :: byte) AND 0x80 = 0 \<longleftrightarrow> uint b < 128"
  "uint (b :: byte) AND 0xC0 = 0x80 \<longleftrightarrow> 128 \<le> uint b \<and> uint b < 192"
proof -
  have all: "\<forall>x \<in> set [0..255]. (x AND 0x80 = 0 \<longleftrightarrow> x < 128)
      \<and> (x AND 0xC0 = 0x80 \<longleftrightarrow> 128 \<le> x \<and> x < (192 :: int))"
    by code_simp
  have "uint b \<in> set [0..255]" using uint_byte_bounds [of b] by simp
  with all show "uint b AND 0x80 = 0 \<longleftrightarrow> uint b < 128"
    "uint b AND 0xC0 = 0x80 \<longleftrightarrow> 128 \<le> uint b \<and> uint b < 192" by blast+
qed

subsection \<open>Dictionaries\<close>

text \<open>
  A Python dictionary keeps insertion order, and storing under a present key keeps its
  place: an association list with distinct keys, updated by \<open>AList.update\<close>.
\<close>

type_synonym ('k, 'v) dict = "('k \<times> 'v) list"

abbreviation dict_get :: "('k, 'v) dict \<Rightarrow> 'k \<Rightarrow> 'v option" where
  "dict_get d k \<equiv> map_of d k"

abbreviation dict_set :: "'k \<Rightarrow> 'v \<Rightarrow> ('k, 'v) dict \<Rightarrow> ('k, 'v) dict" where
  "dict_set k v d \<equiv> AList.update k v d"

abbreviation dict_pop :: "'k \<Rightarrow> ('k, 'v) dict \<Rightarrow> ('k, 'v) dict" where
  "dict_pop k d \<equiv> AList.delete k d"

abbreviation dict_ok :: "('k, 'v) dict \<Rightarrow> bool" where
  "dict_ok d \<equiv> distinct (map fst d)"

lemma dict_pop_filter: "dict_pop k d = filter (\<lambda>p. fst p \<noteq> k) d"
  by (induction d) auto

lemma length_dict_pop: "dict_ok d \<Longrightarrow>
  length (dict_pop k d) = (if k \<in> fst ` set d then length d - 1 else length d)"
proof (induction d)
  case (Cons p d)
  then show ?case
    by (cases "fst p = k")
       (auto simp: dict_pop_filter image_iff intro!: arg_cong [where f = length]
             intro: filter_True Suc_pred length_pos_if_in_set)
qed simp

lemma length_dict_set:
  "length (dict_set k v d) = (if k \<in> fst ` set d then length d else Suc (length d))"
  by (induction d) auto

lemma dict_get_set: "dict_get (dict_set k v d) j = (if j = k then Some v else dict_get d j)"
  by (simp add: update_conv')

lemma dict_get_pop: "dict_get (dict_pop k d) j = (if j = k then None else dict_get d j)"
  by (simp add: delete_conv')

lemma dict_get_filter:
  "dict_ok d \<Longrightarrow> dict_get (filter P d) k = Some v \<longleftrightarrow> dict_get d k = Some v \<and> P (k, v)"
  by (auto simp: map_of_eq_Some_iff distinct_map_filter)

lemma dict_ok_filter: "dict_ok d \<Longrightarrow> dict_ok (filter P d)"
  by (rule distinct_map_filter)

lemma dict_ok_set: "dict_ok d \<Longrightarrow> dict_ok (dict_set k v d)"
  by (rule distinct_update)

lemma dict_ok_pop: "dict_ok d \<Longrightarrow> dict_ok (dict_pop k d)"
  by (simp add: distinct_delete)

subsection \<open>Actions\<close>

text \<open>An operation on a state that can raise: a sequence of them stops at the first exception.\<close>

type_synonym ('s, 'a) action = "'s \<Rightarrow> 'a res \<times> 's"

definition bindS :: "('s, 'a) action \<Rightarrow> ('a \<Rightarrow> ('s, 'b) action) \<Rightarrow> ('s, 'b) action" where
  "bindS m f s = (case m s of (Inl e, st) \<Rightarrow> (Inl e, st) | (Inr x, st) \<Rightarrow> f x st)"

definition liftS :: "'a res \<Rightarrow> ('s, 'a) action" where
  "liftS r s = (r, s)"

lemma bindS_Inr [simp]: "m s = (Inr x, t) \<Longrightarrow> bindS m f s = f x t"
  by (simp add: bindS_def)

lemma bindS_Inl [simp]: "m s = (Inl e, t) \<Longrightarrow> bindS m f s = (Inl e, t)"
  by (simp add: bindS_def)

lemma liftS_apply [simp]: "bindS (liftS (Inr x)) f s = f x s" "bindS (liftS (Inl e)) f s = (Inl e, s)"
  by (simp_all add: bindS_def liftS_def)

lemma bindS_eq_Inr: "bindS m f s = (Inr y, t) \<longleftrightarrow> (\<exists>x u. m s = (Inr x, u) \<and> f x u = (Inr y, t))"
  by (auto simp: bindS_def split: prod.splits sum.splits)

subsection \<open>Time\<close>

text \<open>Readings of the monotonic clock, timeouts and delays are rational seconds.\<close>

type_synonym seconds = rat

subsection \<open>Rounding\<close>

text \<open>Python's \<^verbatim>\<open>round\<close>: to the nearest integer, and halves to the even one.\<close>

definition py_round :: "rat \<Rightarrow> int" where
  "py_round x =
     (let f = \<lfloor>x\<rfloor>; d = x - of_int f
      in if d < 1 / 2 then f else if d > 1 / 2 then f + 1 else if even f then f else f + 1)"

lemma py_round_near: "\<bar>of_int (py_round x) - x\<bar> \<le> 1 / 2"
proof -
  have "of_int \<lfloor>x\<rfloor> \<le> x" "x < of_int \<lfloor>x\<rfloor> + 1" by linarith+
  then show ?thesis by (simp add: py_round_def Let_def abs_le_iff)
qed

lemma py_round_of_int [simp]: "py_round (of_int n) = n"
  by (simp add: py_round_def)

lemma py_round_int_between:
  assumes "of_int a \<le> x" "x \<le> of_int b" shows "a \<le> py_round x \<and> py_round x \<le> b"
proof -
  have near: "of_int (py_round x) - x \<le> 1 / 2" "x - of_int (py_round x) \<le> 1 / 2"
    using py_round_near [of x] by linarith+
  have "(of_int (py_round x) :: rat) < of_int (b + 1)" "(of_int (a - 1) :: rat) < of_int (py_round x)"
    using assms near by (simp_all add: of_int_add of_int_diff)
  then show ?thesis by (simp only: of_int_less_iff) linarith
qed

text \<open>\<^verbatim>\<open>list.remove\<close>, for the operations that remove a callback.\<close>

definition list_remove :: "nat \<Rightarrow> nat list \<Rightarrow> nat list res" where
  "list_remove cb cbs = (if cb \<in> set cbs then Inr (remove1 cb cbs) else Inl ValueError)"

end
