(* ===== verification/Sequence.thy ===== *)
theory Sequence
  imports Prelude
begin

text \<open>
  Sequence numbers: \<^verbatim>\<open>SeqStore\<close>, \<^verbatim>\<open>InMemorySeqStore\<close>, \<^verbatim>\<open>SIGMeshDevice._next_seq\<close> and
  \<^verbatim>\<open>_next_seqs\<close> (\<^verbatim>\<open>lib/tuya_ble_mesh/sig_mesh_device.py\<close>), the Home Assistant store
  (\<^verbatim>\<open>ha_sequence.py\<close>) with the persistence of \<^verbatim>\<open>coordinator.py\<close>, and the Telink counter
  (\<^verbatim>\<open>lib/tuya_ble_mesh/connection.py\<close>).  The protocol class \<^verbatim>\<open>SeqStore\<close> is the locale
  \<open>seq_store\<close>; the operations of the device take the two methods of the store as arguments.
  The asyncio locks make every allocation one step.
\<close>

subsection \<open>Allocation\<close>

definition next_seq :: "('s \<Rightarrow> int) \<Rightarrow> (int \<Rightarrow> 's \<Rightarrow> 's) \<Rightarrow> 's \<Rightarrow> int res \<times> 's" where
  "next_seq get_seq set_seq s =
     (let seq = get_seq s in
      if seq > 0xFFFFFF then (Inl SIGMeshError, s)
      else (Inr seq, set_seq (seq + 1) s))"

definition next_seqs :: "('s \<Rightarrow> int) \<Rightarrow> (int \<Rightarrow> 's \<Rightarrow> 's) \<Rightarrow> int \<Rightarrow> 's \<Rightarrow> int res \<times> 's" where
  "next_seqs get_seq set_seq n s =
     (let seq = get_seq s in
      if seq > 0xFFFFFF \<or> seq + n > 0xFFFFFF then (Inl SIGMeshError, s)
      else (Inr seq, set_seq (seq + n) s))"

text \<open>What a device asks for over time: one number, a block of numbers for the segments of a
  message, or the restoring of a counter.\<close>

datatype seq_op = Take | TakeBlock nat | Restore int

fun seq_step :: "('s \<Rightarrow> int) \<Rightarrow> (int \<Rightarrow> 's \<Rightarrow> 's) \<Rightarrow> seq_op \<Rightarrow> 's \<Rightarrow> int list \<times> 's" where
  "seq_step get_seq set_seq Take s =
     (case next_seq get_seq set_seq s of
        (Inl e, s') \<Rightarrow> ([], s') | (Inr q, s') \<Rightarrow> ([q], s'))"
| "seq_step get_seq set_seq (TakeBlock n) s =
     (case next_seqs get_seq set_seq (int n) s of
        (Inl e, s') \<Rightarrow> ([], s') | (Inr q, s') \<Rightarrow> (map (\<lambda>i. q + int i) [0..<n], s'))"
| "seq_step get_seq set_seq (Restore n) s = ([], set_seq n s)"

fun seq_run :: "('s \<Rightarrow> int) \<Rightarrow> (int \<Rightarrow> 's \<Rightarrow> 's) \<Rightarrow> seq_op list \<Rightarrow> 's \<Rightarrow> int list \<times> 's" where
  "seq_run get_seq set_seq [] s = ([], s)"
| "seq_run get_seq set_seq (op # ops) s =
     (let (out, s1) = seq_step get_seq set_seq op s;
          (outs, s2) = seq_run get_seq set_seq ops s1 in (out @ outs, s2))"

definition is_restore :: "seq_op \<Rightarrow> bool" where
  "is_restore op = (case op of Restore n \<Rightarrow> True | _ \<Rightarrow> False)"

subsection \<open>The stores\<close>

record in_memory_seq_store =
  ims_seq :: int

definition ims_get_seq :: "in_memory_seq_store \<Rightarrow> int" where
  "ims_get_seq s = ims_seq s"

definition ims_set_seq :: "int \<Rightarrow> in_memory_seq_store \<Rightarrow> in_memory_seq_store" where
  "ims_set_seq seq s = s\<lparr>ims_seq := seq\<rparr>"

definition SEQ_SAFETY_MARGIN :: int where "SEQ_SAFETY_MARGIN = 100"

text \<open>\<^verbatim>\<open>HASequenceStore\<close>; entry identifiers are numbers.\<close>

record ha_sequence_store =
  hs_seq :: int
  hs_network_loaded :: bool
  hs_loaded_legacy_entries :: "nat list"

definition make_ha_sequence_store :: "int \<Rightarrow> ha_sequence_store" where
  "make_ha_sequence_store initial_sequence =
     \<lparr>hs_seq = initial_sequence, hs_network_loaded = False, hs_loaded_legacy_entries = []\<rparr>"

definition hs_get_seq :: "ha_sequence_store \<Rightarrow> int" where
  "hs_get_seq s = hs_seq s"

definition hs_set_seq :: "int \<Rightarrow> ha_sequence_store \<Rightarrow> ha_sequence_store" where
  "hs_set_seq seq s = s\<lparr>hs_seq := max (hs_seq s) seq\<rparr>"

text \<open>
  \<^verbatim>\<open>async_load\<close>: \<open>data\<close> is the number in the network's storage file, when there is one with
  the key \<^verbatim>\<open>seq\<close>, and \<open>legacy_data\<close> the same for the file of the entry.
\<close>

definition hs_async_load ::
  "int option \<Rightarrow> int option \<Rightarrow> nat option \<Rightarrow> ha_sequence_store \<Rightarrow> int \<times> ha_sequence_store" where
  "hs_async_load data legacy_data legacy_entry_id s =
     (let s1 = (if \<not> hs_network_loaded s then
            (case data of None \<Rightarrow> s | Some q \<Rightarrow> hs_set_seq (q + SEQ_SAFETY_MARGIN) s)
              \<lparr>hs_network_loaded := True\<rparr> else s);
          s2 = (case legacy_entry_id of None \<Rightarrow> s1
            | Some e \<Rightarrow> if e \<in> set (hs_loaded_legacy_entries s1) then s1
                else (case legacy_data of None \<Rightarrow> s1 | Some q \<Rightarrow> hs_set_seq (q + SEQ_SAFETY_MARGIN) s1)
                  \<lparr>hs_loaded_legacy_entries := e # hs_loaded_legacy_entries s1\<rparr>)
      in (hs_seq s2, s2))"

text \<open>The number that \<^verbatim>\<open>async_save\<close> writes.\<close>

definition hs_async_save :: "ha_sequence_store \<Rightarrow> int" where
  "hs_async_save s = hs_seq s"

subsection \<open>Telink\<close>

definition MAX_SEQUENCE :: int where "MAX_SEQUENCE = 0xFFFFFF"

text \<open>\<^verbatim>\<open>BLEConnection.next_sequence\<close>: the counter wraps at 24 bits.\<close>

definition next_sequence :: "int \<Rightarrow> int \<times> int" where
  "next_sequence sequence = (sequence, (sequence + 1) AND MAX_SEQUENCE)"

fun next_sequences :: "nat \<Rightarrow> int \<Rightarrow> int list \<times> int" where
  "next_sequences 0 s = ([], s)"
| "next_sequences (Suc n) s =
     (let (q, s1) = next_sequence s; (qs, s2) = next_sequences n s1 in (q # qs, s2))"

subsection \<open>The interface of a store\<close>

text \<open>A number set ahead of the counter is the next one read.\<close>

locale seq_store =
  fixes get_seq :: "'s \<Rightarrow> int"
    and set_seq :: "int \<Rightarrow> 's \<Rightarrow> 's"
  assumes get_set: "get_seq s \<le> n \<Longrightarrow> get_seq (set_seq n s) = n"
begin

lemma take_step:
  assumes "\<not> is_restore op" "seq_step get_seq set_seq op s = (out, s')"
  shows "\<exists>k. out = map (\<lambda>i. get_seq s + int i) [0..<k] \<and> get_seq s' = get_seq s + int k
    \<and> (0 < k \<longrightarrow> get_seq s + int k \<le> 0x1000000)"
proof (cases op)
  case Take
  with assms(2) show ?thesis
    by (cases "get_seq s > 0xFFFFFF")
       (auto simp: next_seq_def Let_def get_set intro!: exI [of _ 0] exI [of _ "Suc 0"])
next
  case (TakeBlock n)
  with assms(2) show ?thesis
    by (cases "get_seq s > 0xFFFFFF \<or> get_seq s + int n > 0xFFFFFF")
       (auto simp: next_seqs_def Let_def get_set intro!: exI [of _ 0] exI [of _ n])
qed (use assms in \<open>simp add: is_restore_def\<close>)

lemma take_run:
  "list_all (\<lambda>op. \<not> is_restore op) ops \<Longrightarrow> seq_run get_seq set_seq ops s = (out, s') \<Longrightarrow>
   \<exists>k. out = map (\<lambda>i. get_seq s + int i) [0..<k] \<and> get_seq s' = get_seq s + int k
    \<and> (0 < k \<longrightarrow> get_seq s + int k \<le> 0x1000000)"
proof (induction ops arbitrary: s out)
  case (Cons op ops)
  obtain o1 s1 where o1: "seq_step get_seq set_seq op s = (o1, s1)" by fastforce
  obtain o2 where o2: "seq_run get_seq set_seq ops s1 = (o2, s')" "out = o1 @ o2"
    using Cons.prems(2) o1 by (auto simp: Let_def split: prod.splits)
  obtain k where k: "o1 = map (\<lambda>i. get_seq s + int i) [0..<k]" "get_seq s1 = get_seq s + int k"
    "0 < k \<longrightarrow> get_seq s + int k \<le> 0x1000000"
    using take_step [OF _ o1] Cons.prems(1) by auto
  obtain j where j: "o2 = map (\<lambda>i. get_seq s1 + int i) [0..<j]" "get_seq s' = get_seq s1 + int j"
    "0 < j \<longrightarrow> get_seq s1 + int j \<le> 0x1000000"
    using Cons.IH [OF _ o2(1)] Cons.prems(1) by auto
  have "map (\<lambda>i. get_seq s + int i) [0..<k + j] = o1 @ o2"
    unfolding k(1) j(1) k(2) by (rule nth_equalityI) (auto simp: nth_append)
  then show ?case using o2(2) k j by (intro exI [of _ "k + j"]) auto
qed simp

end

text \<open>A store that never goes back.\<close>

locale monotone_store =
  fixes get_seq :: "'s \<Rightarrow> int"
    and set_seq :: "int \<Rightarrow> 's \<Rightarrow> 's"
  assumes get_set_max: "get_seq (set_seq n s) = max (get_seq s) n"

sublocale monotone_store \<subseteq> seq_store
  by unfold_locales (simp add: get_set_max)

context monotone_store
begin

lemma any_step:
  assumes "seq_step get_seq set_seq op s = (out, s')"
  shows "sorted_wrt (<) out \<and> (\<forall>q\<in>set out. get_seq s \<le> q \<and> q < get_seq s') \<and> get_seq s \<le> get_seq s'"
proof (cases "is_restore op")
  case True
  with assms show ?thesis by (cases op) (auto simp: is_restore_def get_set_max)
next
  case False
  from take_step [OF this assms] show ?thesis by (auto simp: sorted_wrt_iff_nth_less)
qed

lemma any_run:
  "seq_run get_seq set_seq ops s = (out, s') \<Longrightarrow>
   sorted_wrt (<) out \<and> (\<forall>q\<in>set out. get_seq s \<le> q \<and> q < get_seq s') \<and> get_seq s \<le> get_seq s'"
proof (induction ops arbitrary: s out)
  case (Cons op ops)
  obtain o1 s1 where o1: "seq_step get_seq set_seq op s = (o1, s1)" by fastforce
  obtain o2 where o2: "seq_run get_seq set_seq ops s1 = (o2, s')" "out = o1 @ o2"
    using Cons.prems o1 by (auto simp: Let_def split: prod.splits)
  show ?case
    using any_step [OF o1] Cons.IH [OF o2(1)] unfolding o2(2) sorted_wrt_append by fastforce
qed simp

end

interpretation ims: seq_store ims_get_seq ims_set_seq
  by unfold_locales (simp add: ims_get_seq_def ims_set_seq_def)

interpretation hs: monotone_store hs_get_seq hs_set_seq
  by unfold_locales (simp add: hs_get_seq_def hs_set_seq_def)

subsection \<open>Persistence across restarts\<close>

text \<open>
  The entry of one mesh network in Home Assistant: the shared store, what its storage file
  holds, and the counter of \<^verbatim>\<open>_maybe_persist_seq\<close>, which a received On/Off or Level status
  advances; every tenth one saves, and so does a clean stop.  A restart builds the store from
  the configured number and loads the file.
\<close>

definition SEQ_PERSIST_INTERVAL :: nat where "SEQ_PERSIST_INTERVAL = 10"

record seq_system =
  sy_store :: ha_sequence_store
  sy_disk :: "int option"
  sy_command_count :: nat

definition save_seq :: "seq_system \<Rightarrow> seq_system" where
  "save_seq s = s\<lparr>sy_disk := Some (hs_async_save (sy_store s))\<rparr>"

definition maybe_persist_seq :: "seq_system \<Rightarrow> seq_system" where
  "maybe_persist_seq s =
     (let s1 = s\<lparr>sy_command_count := sy_command_count s + 1\<rparr> in
      if sy_command_count s1 \<ge> SEQ_PERSIST_INTERVAL
      then save_seq (s1\<lparr>sy_command_count := 0\<rparr>) else s1)"

definition load_seq :: "nat \<Rightarrow> int option \<Rightarrow> seq_system \<Rightarrow> seq_system" where
  "load_seq entry legacy s =
     (let (restored, st) = hs_async_load (sy_disk s) legacy (Some entry) (sy_store s)
      in s\<lparr>sy_store := hs_set_seq restored st\<rparr>)"

datatype seq_event = Allocate seq_op | StatusReceived | CleanStop | Restart int

fun system_step :: "seq_event \<Rightarrow> seq_system \<Rightarrow> int list \<times> seq_system" where
  "system_step (Allocate op) s =
     (let (out, st) = seq_step hs_get_seq hs_set_seq op (sy_store s) in (out, s\<lparr>sy_store := st\<rparr>))"
| "system_step StatusReceived s = ([], maybe_persist_seq s)"
| "system_step CleanStop s = ([], save_seq s)"
| "system_step (Restart initial) s =
     ([], load_seq 0 None \<lparr>sy_store = make_ha_sequence_store initial, sy_disk = sy_disk s,
                           sy_command_count = 0\<rparr>)"

fun system_run :: "seq_event list \<Rightarrow> seq_system \<Rightarrow> int list \<times> seq_system" where
  "system_run [] s = ([], s)"
| "system_run (e # es) s =
     (let (out, s1) = system_step e s; (outs, s2) = system_run es s1 in (out @ outs, s2))"

text \<open>The file covers the store: a restart now would continue at or above its counter.\<close>

definition disk_covers :: "seq_system \<Rightarrow> bool" where
  "disk_covers s \<longleftrightarrow> (case sy_disk s of None \<Rightarrow> False
     | Some q \<Rightarrow> hs_seq (sy_store s) \<le> q + SEQ_SAFETY_MARGIN)"

fun restarts_covered :: "seq_event list \<Rightarrow> seq_system \<Rightarrow> bool" where
  "restarts_covered [] s \<longleftrightarrow> True"
| "restarts_covered (e # es) s \<longleftrightarrow>
     (case e of Restart i \<Rightarrow> disk_covers s | _ \<Rightarrow> True) \<and> restarts_covered es (snd (system_step e s))"

lemma restart_seq:
  "hs_seq (sy_store (snd (system_step (Restart i) s)))
    = (case sy_disk s of None \<Rightarrow> i | Some q \<Rightarrow> max i (q + SEQ_SAFETY_MARGIN))"
  by (simp add: load_seq_def hs_async_load_def make_ha_sequence_store_def hs_set_seq_def Let_def
      split: option.split)

lemma system_step_numbers:
  assumes "system_step e s = (out, s')" "case e of Restart i \<Rightarrow> disk_covers s | _ \<Rightarrow> True"
  shows "sorted_wrt (<) out \<and> (\<forall>q\<in>set out. hs_seq (sy_store s) \<le> q \<and> q < hs_seq (sy_store s'))
    \<and> hs_seq (sy_store s) \<le> hs_seq (sy_store s')"
proof (cases e)
  case (Allocate op)
  obtain o1 st where st: "seq_step hs_get_seq hs_set_seq op (sy_store s) = (o1, st)" by fastforce
  with hs.any_step [OF st] assms Allocate show ?thesis by (auto simp: hs_get_seq_def)
next
  case (Restart i)
  with assms restart_seq [of i s] show ?thesis
    by (auto simp: disk_covers_def split: option.splits)
qed (use assms in \<open>auto simp: maybe_persist_seq_def save_seq_def Let_def split: if_splits\<close>)

lemma system_run_numbers:
  "system_run es s = (out, s') \<Longrightarrow> restarts_covered es s \<Longrightarrow>
   sorted_wrt (<) out \<and> (\<forall>q\<in>set out. hs_seq (sy_store s) \<le> q \<and> q < hs_seq (sy_store s'))
    \<and> hs_seq (sy_store s) \<le> hs_seq (sy_store s')"
proof (induction es arbitrary: s out)
  case (Cons e es)
  obtain o1 s1 where o1: "system_step e s = (o1, s1)" by fastforce
  obtain o2 where o2: "system_run es s1 = (o2, s')" "out = o1 @ o2"
    using Cons.prems(1) o1 by (auto simp: Let_def split: prod.splits)
  show ?case
    using system_step_numbers [OF o1] Cons.IH [OF o2(1)] Cons.prems(2) o1
    unfolding o2(2) sorted_wrt_append by fastforce
qed simp

subsection \<open>Properties\<close>

text \<open>With the in-memory store, whatever mix of single numbers and blocks a device asks for,
  \<^verbatim>\<open>_next_seq\<close> and \<^verbatim>\<open>_next_seqs\<close> hand out consecutive numbers from the counter on, each one
  once and none above 24 bits.\<close>

theorem device_sequence_consecutive:
  assumes "list_all (\<lambda>op. \<not> is_restore op) ops"
    and "seq_run ims_get_seq ims_set_seq ops s = (out, s')"
  shows "\<exists>k. out = map (\<lambda>i. ims_seq s + int i) [0..<k] \<and> ims_seq s' = ims_seq s + int k
    \<and> distinct out \<and> (\<forall>q\<in>set out. q \<le> 0xFFFFFF)"
proof -
  obtain k where "out = map (\<lambda>i. ims_seq s + int i) [0..<k]" "ims_seq s' = ims_seq s + int k"
    "0 < k \<longrightarrow> ims_seq s + int k \<le> 0x1000000"
    using ims.take_run [OF assms] unfolding ims_get_seq_def by blast
  then show ?thesis by (intro exI [of _ k]) (auto simp: distinct_map inj_on_def)
qed

theorem device_sequence_consecutive_witness:
  "\<exists>k. [5, 6, 7, 8] = map (\<lambda>i. 5 + int i) [0..<k]"
proof -
  have "seq_run ims_get_seq ims_set_seq [Take, TakeBlock 2, TakeBlock 0xFFFFFF, Take] \<lparr>ims_seq = 5\<rparr>
    = ([5, 6, 7, 8], \<lparr>ims_seq = 9\<rparr>)"
    by (simp add: next_seq_def next_seqs_def ims_get_seq_def ims_set_seq_def Let_def upt_rec)
  from device_sequence_consecutive [OF _ this] show ?thesis by (auto simp: is_restore_def)
qed

text \<open>C12: as long as every restart finds a file that is at most the safety margin behind, all the
  numbers the shared Home Assistant store hands out, to any number of devices, with any
  counters restored in between and across all restarts, are strictly increasing: no sequence
  number is used twice.\<close>

theorem ha_sequence_never_reused:
  assumes "system_run es s = (out, s')" and "restarts_covered es s"
  shows "sorted_wrt (<) out \<and> distinct out \<and> (\<forall>q\<in>set out. hs_seq (sy_store s) \<le> q)"
  using system_run_numbers [OF assms] by (auto simp: strict_sorted_iff)

theorem ha_sequence_never_reused_witness:
  "sorted_wrt (<) [0, 1, 2, 103, 104 :: int]"
proof -
  let ?s = "\<lparr>sy_store = make_ha_sequence_store 0, sy_disk = None, sy_command_count = 0\<rparr>"
  let ?es = "[Allocate (TakeBlock 3), CleanStop, Restart 0, Allocate (Restore 50), Allocate Take,
    Allocate Take]"
  have "system_run ?es ?s = ([0, 1, 2, 103, 104], \<lparr>sy_store = \<lparr>hs_seq = 105, hs_network_loaded = True,
    hs_loaded_legacy_entries = [0]\<rparr>, sy_disk = Some 3, sy_command_count = 0\<rparr>)" by code_simp
  moreover have "restarts_covered ?es ?s" by code_simp
  ultimately show ?thesis using ha_sequence_never_reused by blast
qed

text \<open>the margin covers one restart only.  \<^verbatim>\<open>async_load\<close> does not write the advanced number
  back, so two restarts without ten status notifications or a clean stop in between hand out the
  same number twice.\<close>

theorem ha_sequence_reused_after_two_restarts:
  "\<exists>s'. system_run [Restart 0, Allocate Take, Restart 0, Allocate Take]
      \<lparr>sy_store = make_ha_sequence_store 0, sy_disk = Some q, sy_command_count = 0\<rparr>
    = (let n = max 0 (q + SEQ_SAFETY_MARGIN) in if n \<le> 0xFFFFFF then [n, n] else [], s')"
  by (auto simp: load_seq_def hs_async_load_def make_ha_sequence_store_def hs_set_seq_def Let_def
      next_seq_def hs_get_seq_def)

lemma next_sequences_mod:
  "0 \<le> s \<Longrightarrow> s < 0x1000000 \<Longrightarrow>
   next_sequences n s = (map (\<lambda>i. (s + int i) mod 0x1000000) [0..<n], (s + int n) mod 0x1000000)"
proof (induction n arbitrary: s)
  case (Suc n)
  have m: "(s + 1) AND MAX_SEQUENCE = (s + 1) mod 0x1000000"
    using and_exp_minus_1 [of "s + 1" 24] by (simp add: MAX_SEQUENCE_def)
  have IH: "next_sequences n ((s + 1) mod 0x1000000) =
      (map (\<lambda>i. ((s + 1) mod 0x1000000 + int i) mod 0x1000000) [0..<n],
       ((s + 1) mod 0x1000000 + int n) mod 0x1000000)"
    by (rule Suc.IH) simp_all
  have up: "[0..<Suc n] = 0 # map Suc [0..<n]" by (simp add: upt_conv_Cons map_Suc_upt del: upt_Suc)
  show ?case
    unfolding up using Suc.prems
    by (simp add: next_sequence_def m IH o_def mod_add_left_eq add.assoc del: upt_Suc)
qed simp

lemma mod_shift_inj:
  fixes s :: int
  assumes "(s + int i) mod m = (s + int j) mod m" "int i < m" "int j < m"
  shows "i = j"
proof -
  have "m dvd int i - int j" using assms(1) by (simp add: mod_eq_dvd_iff)
  moreover have "\<bar>int i - int j\<bar> < m" using assms(2,3) by linarith
  ultimately show ?thesis using dvd_imp_le_int [of "int i - int j" m] by fastforce
qed

text \<open>\<^verbatim>\<open>BLEConnection.next_sequence\<close> hands out 24-bit numbers, and any \<open>2 ^ 24\<close> consecutive
  ones are different: the first reuse is after the counter has wrapped.\<close>

theorem telink_sequence_distinct:
  assumes "0 \<le> s" "s < 0x1000000" "n \<le> 0x1000000"
  shows "distinct (fst (next_sequences n s)) \<and> (\<forall>q\<in>set (fst (next_sequences n s)). q \<in> {0..<0x1000000})
    \<and> length (fst (next_sequences n s)) = n"
proof -
  have "inj_on (\<lambda>i. (s + int i) mod 0x1000000) {0..<n}"
    using assms(3) by (intro inj_onI mod_shift_inj [of s _ "0x1000000"]) auto
  then show ?thesis using assms by (auto simp: next_sequences_mod distinct_map)
qed

theorem telink_sequence_distinct_witness:
  "distinct [0xFFFFFF, 0, 1 :: int]"
proof -
  have "fst (next_sequences 3 0xFFFFFF) = [0xFFFFFF, 0, 1]"
    by (simp add: next_sequences_mod upt_rec)
  with telink_sequence_distinct [of "0xFFFFFF" 3] show ?thesis by simp
qed

end
