(* ===== verification/Telink_Crypto.thy ===== *)
theory Telink_Crypto
  imports Prelude
begin

text \<open>
  \<^verbatim>\<open>lib/tuya_ble_mesh/crypto.py\<close>: the Telink crypto built on one AES block.  The block
  cipher itself belongs to the package \<^verbatim>\<open>cryptography\<close> and is the parameter \<open>aes\<close>
  (key, block); \<open>block_cipher aes\<close> states what the code relies on: a 16-byte key and a
  16-byte block give a 16-byte block.  Shown: the checks on key and payload sizes, that the
  counter mode is its own inverse and never reuses a counter block within the accepted
  sizes, and that the checksum test accepts exactly the computed tag.
\<close>

subsection \<open>Constants, key check, padding\<close>

definition AES_BLOCK_SIZE :: nat where "AES_BLOCK_SIZE = 16"
definition SESSION_RANDOM_SIZE :: nat where "SESSION_RANDOM_SIZE = 8"
definition MAC_SIZE :: nat where "MAC_SIZE = 2"
definition MAX_CTR_BLOCKS :: nat where "MAX_CTR_BLOCKS = 256"

lemmas crypto_consts = AES_BLOCK_SIZE_def SESSION_RANDOM_SIZE_def MAC_SIZE_def MAX_CTR_BLOCKS_def

definition block_cipher :: "(bytes \<Rightarrow> bytes \<Rightarrow> bytes) \<Rightarrow> bool" where
  "block_cipher aes \<longleftrightarrow> (\<forall>k b. length k = 16 \<and> length b = 16 \<longrightarrow> length (aes k b) = 16)"

lemma block_cipherD:
  "block_cipher aes \<Longrightarrow> length k = 16 \<Longrightarrow> length b = 16 \<Longrightarrow> length (aes k b) = 16"
  by (simp add: block_cipher_def)

definition validate_key :: "bytes \<Rightarrow> unit res" where
  "validate_key key = (if length key \<noteq> AES_BLOCK_SIZE then Inl CryptoError else Inr ())"

definition pad_to_block :: "bytes \<Rightarrow> bytes" where
  "pad_to_block data =
     (if length data \<ge> AES_BLOCK_SIZE then take AES_BLOCK_SIZE data
      else data @ replicate (AES_BLOCK_SIZE - length data) 0)"

lemma length_pad_to_block [simp]: "length (pad_to_block data) = 16"
  by (simp add: pad_to_block_def crypto_consts)

lemma pad_to_block_id: "length data = 16 \<Longrightarrow> pad_to_block data = data"
  by (simp add: pad_to_block_def crypto_consts)

lemma validate_key_Inr [res_simps]: "validate_key key = Inr u \<longleftrightarrow> length key = 16"
  by (simp add: validate_key_def crypto_consts)

lemma validate_key_ok: "length key = 16 \<Longrightarrow> validate_key key = Inr ()"
  by (simp add: res_simps)

subsection \<open>The AES primitive with Telink byte order\<close>

definition telink_aes_encrypt :: "(bytes \<Rightarrow> bytes \<Rightarrow> bytes) \<Rightarrow> bytes \<Rightarrow> bytes \<Rightarrow> bytes res" where
  "telink_aes_encrypt aes key plaintext =
     bindR (validate_key key) (\<lambda>_.
       Inr (rev (aes (rev key) (rev (pad_to_block plaintext)))))"

lemma telink_aes_encrypt_Inr [res_simps]:
  "telink_aes_encrypt aes key p = Inr c \<longleftrightarrow>
     length key = 16 \<and> c = rev (aes (rev key) (rev (pad_to_block p)))"
  by (auto simp: telink_aes_encrypt_def res_simps)

lemma telink_aes_encrypt_ok:
  assumes "block_cipher aes" "length key = 16"
  obtains c where "telink_aes_encrypt aes key p = Inr c" "length c = 16"
  using assms by (auto simp: res_simps block_cipherD)

lemma telink_aes_encrypt_bad_key:
  "length key \<noteq> 16 \<Longrightarrow> telink_aes_encrypt aes key p = Inl CryptoError"
  by (simp add: telink_aes_encrypt_def validate_key_def crypto_consts)

subsection \<open>Pairing and session key\<close>

definition xor_name_password :: "bytes \<Rightarrow> bytes \<Rightarrow> bytes res" where
  "xor_name_password mesh_name mesh_password =
     xor_strict (pad_to_block mesh_name) (pad_to_block mesh_password)"

definition make_pair_packet ::
  "(bytes \<Rightarrow> bytes \<Rightarrow> bytes) \<Rightarrow> bytes \<Rightarrow> bytes \<Rightarrow> bytes \<Rightarrow> bytes res" where
  "make_pair_packet aes mesh_name mesh_password session_random =
     (if length session_random \<noteq> SESSION_RANDOM_SIZE then Inl CryptoError
      else bindR (xor_name_password mesh_name mesh_password) (\<lambda>name_pass.
        bindR (telink_aes_encrypt aes (pad_to_block session_random) name_pass) (\<lambda>encrypted.
          Inr ([0x0c] @ session_random @ take SESSION_RANDOM_SIZE encrypted))))"

definition make_session_key ::
  "(bytes \<Rightarrow> bytes \<Rightarrow> bytes) \<Rightarrow> bytes \<Rightarrow> bytes \<Rightarrow> bytes \<Rightarrow> bytes \<Rightarrow> bytes res" where
  "make_session_key aes mesh_name mesh_password client_random device_random =
     (if length client_random \<noteq> SESSION_RANDOM_SIZE then Inl CryptoError
      else if length device_random \<noteq> SESSION_RANDOM_SIZE then Inl CryptoError
      else bindR (xor_name_password mesh_name mesh_password) (\<lambda>name_pass.
        telink_aes_encrypt aes name_pass (client_random @ device_random)))"

definition encrypt_mesh_credential ::
  "(bytes \<Rightarrow> bytes \<Rightarrow> bytes) \<Rightarrow> bytes \<Rightarrow> bytes \<Rightarrow> bytes res" where
  "encrypt_mesh_credential aes session_key data =
     bindR (validate_key session_key) (\<lambda>_.
       telink_aes_encrypt aes session_key (pad_to_block data))"

lemma xor_name_password_ok:
  "xor_name_password n p = Inr (xor_bytes (pad_to_block n) (pad_to_block p))"
  by (simp add: xor_name_password_def)

lemma make_session_key_length:
  assumes "block_cipher aes" "length cr = 8" "length dr = 8"
  obtains k where "make_session_key aes n p cr dr = Inr k" "length k = 16"
  using assms
  by (auto simp: make_session_key_def crypto_consts xor_name_password_ok res_simps block_cipherD)

lemma make_pair_packet_shape:
  assumes "block_cipher aes" "length r = 8"
  obtains pf where "make_pair_packet aes n p r = Inr (0x0c # r @ pf)" "length pf = 8"
proof -
  obtain c where "telink_aes_encrypt aes (pad_to_block r)
      (xor_bytes (pad_to_block n) (pad_to_block p)) = Inr c" "length c = 16"
    using assms telink_aes_encrypt_ok [of aes "pad_to_block r"] by auto
  with assms that [of "take 8 c"] show ?thesis
    by (simp add: make_pair_packet_def crypto_consts xor_name_password_ok)
qed

subsection \<open>Counter mode\<close>

text \<open>
  The loop of \<^verbatim>\<open>crypt_payload\<close>: \<open>base\<close> is the counter block, whose first byte is
  incremented modulo 256 after every 16 bytes of payload.
\<close>

definition next_ctr :: "bytes \<Rightarrow> bytes" where
  "next_ctr base = base[0 := base ! 0 + 1]"

lemma length_next_ctr [simp]: "length (next_ctr base) = length base"
  by (simp add: next_ctr_def)

function ctr_loop :: "(bytes \<Rightarrow> bytes \<Rightarrow> bytes) \<Rightarrow> bytes \<Rightarrow> bytes \<Rightarrow> bytes \<Rightarrow> bytes res" where
  "ctr_loop aes key base payload =
     (if payload = [] then Inr []
      else bindR (telink_aes_encrypt aes key base) (\<lambda>keystream.
        bindR (xor_strict (take (length (take AES_BLOCK_SIZE payload)) keystream)
                          (take AES_BLOCK_SIZE payload)) (\<lambda>block.
          bindR (ctr_loop aes key (next_ctr base) (drop AES_BLOCK_SIZE payload)) (\<lambda>rest.
            Inr (block @ rest)))))"
  by pat_completeness auto
termination
  by (relation "measure (\<lambda>(aes, key, base, payload). length payload)")
     (auto simp: crypto_consts)

declare ctr_loop.simps [simp del]

lemma ctr_loop_Nil [simp]: "ctr_loop aes key base [] = Inr []"
  by (subst ctr_loop.simps) simp

definition blocks_needed :: "nat \<Rightarrow> nat" where
  "blocks_needed n = (n + AES_BLOCK_SIZE - 1) div AES_BLOCK_SIZE"

definition crypt_payload ::
  "(bytes \<Rightarrow> bytes \<Rightarrow> bytes) \<Rightarrow> bytes \<Rightarrow> bytes \<Rightarrow> bytes \<Rightarrow> bytes res" where
  "crypt_payload aes key nonce payload =
     bindR (validate_key key) (\<lambda>_.
       if blocks_needed (length payload) > MAX_CTR_BLOCKS then Inl CryptoError
       else if \<not> blocks_needed (length payload) \<le> MAX_CTR_BLOCKS then Inl AssertionError
       else ctr_loop aes key (pad_to_block ([0x00] @ nonce)) payload)"

subsection \<open>CBC-MAC\<close>

function cbc_loop :: "(bytes \<Rightarrow> bytes \<Rightarrow> bytes) \<Rightarrow> bytes \<Rightarrow> bytes \<Rightarrow> bytes \<Rightarrow> bytes res" where
  "cbc_loop aes key check payload =
     (if payload = [] then Inr check
      else bindR (xor_strict check (pad_to_block (take AES_BLOCK_SIZE payload))) (\<lambda>xored.
        bindR (telink_aes_encrypt aes key xored) (\<lambda>check'.
          cbc_loop aes key check' (drop AES_BLOCK_SIZE payload))))"
  by pat_completeness auto
termination
  by (relation "measure (\<lambda>(aes, key, check, payload). length payload)")
     (auto simp: crypto_consts)

declare cbc_loop.simps [simp del]

definition make_checksum ::
  "(bytes \<Rightarrow> bytes \<Rightarrow> bytes) \<Rightarrow> bytes \<Rightarrow> bytes \<Rightarrow> bytes \<Rightarrow> bytes res" where
  "make_checksum aes key nonce payload =
     bindR (validate_key key) (\<lambda>_.
       bindR (to_byte (int (length payload))) (\<lambda>len_byte.
         bindR (telink_aes_encrypt aes key (pad_to_block (nonce @ [len_byte]))) (\<lambda>check.
           cbc_loop aes key check payload)))"

text \<open>\<^verbatim>\<open>hmac.compare_digest\<close> is equality of byte strings.\<close>

definition verify_checksum ::
  "(bytes \<Rightarrow> bytes \<Rightarrow> bytes) \<Rightarrow> bytes \<Rightarrow> bytes \<Rightarrow> bytes \<Rightarrow> bytes \<Rightarrow> bool res" where
  "verify_checksum aes key nonce payload expected_mac =
     bindR (make_checksum aes key nonce payload) (\<lambda>computed.
       if take MAC_SIZE computed \<noteq> take MAC_SIZE expected_mac then Inl AuthenticationError
       else Inr True)"

subsection \<open>Facts on the loops\<close>

lemma ctr_loop_Inr_iff:
  "p \<noteq> [] \<Longrightarrow> ctr_loop aes key base p = Inr c \<longleftrightarrow>
     (\<exists>ks rest. telink_aes_encrypt aes key base = Inr ks
        \<and> length (take (length (take 16 p)) ks) = length (take 16 p)
        \<and> ctr_loop aes key (next_ctr base) (drop 16 p) = Inr rest
        \<and> c = xor_bytes (take (length (take 16 p)) ks) (take 16 p) @ rest)"
  by (subst ctr_loop.simps) (auto simp: bindR_eq_Inr_iff xor_strict_eq_Inr AES_BLOCK_SIZE_def)

lemma ctr_loop_length: "ctr_loop aes key base p = Inr c \<Longrightarrow> length c = length p"
proof (induction "length p" arbitrary: base p c rule: less_induct)
  case less
  show ?case
  proof (cases "p = []")
    case True
    with less.prems show ?thesis by simp
  next
    case False
    with less.prems obtain ks rest where
      len: "length (take (length (take 16 p)) ks) = length (take 16 p)"
      and rest: "ctr_loop aes key (next_ctr base) (drop 16 p) = Inr rest"
      and c: "c = xor_bytes (take (length (take 16 p)) ks) (take 16 p) @ rest"
      by (auto simp: ctr_loop_Inr_iff)
    have "length rest = length (drop 16 p)"
      using less.hyps [of "drop 16 p"] rest False by simp
    with c len show ?thesis by simp
  qed
qed

lemma ctr_loop_involution:
  "ctr_loop aes key base p = Inr c \<Longrightarrow> ctr_loop aes key base c = Inr p"
proof (induction "length p" arbitrary: base p c rule: less_induct)
  case less
  show ?case
  proof (cases "p = []")
    case True
    with less.prems show ?thesis by simp
  next
    case False
    let ?P = "take 16 p" and ?R = "drop 16 p"
    from False less.prems obtain ks rest where
      ks: "telink_aes_encrypt aes key base = Inr ks"
      and len: "length (take (length ?P) ks) = length ?P"
      and rest: "ctr_loop aes key (next_ctr base) ?R = Inr rest"
      and c: "c = xor_bytes (take (length ?P) ks) ?P @ rest"
      by (auto simp: ctr_loop_Inr_iff)
    let ?B = "xor_bytes (take (length ?P) ks) ?P"
    have lenB: "length ?B = length ?P" using len by simp
    have IH: "ctr_loop aes key (next_ctr base) rest = Inr ?R"
      using less.hyps [of ?R] rest False by simp
    have lrest: "length rest = length p - 16" using ctr_loop_length [OF rest] by simp
    have takeC: "take 16 c = ?B" and dropC: "drop 16 c = rest"
      using c lenB lrest by (cases "16 \<le> length p"; simp)+
    have "length c = length p" using ctr_loop_length [OF less.prems] .
    then have "c \<noteq> []" using False by auto
    moreover have "xor_bytes (take (length ?B) ks) ?B = ?P"
      unfolding lenB by (rule xor_bytes_cancel) (rule len)
    then have "p = xor_bytes (take (length ?B) ks) ?B @ ?R" by simp
    moreover have "length (take (length ?B) ks) = length ?B"
      using len lenB by simp
    ultimately show ?thesis
      using ks IH unfolding ctr_loop_Inr_iff [OF \<open>c \<noteq> []\<close>] takeC dropC by blast
  qed
qed

lemma ctr_loop_ok:
  assumes "block_cipher aes" "length key = 16" "length base = 16"
  shows "\<exists>c. ctr_loop aes key base p = Inr c"
  using assms
proof (induction aes key base p rule: ctr_loop.induct)
  case (1 aes key base p)
  show ?case
  proof (cases "p = []")
    case False
    obtain ks where ks: "telink_aes_encrypt aes key base = Inr ks" "length ks = 16"
      using "1.prems" telink_aes_encrypt_ok by blast
    let ?P = "take AES_BLOCK_SIZE p"
    have len: "length (take (length ?P) ks) = length ?P" using ks by (simp add: crypto_consts)
    obtain r where "ctr_loop aes key (next_ctr base) (drop 16 p) = Inr r"
      using "1.IH" [OF False ks(1) xor_strict_ok [OF len]] "1.prems"
      by (auto simp: AES_BLOCK_SIZE_def)
    with ks len False show ?thesis
      unfolding AES_BLOCK_SIZE_def by (auto simp: ctr_loop_Inr_iff)
  qed simp
qed

lemma cbc_loop_ok:
  assumes "block_cipher aes" "length key = 16" "length check = 16"
  shows "\<exists>m. cbc_loop aes key check p = Inr m \<and> length m = 16"
  using assms
proof (induction aes key check p rule: cbc_loop.induct)
  case (1 aes key check p)
  show ?case
  proof (cases "p = []")
    case True
    with "1.prems" show ?thesis by (subst cbc_loop.simps) simp
  next
    case False
    let ?x = "xor_bytes check (pad_to_block (take AES_BLOCK_SIZE p))"
    obtain ks where ks: "telink_aes_encrypt aes key ?x = Inr ks" "length ks = 16"
      using "1.prems" telink_aes_encrypt_ok by blast
    with "1.IH" "1.prems" False show ?thesis by (subst cbc_loop.simps) simp
  qed
qed

lemma blocks_needed_le: "blocks_needed n \<le> MAX_CTR_BLOCKS \<longleftrightarrow> n \<le> 4096"
  unfolding blocks_needed_def crypto_consts by presburger

lemma crypt_payload_eq:
  "length key = 16 \<Longrightarrow> length p \<le> 4096 \<Longrightarrow>
   crypt_payload aes key nonce p = ctr_loop aes key (pad_to_block (0 # nonce)) p"
  by (simp add: crypt_payload_def validate_key_ok leD blocks_needed_le)

lemma crypt_payload_Inr_iff:
  "crypt_payload aes key nonce p = Inr c \<longleftrightarrow>
   length key = 16 \<and> length p \<le> 4096 \<and> ctr_loop aes key (pad_to_block (0 # nonce)) p = Inr c"
  using blocks_needed_le [of "length p"]
  by (auto simp: crypt_payload_def res_simps not_less split: if_splits)

lemma crypt_payload_ok:
  "block_cipher aes \<Longrightarrow> length key = 16 \<Longrightarrow> length p \<le> 4096 \<Longrightarrow>
   \<exists>c. crypt_payload aes key nonce p = Inr c"
  using ctr_loop_ok [of aes key "pad_to_block (0 # nonce)" p] by (simp add: crypt_payload_eq)

lemma make_checksum_ok:
  assumes "block_cipher aes" "length key = 16" "length p \<le> 255"
  shows "\<exists>m. make_checksum aes key nonce p = Inr m \<and> length m = 16"
proof -
  let ?b = "pad_to_block (nonce @ [word_of_int (int (length p))])"
  obtain c where "telink_aes_encrypt aes key ?b = Inr c" "length c = 16"
    using assms telink_aes_encrypt_ok by blast
  with assms cbc_loop_ok [of aes key c p] show ?thesis
    by (simp add: make_checksum_def validate_key_ok to_byte_ok)
qed

subsection \<open>Counter blocks\<close>

text \<open>The counter block that encrypts block \<open>i\<close> of a payload.\<close>

definition ctr_block :: "bytes \<Rightarrow> nat \<Rightarrow> bytes" where
  "ctr_block nonce i = (next_ctr ^^ i) (pad_to_block (0 # nonce))"

lemma ctr_iter: "base \<noteq> [] \<Longrightarrow> (next_ctr ^^ i) base = base[0 := base ! 0 + of_nat i]"
proof (induction i)
  case (Suc i)
  then show ?case by (simp add: next_ctr_def algebra_simps)
qed simp

lemma ctr_block_eq: "ctr_block nonce i = of_nat i # tl (pad_to_block (0 # nonce))"
proof -
  obtain x xs where p: "pad_to_block (0 # nonce) = x # xs"
    by (metis length_pad_to_block list.exhaust list.size(3) zero_neq_numeral)
  have "x = 0" using p by (auto simp: pad_to_block_def crypto_consts split: if_splits)
  then show ?thesis using p ctr_iter [of "x # xs" i] by (simp add: ctr_block_def)
qed

lemma ctr_block_inj: "i < 256 \<Longrightarrow> j < 256 \<Longrightarrow> ctr_block n i = ctr_block n j \<Longrightarrow> i = j"
  by (simp add: ctr_block_eq word_of_nat_eq_iff take_bit_eq_mod)

lemma ctr_block_0: "ctr_block nonce 0 = pad_to_block (0 # nonce)"
  by (simp add: ctr_block_def)

lemma ctr_block_Suc: "ctr_block nonce (Suc i) = next_ctr (ctr_block nonce i)"
  by (simp add: ctr_block_def)

text \<open>
  The loop computes counter mode: byte \<open>j\<close> of the output is byte \<open>j\<close> of the input XORed
  with byte \<open>j mod 16\<close> of the encryption of counter block \<open>j div 16\<close>.
\<close>

lemma ctr_loop_nth:
  assumes "ctr_loop aes key (ctr_block nonce i) p = Inr c" "j < length p"
  shows "\<exists>ks. telink_aes_encrypt aes key (ctr_block nonce (i + j div 16)) = Inr ks
           \<and> j mod 16 < length ks \<and> c ! j = ks ! (j mod 16) XOR p ! j"
  using assms
proof (induction "length p" arbitrary: p c i j rule: less_induct)
  case less
  have "p \<noteq> []" using less.prems by auto
  with less.prems obtain ks rest where
    ks: "telink_aes_encrypt aes key (ctr_block nonce i) = Inr ks"
    and len: "length (take (length (take 16 p)) ks) = length (take 16 p)"
    and rest: "ctr_loop aes key (ctr_block nonce (Suc i)) (drop 16 p) = Inr rest"
    and c: "c = xor_bytes (take (length (take 16 p)) ks) (take 16 p) @ rest"
    by (auto simp: ctr_loop_Inr_iff ctr_block_Suc)
  let ?B = "xor_bytes (take (length (take 16 p)) ks) (take 16 p)"
  have lenB: "length ?B = min (length p) 16" using len by simp
  show ?case
  proof (cases "j < 16")
    case True
    with less.prems have j: "j < length (take 16 p)" by simp
    then have "c ! j = ks ! j XOR p ! j"
      using c lenB len True by (simp add: nth_append nth_xor_bytes)
    with ks True j len show ?thesis by (auto simp: min_def split: if_splits)
  next
    case False
    then have j: "j - 16 < length (drop 16 p)" using less.prems by simp
    from less.hyps [OF _ rest j] \<open>p \<noteq> []\<close> obtain ks' where
      "telink_aes_encrypt aes key (ctr_block nonce (Suc i + (j - 16) div 16)) = Inr ks'"
      "(j - 16) mod 16 < length ks'" "rest ! (j - 16) = ks' ! ((j - 16) mod 16) XOR drop 16 p ! (j - 16)"
      by auto
    moreover have e: "Suc i + (j - 16) div 16 = i + j div 16" "(j - 16) mod 16 = j mod 16"
      using False by (simp_all add: le_div_geq le_mod_geq not_less)
    moreover have "c ! j = rest ! (j - 16)"
      using c lenB False less.prems by (simp add: nth_append)
    moreover have "drop 16 p ! (j - 16) = p ! j" using False less.prems by simp
    ultimately show ?thesis by (intro exI [of _ ks']) (simp only: e simp_thms)
  qed
qed

subsection \<open>The interface of the payload cipher\<close>

text \<open>
  What the packet layer relies on: the cipher keeps the length and a second application
  with the same key and nonce gives the input back.
\<close>

locale stream_cipher =
  fixes crypt :: "bytes \<Rightarrow> bytes \<Rightarrow> bytes \<Rightarrow> bytes res"
  assumes crypt_inverse: "crypt key nonce p = Inr c \<Longrightarrow> crypt key nonce c = Inr p"
    and crypt_length: "crypt key nonce p = Inr c \<Longrightarrow> length c = length p"
begin

lemma crypt_inj: "crypt key nonce p = Inr c \<Longrightarrow> crypt key nonce q = Inr c \<Longrightarrow> p = q"
  using crypt_inverse [of key nonce p c] crypt_inverse [of key nonce q c] by simp

lemma crypt_onto: "crypt key nonce p = Inr c \<Longrightarrow>
  \<exists>q. length q = length p \<and> crypt key nonce q = Inr p"
  using crypt_inverse crypt_length by blast

end

interpretation ctr: stream_cipher "crypt_payload aes" for aes
proof
  fix key nonce p c
  assume h: "crypt_payload aes key nonce p = Inr c"
  then have "length key = 16" "length p \<le> 4096"
    and loop: "ctr_loop aes key (pad_to_block (0 # nonce)) p = Inr c"
    by (simp_all add: crypt_payload_Inr_iff)
  moreover show "length c = length p" using ctr_loop_length [OF loop] .
  ultimately show "crypt_payload aes key nonce c = Inr p"
    using ctr_loop_involution [OF loop] by (simp add: crypt_payload_Inr_iff)
qed

subsection \<open>Properties\<close>

text \<open>A block cipher for concrete runs: XOR with the key.\<close>

definition demo_aes :: "bytes \<Rightarrow> bytes \<Rightarrow> bytes" where
  "demo_aes key block = xor_bytes key block"

lemma demo_aes_block_cipher: "block_cipher demo_aes"
  by (simp add: block_cipher_def demo_aes_def)

text \<open>\<^verbatim>\<open>crypt_payload\<close> with a 16-byte key succeeds exactly on payloads of at most 4096
  bytes; the result has the payload's length and a second call with the same key and nonce
  gives the payload back.  A longer payload is refused with CryptoError.\<close>

theorem crypt_payload_roundtrip:
  assumes "block_cipher aes" "length key = 16"
  shows "if length p \<le> 4096
         then \<exists>c. crypt_payload aes key nonce p = Inr c \<and> length c = length p
                \<and> crypt_payload aes key nonce c = Inr p
         else crypt_payload aes key nonce p = Inl CryptoError"
proof (cases "length p \<le> 4096")
  case True
  with assms obtain c where c: "crypt_payload aes key nonce p = Inr c"
    using crypt_payload_ok by blast
  with True show ?thesis using ctr.crypt_inverse [OF c] ctr.crypt_length [OF c] by auto
next
  case False
  then show ?thesis
    using assms blocks_needed_le [of "length p"]
    by (simp add: crypt_payload_def validate_key_ok)
qed

theorem crypt_payload_roundtrip_witness:
  "\<exists>c. crypt_payload demo_aes (replicate 16 3) [1, 2, 3, 4, 5, 6, 7, 8] [9, 10, 11] = Inr c
     \<and> length c = length [9, 10, 11 :: byte]
     \<and> crypt_payload demo_aes (replicate 16 3) [1, 2, 3, 4, 5, 6, 7, 8] c = Inr [9, 10, 11]"
  using crypt_payload_roundtrip [OF demo_aes_block_cipher, of "replicate 16 3" "[9, 10, 11]"
      "[1, 2, 3, 4, 5, 6, 7, 8]"]
  by simp

text \<open>the payload cipher is counter mode and never reuses keystream: every output byte is
  the input byte XORed with the keystream byte of its counter block, and two positions that
  lie in different 16-byte blocks of an accepted payload use different counter blocks.\<close>

theorem crypt_payload_no_keystream_reuse:
  assumes "crypt_payload aes key nonce p = Inr c" "i < length p" "j < length p"
  shows "(\<exists>ks. telink_aes_encrypt aes key (ctr_block nonce (i div 16)) = Inr ks
            \<and> c ! i = ks ! (i mod 16) XOR p ! i)
       \<and> (i div 16 \<noteq> j div 16 \<longrightarrow> ctr_block nonce (i div 16) \<noteq> ctr_block nonce (j div 16))"
proof -
  from assms have loop: "ctr_loop aes key (ctr_block nonce 0) p = Inr c" and "length p \<le> 4096"
    by (simp_all add: crypt_payload_Inr_iff ctr_block_0)
  with assms have "i div 16 < 256" "j div 16 < 256" by linarith+
  with ctr_loop_nth [OF loop assms(2)] show ?thesis by (auto dest: ctr_block_inj)
qed

theorem crypt_payload_no_keystream_reuse_witness:
  "ctr_block [1, 2, 3, 4, 5, 6, 7, 8] 0 \<noteq> ctr_block [1, 2, 3, 4, 5, 6, 7, 8] 1"
proof -
  obtain c where c: "crypt_payload demo_aes (replicate 16 3) [1, 2, 3, 4, 5, 6, 7, 8]
      (replicate 20 0) = Inr c"
    using crypt_payload_ok [OF demo_aes_block_cipher, of "replicate 16 3" "replicate 20 0"]
    by auto
  show ?thesis using crypt_payload_no_keystream_reuse [OF c, of 0 16] by simp
qed

text \<open>\<^verbatim>\<open>verify_checksum\<close> accepts exactly the first two bytes of the computed CBC-MAC;
  on a payload of at most 255 bytes every other tag raises AuthenticationError, and a
  longer payload cannot be authenticated at all (its length does not fit the one byte the
  code gives it).\<close>

theorem verify_checksum_exact:
  assumes "block_cipher aes" "length key = 16"
  shows "verify_checksum aes key nonce p mac =
    (if length p > 255 then Inl ValueError
     else if map_sum id (take 2) (make_checksum aes key nonce p) = Inr (take 2 mac)
          then Inr True else Inl AuthenticationError)"
proof (cases "length p \<le> 255")
  case True
  with assms obtain m where "make_checksum aes key nonce p = Inr m"
    using make_checksum_ok by blast
  with True show ?thesis by (simp add: verify_checksum_def crypto_consts)
next
  case False
  then show ?thesis
    using assms by (simp add: verify_checksum_def make_checksum_def validate_key_ok to_byte_def)
qed

theorem verify_checksum_exact_witness:
  "verify_checksum demo_aes (replicate 16 3) [1] (replicate 300 0) [0, 0] = Inl ValueError"
  using verify_checksum_exact [OF demo_aes_block_cipher, of "replicate 16 3" "[1]"
      "replicate 300 0" "[0, 0]"]
  by simp

end
