(* ===== verification/Sig_Crypto.thy ===== *)
theory Sig_Crypto
  imports Telink_Crypto
begin

text \<open>
  \<^verbatim>\<open>lib/tuya_ble_mesh/sig_mesh_crypto.py\<close>: AES-CMAC written out over one AES block, the key
  derivations s1 and k1 to k4, and AES-CCM.  The record \<open>crypto_lib\<close> stands for the package
  \<^verbatim>\<open>cryptography\<close>: one AES block, and the AES-CCM calls with the tag length, the key, the
  nonce and the data (the associated data is always empty).  \<open>crypto_lib_ok\<close> is what its
  documentation promises.  Shown: the subkey step is doubling in the field of RFC 4493, the
  loop is a CBC-MAC over the blocks of the message, the derivations always return values of the
  right size, and the CCM functions are an authenticated encryption.
\<close>

subsection \<open>The cryptography package\<close>

record crypto_lib =
  cl_aes :: "bytes \<Rightarrow> bytes \<Rightarrow> bytes"
  cl_ccm_enc :: "nat \<Rightarrow> bytes \<Rightarrow> bytes \<Rightarrow> bytes \<Rightarrow> bytes res"
  cl_ccm_dec :: "nat \<Rightarrow> bytes \<Rightarrow> bytes \<Rightarrow> bytes \<Rightarrow> bytes res"

text \<open>
  With a 16-byte key, a 13-byte nonce and at most 65535 bytes, encryption appends the tag,
  decryption of its result returns the data, and anything that decryption accepts is such a
  result; anything else raises \<^verbatim>\<open>InvalidTag\<close>.
\<close>

definition ccm_ok :: "crypto_lib \<Rightarrow> bool" where
  "ccm_ok lib \<longleftrightarrow> (\<forall>tag k n. (tag = 4 \<or> tag = 8) \<and> length k = 16 \<and> length n = 13 \<longrightarrow>
     (\<forall>p. length p \<le> 65535 \<longrightarrow> (\<exists>c. cl_ccm_enc lib tag k n p = Inr c
        \<and> length c = length p + tag \<and> cl_ccm_dec lib tag k n c = Inr p))
     \<and> (\<forall>c. length c \<le> 65535 \<longrightarrow> cl_ccm_dec lib tag k n c = Inl InvalidTag
        \<or> (\<exists>p. cl_ccm_dec lib tag k n c = Inr p \<and> cl_ccm_enc lib tag k n p = Inr c
             \<and> length c = length p + tag)))"

definition crypto_lib_ok :: "crypto_lib \<Rightarrow> bool" where
  "crypto_lib_ok lib \<longleftrightarrow> block_cipher (cl_aes lib) \<and> ccm_ok lib"

subsection \<open>One block\<close>

definition mesh_validate_key :: "bytes \<Rightarrow> unit res" where
  "mesh_validate_key key = (if length key \<noteq> 16 then Inl CryptoError else Inr ())"

definition aes_ecb :: "crypto_lib \<Rightarrow> bytes \<Rightarrow> bytes \<Rightarrow> bytes res" where
  "aes_ecb lib key plaintext =
     bindR (mesh_validate_key key) (\<lambda>_.
       if length plaintext \<noteq> 16 then Inl CryptoError else Inr (cl_aes lib key plaintext))"

lemma mesh_validate_key_Inr [res_simps]: "mesh_validate_key key = Inr u \<longleftrightarrow> length key = 16"
  by (simp add: mesh_validate_key_def)

lemma mesh_validate_key_ok: "length key = 16 \<Longrightarrow> mesh_validate_key key = Inr ()"
  by (simp add: res_simps)

lemma aes_ecb_ok: "length key = 16 \<Longrightarrow> length b = 16 \<Longrightarrow> aes_ecb lib key b = Inr (cl_aes lib key b)"
  by (simp add: aes_ecb_def mesh_validate_key_ok)

subsection \<open>AES-CMAC\<close>

definition CMAC_RB :: bytes where "CMAC_RB = replicate 15 0 @ [0x87]"

definition shift_left :: "bytes \<Rightarrow> bytes res" where
  "shift_left data =
     (if length data < 16 then Inl IndexError
      else Inr (map (\<lambda>i. (push_bit 1 (data ! i) AND 0xFF) OR drop_bit 7 (data ! Suc i)) [0..<15]
                @ [push_bit 1 (data ! 15) AND 0xFF]))"

text \<open>One subkey: shift, and reduce when the top bit was set.\<close>

definition cmac_subkey :: "bytes \<Rightarrow> bytes res" where
  "cmac_subkey l_val =
     bindR (shift_left l_val) (\<lambda>k.
       bindR (py_index l_val 0) (\<lambda>top.
         if top AND 0x80 \<noteq> 0 then xor_strict k CMAC_RB else Inr k))"

text \<open>The loop over the blocks before the last one, for the indices \<open>is\<close>.\<close>

fun cmac_loop :: "crypto_lib \<Rightarrow> bytes \<Rightarrow> bytes \<Rightarrow> nat list \<Rightarrow> bytes \<Rightarrow> bytes res" where
  "cmac_loop lib key msg [] x = Inr x"
| "cmac_loop lib key msg (i # is) x =
     bindR (xor_strict x (slice (i * 16) ((i + 1) * 16) msg)) (\<lambda>y.
       bindR (aes_ecb lib key y) (cmac_loop lib key msg is))"

definition aes_cmac :: "crypto_lib \<Rightarrow> bytes \<Rightarrow> bytes \<Rightarrow> bytes res" where
  "aes_cmac lib key msg =
     bindR (mesh_validate_key key) (\<lambda>_.
     bindR (aes_ecb lib key (replicate 16 0)) (\<lambda>l_val.
     bindR (cmac_subkey l_val) (\<lambda>k1.
     bindR (cmac_subkey k1) (\<lambda>k2.
       let n = max 1 ((length msg + 16 - 1) div 16);
           complete_block = (length msg > 0 \<and> length msg mod 16 = 0);
           tail = drop ((n - 1) * 16) msg;
           padded = tail @ [0x80] @ replicate (16 - 1 - length tail) 0
       in bindR (if complete_block then xor_strict tail k1
                 else xor_strict (take 16 padded) k2) (\<lambda>m_last.
          bindR (cmac_loop lib key msg [0..<n - 1] (replicate 16 0)) (\<lambda>x.
          bindR (xor_strict x m_last) (\<lambda>y. aes_ecb lib key y)))))))"

subsection \<open>Key derivation\<close>

text \<open>The ASCII labels of the key derivation functions.\<close>

definition smk2 :: bytes where "smk2 = [0x73, 0x6D, 0x6B, 0x32]"
definition smk3 :: bytes where "smk3 = [0x73, 0x6D, 0x6B, 0x33]"
definition smk4 :: bytes where "smk4 = [0x73, 0x6D, 0x6B, 0x34]"
definition id64_1 :: bytes where "id64_1 = [0x69, 0x64, 0x36, 0x34, 0x01]"
definition id6_1 :: bytes where "id6_1 = [0x69, 0x64, 0x36, 0x01]"

definition s1 :: "crypto_lib \<Rightarrow> bytes \<Rightarrow> bytes res" where
  "s1 lib m = (if m = [] then Inl CryptoError else aes_cmac lib (replicate 16 0) m)"

definition k1 :: "crypto_lib \<Rightarrow> bytes \<Rightarrow> bytes \<Rightarrow> bytes \<Rightarrow> bytes res" where
  "k1 lib n salt p =
     bindR (mesh_validate_key salt) (\<lambda>_.
     bindR (aes_cmac lib salt n) (\<lambda>t. aes_cmac lib t p))"

definition k2 :: "crypto_lib \<Rightarrow> bytes \<Rightarrow> bytes \<Rightarrow> (int \<times> bytes \<times> bytes) res" where
  "k2 lib n p =
     bindR (mesh_validate_key n) (\<lambda>_.
     bindR (s1 lib smk2) (\<lambda>salt.
     bindR (aes_cmac lib salt n) (\<lambda>t.
     bindR (aes_cmac lib t (p @ [0x01])) (\<lambda>t1.
     bindR (aes_cmac lib t (t1 @ p @ [0x02])) (\<lambda>t2.
     bindR (aes_cmac lib t (t2 @ p @ [0x03])) (\<lambda>t3.
     bindR (py_index t1 15) (\<lambda>b.
       Inr (uint b AND 0x7F, t2, t3))))))))"

definition k3 :: "crypto_lib \<Rightarrow> bytes \<Rightarrow> bytes res" where
  "k3 lib n =
     bindR (mesh_validate_key n) (\<lambda>_.
     bindR (s1 lib smk3) (\<lambda>salt.
     bindR (aes_cmac lib salt n) (\<lambda>t.
     bindR (aes_cmac lib t id64_1) (\<lambda>m. Inr (drop 8 m)))))"

definition k4 :: "crypto_lib \<Rightarrow> bytes \<Rightarrow> int res" where
  "k4 lib n =
     bindR (mesh_validate_key n) (\<lambda>_.
     bindR (s1 lib smk4) (\<lambda>salt.
     bindR (aes_cmac lib salt n) (\<lambda>t.
     bindR (aes_cmac lib t id6_1) (\<lambda>m.
     bindR (py_index m 15) (\<lambda>b. Inr (uint b AND 0x3F))))))"

subsection \<open>AES-CCM\<close>

definition mesh_aes_ccm_encrypt ::
  "crypto_lib \<Rightarrow> bytes \<Rightarrow> bytes \<Rightarrow> bytes \<Rightarrow> nat \<Rightarrow> bytes res" where
  "mesh_aes_ccm_encrypt lib key nonce plaintext mic_len =
     bindR (mesh_validate_key key) (\<lambda>_.
       if mic_len \<notin> {4, 8} then Inl CryptoError
       else cl_ccm_enc lib mic_len key nonce plaintext)"

definition mesh_aes_ccm_decrypt ::
  "crypto_lib \<Rightarrow> bytes \<Rightarrow> bytes \<Rightarrow> bytes \<Rightarrow> nat \<Rightarrow> bytes res" where
  "mesh_aes_ccm_decrypt lib key nonce ct_and_mic mic_len =
     bindR (mesh_validate_key key) (\<lambda>_.
       if mic_len \<notin> {4, 8} then Inl CryptoError
       else (case cl_ccm_dec lib mic_len key nonce ct_and_mic of
               Inl e \<Rightarrow> if isinstance e InvalidTag then Inl CryptoError else Inl e
             | Inr p \<Rightarrow> Inr p))"

subsection \<open>XOR and shift as arithmetic\<close>

lemma byte_shift_or:
  fixes a b :: byte
  shows "uint ((push_bit 1 a AND 0xFF) OR drop_bit 7 b) = 2 * uint a mod 256 + uint b div 128"
proof -
  have m: "push_bit 1 a AND 0xFF = push_bit 1 a" for a :: byte
  proof -
    have "(0xFF :: byte) = - 1" by simp
    then show ?thesis by (simp only: and.right_neutral)
  qed
  have b: "uint b div 128 < 2" "0 \<le> uint b div 128"
    using uint_byte_bounds [of b] by (simp_all add: pos_imp_zdiv_nonneg_iff)
  have "(push_bit 1 a) AND (drop_bit 7 b) = 0"
  proof (rule bit_word_eqI)
    fix n assume "n < LENGTH(8)"
    moreover have "\<not> bit b (7 + n)" if "0 < n" "n < 8"
      using that bit_imp_le_length [of b "7 + n"] by auto
    moreover have "\<not> bit (push_bit 1 a) 0" by (simp only: bit_push_bit_iff) simp
    ultimately show "bit (push_bit 1 a AND drop_bit 7 b) n = bit (0 :: byte) n"
      by (cases n) (auto simp: bit_simps simp del: push_bit_Suc push_bit_of_1)
  qed
  then have or: "push_bit 1 a OR drop_bit 7 b = push_bit 1 a + drop_bit 7 b"
    by (simp add: disjunctive_add_eq_or)
  have p: "uint (push_bit 1 a) = 2 * uint a mod 256"
    by (simp add: uint_word_ariths mult.commute)
  have d: "uint (drop_bit 7 b) = uint b div 128"
    by (simp add: drop_bit_eq_div uint_div_distrib)
  have "2 * uint a mod 256 = 2 * (uint a mod 128)" using mult_mod_right [of 2 "uint a" 128] by simp
  then have lt: "0 \<le> 2 * uint a mod 256 + uint b div 128" "2 * uint a mod 256 + uint b div 128 < 256"
    using b by simp_all
  have "uint (x + y) = (uint x + uint y) mod 256" for x y :: byte
    by (simp add: uint_word_ariths)
  then show ?thesis unfolding m or using lt by (simp only: p d mod_pos_pos_trivial)
qed

lemma be_int_Cons: "be_int (b # bs) = uint b * 256 ^ length bs + be_int bs"
  using be_int_append [of "[b]" bs] by simp

lemma xor_int_bytes:
  fixes a b x y :: int
  assumes "0 \<le> x" "x < 256" "0 \<le> y" "y < 256"
  shows "(a * 256 + x) XOR (b * 256 + y) = (a XOR b) * 256 + (x XOR y)"
proof -
  have xy: "0 \<le> x XOR y" "x XOR y < 2 ^ 8"
    using assms XOR_upper [of x 8 y] by simp_all
  have t: "take_bit 8 x = x" "take_bit 8 y = y" using assms by (simp_all add: take_bit_int_eq_self_iff)
  have "push_bit 8 (a XOR b) OR (take_bit 8 x XOR take_bit 8 y) = (push_bit 8 a OR take_bit 8 x) XOR (push_bit 8 b OR take_bit 8 y)"
    by (rule bit_eqI) (auto simp: bit_simps)
  moreover have "push_bit 8 a OR take_bit 8 x = a * 256 + x" "push_bit 8 b OR take_bit 8 y = b * 256 + y"
    using or_disjoint [of _ 8] assms by (simp_all add: t)
  ultimately show ?thesis using or_disjoint [of "x XOR y" 8 "a XOR b"] xy by (simp add: t)
qed

lemma be_int_xor_bytes:
  "length a = length b \<Longrightarrow> be_int (xor_bytes a b) = be_int a XOR be_int b"
proof (induction a b rule: rev_induct2)
  case 1
  then show ?case by (simp add: xor_bytes_def)
next
  case (4 x xs y ys)
  have app: "be_int (zs @ [z]) = be_int zs * 256 + uint z" for zs and z :: byte
    by (simp add: be_int_append)
  from 4 have l: "length xs = length ys" by simp
  have "xor_bytes (xs @ [x]) (ys @ [y]) = xor_bytes xs ys @ [x XOR y]"
    using xor_bytes_append [OF l, of "[x]" "[y]"] by (simp add: xor_bytes_def)
  then show ?case
    using 4(1) l xor_int_bytes [of "uint x" "uint y"] uint_byte_bounds [of x] uint_byte_bounds [of y]
    by (simp add: app unsigned_xor_eq)
qed simp_all

fun shl_bytes :: "bytes \<Rightarrow> bytes" where
  "shl_bytes [] = []"
| "shl_bytes [a] = [push_bit 1 a AND 0xFF]"
| "shl_bytes (a # b # bs) = ((push_bit 1 a AND 0xFF) OR drop_bit 7 b) # shl_bytes (b # bs)"

lemma length_shl_bytes [simp]: "length (shl_bytes bs) = length bs"
  by (induction bs rule: shl_bytes.induct) auto

lemma shl_bytes_map: "bs \<noteq> [] \<Longrightarrow> shl_bytes bs =
   map (\<lambda>i. (push_bit 1 (bs ! i) AND 0xFF) OR drop_bit 7 (bs ! Suc i)) [0..<length bs - 1]
   @ [push_bit 1 (last bs) AND 0xFF]"
proof (induction bs rule: shl_bytes.induct)
  case (3 a b bs)
  have "[0..<length (a # b # bs) - 1] = 0 # map Suc [0..<length bs]"
    by (simp add: upt_conv_Cons map_Suc_upt del: upt_Suc)
  with 3 show ?case by (simp add: o_def del: upt_Suc)
qed simp_all

lemma shift_left_shl: "length l = 16 \<Longrightarrow> shift_left l = Inr (shl_bytes l)"
proof -
  assume l: "length l = 16"
  then have "l \<noteq> []" by auto
  moreover from this l have "last l = l ! 15" by (simp add: last_conv_nth)
  ultimately show ?thesis using l shl_bytes_map [of l] by (simp add: shift_left_def)
qed

lemma byte_shift: "uint (push_bit 1 a AND 0xFF) = 2 * uint a mod 256" for a :: byte
  using byte_shift_or [of a 0] by simp

lemma be_int_shl: "be_int (shl_bytes bs) = 2 * be_int bs mod 256 ^ length bs"
proof (induction bs rule: shl_bytes.induct)
  case (2 a)
  then show ?case using byte_shift [of a] by simp
next
  case (3 a b bs)
  let ?m = "256 ^ length bs :: int" and ?D = "be_int bs"
  have D: "0 \<le> ?D" "?D < ?m" using be_int_bounds by simp_all
  have b: "0 \<le> uint b" "uint b < 256" by (rule uint_byte_bounds)+
  have "be_int (b # bs) = uint b * ?m + ?D" by (simp add: be_int_Cons)
  then have IH: "be_int (shl_bytes (b # bs)) = (2 * (uint b * ?m + ?D)) mod (256 * ?m)"
    using 3 by (simp add: power_commutes)
  have key: "2 * (a * (256 * m) + (b * m + d)) mod (256 * (256 * m))
      = (2 * a mod 256 + b div 128) * (256 * m) + 2 * (b * m + d) mod (256 * m)"
    if "0 \<le> d" "d < m" "0 \<le> b" "b < 256" for a b d m :: int
  proof -
    define c where "c = b * m + d"
    have m: "0 < m" using that by simp
    have "b div 128 = 2 * c div (256 * m)"
    proof -
      have "c div m = b" unfolding c_def using that m by simp
      moreover have "2 * c div (256 * m) = c div m div 128"
        by (simp add: zdiv_zmult2_eq [symmetric] mult.commute m less_imp_le)
      ultimately show ?thesis by simp
    qed
    then have split: "2 * c = b div 128 * (256 * m) + 2 * c mod (256 * m)"
      using div_mult_mod_eq [of "2 * c" "256 * m"] by simp
    have "2 * (a * (256 * m) + c) = (2 * a + b div 128) * (256 * m) + 2 * c mod (256 * m)"
      using split by (simp add: algebra_simps)
    then have "2 * (a * (256 * m) + c) mod (256 * (256 * m)) =
        ((2 * a + b div 128) * (256 * m) + 2 * c mod (256 * m)) mod (256 * m * 256)"
      by (simp add: mult.commute)
    also have "\<dots> = (256 * m) * (((2 * a + b div 128) * (256 * m) + 2 * c mod (256 * m)) div (256 * m) mod 256)
        + ((2 * a + b div 128) * (256 * m) + 2 * c mod (256 * m)) mod (256 * m)"
      using m by (subst zmod_zmult2_eq) simp_all
    also have "\<dots> = (256 * m) * ((2 * a + b div 128) mod 256) + 2 * c mod (256 * m)"
      using m by simp
    also have "(2 * a + b div 128) mod 256 = 2 * a mod 256 + b div 128"
    proof -
      have "0 \<le> b div 128" "b div 128 < 2" using that by linarith+
      moreover have "2 * a mod 256 = 2 * (a mod 128)" using mult_mod_right [of 2 a 128] by simp
      moreover have "0 \<le> a mod 128" "a mod 128 < 128" by simp_all
      ultimately have "(2 * a mod 256 + b div 128) mod 256 = 2 * a mod 256 + b div 128"
        by (intro mod_pos_pos_trivial) linarith+
      then show ?thesis by (simp only: mod_add_left_eq)
    qed
    finally show ?thesis unfolding c_def by (simp add: algebra_simps)
  qed
  have "be_int (shl_bytes (a # b # bs)) =
      (2 * uint a mod 256 + uint b div 128) * (256 * ?m) + be_int (shl_bytes (b # bs))"
    by (simp only: shl_bytes.simps be_int_Cons byte_shift_or length_shl_bytes length_Cons power_Suc)
  also have "\<dots> = 2 * (uint a * (256 * ?m) + (uint b * ?m + ?D)) mod (256 * (256 * ?m))"
    unfolding IH by (rule key [symmetric]) (use D b in simp_all)
  finally show ?case by (simp add: be_int_Cons)
qed simp

subsection \<open>CMAC as a CBC-MAC over words\<close>

text \<open>
  RFC 4493 on 128-bit words: a subkey is twice the block in the field, that is shifted left
  and, when the top bit was set, reduced by 0x87; the last block of the message is masked with
  the first subkey when it is complete, and padded and masked with the second otherwise.
\<close>

definition block_word :: "bytes \<Rightarrow> 128 word" where
  "block_word b = word_of_int (be_int b)"

definition word_block :: "128 word \<Rightarrow> bytes" where
  "word_block w = be_bytes 16 (uint w)"

definition gf_double :: "128 word \<Rightarrow> 128 word" where
  "gf_double x = (if bit x 127 then push_bit 1 x XOR 0x87 else push_bit 1 x)"

fun blocks16 :: "nat \<Rightarrow> bytes \<Rightarrow> bytes list" where
  "blocks16 0 m = [m]"
| "blocks16 (Suc n) m = (if length m \<le> 16 then [m] else take 16 m # blocks16 n (drop 16 m))"

definition cmac_ref :: "(bytes \<Rightarrow> bytes) \<Rightarrow> bytes \<Rightarrow> bytes" where
  "cmac_ref enc msg =
     (let K1 = gf_double (block_word (enc (replicate 16 0)));
          K2 = gf_double K1;
          bs = blocks16 (length msg) msg;
          l = last bs;
          masked = (if length l = 16 then xor_bytes l (word_block K1)
                    else xor_bytes (l @ [0x80] @ replicate (15 - length l) 0) (word_block K2))
      in foldl (\<lambda>x b. enc (xor_bytes x b)) (replicate 16 0) (butlast bs @ [masked]))"

lemma block_word_block: "block_word (word_block w) = w"
  using uint_lt2p [of w]
  by (simp add: block_word_def word_block_def be_int_be_bytes)

lemma word_block_word: "length b = 16 \<Longrightarrow> word_block (block_word b) = b"
proof -
  assume b: "length b = 16"
  then have "be_int b < 2 ^ 128" "0 \<le> be_int b" using be_int_bounds [of b] by simp_all
  then have "uint (block_word b) = be_int b"
    by (simp add: block_word_def uint_word_of_int)
  then show ?thesis using b by (simp add: word_block_def be_bytes_be_int)
qed

lemma length_word_block [simp]: "length (word_block w) = 16"
  by (simp add: word_block_def)

lemma uint_block_word: "length b = 16 \<Longrightarrow> uint (block_word b) = be_int b"
  using be_int_bounds [of b] by (simp add: block_word_def uint_word_of_int)

lemma top_bit_byte: "x AND 0x80 \<noteq> 0 \<longleftrightarrow> 128 \<le> uint x" for x :: byte
proof -
  have "x AND 0x80 = 0 \<longleftrightarrow> uint (x AND 0x80) = 0" by (simp add: uint_0_iff)
  also have "\<dots> \<longleftrightarrow> uint x < 128" by (simp add: unsigned_and_eq and_bit_byte)
  finally show ?thesis by auto
qed

lemma odd_div: "0 \<le> x \<Longrightarrow> x < 2 * p \<Longrightarrow> 0 < p \<Longrightarrow> odd (x div p) \<longleftrightarrow> p \<le> x" for x p :: int
  by (cases "p \<le> x") (simp_all add: div_pos_geq)

lemma top_bit_word: "bit x 127 \<longleftrightarrow> 2 ^ 127 \<le> uint x" for x :: "128 word"
  using odd_div [of "uint x" "2 ^ 127"] uint_lt2p [of x]
  bit_uint_iff [of x 127] bit_iff_odd [of "uint x" 127]
  by simp

lemma cmac_subkey_word:
  assumes l: "length l = 16"
  shows "cmac_subkey l = Inr (word_block (gf_double (block_word l)))"
proof -
  let ?w = "block_word l" and ?s = "shl_bytes l"
  have s: "shift_left l = Inr ?s" by (rule shift_left_shl [OF l])
  have ls: "length ?s = 16" using l by simp
  have "uint (push_bit 1 ?w) = 2 * be_int l mod 2 ^ 128"
    by (simp add: uint_word_ariths uint_block_word [OF l] mult.commute)
  then have shifted: "uint (push_bit 1 ?w) = be_int ?s" by (simp add: be_int_shl l)
  have "l = l ! 0 # tl l" using l by (cases l) auto
  then have be: "be_int l = uint (l ! 0) * 256 ^ 15 + be_int (tl l)" "length (tl l) = 15"
    using be_int_Cons [of "l ! 0" "tl l"] l by auto
  have "0 \<le> be_int (tl l)" "be_int (tl l) < 256 ^ 15"
    using be_int_bounds [of "tl l"] be(2) by simp_all
  then have "128 \<le> uint (l ! 0) \<longleftrightarrow> 2 ^ 127 \<le> be_int l" unfolding be(1) by auto
  then have top: "l ! 0 AND 0x80 \<noteq> 0 \<longleftrightarrow> bit ?w 127"
    by (simp add: top_bit_byte top_bit_word uint_block_word [OF l])
  have sw: "word_block (push_bit 1 ?w) = ?s"
    using ls by (simp only: word_block_def shifted be_bytes_be_int)
  have rb: "be_int CMAC_RB = 0x87" "length CMAC_RB = 16" by code_simp+
  have "be_int (xor_bytes ?s CMAC_RB) = uint (push_bit 1 ?w XOR 0x87)"
    by (simp only: be_int_xor_bytes ls rb shifted unsigned_xor_eq) simp
  then have "word_block (push_bit 1 ?w XOR 0x87) = xor_bytes ?s CMAC_RB"
    using ls rb by (metis be_bytes_be_int length_xor_bytes min.idem word_block_def)
  then show ?thesis
    using l ls rb(2) sw by (auto simp: cmac_subkey_def s py_index_def top gf_double_def)
qed

definition n_blocks :: "bytes \<Rightarrow> nat" where
  "n_blocks m = max 1 ((length m + 16 - 1) div 16)"

lemma n_blocks_Suc: "16 < length m \<Longrightarrow> n_blocks m = Suc (n_blocks (drop 16 m))"
  unfolding n_blocks_def length_drop by linarith

lemma blocks16_slices:
  "length m \<le> 16 * Suc k \<Longrightarrow> blocks16 k m =
     map (\<lambda>i. slice (i * 16) ((i + 1) * 16) m) [0..<n_blocks m - 1] @ [drop ((n_blocks m - 1) * 16) m]"
proof (induction k arbitrary: m)
  case 0
  then have "n_blocks m = 1" unfolding n_blocks_def by simp
  then show ?case by simp
next
  case (Suc k)
  show ?case
  proof (cases "length m \<le> 16")
    case True
    then have "n_blocks m = 1" unfolding n_blocks_def by simp
    then show ?thesis using True by simp
  next
    case False
    let ?j = "n_blocks (drop 16 m) - 1"
    have n: "n_blocks m - 1 = Suc ?j" using n_blocks_Suc [of m] False
      by (simp add: n_blocks_def)
    have sl: "slice (Suc i * 16) ((Suc i + 1) * 16) m = slice (i * 16) ((i + 1) * 16) (drop 16 m)" for i
      by (simp add: slice_def add.commute)
    have up: "[0..<Suc ?j] = 0 # map Suc [0..<?j]" by (simp add: upt_conv_Cons map_Suc_upt del: upt_Suc)
    have "blocks16 (Suc k) m = take 16 m # blocks16 k (drop 16 m)" using False by simp
    also have "blocks16 k (drop 16 m) = map (\<lambda>i. slice (i * 16) ((i + 1) * 16) (drop 16 m)) [0..<?j]
        @ [drop (?j * 16) (drop 16 m)]"
      using Suc.prems by (intro Suc.IH) simp
    finally show ?thesis
      unfolding n up list.map map_map o_def sl by (simp add: slice_def add.commute)
  qed
qed

lemma cmac_loop_fold:
  assumes "block_cipher (cl_aes lib)" "length key = 16" "length x = 16"
    "\<forall>i\<in>set is. length (slice (i * 16) ((i + 1) * 16) msg) = 16"
  shows "cmac_loop lib key msg is x = Inr (foldl (\<lambda>x b. cl_aes lib key (xor_bytes x b)) x
      (map (\<lambda>i. slice (i * 16) ((i + 1) * 16) msg) is))
    \<and> length (foldl (\<lambda>x b. cl_aes lib key (xor_bytes x b)) x
      (map (\<lambda>i. slice (i * 16) ((i + 1) * 16) msg) is)) = 16"
  using assms(3,4)
proof (induction "is" arbitrary: x)
  case (Cons i "is")
  let ?y = "xor_bytes x (slice (i * 16) ((i + 1) * 16) msg)"
  have "length ?y = 16" "length x = length (slice (i * 16) ((i + 1) * 16) msg)"
    using Cons.prems by auto
  moreover from this have "length (cl_aes lib key ?y) = 16"
    using assms by (auto intro: block_cipherD)
  ultimately show ?case using Cons.IH Cons.prems assms(2)
    by (simp only: cmac_loop.simps xor_strict_ok bindR.simps aes_ecb_ok list.map foldl_Cons) simp
qed simp

lemma full_block:
  "0 < n \<and> n mod 16 = 0 \<longleftrightarrow> n - (max 1 ((n + 16 - 1) div 16) - 1) * 16 = 16" for n :: nat
proof -
  obtain q r where n: "n = 16 * q + r" "r < 16"
    by (metis mod_less_divisor mult_div_mod_eq zero_less_numeral)
  show ?thesis
  proof (cases "r = 0")
    case True
    then have "(n + 16 - 1) div 16 = q" "n mod 16 = 0" using n by auto
    then show ?thesis using n True by (cases q) auto
  next
    case False
    then have "(n + 16 - 1) div 16 = Suc q" "n mod 16 = r" using n by auto
    then show ?thesis using n False by auto
  qed
qed

lemma mask_last:
  assumes "length t \<le> 16" "length a = 16" "length b = 16"
  shows "(if length t = 16 then xor_strict t a
      else xor_strict (take 16 (t @ [0x80] @ replicate (16 - 1 - length t) 0)) b) =
    Inr (if length t = 16 then xor_bytes t a
      else xor_bytes (t @ [0x80] @ replicate (15 - length t) 0) b)"
proof (cases "length t = 16")
  case False
  then have "length (t @ [0x80] @ replicate (16 - 1 - length t) 0) = 16" using assms(1) by simp
  then have "take 16 (t @ [0x80] @ replicate (16 - 1 - length t) 0)
      = t @ [0x80] @ replicate (15 - length t) 0" by simp
  with False assms show ?thesis by simp
qed (use assms in simp)

lemma aes_cmac_ref:
  assumes b: "block_cipher (cl_aes lib)" and k: "length key = 16"
  shows "aes_cmac lib key msg = Inr (cmac_ref (cl_aes lib key) msg)"
    and "length (cmac_ref (cl_aes lib key) msg) = 16"
proof -
  let ?z = "replicate 16 (0 :: byte)" and ?n = "n_blocks msg"
  let ?f = "\<lambda>x b. cl_aes lib key (xor_bytes x b)"
  let ?is = "map (\<lambda>i. slice (i * 16) ((i + 1) * 16) msg) [0..<?n - 1]"
  let ?tail = "drop ((?n - 1) * 16) msg"
  define L where "L = cl_aes lib key ?z"
  have L: "length L = 16" using b k by (simp add: L_def block_cipherD)
  let ?k1 = "word_block (gf_double (block_word L))"
  let ?k2 = "word_block (gf_double (gf_double (block_word L)))"
  let ?m = "if length ?tail = 16 then xor_bytes ?tail ?k1
    else xor_bytes (?tail @ [0x80] @ replicate (15 - length ?tail) 0) ?k2"
  have n: "(?n - 1) * 16 \<le> length msg" "length msg \<le> ?n * 16" "0 < ?n"
    unfolding n_blocks_def by linarith+
  have tail: "length ?tail \<le> 16" using n by (simp add: diff_mult_distrib)
  have full: "0 < length msg \<and> length msg mod 16 = 0 \<longleftrightarrow> length ?tail = 16"
    using full_block [of "length msg"] by (simp add: n_blocks_def)
  have bs: "blocks16 (length msg) msg = ?is @ [?tail]"
    by (rule blocks16_slices) simp
  have "\<forall>i\<in>set [0..<?n - 1]. length (slice (i * 16) ((i + 1) * 16) msg) = 16"
    using n by (auto simp: length_slice)
  then have loop: "cmac_loop lib key msg [0..<?n - 1] ?z = Inr (foldl ?f ?z ?is)"
      "length (foldl ?f ?z ?is) = 16"
    using cmac_loop_fold [OF b k, of ?z "[0..<?n - 1]" msg] by simp_all
  have m: "length ?m = 16" using tail by auto
  have ref: "cmac_ref (cl_aes lib key) msg = cl_aes lib key (xor_bytes (foldl ?f ?z ?is) ?m)"
    by (simp add: cmac_ref_def bs L_def [symmetric] Let_def)
  show "length (cmac_ref (cl_aes lib key) msg) = 16"
    unfolding ref using m loop by (intro block_cipherD [OF b k]) simp
  have mask: "(if 0 < length msg \<and> length msg mod 16 = 0 then xor_strict ?tail ?k1
      else xor_strict (take 16 (?tail @ [0x80] @ replicate (16 - 1 - length ?tail) 0)) ?k2) = Inr ?m"
    unfolding full by (rule mask_last [OF tail]) simp_all
  show "aes_cmac lib key msg = Inr (cmac_ref (cl_aes lib key) msg)"
    unfolding aes_cmac_def mesh_validate_key_ok [OF k] bindR.simps Let_def n_blocks_def [symmetric]
      aes_ecb_ok [OF k length_replicate] L_def [symmetric] cmac_subkey_word [OF L]
      cmac_subkey_word [OF length_word_block] block_word_block mask loop(1) ref
    using m loop(2) k by (simp add: aes_ecb_ok)
qed

subsection \<open>Sizes of the derived values\<close>

lemma aes_cmac_ok:
  assumes "block_cipher (cl_aes lib)" "length key = 16"
  obtains m where "aes_cmac lib key msg = Inr m" "length m = 16"
  using aes_cmac_ref [OF assms] by blast

lemma s1_ok:
  assumes "block_cipher (cl_aes lib)" "m \<noteq> []"
  obtains salt where "s1 lib m = Inr salt" "length salt = 16"
  using aes_cmac_ok [OF assms(1), of "replicate 16 0" m] assms(2) by (auto simp: s1_def)

lemma labels_nonempty: "smk2 \<noteq> []" "smk3 \<noteq> []" "smk4 \<noteq> []"
  by (simp_all add: smk2_def smk3_def smk4_def)

lemma k1_ok:
  assumes b: "block_cipher (cl_aes lib)" and "length salt = 16"
  obtains k where "k1 lib n salt p = Inr k" "length k = 16"
proof -
  obtain t where t: "aes_cmac lib salt n = Inr t" "length t = 16" by (rule aes_cmac_ok [OF assms])
  obtain k where "aes_cmac lib t p = Inr k" "length k = 16" by (rule aes_cmac_ok [OF b t(2)])
  with t assms that show ?thesis by (simp add: k1_def mesh_validate_key_ok)
qed

lemma k2_ok:
  assumes b: "block_cipher (cl_aes lib)" and n: "length n = 16"
  obtains nid ek pk where "k2 lib n p = Inr (nid, ek, pk)" "0 \<le> nid" "nid < 128"
    "length ek = 16" "length pk = 16"
proof -
  obtain salt where s: "s1 lib smk2 = Inr salt" "length salt = 16"
    by (rule s1_ok [OF b labels_nonempty(1)])
  obtain t where t: "aes_cmac lib salt n = Inr t" "length t = 16" by (rule aes_cmac_ok [OF b s(2)])
  obtain t1 where t1: "aes_cmac lib t (p @ [0x01]) = Inr t1" "length t1 = 16"
    by (rule aes_cmac_ok [OF b t(2)])
  obtain t2 where t2: "aes_cmac lib t (t1 @ p @ [0x02]) = Inr t2" "length t2 = 16"
    by (rule aes_cmac_ok [OF b t(2)])
  obtain t3 where t3: "aes_cmac lib t (t2 @ p @ [0x03]) = Inr t3" "length t3 = 16"
    by (rule aes_cmac_ok [OF b t(2)])
  have "k2 lib n p = Inr (uint (t1 ! 15) AND 0x7F, t2, t3)"
    using n s t t1 t2 t3 by (simp add: k2_def mesh_validate_key_ok py_index_def)
  with t2 t3 that show ?thesis by (simp add: and_mask_mod)
qed

lemma k3_ok:
  assumes b: "block_cipher (cl_aes lib)" and n: "length n = 16"
  obtains m where "k3 lib n = Inr m" "length m = 8"
proof -
  obtain salt where s: "s1 lib smk3 = Inr salt" "length salt = 16"
    by (rule s1_ok [OF b labels_nonempty(2)])
  obtain t where t: "aes_cmac lib salt n = Inr t" "length t = 16" by (rule aes_cmac_ok [OF b s(2)])
  obtain m where m: "aes_cmac lib t id64_1 = Inr m" "length m = 16" by (rule aes_cmac_ok [OF b t(2)])
  show ?thesis using n s t m that by (simp add: k3_def mesh_validate_key_ok)
qed

lemma k4_ok:
  assumes b: "block_cipher (cl_aes lib)" and n: "length n = 16"
  obtains aid where "k4 lib n = Inr aid" "0 \<le> aid" "aid < 64"
proof -
  obtain salt where s: "s1 lib smk4 = Inr salt" "length salt = 16"
    by (rule s1_ok [OF b labels_nonempty(3)])
  obtain t where t: "aes_cmac lib salt n = Inr t" "length t = 16" by (rule aes_cmac_ok [OF b s(2)])
  obtain m where m: "aes_cmac lib t id6_1 = Inr m" "length m = 16" by (rule aes_cmac_ok [OF b t(2)])
  have "k4 lib n = Inr (uint (m ! 15) AND 0x3F)"
    using n s t m by (simp add: k4_def mesh_validate_key_ok py_index_def)
  with that show ?thesis by (simp add: and_mask_mod)
qed

subsection \<open>Authenticated encryption\<close>

text \<open>
  What the mesh layers rely on: sealing succeeds and lengthens the data by the tag, opening
  undoes it, and nothing else is opened.
\<close>

locale aead =
  fixes seal :: "bytes \<Rightarrow> bytes \<Rightarrow> bytes \<Rightarrow> bytes res"
    and opn :: "bytes \<Rightarrow> bytes \<Rightarrow> bytes \<Rightarrow> bytes res"
    and usable :: "bytes \<Rightarrow> bytes \<Rightarrow> bool"
    and tag :: nat
  assumes seal_ok: "usable k n \<Longrightarrow> length p \<le> 65535 \<Longrightarrow>
      \<exists>c. seal k n p = Inr c \<and> length c = length p + tag \<and> opn k n c = Inr p"
    and opn_cases: "usable k n \<Longrightarrow> length c \<le> 65535 \<Longrightarrow> opn k n c = Inl CryptoError
      \<or> (\<exists>p. opn k n c = Inr p \<and> seal k n p = Inr c \<and> length c = length p + tag)"
begin

lemma opn_seal:
  "usable k n \<Longrightarrow> length p \<le> 65535 \<Longrightarrow> seal k n p = Inr c \<Longrightarrow> opn k n c = Inr p"
  using seal_ok [of k n p] by auto

lemma seal_length:
  "usable k n \<Longrightarrow> length p \<le> 65535 \<Longrightarrow> seal k n p = Inr c \<Longrightarrow> length c = length p + tag"
  using seal_ok [of k n p] by auto

lemma seal_inj:
  "usable k n \<Longrightarrow> length p \<le> 65535 \<Longrightarrow> length q \<le> 65535 \<Longrightarrow>
   seal k n p = Inr c \<Longrightarrow> seal k n q = Inr c \<Longrightarrow> p = q"
  using opn_seal [of k n p c] opn_seal [of k n q c] by simp

lemma opn_only_sealed:
  "usable k n \<Longrightarrow> length c \<le> 65535 \<Longrightarrow> opn k n c = Inr p \<Longrightarrow>
   seal k n p = Inr c \<and> length c = length p + tag"
  using opn_cases [of k n c] by auto

lemma opn_short: "usable k n \<Longrightarrow> length c < tag \<Longrightarrow> length c \<le> 65535 \<Longrightarrow> opn k n c = Inl CryptoError"
  using opn_cases [of k n c] by (metis not_add_less2)

lemma opn_inj:
  "usable k n \<Longrightarrow> length c \<le> 65535 \<Longrightarrow> length d \<le> 65535 \<Longrightarrow>
   opn k n c = Inr p \<Longrightarrow> opn k n d = Inr p \<Longrightarrow> c = d"
  by (metis opn_only_sealed sum.inject(2))

end

definition ccm_usable :: "crypto_lib \<Rightarrow> nat \<Rightarrow> bytes \<Rightarrow> bytes \<Rightarrow> bool" where
  "ccm_usable lib tag k n \<longleftrightarrow> ccm_ok lib \<and> (tag = 4 \<or> tag = 8) \<and> length k = 16 \<and> length n = 13"

lemma ccm_usable_laws:
  assumes "ccm_usable lib tag k n"
  shows "(\<forall>p. length p \<le> 65535 \<longrightarrow> (\<exists>c. cl_ccm_enc lib tag k n p = Inr c
        \<and> length c = length p + tag \<and> cl_ccm_dec lib tag k n c = Inr p))
     \<and> (\<forall>c. length c \<le> 65535 \<longrightarrow> cl_ccm_dec lib tag k n c = Inl InvalidTag
        \<or> (\<exists>p. cl_ccm_dec lib tag k n c = Inr p \<and> cl_ccm_enc lib tag k n p = Inr c
             \<and> length c = length p + tag))"
proof -
  have "ccm_ok lib" and c: "(tag = 4 \<or> tag = 8) \<and> length k = 16 \<and> length n = 13"
    using assms by (simp_all add: ccm_usable_def)
  then show ?thesis
    using \<open>ccm_ok lib\<close> [unfolded ccm_ok_def, THEN spec [of _ tag], THEN spec [of _ k],
        THEN spec [of _ n], THEN mp, OF c] by simp
qed

lemma mesh_ccm_usable:
  assumes "ccm_usable lib tag k n"
  shows "mesh_aes_ccm_encrypt lib k n p tag = cl_ccm_enc lib tag k n p"
    and "mesh_aes_ccm_decrypt lib k n p tag = (case cl_ccm_dec lib tag k n p of
               Inl e \<Rightarrow> if isinstance e InvalidTag then Inl CryptoError else Inl e
             | Inr p \<Rightarrow> Inr p)"
  using assms
  by (auto simp: mesh_aes_ccm_encrypt_def mesh_aes_ccm_decrypt_def ccm_usable_def mesh_validate_key_ok)

interpretation ccm: aead "\<lambda>k n p. mesh_aes_ccm_encrypt lib k n p tag"
  "\<lambda>k n c. mesh_aes_ccm_decrypt lib k n c tag" "ccm_usable lib tag" tag for lib tag
proof
  fix k n p :: bytes
  assume u: "ccm_usable lib tag k n" and len: "length p \<le> 65535"
  with ccm_usable_laws [OF u] obtain c where "cl_ccm_enc lib tag k n p = Inr c"
    "length c = length p + tag" "cl_ccm_dec lib tag k n c = Inr p" by blast
  then show "\<exists>c. mesh_aes_ccm_encrypt lib k n p tag = Inr c \<and> length c = length p + tag
      \<and> mesh_aes_ccm_decrypt lib k n c tag = Inr p"
    by (simp add: mesh_ccm_usable [OF u])
next
  fix k n c :: bytes
  assume u: "ccm_usable lib tag k n" and len: "length c \<le> 65535"
  with ccm_usable_laws [OF u] have "cl_ccm_dec lib tag k n c = Inl InvalidTag
      \<or> (\<exists>p. cl_ccm_dec lib tag k n c = Inr p \<and> cl_ccm_enc lib tag k n p = Inr c
        \<and> length c = length p + tag)" by blast
  then show "mesh_aes_ccm_decrypt lib k n c tag = Inl CryptoError
      \<or> (\<exists>p. mesh_aes_ccm_decrypt lib k n c tag = Inr p \<and> mesh_aes_ccm_encrypt lib k n p tag = Inr c
        \<and> length c = length p + tag)"
    by (auto simp: mesh_ccm_usable [OF u])
qed

subsection \<open>Properties\<close>

text \<open>A package for concrete runs: the tag is a polynomial over the key, the nonce and the
  data, and the data is left in the clear.\<close>

definition demo_tag :: "bytes \<Rightarrow> bytes \<Rightarrow> bytes \<Rightarrow> byte" where
  "demo_tag k n p = fold (\<lambda>b a. a * 3 + b) (k @ n @ p) 7"

definition demo_lib :: crypto_lib where
  "demo_lib = \<lparr>cl_aes = demo_aes,
     cl_ccm_enc = (\<lambda>tag k n p. Inr (p @ replicate tag (demo_tag k n p))),
     cl_ccm_dec = (\<lambda>tag k n c.
       let p = take (length c - tag) c in
       if tag \<le> length c \<and> drop (length c - tag) c = replicate tag (demo_tag k n p)
       then Inr p else Inl InvalidTag)\<rparr>"

lemma demo_lib_ok: "crypto_lib_ok demo_lib"
proof -
  have "ccm_ok demo_lib"
    unfolding ccm_ok_def
    by (auto simp: demo_lib_def Let_def) (metis append_take_drop_id)+
  then show ?thesis by (simp add: crypto_lib_ok_def demo_lib_def demo_aes_block_cipher)
qed

text \<open>C9: \<^verbatim>\<open>aes_cmac\<close> is the CMAC of RFC 4493 for every message length, the empty message and
  full last blocks included: the subkeys are the field doublings of the encrypted zero block,
  and the tag is the CBC-MAC over the blocks with the last one masked.  A key of the wrong size
  raises CryptoError.\<close>

theorem aes_cmac_rfc4493:
  assumes "block_cipher (cl_aes lib)"
  shows "aes_cmac lib key msg =
    (if length key = 16 then Inr (cmac_ref (cl_aes lib key) msg) else Inl CryptoError)"
  using aes_cmac_ref(1) [OF assms] by (simp add: aes_cmac_def mesh_validate_key_def)

theorem aes_cmac_rfc4493_witness:
  "aes_cmac demo_lib (replicate 16 0xC1) [1, 2, 3] = Inr (cmac_ref (demo_aes (replicate 16 0xC1)) [1, 2, 3])
   \<and> aes_cmac demo_lib [] [1] = Inl CryptoError"
proof -
  have "block_cipher (cl_aes demo_lib)" by (simp add: demo_lib_def demo_aes_block_cipher)
  from aes_cmac_rfc4493 [OF this, of "replicate 16 0xC1"] aes_cmac_rfc4493 [OF this, of "[]"]
  show ?thesis by (simp add: demo_lib_def)
qed

end
