(* ===== verification/Utf8.thy ===== *)
theory Utf8
  imports Prelude
begin

text \<open>
  Python's \<^verbatim>\<open>str.encode("utf-8")\<close> and \<^verbatim>\<open>bytes.decode("utf-8", errors="replace")\<close>,
  which the data point codec uses.  A \<^verbatim>\<open>str\<close> is the list of its code points.  The decoder
  replaces every maximal invalid prefix by U+FFFD, as CPython does.
\<close>

type_synonym pystr = "int list"

definition code_point :: "int \<Rightarrow> bool" where
  "code_point c \<longleftrightarrow> 0 \<le> c \<and> c < 0x110000"

definition surrogate :: "int \<Rightarrow> bool" where
  "surrogate c \<longleftrightarrow> 0xD800 \<le> c \<and> c \<le> 0xDFFF"

definition scalar_value :: "int \<Rightarrow> bool" where
  "scalar_value c \<longleftrightarrow> code_point c \<and> \<not> surrogate c"

definition utf8_char :: "int \<Rightarrow> bytes" where
  "utf8_char c = map word_of_int
     (if c < 0x80 then [c]
      else if c < 0x800 then [0xC0 + c div 64, 0x80 + c mod 64]
      else if c < 0x10000 then [0xE0 + c div 4096, 0x80 + c div 64 mod 64, 0x80 + c mod 64]
      else [0xF0 + c div 262144, 0x80 + c div 4096 mod 64, 0x80 + c div 64 mod 64, 0x80 + c mod 64])"

fun utf8_encode :: "pystr \<Rightarrow> bytes res" where
  "utf8_encode [] = Inr []"
| "utf8_encode (c # cs) =
     (if surrogate c then Inl UnicodeEncodeError
      else bindR (utf8_encode cs) (\<lambda>r. Inr (utf8_char c @ r)))"

definition continuation :: "int \<Rightarrow> bool" where
  "continuation c \<longleftrightarrow> 0x80 \<le> c \<and> c < 0xC0"

definition second_ok :: "int \<Rightarrow> int \<Rightarrow> bool" where
  "second_ok lead c \<longleftrightarrow> continuation c
     \<and> \<not> (lead = 0xE0 \<and> c < 0xA0) \<and> \<not> (lead = 0xED \<and> c \<ge> 0xA0)
     \<and> \<not> (lead = 0xF0 \<and> c < 0x90) \<and> \<not> (lead = 0xF4 \<and> c \<ge> 0x90)"

text \<open>One step of the decoder on the bytes as integers: the code point and how many bytes it
  consumes.\<close>

definition utf8_step :: "int \<Rightarrow> int list \<Rightarrow> int \<times> nat" where
  "utf8_step c cs =
    (if c < 0x80 then (c, 1)
     else if c < 0xC2 \<or> 0xF5 \<le> c then (0xFFFD, 1)
     else if c < 0xE0 then
       (case cs of
          c2 # _ \<Rightarrow> if continuation c2 then ((c - 0xC0) * 64 + (c2 - 0x80), 2) else (0xFFFD, 1)
        | [] \<Rightarrow> (0xFFFD, 1))
     else if c < 0xF0 then
       (case cs of
          [] \<Rightarrow> (0xFFFD, 1)
        | c2 # cs' \<Rightarrow>
            if \<not> second_ok c c2 then (0xFFFD, 1)
            else (case cs' of
              [] \<Rightarrow> (0xFFFD, 2)
            | c3 # _ \<Rightarrow>
                if \<not> continuation c3 then (0xFFFD, 2)
                else ((c - 0xE0) * 4096 + (c2 - 0x80) * 64 + (c3 - 0x80), 3)))
     else
       (case cs of
          [] \<Rightarrow> (0xFFFD, 1)
        | c2 # cs' \<Rightarrow>
            if \<not> second_ok c c2 then (0xFFFD, 1)
            else (case cs' of
              [] \<Rightarrow> (0xFFFD, 2)
            | c3 # cs'' \<Rightarrow>
                if \<not> continuation c3 then (0xFFFD, 2)
                else (case cs'' of
                  [] \<Rightarrow> (0xFFFD, 3)
                | c4 # _ \<Rightarrow>
                    if \<not> continuation c4 then (0xFFFD, 3)
                    else ((c - 0xF0) * 262144 + (c2 - 0x80) * 4096
                          + (c3 - 0x80) * 64 + (c4 - 0x80), 4)))))"

lemma utf8_step_pos: "0 < snd (utf8_step c cs)"
  by (simp add: utf8_step_def split: list.splits)

function utf8_points :: "int list \<Rightarrow> pystr" where
  "utf8_points [] = []"
| "utf8_points (c # cs) =
     (let (p, n) = utf8_step c cs in p # utf8_points (drop n (c # cs)))"
  by pat_completeness auto
termination
proof (relation "measure length")
  fix c :: int and cs :: "int list" and x :: "int \<times> nat" and p n
  assume "x = utf8_step c cs" "(p, n) = x"
  then have "0 < n" using utf8_step_pos [of c cs] by (metis snd_conv)
  then show "(drop n (c # cs), c # cs) \<in> measure length" by simp
qed simp

declare utf8_points.simps(2) [simp del]

definition utf8_decode_replace :: "bytes \<Rightarrow> pystr" where
  "utf8_decode_replace bs = utf8_points (map uint bs)"

lemma utf8_step_multi:
  "0xC2 \<le> a \<Longrightarrow> a < 0xE0 \<Longrightarrow> continuation b \<Longrightarrow>
     utf8_step a (b # r) = ((a - 0xC0) * 64 + (b - 0x80), 2)"
  "0xE0 \<le> a \<Longrightarrow> a < 0xF0 \<Longrightarrow> second_ok a b \<Longrightarrow> continuation c \<Longrightarrow>
     utf8_step a (b # c # r) = ((a - 0xE0) * 4096 + (b - 0x80) * 64 + (c - 0x80), 3)"
  "0xF0 \<le> a \<Longrightarrow> a < 0xF5 \<Longrightarrow> second_ok a b \<Longrightarrow> continuation c \<Longrightarrow> continuation d \<Longrightarrow>
     utf8_step a (b # c # d # r) =
       ((a - 0xF0) * 262144 + (b - 0x80) * 4096 + (c - 0x80) * 64 + (d - 0x80), 4)"
  by (simp_all add: utf8_step_def)

lemma uint_byte_id: "0x80 \<le> x \<Longrightarrow> x < 0x100 \<Longrightarrow> uint (word_of_int x :: byte) = x"
  unfolding uint_byte_of_int by simp

lemma mod_64_bounds: "0 \<le> x mod 64" "x mod 64 < 64" for x :: int
  by simp_all

text \<open>The steps over the digits of a code point, without divisions.\<close>

lemma step_2:
  assumes "0x80 \<le> y * 64 + l" "y < 32" "0 \<le> l" "l < 64"
  shows "utf8_step (0xC0 + y) ((0x80 + l) # r) = (y * 64 + l, 2)"
proof -
  have "2 \<le> y" using assms by linarith
  then show ?thesis using assms by (subst utf8_step_multi) (auto simp: continuation_def)
qed

lemma step_3:
  assumes "0x800 \<le> y * 4096 + m * 64 + l" "\<not> surrogate (y * 4096 + m * 64 + l)"
    "0 \<le> y" "y < 16" "0 \<le> m" "m < 64" "0 \<le> l" "l < 64"
  shows "utf8_step (0xE0 + y) ((0x80 + m) # (0x80 + l) # r) = (y * 4096 + m * 64 + l, 3)"
proof -
  have "y = 0 \<Longrightarrow> 32 \<le> m" "y = 13 \<Longrightarrow> m < 32"
    using assms unfolding surrogate_def by linarith+
  then have "second_ok (0xE0 + y) (0x80 + m)"
    using assms by (auto simp: second_ok_def continuation_def)
  then show ?thesis using assms by (subst utf8_step_multi) (auto simp: continuation_def)
qed

lemma step_4:
  assumes "0x10000 \<le> y * 262144 + n * 4096 + m * 64 + l" "y * 262144 + n * 4096 + m * 64 + l < 0x110000"
    "0 \<le> y" "0 \<le> n" "n < 64" "0 \<le> m" "m < 64" "0 \<le> l" "l < 64"
  shows "utf8_step (0xF0 + y) ((0x80 + n) # (0x80 + m) # (0x80 + l) # r) =
    (y * 262144 + n * 4096 + m * 64 + l, 4)"
proof -
  have "y = 0 \<Longrightarrow> 16 \<le> n" "y = 4 \<Longrightarrow> n < 16" "y < 5"
    using assms by linarith+
  then have "second_ok (0xF0 + y) (0x80 + n)"
    using assms by (auto simp: second_ok_def continuation_def)
  then show ?thesis using assms \<open>y < 5\<close> by (subst utf8_step_multi) (auto simp: continuation_def)
qed

lemma digits_64:
  fixes c :: int
  shows "c = c div 64 * 64 + c mod 64"
    and "c = c div 4096 * 4096 + c div 64 mod 64 * 64 + c mod 64"
    and "c = c div 262144 * 262144 + c div 4096 mod 64 * 4096 + c div 64 mod 64 * 64 + c mod 64"
proof -
  let ?a = "c div 64"
  have d: "c div 4096 = ?a div 64" "c div 262144 = ?a div 64 div 64"
    by (simp_all flip: zdiv_zmult2_eq)
  have 1: "c = ?a * 64 + c mod 64" by (rule div_mult_mod_eq [symmetric])
  have 2: "?a = ?a div 64 * 64 + ?a mod 64" by (rule div_mult_mod_eq [symmetric])
  have 3: "?a div 64 = ?a div 64 div 64 * 64 + ?a div 64 mod 64"
    by (rule div_mult_mod_eq [symmetric])
  have gen: "x = y * 64 + l \<Longrightarrow> y = z * 64 + m \<Longrightarrow> x = z * 4096 + m * 64 + l"
    "x = y * 64 + l \<Longrightarrow> y = z * 64 + m \<Longrightarrow> z = w * 64 + n
      \<Longrightarrow> x = w * 262144 + n * 4096 + m * 64 + l" for x y z w l m n :: int
    by simp_all
  show "c = ?a * 64 + c mod 64" by (rule 1)
  show "c = c div 4096 * 4096 + ?a mod 64 * 64 + c mod 64" unfolding d by (rule gen(1) [OF 1 2])
  show "c = c div 262144 * 262144 + c div 4096 mod 64 * 4096 + ?a mod 64 * 64 + c mod 64"
    unfolding d by (rule gen(2) [OF 1 2 3])
qed

lemma div_bounds:
  fixes c :: int
  shows "0 \<le> c \<Longrightarrow> c < 0x800 \<Longrightarrow> 0 \<le> c div 64 \<and> c div 64 < 32"
    and "0 \<le> c \<Longrightarrow> c < 0x10000 \<Longrightarrow> 0 \<le> c div 4096 \<and> c div 4096 < 16"
    and "0 \<le> c \<Longrightarrow> c < 0x110000 \<Longrightarrow> 0 \<le> c div 262144 \<and> c div 262144 < 5"
  by (simp_all add: pos_imp_zdiv_nonneg_iff div_less_iff_less_mult)

lemma scalar_step:
  assumes "scalar_value c" "map uint (utf8_char c) = d # ds"
  shows "utf8_step d (ds @ r) = (c, Suc (length ds))"
proof -
  have b: "0 \<le> c" "c < 0x110000" "\<not> surrogate c"
    using assms by (auto simp: scalar_value_def code_point_def)
  let ?l = "c mod 64" and ?m = "c div 64 mod 64" and ?n = "c div 4096 mod 64"
  have l: "uint (word_of_int (0x80 + x mod 64) :: byte) = 0x80 + x mod 64" for x :: int
    using mod_64_bounds [of x] by (intro uint_byte_id) linarith+
  consider "c < 0x80" | "0x80 \<le> c" "c < 0x800" | "0x800 \<le> c" "c < 0x10000" | "0x10000 \<le> c"
    by linarith
  then show ?thesis
  proof cases
    case 1
    with b assms(2) have "d = c" "ds = []" by (auto simp: utf8_char_def uint_byte_of_int simp del: of_int_add)
    with 1 show ?thesis by (simp add: utf8_step_def)
  next
    case 2
    then have u: "utf8_char c = [word_of_int (0xC0 + c div 64), word_of_int (0x80 + ?l)]"
      by (simp add: utf8_char_def)
    have y: "c div 64 < 32" "0 \<le> c div 64" using div_bounds(1) 2 b by simp_all
    have "uint (word_of_int (0xC0 + c div 64) :: byte) = 0xC0 + c div 64"
      using y by (intro uint_byte_id) linarith+
    with assms(2) have "d = 0xC0 + c div 64" "ds = [0x80 + ?l]"
      unfolding u list.map l by (simp_all only: list.inject)
    moreover have "utf8_step (0xC0 + c div 64) ((0x80 + ?l) # r) = (c, 2)"
      using step_2 [of "c div 64" ?l r] y(1) mod_64_bounds [of c] 2 digits_64(1) [of c] by metis
    ultimately show ?thesis by simp
  next
    case 3
    then have u: "utf8_char c = [word_of_int (0xE0 + c div 4096), word_of_int (0x80 + ?m),
        word_of_int (0x80 + ?l)]"
      by (simp add: utf8_char_def)
    have y: "0 \<le> c div 4096" "c div 4096 < 16" using div_bounds(2) 3 b by simp_all
    have "uint (word_of_int (0xE0 + c div 4096) :: byte) = 0xE0 + c div 4096"
      using y by (intro uint_byte_id) linarith+
    with assms(2) have "d = 0xE0 + c div 4096" "ds = [0x80 + ?m, 0x80 + ?l]"
      unfolding u list.map l by (simp_all only: list.inject)
    moreover have "utf8_step (0xE0 + c div 4096) ((0x80 + ?m) # (0x80 + ?l) # r) = (c, 3)"
      using step_3 [of "c div 4096" ?m ?l r, folded digits_64(2)] y mod_64_bounds b(3) 3(1) by blast
    ultimately show ?thesis by simp
  next
    case 4
    then have u: "utf8_char c = [word_of_int (0xF0 + c div 262144), word_of_int (0x80 + ?n),
        word_of_int (0x80 + ?m), word_of_int (0x80 + ?l)]"
      by (simp add: utf8_char_def)
    have y: "0 \<le> c div 262144" "c div 262144 < 5" using div_bounds(3) b by simp_all
    have "uint (word_of_int (0xF0 + c div 262144) :: byte) = 0xF0 + c div 262144"
      using y by (intro uint_byte_id) linarith+
    with assms(2) have "d = 0xF0 + c div 262144" "ds = [0x80 + ?n, 0x80 + ?m, 0x80 + ?l]"
      unfolding u list.map l by (simp_all only: list.inject)
    moreover have "utf8_step (0xF0 + c div 262144) ((0x80 + ?n) # (0x80 + ?m) # (0x80 + ?l) # r) = (c, 4)"
      using step_4 [of "c div 262144" ?n ?m ?l r, folded digits_64(3)] y mod_64_bounds b(2) 4 by blast
    ultimately show ?thesis by simp
  qed
qed

lemma utf8_char_nonempty: "utf8_char c \<noteq> []"
  by (simp add: utf8_char_def)

lemma utf8_roundtrip:
  "list_all code_point s \<Longrightarrow> utf8_encode s = Inr bs \<Longrightarrow> utf8_decode_replace bs = s"
proof (induction s arbitrary: bs)
  case (Cons c s)
  then obtain r where r: "utf8_encode s = Inr r" and bs: "bs = utf8_char c @ r"
    and sv: "scalar_value c"
    by (auto simp: res_simps scalar_value_def split: if_splits)
  obtain d ds where d: "map uint (utf8_char c) = d # ds"
    using utf8_char_nonempty [of c] by (cases "utf8_char c") auto
  have "utf8_decode_replace bs = utf8_points (d # (ds @ map uint r))"
    using d by (simp add: utf8_decode_replace_def bs)
  also have "\<dots> = c # utf8_points (map uint r)"
    by (simp add: utf8_points.simps(2) scalar_step [OF sv d])
  finally show ?case using Cons r by (simp add: utf8_decode_replace_def)
qed (simp add: utf8_decode_replace_def)

end
