(* ===== verification/Telink_Protocol.thy ===== *)
theory Telink_Protocol
  imports Telink_Crypto Utf8
begin

text \<open>
  \<^verbatim>\<open>lib/tuya_ble_mesh/protocol.py\<close>: the Telink packets.  Command packets are
  sequence, truncated MAC and encrypted payload; notifications carry a five-byte header;
  data points are type-length-value records, in the standard form (two length bytes) and
  the compact form (one).  Shown: what the encoders accept and produce, that the decoders
  undo them, and that a decoder accepts a packet only when its MAC is the computed one.
\<close>

subsection \<open>Constants\<close>

definition TELINK_VENDOR_ID :: bytes where "TELINK_VENDOR_ID = [0x01, 0x10]"

definition COMMAND_PACKET_SIZE :: nat where "COMMAND_PACKET_SIZE = 20"
definition PAYLOAD_SIZE :: nat where "PAYLOAD_SIZE = 15"
definition SEQUENCE_SIZE :: nat where "SEQUENCE_SIZE = 3"
definition CHECKSUM_SIZE :: nat where "CHECKSUM_SIZE = 2"
definition MAC_BYTES_SIZE :: nat where "MAC_BYTES_SIZE = 6"
definition MAX_PARAM_LEN :: nat where
  "MAX_PARAM_LEN = PAYLOAD_SIZE - 2 - 1 - length TELINK_VENDOR_ID"
definition DP_HEADER_SIZE :: nat where "DP_HEADER_SIZE = 4"

definition DP_TYPE_RAW :: int where "DP_TYPE_RAW = 0"
definition DP_TYPE_BOOLEAN :: int where "DP_TYPE_BOOLEAN = 1"
definition DP_TYPE_VALUE :: int where "DP_TYPE_VALUE = 2"
definition DP_TYPE_STRING :: int where "DP_TYPE_STRING = 3"
definition DP_TYPE_ENUM :: int where "DP_TYPE_ENUM = 4"

definition PAIR_OPCODE_SUCCESS :: int where "PAIR_OPCODE_SUCCESS = 0x0D"
definition PAIR_OPCODE_FAILURE :: int where "PAIR_OPCODE_FAILURE = 0x0E"
definition PAIR_OPCODE_SET_OK :: int where "PAIR_OPCODE_SET_OK = 0x07"

lemmas packet_consts = COMMAND_PACKET_SIZE_def PAYLOAD_SIZE_def SEQUENCE_SIZE_def
  CHECKSUM_SIZE_def MAC_BYTES_SIZE_def MAX_PARAM_LEN_def TELINK_VENDOR_ID_def
lemmas dp_consts = DP_HEADER_SIZE_def DP_TYPE_RAW_def DP_TYPE_BOOLEAN_def DP_TYPE_VALUE_def
  DP_TYPE_STRING_def DP_TYPE_ENUM_def
lemmas pair_consts = PAIR_OPCODE_SUCCESS_def PAIR_OPCODE_FAILURE_def PAIR_OPCODE_SET_OK_def

subsection \<open>Packets\<close>

record command_packet =
  cp_sequence :: int
  cp_dest_id :: int
  cp_opcode :: int
  cp_vendor_id :: bytes
  cp_params :: bytes

record status_response =
  sr_mesh_id :: int
  sr_mode :: int
  sr_white_brightness :: int
  sr_white_temp :: int
  sr_color_brightness :: int
  sr_red :: int
  sr_green :: int
  sr_blue :: int

record pair_response =
  pr_opcode :: int
  pr_device_random :: bytes

subsection \<open>Command packets\<close>

definition build_nonce :: "bytes \<Rightarrow> int \<Rightarrow> bytes res" where
  "build_nonce mac_bytes sequence =
     (if length mac_bytes \<noteq> MAC_BYTES_SIZE then Inl ProtocolError
      else if \<not> (0 \<le> sequence \<and> sequence \<le> 0xFFFFFF) then Inl ProtocolError
      else bindR (to_bytes_le sequence 3) (\<lambda>seq_bytes.
        Inr (take 4 (rev mac_bytes) @ [0x01] @ seq_bytes)))"

definition encode_command_payload :: "int \<Rightarrow> int \<Rightarrow> bytes \<Rightarrow> bytes \<Rightarrow> bytes res" where
  "encode_command_payload dest_id opcode params vendor_id =
     (if length vendor_id \<noteq> 2 then Inl ProtocolError
      else if \<not> (0 \<le> dest_id \<and> dest_id \<le> 0xFFFF) then Inl ProtocolError
      else if \<not> (0 \<le> opcode \<and> opcode \<le> 0xFF) then Inl ProtocolError
      else if length params > MAX_PARAM_LEN then Inl ProtocolError
      else bindR (pack_le 2 dest_id) (\<lambda>d. bindR (pack_le 1 opcode) (\<lambda>o1.
        let payload = d @ o1 @ vendor_id @ params
        in Inr (payload @ replicate (PAYLOAD_SIZE - length payload) 0))))"

definition encode_command_packet ::
  "(bytes \<Rightarrow> bytes \<Rightarrow> bytes) \<Rightarrow> bytes \<Rightarrow> bytes \<Rightarrow> int \<Rightarrow> int \<Rightarrow> int \<Rightarrow> bytes \<Rightarrow> bytes \<Rightarrow> bytes res"
where
  "encode_command_packet aes key mac_bytes sequence dest_id opcode params vendor_id =
     bindR (to_bytes_le sequence 3) (\<lambda>seq_bytes.
     bindR (build_nonce mac_bytes sequence) (\<lambda>nonce.
     bindR (encode_command_payload dest_id opcode params vendor_id) (\<lambda>payload.
     bindR (make_checksum aes key nonce payload) (\<lambda>checksum.
     bindR (crypt_payload aes key nonce payload) (\<lambda>encrypted.
       Inr (seq_bytes @ take CHECKSUM_SIZE checksum @ encrypted))))))"

definition rstrip0 :: "bytes \<Rightarrow> bytes" where
  "rstrip0 bs = rev (dropWhile (\<lambda>b. b = 0) (rev bs))"

definition parse_command_payload :: "int \<Rightarrow> bytes \<Rightarrow> command_packet" where
  "parse_command_payload sequence payload =
     \<lparr>cp_sequence = sequence, cp_dest_id = le_int (take 2 payload), cp_opcode = uint (payload ! 2),
      cp_vendor_id = slice 3 5 payload, cp_params = rstrip0 (drop 5 payload)\<rparr>"

definition decode_command_packet ::
  "(bytes \<Rightarrow> bytes \<Rightarrow> bytes) \<Rightarrow> bytes \<Rightarrow> bytes \<Rightarrow> bytes \<Rightarrow> command_packet res" where
  "decode_command_packet aes key mac_bytes data =
     (if length data \<noteq> COMMAND_PACKET_SIZE then Inl MalformedPacketError
      else
        let sequence = le_int (take SEQUENCE_SIZE data);
            expected_mac = slice SEQUENCE_SIZE (SEQUENCE_SIZE + CHECKSUM_SIZE) data;
            encrypted = drop (SEQUENCE_SIZE + CHECKSUM_SIZE) data
        in bindR (build_nonce mac_bytes sequence) (\<lambda>nonce.
           bindR (crypt_payload aes key nonce encrypted) (\<lambda>payload.
           bindR (verify_checksum aes key nonce payload expected_mac) (\<lambda>_.
             Inr (parse_command_payload sequence payload)))))"

subsection \<open>Notifications\<close>

definition NOTIFICATION_HEADER_SIZE :: nat where "NOTIFICATION_HEADER_SIZE = 5"
definition NOTIFICATION_CHECKSUM_OFFSET :: nat where "NOTIFICATION_CHECKSUM_OFFSET = 5"
definition NOTIFICATION_PAYLOAD_OFFSET :: nat where "NOTIFICATION_PAYLOAD_OFFSET = 7"
definition NOTIFICATION_MIN_SIZE :: nat where
  "NOTIFICATION_MIN_SIZE = NOTIFICATION_PAYLOAD_OFFSET + 1"

lemmas notification_consts = NOTIFICATION_HEADER_SIZE_def NOTIFICATION_CHECKSUM_OFFSET_def
  NOTIFICATION_PAYLOAD_OFFSET_def NOTIFICATION_MIN_SIZE_def

definition build_notification_nonce :: "bytes \<Rightarrow> bytes \<Rightarrow> bytes res" where
  "build_notification_nonce mac_bytes raw_header =
     (if length mac_bytes \<noteq> MAC_BYTES_SIZE then Inl ProtocolError
      else if length raw_header < NOTIFICATION_HEADER_SIZE then Inl ProtocolError
      else Inr (take 3 (rev mac_bytes) @ take NOTIFICATION_HEADER_SIZE raw_header))"

definition decrypt_notification ::
  "(bytes \<Rightarrow> bytes \<Rightarrow> bytes) \<Rightarrow> bytes \<Rightarrow> bytes \<Rightarrow> bytes \<Rightarrow> bytes res" where
  "decrypt_notification aes key mac_bytes data =
     (if length data < NOTIFICATION_MIN_SIZE then Inl MalformedPacketError
      else
        let nonce_header = take NOTIFICATION_HEADER_SIZE data;
            expected_mac = slice NOTIFICATION_CHECKSUM_OFFSET
                             (NOTIFICATION_CHECKSUM_OFFSET + CHECKSUM_SIZE) data;
            encrypted = drop NOTIFICATION_PAYLOAD_OFFSET data
        in bindR (build_notification_nonce mac_bytes nonce_header) (\<lambda>nonce.
           bindR (crypt_payload aes key nonce encrypted) (\<lambda>payload.
           bindR (verify_checksum aes key nonce payload expected_mac) (\<lambda>_.
             Inr (take NOTIFICATION_PAYLOAD_OFFSET data @ payload)))))"

definition STATUS_MIN_SIZE :: nat where "STATUS_MIN_SIZE = 18 + 1"

definition decode_status :: "bytes \<Rightarrow> status_response res" where
  "decode_status data =
     (if length data < STATUS_MIN_SIZE then Inl MalformedPacketError
      else Inr \<lparr>sr_mesh_id = uint (data ! 3), sr_mode = uint (data ! 12),
                sr_white_brightness = uint (data ! 13), sr_white_temp = uint (data ! 14),
                sr_color_brightness = uint (data ! 15), sr_red = uint (data ! 16),
                sr_green = uint (data ! 17), sr_blue = uint (data ! 18)\<rparr>)"

subsection \<open>Pair response\<close>

definition parse_pair_response :: "bytes \<Rightarrow> pair_response res" where
  "parse_pair_response data =
     (if length data < 1 then Inl MalformedPacketError
      else let opcode = uint (data ! 0) in
        if opcode = PAIR_OPCODE_SUCCESS then
          (if length data < 9 then Inl MalformedPacketError
           else Inr \<lparr>pr_opcode = opcode, pr_device_random = slice 1 9 data\<rparr>)
        else if opcode = PAIR_OPCODE_FAILURE then
          Inr \<lparr>pr_opcode = opcode, pr_device_random = []\<rparr>
        else if opcode = PAIR_OPCODE_SET_OK then
          Inr \<lparr>pr_opcode = opcode, pr_device_random = []\<rparr>
        else Inl MalformedPacketError)"

subsection \<open>Data points\<close>

text \<open>A data point value; \<open>DPOther\<close> stands for a value of any other Python type.\<close>

datatype dp_value = DPBool bool | DPInt int | DPStr pystr | DPBytes bytes | DPOther

definition encode_dp_value :: "int \<Rightarrow> dp_value \<Rightarrow> bytes res" where
  "encode_dp_value dp_id v =
     (if \<not> (1 \<le> dp_id \<and> dp_id \<le> 0xFF) then Inl ProtocolError
      else
        bindR (case v of
            DPBool b \<Rightarrow> Inr (DP_TYPE_BOOLEAN, [if b then 1 else 0])
          | DPInt i \<Rightarrow>
              if \<not> (- (2 ^ 31) \<le> i \<and> i \<le> 2 ^ 31 - 1) then Inl ProtocolError
              else Inr (DP_TYPE_VALUE, be_bytes 4 i)
          | DPStr s \<Rightarrow> bindR (utf8_encode s) (\<lambda>e. Inr (DP_TYPE_STRING, e))
          | DPBytes b \<Rightarrow> Inr (DP_TYPE_RAW, b)
          | DPOther \<Rightarrow> Inl ProtocolError) (\<lambda>(dp_type, encoded).
        bindR (pack_be 2 (int (length encoded))) (\<lambda>len.
          Inr ([word_of_int dp_id, word_of_int dp_type] @ len @ encoded))))"

definition decode_dp_value :: "bytes \<Rightarrow> (int \<times> int \<times> dp_value) res" where
  "decode_dp_value data =
     (if length data < DP_HEADER_SIZE then Inl MalformedPacketError
      else let dp_id = uint (data ! 0); dp_type = uint (data ! 1);
               len = nat (be_int (slice 2 4 data)) in
        if length data < DP_HEADER_SIZE + len then Inl MalformedPacketError
        else let raw = slice DP_HEADER_SIZE (DP_HEADER_SIZE + len) data in
          if dp_type = DP_TYPE_BOOLEAN then
            (if len \<noteq> 1 then Inl MalformedPacketError
             else Inr (dp_id, dp_type, DPBool (raw ! 0 \<noteq> 0)))
          else if dp_type = DP_TYPE_VALUE then
            (if len \<noteq> 4 then Inl MalformedPacketError
             else Inr (dp_id, dp_type, DPInt (to_signed 4 (be_int raw))))
          else if dp_type = DP_TYPE_STRING then
            Inr (dp_id, dp_type, DPStr (utf8_decode_replace raw))
          else if dp_type = DP_TYPE_ENUM then
            (if len \<noteq> 1 then Inl MalformedPacketError
             else Inr (dp_id, dp_type, DPInt (uint (raw ! 0))))
          else Inr (dp_id, dp_type, DPBytes raw))"

fun encode_dps_loop :: "(int, dp_value) dict \<Rightarrow> int list \<Rightarrow> bytes res" where
  "encode_dps_loop dps [] = Inr []"
| "encode_dps_loop dps (k # ks) =
     bindR (case dict_get dps k of None \<Rightarrow> Inl KeyError | Some v \<Rightarrow> encode_dp_value k v) (\<lambda>e.
     bindR (encode_dps_loop dps ks) (\<lambda>r. Inr (e @ r)))"

definition encode_dps_command :: "(int, dp_value) dict \<Rightarrow> bytes res" where
  "encode_dps_command dps = encode_dps_loop dps (sort (map fst dps))"

text \<open>The \<^verbatim>\<open>while offset < len(data)\<close> loop; the first argument is \<^verbatim>\<open>data[offset:]\<close>.\<close>

function decode_dps_loop :: "bytes \<Rightarrow> (int, dp_value) dict \<Rightarrow> (int, dp_value) dict res" where
  "decode_dps_loop remaining result =
     (if remaining = [] then Inr result
      else if length remaining < DP_HEADER_SIZE then Inl MalformedPacketError
      else let tlv_size = DP_HEADER_SIZE + nat (be_int (slice 2 4 remaining)) in
        if length remaining < tlv_size then Inl MalformedPacketError
        else bindR (decode_dp_value (take tlv_size remaining)) (\<lambda>(dp_id, _, v).
          decode_dps_loop (drop tlv_size remaining) (dict_set dp_id v result)))"
  by pat_completeness auto
termination
  by (relation "measure (\<lambda>(remaining, result). length remaining)") (auto simp: dp_consts)

declare decode_dps_loop.simps [simp del]

definition decode_dps_response :: "bytes \<Rightarrow> (int, dp_value) dict res" where
  "decode_dps_response data = decode_dps_loop data []"

definition encode_compact_dp :: "int \<Rightarrow> int \<Rightarrow> int \<Rightarrow> bytes res" where
  "encode_compact_dp dp_id dp_type v =
     (if \<not> (1 \<le> dp_id \<and> dp_id \<le> 0xFF) then Inl ProtocolError
      else if \<not> (0 \<le> dp_type \<and> dp_type \<le> 0xFF) then Inl ProtocolError
      else bindR
        (if dp_type = DP_TYPE_BOOLEAN then Inr [if v \<noteq> 0 then 1 else 0]
         else if dp_type = DP_TYPE_VALUE then
           (if \<not> (0 \<le> v \<and> v \<le> 0xFFFFFFFF) then Inl ProtocolError else Inr (be_bytes 4 v))
         else Inl ProtocolError) (\<lambda>encoded.
        Inr ([word_of_int dp_id, word_of_int dp_type, word_of_int (int (length encoded))]
             @ encoded)))"

subsection \<open>Facts on nonces and payloads\<close>

lemma seq_fits: "0 \<le> s \<Longrightarrow> s \<le> 0xFFFFFF \<Longrightarrow> fits_unsigned 3 s"
  by (simp add: fits_unsigned_def)

lemma build_nonce_Inr_iff:
  "build_nonce mac s = Inr n \<longleftrightarrow>
     length mac = 6 \<and> 0 \<le> s \<and> s \<le> 0xFFFFFF \<and> n = take 4 (rev mac) @ 1 # le_bytes 3 s"
  by (auto simp: build_nonce_def packet_consts to_bytes_le_def seq_fits split: if_splits)

lemma build_nonce_length: "build_nonce mac s = Inr n \<Longrightarrow> length n = 8"
  by (auto simp: build_nonce_Inr_iff)

definition payload_args_ok :: "int \<Rightarrow> int \<Rightarrow> bytes \<Rightarrow> bytes \<Rightarrow> bool" where
  "payload_args_ok dest_id opcode params vendor_id \<longleftrightarrow>
     length vendor_id = 2 \<and> 0 \<le> dest_id \<and> dest_id \<le> 0xFFFF \<and> 0 \<le> opcode \<and> opcode \<le> 0xFF
     \<and> length params \<le> 10"

lemma encode_command_payload_eq:
  "encode_command_payload d c ps v =
     (if payload_args_ok d c ps v
      then Inr (le_bytes 2 d @ word_of_int c # v @ ps @ replicate (10 - length ps) 0)
      else Inl ProtocolError)"
  by (auto simp: encode_command_payload_def payload_args_ok_def packet_consts pack_le_def
      fits_unsigned_def Let_def)

lemma rstrip0_replicate: "rstrip0 (xs @ replicate n 0) = rstrip0 xs"
  unfolding rstrip0_def rev_append rev_replicate by (subst dropWhile_append2) auto

lemma rstrip0_id: "xs = [] \<or> last xs \<noteq> 0 \<Longrightarrow> rstrip0 xs = xs"
  by (cases xs rule: rev_cases) (auto simp: rstrip0_def)

lemma rstrip0_prefix: "\<exists>n. xs = rstrip0 xs @ replicate n 0"
proof (induction xs rule: rev_induct)
  case (snoc x xs)
  then obtain n where "xs = rstrip0 xs @ replicate n 0" by blast
  then show ?case
    by (cases "x = 0")
       (auto simp: rstrip0_def simp flip: replicate_append_same intro: exI [of _ "Suc n"] exI [of _ 0])
qed (simp add: rstrip0_def)

lemma parse_encoded_payload:
  assumes "payload_args_ok d c ps v" "encode_command_payload d c ps v = Inr p"
  shows "length p = 15"
    and "parse_command_payload s p =
      \<lparr>cp_sequence = s, cp_dest_id = d, cp_opcode = c, cp_vendor_id = v, cp_params = rstrip0 ps\<rparr>"
proof -
  have p: "p = le_bytes 2 d @ word_of_int c # v @ ps @ replicate (10 - length ps) 0"
    using assms by (simp add: encode_command_payload_eq)
  have len: "length v = 2" "length ps \<le> 10" and d: "d mod 65536 = d" and c: "c mod 256 = c"
    using assms by (simp_all add: payload_args_ok_def)
  show "length p = 15" using len by (simp add: p)
  obtain v0 v1 where v: "v = [v0, v1]" using len by (auto simp: length_Suc_conv eval_nat_numeral)
  show "parse_command_payload s p =
      \<lparr>cp_sequence = s, cp_dest_id = d, cp_opcode = c, cp_vendor_id = v, cp_params = rstrip0 ps\<rparr>"
    using d c le_int_le_bytes [of 2 d]
    by (simp add: parse_command_payload_def p v slice_def nth_append uint_byte_of_int
        rstrip0_replicate)
qed

text \<open>
  The shared shape of both packet decoders: what was encrypted and authenticated under a
  nonce is decrypted and accepted under that nonce.
\<close>

lemma seal_open:
  assumes "make_checksum aes key nonce p = Inr m" "crypt_payload aes key nonce p = Inr c"
    "length mac = 2" "mac = take 2 m"
  shows "crypt_payload aes key nonce c = Inr p" "verify_checksum aes key nonce p mac = Inr True"
  using assms ctr.crypt_inverse [OF assms(2)] by (simp_all add: verify_checksum_def crypto_consts)

lemma verify_checksum_Inr_iff:
  "verify_checksum aes key nonce p mac = Inr b \<longleftrightarrow>
     b \<and> (\<exists>m. make_checksum aes key nonce p = Inr m \<and> take 2 m = take 2 mac)"
  by (auto simp: verify_checksum_def res_simps crypto_consts split: if_splits)

lemma take_append_slice_drop: "take 3 d @ slice 3 5 d @ drop 5 d = d"
  by (simp add: slice_append_drop)

text \<open>A payload of 15 bytes is the encoding of what it parses to.\<close>

lemma encode_parsed_payload:
  fixes s :: int
  assumes "length p = 15"
  defines "c \<equiv> parse_command_payload s p"
  shows "payload_args_ok (cp_dest_id c) (cp_opcode c) (cp_params c) (cp_vendor_id c)"
    and "encode_command_payload (cp_dest_id c) (cp_opcode c) (cp_params c) (cp_vendor_id c) = Inr p"
proof -
  obtain n where n: "drop 5 p = rstrip0 (drop 5 p) @ replicate n 0" using rstrip0_prefix by blast
  then have "length (drop 5 p) = length (rstrip0 (drop 5 p)) + n"
    by (metis length_append length_replicate)
  with assms have len: "length (rstrip0 (drop 5 p)) + n = 10" by simp
  have d: "0 \<le> le_int (take 2 p)" "le_int (take 2 p) < 65536"
    using le_int_bounds [of "take 2 p"] assms by simp_all
  show ok: "payload_args_ok (cp_dest_id c) (cp_opcode c) (cp_params c) (cp_vendor_id c)"
    using assms len d uint_byte_bounds [of "p ! 2"]
    by (simp add: payload_args_ok_def c_def parse_command_payload_def slice_def)
  have "le_bytes 2 (le_int (take 2 p)) = take 2 p"
    using le_bytes_le_int [of "take 2 p"] assms by simp
  moreover have "rstrip0 (drop 5 p) @ replicate (10 - length (rstrip0 (drop 5 p))) 0 = drop 5 p"
    using n len by (metis diff_add_inverse)
  moreover have "take 2 p @ p ! 2 # slice 3 5 p @ drop 5 p = p"
  proof -
    have "p ! 2 # drop 3 p = drop 2 p" using assms(1) Cons_nth_drop_Suc [of 2 p] by simp
    moreover have "slice 3 5 p @ drop 5 p = drop 3 p"
      by (simp add: slice_append_drop)
    ultimately show ?thesis by simp
  qed
  ultimately show "encode_command_payload (cp_dest_id c) (cp_opcode c) (cp_params c)
      (cp_vendor_id c) = Inr p"
    using ok unfolding encode_command_payload_eq
    by (simp add: c_def parse_command_payload_def)
qed

subsection \<open>Properties\<close>

lemma encode_decode_packet:
  assumes "block_cipher aes" "length key = 16"
  shows "if \<not> (0 \<le> s \<and> s \<le> 0xFFFFFF)
         then encode_command_packet aes key mac s d c ps v = Inl OverflowError
         else if length mac \<noteq> 6 \<or> \<not> payload_args_ok d c ps v
         then encode_command_packet aes key mac s d c ps v = Inl ProtocolError
         else \<exists>pkt. encode_command_packet aes key mac s d c ps v = Inr pkt \<and> length pkt = 20
           \<and> decode_command_packet aes key mac pkt = Inr
               \<lparr>cp_sequence = s, cp_dest_id = d, cp_opcode = c, cp_vendor_id = v,
                cp_params = rstrip0 ps\<rparr>"
proof -
  consider (seq) "\<not> (0 \<le> s \<and> s \<le> 0xFFFFFF)"
    | (args) "0 \<le> s \<and> s \<le> 0xFFFFFF" "length mac \<noteq> 6 \<or> \<not> payload_args_ok d c ps v"
    | (ok) "0 \<le> s \<and> s \<le> 0xFFFFFF" "length mac = 6" "payload_args_ok d c ps v" by blast
  then show ?thesis
  proof cases
    case seq
    then show ?thesis
      by (auto simp: encode_command_packet_def to_bytes_le_def fits_unsigned_def)
  next
    case args
    then have "to_bytes_le s 3 = Inr (le_bytes 3 s)" by (simp add: to_bytes_le_def seq_fits)
    with args show ?thesis
      by (cases "length mac = 6")
         (auto simp: encode_command_packet_def build_nonce_def packet_consts
           encode_command_payload_eq)
  next
    case ok
    then obtain n where n: "build_nonce mac s = Inr n" by (simp add: build_nonce_Inr_iff)
    obtain p where p: "encode_command_payload d c ps v = Inr p"
      using ok by (simp add: encode_command_payload_eq)
    have len: "length p = 15" using parse_encoded_payload [OF ok(3) p] by simp
    obtain m where m: "make_checksum aes key n p = Inr m" "length m = 16"
      using make_checksum_ok [OF assms, of p n] len by auto
    obtain e where e: "crypt_payload aes key n p = Inr e"
      using crypt_payload_ok [OF assms, of p n] len by auto
    then have lene: "length e = 15" using ctr.crypt_length len by simp
    let ?pkt = "le_bytes 3 s @ take 2 m @ e"
    have enc: "encode_command_packet aes key mac s d c ps v = Inr ?pkt"
      using ok n p m e
      by (simp add: encode_command_packet_def to_bytes_le_def seq_fits CHECKSUM_SIZE_def)
    have parts: "take 3 ?pkt = le_bytes 3 s" "slice 3 5 ?pkt = take 2 m" "drop 5 ?pkt = e"
      using m by (simp_all add: slice_def)
    have "le_int (le_bytes 3 s) = s" using ok by (simp add: le_int_le_bytes)
    then have "decode_command_packet aes key mac ?pkt = Inr (parse_command_payload s p)"
      using seal_open [OF m(1) e, of "take 2 m"] m n parts lene
      by (simp add: decode_command_packet_def packet_consts)
    with enc lene m ok parse_encoded_payload(2) [OF ok(3) p] show ?thesis by simp
  qed
qed

text \<open>C25: \<^verbatim>\<open>encode_command_packet\<close> with a 16-byte key either reports the argument error (a
  sequence outside 24 bits is an OverflowError, every other bad argument a ProtocolError) or
  builds a 20-byte packet, which \<^verbatim>\<open>decode_command_packet\<close> turns back into the same
  sequence, destination, opcode and vendor and the parameters without trailing zero bytes.\<close>

theorem command_packet_roundtrip:
  assumes "block_cipher aes" "length key = 16"
  shows "if \<not> (0 \<le> s \<and> s \<le> 0xFFFFFF)
         then encode_command_packet aes key mac s d c ps v = Inl OverflowError
         else if length mac \<noteq> 6 \<or> \<not> payload_args_ok d c ps v
         then encode_command_packet aes key mac s d c ps v = Inl ProtocolError
         else \<exists>pkt. encode_command_packet aes key mac s d c ps v = Inr pkt \<and> length pkt = 20
           \<and> decode_command_packet aes key mac pkt = Inr
               \<lparr>cp_sequence = s, cp_dest_id = d, cp_opcode = c, cp_vendor_id = v,
                cp_params = rstrip0 ps\<rparr>"
  by (rule encode_decode_packet [OF assms])

theorem command_packet_roundtrip_witness:
  "\<exists>pkt. encode_command_packet demo_aes (replicate 16 7) [1, 2, 3, 4, 5, 6] 258 0 0xD2
          [121, 2, 4, 0, 0, 0, 1] TELINK_VENDOR_ID = Inr pkt \<and> length pkt = 20
     \<and> decode_command_packet demo_aes (replicate 16 7) [1, 2, 3, 4, 5, 6] pkt = Inr
         \<lparr>cp_sequence = 258, cp_dest_id = 0, cp_opcode = 0xD2, cp_vendor_id = [1, 16],
          cp_params = [121, 2, 4, 0, 0, 0, 1]\<rparr>"
  using command_packet_roundtrip [OF demo_aes_block_cipher, of "replicate 16 7" 258
      "[1, 2, 3, 4, 5, 6]" 0 "0xD2" "[121, 2, 4, 0, 0, 0, 1]" TELINK_VENDOR_ID]
  by (simp add: payload_args_ok_def TELINK_VENDOR_ID_def rstrip0_def)

text \<open>C33: \<^verbatim>\<open>decode_command_packet\<close> accepts a packet only when it is exactly what
  \<^verbatim>\<open>encode_command_packet\<close> builds, under the same key and address, from the fields it
  returns: no packet with another MAC, another length or another encryption is accepted.\<close>

theorem decode_command_packet_authentic:
  assumes "decode_command_packet aes key mac data = Inr c"
  shows "encode_command_packet aes key mac (cp_sequence c) (cp_dest_id c) (cp_opcode c)
           (cp_params c) (cp_vendor_id c) = Inr data"
proof -
  let ?s = "le_int (take 3 data)"
  from assms have len: "length data = 20"
    by (auto simp: decode_command_packet_def packet_consts split: if_splits)
  from assms len obtain n p m where n: "build_nonce mac ?s = Inr n"
    and p: "crypt_payload aes key n (drop 5 data) = Inr p"
    and m: "make_checksum aes key n p = Inr m" "take 2 m = take 2 (slice 3 5 data)"
    and c: "c = parse_command_payload ?s p"
    by (auto simp: decode_command_packet_def packet_consts Let_def bindR_eq_Inr_iff
        verify_checksum_Inr_iff)
  have lenp: "length p = 15" using ctr.crypt_length [OF p] len by simp
  have e: "crypt_payload aes key n p = Inr (drop 5 data)" by (rule ctr.crypt_inverse [OF p])
  have "take 2 (slice 3 5 data) = slice 3 5 data" by (simp add: slice_def)
  moreover have "le_bytes 3 ?s = take 3 data"
    using le_bytes_le_int [of "take 3 data"] len by simp
  moreover have "0 \<le> ?s" "?s \<le> 0xFFFFFF" using le_int_bounds [of "take 3 data"] len by simp_all
  ultimately show ?thesis
    using encode_parsed_payload(2) [OF lenp, of ?s] n m e c take_append_slice_drop [of data]
    by (simp add: encode_command_packet_def to_bytes_le_def seq_fits CHECKSUM_SIZE_def
        parse_command_payload_def)
qed

theorem decode_command_packet_authentic_witness:
  "\<exists>pkt c. decode_command_packet demo_aes (replicate 16 7) [1, 2, 3, 4, 5, 6] pkt = Inr c
     \<and> encode_command_packet demo_aes (replicate 16 7) [1, 2, 3, 4, 5, 6] (cp_sequence c)
         (cp_dest_id c) (cp_opcode c) (cp_params c) (cp_vendor_id c) = Inr pkt"
proof -
  have key: "length (replicate 16 7 :: bytes) = 16" by simp
  obtain n where n: "build_nonce [1, 2, 3, 4, 5, 6] 0 = Inr n" by (simp add: build_nonce_Inr_iff)
  obtain e where e: "crypt_payload demo_aes (replicate 16 7) n (replicate 15 0) = Inr e"
    using crypt_payload_ok [OF demo_aes_block_cipher key, of "replicate 15 0" n] by auto
  obtain m where m: "make_checksum demo_aes (replicate 16 7) n (replicate 15 0) = Inr m"
    "length m = 16"
    using make_checksum_ok [OF demo_aes_block_cipher key, of "replicate 15 0" n] by auto
  have "length e = 15" using ctr.crypt_length [OF e] by simp
  then obtain c where c: "decode_command_packet demo_aes (replicate 16 7) [1, 2, 3, 4, 5, 6]
      (replicate 3 0 @ take 2 m @ e) = Inr c"
    using seal_open [OF m(1) e, of "take 2 m"] m n
    by (simp add: decode_command_packet_def packet_consts slice_def le_int.simps eval_nat_numeral)
  show ?thesis using decode_command_packet_authentic [OF c] c by blast
qed

subsection \<open>Data points: round trips\<close>

definition dp_type_of :: "dp_value \<Rightarrow> int" where
  "dp_type_of v = (case v of DPBool _ \<Rightarrow> DP_TYPE_BOOLEAN | DPInt _ \<Rightarrow> DP_TYPE_VALUE
     | DPStr _ \<Rightarrow> DP_TYPE_STRING | _ \<Rightarrow> DP_TYPE_RAW)"

definition dp_text_ok :: "dp_value \<Rightarrow> bool" where
  "dp_text_ok v \<longleftrightarrow> (case v of DPStr s \<Rightarrow> list_all code_point s | _ \<Rightarrow> True)"

definition dp_body :: "dp_value \<Rightarrow> bytes \<Rightarrow> bool" where
  "dp_body v e \<longleftrightarrow> (case v of
      DPBool b \<Rightarrow> e = [if b then 1 else 0]
    | DPInt i \<Rightarrow> fits_signed 4 i \<and> e = be_bytes 4 i
    | DPStr s \<Rightarrow> utf8_encode s = Inr e
    | DPBytes b \<Rightarrow> e = b
    | DPOther \<Rightarrow> False)"

lemma encode_dp_value_Inr:
  assumes "encode_dp_value i v = Inr bs"
  obtains e where "1 \<le> i" "i \<le> 255" "length e < 65536" "dp_body v e"
    "bs = [word_of_int i, word_of_int (dp_type_of v)] @ be_bytes 2 (int (length e)) @ e"
proof -
  have "1 \<le> i" "i \<le> 255" using assms by (auto simp: encode_dp_value_def split: if_splits)
  with assms that show thesis
    by (cases v)
       (auto simp: encode_dp_value_def bindR_eq_Inr_iff pack_be_def dp_body_def dp_type_of_def
         fits_unsigned_def fits_signed_def split: if_splits)
qed

lemma tlv_header:
  assumes "bs = [a, t] @ be_bytes 2 (int (length e)) @ e @ rest" "length e < 65536"
  shows "bs ! 0 = a" "bs ! 1 = t" "nat (be_int (slice 2 4 bs)) = length e"
    "slice 4 (4 + length e) bs = e" "length bs = 4 + length e + length rest"
    "take (4 + length e) bs = [a, t] @ be_bytes 2 (int (length e)) @ e"
    "drop (4 + length e) bs = rest"
proof -
  obtain x y where xy: "be_bytes 2 (int (length e)) = [x, y]" by (simp add: bytes_2)
  have "be_int [x, y] = int (length e)"
    using be_int_be_bytes [of 2 "int (length e)"] assms(2) by (simp add: xy)
  then show "nat (be_int (slice 2 4 bs)) = length e" by (simp add: assms xy slice_def)
  have n: "4 + length e = Suc (Suc (Suc (Suc (length e))))" by simp
  show "bs ! 0 = a" "bs ! 1 = t" "length bs = 4 + length e + length rest"
    by (simp_all add: assms(1) xy)
  show "slice 4 (4 + length e) bs = e" by (simp add: assms(1) xy slice_def)
  show "take (4 + length e) bs = [a, t] @ be_bytes 2 (int (length e)) @ e"
    "drop (4 + length e) bs = rest"
    unfolding n by (simp_all add: assms(1) xy)
qed

lemma decode_dp_value_tlv:
  assumes "bs = [a, t] @ be_bytes 2 (int (length e)) @ e @ rest" "length e < 65536"
  shows "decode_dp_value bs =
    (if uint t = 1 then
       (if length e \<noteq> 1 then Inl MalformedPacketError else Inr (uint a, uint t, DPBool (e ! 0 \<noteq> 0)))
     else if uint t = 2 then
       (if length e \<noteq> 4 then Inl MalformedPacketError
        else Inr (uint a, uint t, DPInt (to_signed 4 (be_int e))))
     else if uint t = 3 then Inr (uint a, uint t, DPStr (utf8_decode_replace e))
     else if uint t = 4 then
       (if length e \<noteq> 1 then Inl MalformedPacketError else Inr (uint a, uint t, DPInt (uint (e ! 0))))
     else Inr (uint a, uint t, DPBytes e))"
  unfolding decode_dp_value_def Let_def dp_consts tlv_header [OF assms] by simp

lemma dp_type_of_simps [simp]:
  "dp_type_of (DPBool b) = 1" "dp_type_of (DPInt i) = 2" "dp_type_of (DPStr s) = 3"
  "dp_type_of (DPBytes e) = 0" "dp_type_of DPOther = 0"
  by (simp_all add: dp_type_of_def dp_consts)

lemma decode_dp_body:
  assumes "dp_body v e" "dp_text_ok v" "length e < 65536" "1 \<le> i" "i \<le> 255"
    "bs = [word_of_int i, word_of_int (dp_type_of v)] @ be_bytes 2 (int (length e)) @ e @ rest"
  shows "decode_dp_value bs = Inr (i, dp_type_of v, v)"
proof -
  have i: "uint (word_of_int i :: byte) = i" using assms(4,5) by (simp add: uint_byte_of_int)
  have "to_signed 4 (be_int (be_bytes 4 k)) = k" if "fits_signed 4 k" for k
    using to_signed_mod [of 4 k] that by (simp add: be_int_be_bytes)
  with assms(1,2) show ?thesis
    unfolding decode_dp_value_tlv [OF assms(6,3)] i
    by (cases v) (simp_all add: dp_body_def dp_text_ok_def utf8_roundtrip)
qed

lemma decode_encoded_dp:
  assumes "encode_dp_value i v = Inr bs" "dp_text_ok v"
  shows "decode_dp_value (bs @ rest) = Inr (i, dp_type_of v, v)"
    and "4 + nat (be_int (slice 2 4 (bs @ rest))) = length bs"
proof -
  obtain e where e: "1 \<le> i" "i \<le> 255" "length e < 65536" "dp_body v e"
    "bs = [word_of_int i, word_of_int (dp_type_of v)] @ be_bytes 2 (int (length e)) @ e"
    using encode_dp_value_Inr [OF assms(1)] by blast
  then have bs: "bs @ rest =
      [word_of_int i, word_of_int (dp_type_of v)] @ be_bytes 2 (int (length e)) @ e @ rest" by simp
  show "decode_dp_value (bs @ rest) = Inr (i, dp_type_of v, v)"
    by (rule decode_dp_body [OF e(4) assms(2) e(3,1,2) bs])
  show "4 + nat (be_int (slice 2 4 (bs @ rest))) = length bs"
    using tlv_header(3) [OF bs e(3)] e(5) by simp
qed

lemma decode_dps_loop_encoded:
  assumes "encode_dps_loop d ks = Inr bs" "distinct (map fst acc @ ks)"
    "\<And>k v. map_of d k = Some v \<Longrightarrow> dp_text_ok v"
  shows "decode_dps_loop bs acc = Inr (acc @ map (\<lambda>k. (k, the (map_of d k))) ks)"
  using assms(1,2)
proof (induction ks arbitrary: bs acc)
  case Nil
  then show ?case by (simp add: decode_dps_loop.simps)
next
  case (Cons k ks)
  then obtain v e r where v: "map_of d k = Some v" and e: "encode_dp_value k v = Inr e"
    and r: "encode_dps_loop d ks = Inr r" and bs: "bs = e @ r"
    by (auto simp: bindR_eq_Inr_iff split: option.splits)
  note dec = decode_encoded_dp [OF e assms(3) [OF v], of r]
    decode_encoded_dp(1) [OF e assms(3) [OF v], of "[]"]
  have upd: "dict_set k v acc = acc @ [(k, v)]"
    using Cons.prems(2) by (induction acc) auto
  have len: "4 \<le> length e" using dec(2) by linarith
  then have "decode_dps_loop bs acc = decode_dps_loop r (dict_set k v acc)"
    using dec by (subst decode_dps_loop.simps) (auto simp: bs DP_HEADER_SIZE_def Let_def)
  also have "\<dots> = Inr ((acc @ [(k, v)]) @ map (\<lambda>k. (k, the (map_of d k))) ks)"
    unfolding upd using Cons.prems(2) by (intro Cons.IH [OF r]) auto
  finally show ?case using v by simp
qed

text \<open>Whatever \<^verbatim>\<open>encode_dp_value\<close> produces, \<^verbatim>\<open>decode_dp_value\<close> reads back as the
  same identifier, the type that belongs to the Python type, and the same value (booleans,
  32-bit integers of either sign, UTF-8 strings, raw bytes), also with bytes following.\<close>

theorem dp_value_roundtrip:
  assumes "encode_dp_value i v = Inr bs" "dp_text_ok v"
  shows "decode_dp_value (bs @ rest) = Inr (i, dp_type_of v, v)"
  by (rule decode_encoded_dp(1) [OF assms])

theorem dp_value_roundtrip_witness:
  "decode_dp_value ([3, 2, 0, 4, 255, 255, 255, 251] @ [7]) = Inr (3, 2, DPInt (-5))"
proof -
  have "encode_dp_value 3 (DPInt (-5)) = Inr [3, 2, 0, 4, 255, 255, 255, 251]"
    by code_simp
  from dp_value_roundtrip [OF this, of "[7]"] show ?thesis
    by (simp add: dp_text_ok_def dp_type_of_def dp_consts)
qed

text \<open>decoding the concatenated records of \<^verbatim>\<open>encode_dps_command\<close> gives the dictionary
  that was encoded, its entries in ascending order of their identifiers.\<close>

theorem dps_roundtrip:
  assumes "encode_dps_command d = Inr bs" "dict_ok d"
    "\<forall>(k, v) \<in> set d. dp_text_ok v"
  shows "\<exists>r. decode_dps_response bs = Inr r \<and> map_of r = map_of d \<and> map fst r = sort (map fst d)"
proof -
  let ?r = "map (\<lambda>k. (k, the (map_of d k))) (sort (map fst d))"
  have txt_ok: "dp_text_ok v" if "map_of d k = Some v" for k v
    using assms(3) map_of_SomeD [OF that] by auto
  have "decode_dps_response bs = Inr ?r"
    using decode_dps_loop_encoded [of d "sort (map fst d)" bs "[]"] assms txt_ok
    by (auto simp: encode_dps_command_def decode_dps_response_def)
  moreover have "map_of ?r k = map_of d k" for k
  proof (cases "k \<in> fst ` set d")
    case True
    then obtain v where "map_of d k = Some v" by (metis map_of_eq_None_iff option.exhaust)
    with True show ?thesis by (simp add: map_of_map_restrict restrict_map_def comp_def)
  next
    case False
    then have "map_of d k = None" by (simp add: map_of_eq_None_iff)
    with False show ?thesis by (simp add: map_of_map_restrict restrict_map_def comp_def)
  qed
  ultimately show ?thesis by (auto simp: comp_def)
qed

theorem dps_roundtrip_witness:
  "\<exists>r. decode_dps_response [1, 1, 0, 1, 1, 3, 2, 0, 4, 0, 0, 0, 9] = Inr r
     \<and> map_of r 1 = Some (DPBool True) \<and> map_of r 3 = Some (DPInt 9)"
proof -
  have "encode_dps_command [(3, DPInt 9), (1, DPBool True)]
      = Inr [1, 1, 0, 1, 1, 3, 2, 0, 4, 0, 0, 0, 9]"
    by code_simp
  from dps_roundtrip [OF this] show ?thesis by (auto simp: dp_text_ok_def)
qed

end
