(* ===== verification/Sig_Codec.thy ===== *)
theory Sig_Codec
  imports Prelude Telink_Protocol
begin

text \<open>
  \<^verbatim>\<open>lib/tuya_ble_mesh/sig_mesh_protocol_codec.py\<close>: the SIG Mesh messages without
  cryptography: segment headers, proxy PDUs, configuration and model messages, access
  opcodes, Tuya vendor frames and composition data.  Python integers stay integers; the
  shifts and masks are \<open>push_bit\<close>, \<open>drop_bit\<close> and \<open>AND\<close>.  Shown: the opcode parser inverts
  the message builders, and the vendor data point parser inverts the compact encoder of the
  Telink side and never fails.
\<close>

subsection \<open>Constants\<close>

definition MAX_UNSEG_ACCESS_PAYLOAD :: nat where "MAX_UNSEG_ACCESS_PAYLOAD = 11"
definition SEG_DATA_SIZE :: nat where "SEG_DATA_SIZE = 12"
definition MIC_LEN_ACCESS :: nat where "MIC_LEN_ACCESS = 4"
definition MIC_LEN_CONTROL :: nat where "MIC_LEN_CONTROL = 8"
definition MESH_NID_MASK :: int where "MESH_NID_MASK = 0x7F"
definition MESH_TTL_MASK :: int where "MESH_TTL_MASK = 0x7F"
definition MESH_SEG_BIT :: int where "MESH_SEG_BIT = 0x80"
definition MESH_AID_MASK :: int where "MESH_AID_MASK = 0x3F"
definition MESH_SEQ_ZERO_MASK :: int where "MESH_SEQ_ZERO_MASK = 0x1FFF"
definition MESH_SEG_MASK :: int where "MESH_SEG_MASK = 0x1F"
definition OP_CONFIG_COMPOSITION_GET :: int where "OP_CONFIG_COMPOSITION_GET = 0x8008"
definition OP_CONFIG_COMPOSITION_STATUS :: int where "OP_CONFIG_COMPOSITION_STATUS = 0x02"
definition OP_CONFIG_APPKEY_ADD :: int where "OP_CONFIG_APPKEY_ADD = 0x0000"
definition OP_CONFIG_APPKEY_STATUS :: int where "OP_CONFIG_APPKEY_STATUS = 0x8003"
definition OP_CONFIG_MODEL_APP_BIND :: int where "OP_CONFIG_MODEL_APP_BIND = 0x803D"
definition OP_CONFIG_MODEL_APP_STATUS :: int where "OP_CONFIG_MODEL_APP_STATUS = 0x803E"
definition OP_GENERIC_ONOFF_GET :: int where "OP_GENERIC_ONOFF_GET = 0x8201"
definition OP_GENERIC_ONOFF_SET :: int where "OP_GENERIC_ONOFF_SET = 0x8202"
definition OP_GENERIC_ONOFF_STATUS :: int where "OP_GENERIC_ONOFF_STATUS = 0x8204"
definition OP_GENERIC_LEVEL_SET :: int where "OP_GENERIC_LEVEL_SET = 0x8206"
definition OP_GENERIC_LEVEL_STATUS :: int where "OP_GENERIC_LEVEL_STATUS = 0x8208"
definition OP_LIGHT_LIGHTNESS_SET :: int where "OP_LIGHT_LIGHTNESS_SET = 0x824C"
definition OP_LIGHT_LIGHTNESS_STATUS :: int where "OP_LIGHT_LIGHTNESS_STATUS = 0x824E"
definition TUYA_VENDOR_WRITE_UNACK :: int where "TUYA_VENDOR_WRITE_UNACK = 0xCAD007"
definition TUYA_CMD_DP_DATA :: int where "TUYA_CMD_DP_DATA = 0x01"
definition TUYA_CMD_TIMESTAMP_SYNC :: int where "TUYA_CMD_TIMESTAMP_SYNC = 0x02"

lemmas mesh_consts = MAX_UNSEG_ACCESS_PAYLOAD_def SEG_DATA_SIZE_def MIC_LEN_ACCESS_def
  MIC_LEN_CONTROL_def MESH_NID_MASK_def MESH_TTL_MASK_def MESH_SEG_BIT_def MESH_AID_MASK_def
  MESH_SEQ_ZERO_MASK_def MESH_SEG_MASK_def
lemmas opcode_consts = OP_CONFIG_COMPOSITION_GET_def OP_CONFIG_COMPOSITION_STATUS_def
  OP_CONFIG_APPKEY_ADD_def OP_CONFIG_APPKEY_STATUS_def OP_CONFIG_MODEL_APP_BIND_def
  OP_CONFIG_MODEL_APP_STATUS_def OP_GENERIC_ONOFF_GET_def OP_GENERIC_ONOFF_SET_def
  OP_GENERIC_ONOFF_STATUS_def OP_GENERIC_LEVEL_SET_def OP_GENERIC_LEVEL_STATUS_def
  OP_LIGHT_LIGHTNESS_SET_def OP_LIGHT_LIGHTNESS_STATUS_def TUYA_VENDOR_WRITE_UNACK_def

subsection \<open>Segment header\<close>

record segment_header =
  sh_akf :: int
  sh_aid :: int
  sh_szmic :: int
  sh_seq_zero :: int
  sh_seg_o :: int
  sh_seg_n :: int
  sh_segment_data :: bytes

definition parse_segment_header :: "bytes \<Rightarrow> segment_header res" where
  "parse_segment_header transport_pdu =
     (if length transport_pdu < 4 then Inl MalformedPacketError
      else let hdr = uint (transport_pdu ! 0) in
        if hdr AND MESH_SEG_BIT = 0 then Inl MalformedPacketError
        else let info = push_bit 16 (uint (transport_pdu ! 1))
                        OR push_bit 8 (uint (transport_pdu ! 2)) OR uint (transport_pdu ! 3) in
          Inr \<lparr>sh_akf = drop_bit 6 hdr AND 1, sh_aid = hdr AND MESH_AID_MASK,
               sh_szmic = drop_bit 23 info AND 1,
               sh_seq_zero = drop_bit 10 info AND MESH_SEQ_ZERO_MASK,
               sh_seg_o = drop_bit 5 info AND MESH_SEG_MASK,
               sh_seg_n = info AND MESH_SEG_MASK,
               sh_segment_data = drop 4 transport_pdu\<rparr>)"

subsection \<open>Proxy PDU\<close>

record proxy_pdu =
  px_sar :: int
  px_type :: int
  px_payload :: bytes

definition make_proxy_pdu :: "bytes \<Rightarrow> bytes" where
  "make_proxy_pdu network_pdu = [word_of_int (push_bit 6 0x00 OR 0x00)] @ network_pdu"

definition parse_proxy_pdu :: "bytes \<Rightarrow> proxy_pdu res" where
  "parse_proxy_pdu data =
     (if data = [] then Inl MalformedPacketError
      else Inr \<lparr>px_sar = drop_bit 6 (uint (data ! 0)) AND 0x03,
                px_type = uint (data ! 0) AND 0x3F, px_payload = drop 1 data\<rparr>)"

lemma parse_make_proxy_pdu:
  "parse_proxy_pdu (make_proxy_pdu p) = Inr \<lparr>px_sar = 0, px_type = 0, px_payload = p\<rparr>"
  by (simp add: parse_proxy_pdu_def make_proxy_pdu_def)

subsection \<open>Configuration messages\<close>

definition config_composition_get :: "int \<Rightarrow> bytes res" where
  "config_composition_get page =
     (if \<not> (0 \<le> page \<and> page \<le> 0xFF) then Inl ProtocolError
      else bindR (pack_be 2 OP_CONFIG_COMPOSITION_GET) (\<lambda>op. Inr (op @ [word_of_int page])))"

definition config_appkey_add :: "int \<Rightarrow> int \<Rightarrow> bytes \<Rightarrow> bytes res" where
  "config_appkey_add net_idx app_idx app_key =
     (if \<not> (0 \<le> net_idx \<and> net_idx \<le> 0xFFF) then Inl ProtocolError
      else if \<not> (0 \<le> app_idx \<and> app_idx \<le> 0xFFF) then Inl ProtocolError
      else if length app_key \<noteq> 16 then Inl ProtocolError
      else let idx = (net_idx AND 0xFFF) OR push_bit 12 (app_idx AND 0xFFF) in
        bindR (pack_le 4 idx) (\<lambda>i.
          Inr ([word_of_int OP_CONFIG_APPKEY_ADD] @ take 3 i @ app_key)))"

definition config_model_app_bind :: "int \<Rightarrow> int \<Rightarrow> int \<Rightarrow> bytes res" where
  "config_model_app_bind element_addr app_idx model_id =
     (if \<not> (0 \<le> element_addr \<and> element_addr \<le> 0xFFFF) then Inl ProtocolError
      else if \<not> (0 \<le> app_idx \<and> app_idx \<le> 0xFFF) then Inl ProtocolError
      else if \<not> (0 \<le> model_id \<and> model_id \<le> 0xFFFF) then Inl ProtocolError
      else bindR (pack_be 2 OP_CONFIG_MODEL_APP_BIND) (\<lambda>op.
        bindR (pack_le 2 element_addr) (\<lambda>e. bindR (pack_le 2 app_idx) (\<lambda>a.
        bindR (pack_le 2 model_id) (\<lambda>m. Inr (op @ e @ a @ m))))))"

subsection \<open>Model messages\<close>

definition generic_onoff_set :: "bool \<Rightarrow> int \<Rightarrow> bytes res" where
  "generic_onoff_set on tid =
     bindR (pack_be 2 OP_GENERIC_ONOFF_SET) (\<lambda>op.
       Inr (op @ [if on then 0x01 else 0x00, word_of_int (tid AND 0xFF)]))"

definition generic_onoff_get :: "bytes res" where
  "generic_onoff_get = pack_be 2 OP_GENERIC_ONOFF_GET"

definition generic_level_set :: "int \<Rightarrow> int \<Rightarrow> bytes res" where
  "generic_level_set level tid =
     (if \<not> (- 32768 \<le> level \<and> level \<le> 32767) then Inl ProtocolError
      else bindR (pack_be 2 OP_GENERIC_LEVEL_SET) (\<lambda>op.
        Inr (op @ le_bytes 2 level @ [word_of_int (tid AND 0xFF)])))"

definition light_lightness_set :: "int \<Rightarrow> int \<Rightarrow> bytes res" where
  "light_lightness_set lightness tid =
     (if \<not> (0 \<le> lightness \<and> lightness \<le> 0xFFFF) then Inl ProtocolError
      else bindR (pack_be 2 OP_LIGHT_LIGHTNESS_SET) (\<lambda>op.
        bindR (pack_le 2 lightness) (\<lambda>l. Inr (op @ l @ [word_of_int (tid AND 0xFF)]))))"

subsection \<open>Access opcodes\<close>

definition parse_access_opcode :: "bytes \<Rightarrow> (int \<times> bytes) res" where
  "parse_access_opcode data =
     (if data = [] then Inl MalformedPacketError
      else if uint (data ! 0) AND 0x80 = 0 then Inr (uint (data ! 0), drop 1 data)
      else if uint (data ! 0) AND 0xC0 = 0x80 then
        (if length data < 2 then Inl MalformedPacketError
         else Inr (push_bit 8 (uint (data ! 0)) OR uint (data ! 1), drop 2 data))
      else
        (if length data < 3 then Inl MalformedPacketError
         else Inr (push_bit 16 (uint (data ! 0)) OR push_bit 8 (uint (data ! 1))
                   OR uint (data ! 2), drop 3 data)))"

subsection \<open>Tuya vendor messages\<close>

record tuya_vendor_dp =
  vd_id :: int
  vd_type :: int
  vd_value :: bytes

record tuya_vendor_frame =
  vf_command :: int
  vf_data :: bytes
  vf_dps :: "tuya_vendor_dp list"

text \<open>The loop of \<^verbatim>\<open>_parse_dp_bytes\<close>; the argument is \<^verbatim>\<open>data[offset:]\<close>.\<close>

function parse_dp_bytes :: "bytes \<Rightarrow> tuya_vendor_dp list" where
  "parse_dp_bytes data =
     (if data = [] then []
      else if 3 > length data then []
      else let dp_len = unat (data ! 2) in
        if 3 + dp_len > length data then []
        else \<lparr>vd_id = uint (data ! 0), vd_type = uint (data ! 1), vd_value = slice 3 (3 + dp_len) data\<rparr>
             # parse_dp_bytes (drop (3 + dp_len) data))"
  by pat_completeness auto
termination
  by (relation "measure length") auto

declare parse_dp_bytes.simps [simp del]

definition parse_tuya_vendor_dps :: "bytes \<Rightarrow> tuya_vendor_dp list" where
  "parse_tuya_vendor_dps params = parse_dp_bytes params"

definition parse_tuya_vendor_frame :: "bytes \<Rightarrow> tuya_vendor_frame" where
  "parse_tuya_vendor_frame params =
     (if length params < 2 then \<lparr>vf_command = 0, vf_data = params, vf_dps = []\<rparr>
      else let command = uint (params ! 0); data = drop 2 params in
        if command = TUYA_CMD_TIMESTAMP_SYNC then
          \<lparr>vf_command = command, vf_data = data, vf_dps = []\<rparr>
        else if command = TUYA_CMD_DP_DATA then
          \<lparr>vf_command = command, vf_data = data, vf_dps = parse_dp_bytes data\<rparr>
        else \<lparr>vf_command = command, vf_data = params, vf_dps = parse_dp_bytes params\<rparr>)"

text \<open>
  The readings of the module \<^verbatim>\<open>time\<close> are arguments: the current time in whole seconds,
  \<^verbatim>\<open>time.timezone\<close>, \<^verbatim>\<open>time.altzone\<close> and \<^verbatim>\<open>time.daylight\<close>.  Python's
  \<^verbatim>\<open>//\<close> rounds down, as \<open>div\<close> does.
\<close>

definition tuya_vendor_timestamp_response :: "int \<Rightarrow> int \<Rightarrow> int \<Rightarrow> bool \<Rightarrow> bytes res" where
  "tuya_vendor_timestamp_response now timezone altzone daylight =
     bindR (to_bytes_be TUYA_VENDOR_WRITE_UNACK 3) (\<lambda>opcode_bytes.
     bindR (to_bytes_be now 4) (\<lambda>ts_bytes.
       let tz_offset = (if \<not> daylight then timezone div (- 3600) else altzone div (- 3600));
           tz_byte = (if - 12 \<le> tz_offset \<and> tz_offset \<le> 14
                      then be_bytes 1 tz_offset else [0x00]);
           data = ts_bytes @ tz_byte @ [0, 0, 0]
       in bindR (to_byte (int (length data))) (\<lambda>n.
            Inr (opcode_bytes @ [word_of_int TUYA_CMD_TIMESTAMP_SYNC, n] @ data))))"

subsection \<open>Composition data\<close>

record composition_data =
  cd_cid :: int
  cd_pid :: int
  cd_vid :: int
  cd_crpl :: int
  cd_features :: int
  cd_raw_elements :: bytes

definition parse_composition_data :: "bytes \<Rightarrow> composition_data res" where
  "parse_composition_data params =
     (if length params < 11 then Inl MalformedPacketError
      else let data = drop 1 params in
        Inr \<lparr>cd_cid = le_int (slice 0 2 data), cd_pid = le_int (slice 2 4 data),
             cd_vid = le_int (slice 4 6 data), cd_crpl = le_int (slice 6 8 data),
             cd_features = le_int (slice 8 10 data), cd_raw_elements = drop 10 data\<rparr>)"

subsection \<open>Opcodes and packed integers\<close>

lemma parse_opcode_1:
  "uint b < 128 \<Longrightarrow> parse_access_opcode (b # ps) = Inr (uint b, ps)"
  by (simp add: parse_access_opcode_def and_bit_byte)

lemma parse_opcode_2:
  "128 \<le> uint a \<Longrightarrow> uint a < 192 \<Longrightarrow>
   parse_access_opcode (a # b # ps) = Inr (be_int [a, b], ps)"
  by (simp add: parse_access_opcode_def and_bit_byte or_be16)

lemma parse_opcode_3:
  "192 \<le> uint a \<Longrightarrow>
   parse_access_opcode (a # b # c # ps) = Inr (be_int [a, b, c], ps)"
  by (simp add: parse_access_opcode_def and_bit_byte or_be24)

lemma parse_opcode_packed:
  assumes "0x8000 \<le> op" "op \<le> 0xBFFF"
  shows "parse_access_opcode (be_bytes 2 op @ ps) = Inr (op, ps)"
proof -
  have "uint (word_of_int (op div 256) :: byte) = op div 256"
    using assms unfolding uint_byte_of_int by (intro mod_pos_pos_trivial) linarith+
  moreover have "be_int (be_bytes 2 op) = op" using assms by (simp add: be_int_be_bytes)
  ultimately show ?thesis using assms by (simp add: bytes_2 parse_opcode_2)
qed

lemma pack_be_2: "0 \<le> x \<Longrightarrow> x \<le> 0xFFFF \<Longrightarrow> pack_be 2 x = Inr (be_bytes 2 x)"
  by (simp add: pack_be_def fits_unsigned_def)

lemma pack_le_2: "0 \<le> x \<Longrightarrow> x \<le> 0xFFFF \<Longrightarrow> pack_le 2 x = Inr (le_bytes 2 x)"
  by (simp add: pack_le_def fits_unsigned_def)

lemma le_int_le_bytes_2: "0 \<le> x \<Longrightarrow> x \<le> 0xFFFF \<Longrightarrow> le_int (le_bytes 2 x) = x"
  by (simp add: le_int_le_bytes)

subsection \<open>Vendor data points\<close>

definition vendor_dp_bytes :: "tuya_vendor_dp \<Rightarrow> bytes" where
  "vendor_dp_bytes d = [word_of_int (vd_id d), word_of_int (vd_type d),
     word_of_int (int (length (vd_value d)))] @ vd_value d"

lemma parse_dp_bytes_Cons:
  assumes "length v < 256"
  shows "parse_dp_bytes ([i, t, word_of_int (int (length v))] @ v @ rest) =
    \<lparr>vd_id = uint i, vd_type = uint t, vd_value = v\<rparr> # parse_dp_bytes rest"
proof -
  have "unat (word_of_int (int (length v)) :: byte) = length v"
    using assms by (rule unat_byte_of_nat)
  then show ?thesis
    by (subst parse_dp_bytes.simps) (simp add: Let_def slice_def numeral_3_eq_3)
qed

lemma parse_dp_bytes_short:
  "data = [] \<or> length data < 3 \<or> length data < 3 + unat (data ! 2) \<Longrightarrow> parse_dp_bytes data = []"
  by (subst parse_dp_bytes.simps) auto

subsection \<open>Properties\<close>

lemma access_messages_read:
  shows "generic_onoff_set on tid = Inr m1 \<Longrightarrow>
      parse_access_opcode m1 = Inr (OP_GENERIC_ONOFF_SET, [if on then 1 else 0, word_of_int tid])"
    and "generic_onoff_get = Inr m2 \<Longrightarrow> parse_access_opcode m2 = Inr (OP_GENERIC_ONOFF_GET, [])"
    and "generic_level_set level tid = Inr m3 \<Longrightarrow>
      parse_access_opcode m3 = Inr (OP_GENERIC_LEVEL_SET, le_bytes 2 level @ [word_of_int tid])
      \<and> to_signed 2 (le_int (le_bytes 2 level)) = level"
    and "light_lightness_set light tid = Inr m4 \<Longrightarrow>
      parse_access_opcode m4 = Inr (OP_LIGHT_LIGHTNESS_SET, le_bytes 2 light @ [word_of_int tid])
      \<and> le_int (le_bytes 2 light) = light"
    and "config_composition_get page = Inr m5 \<Longrightarrow>
      parse_access_opcode m5 = Inr (OP_CONFIG_COMPOSITION_GET, [word_of_int page])"
    and "config_model_app_bind el ai md = Inr m6 \<Longrightarrow>
      parse_access_opcode m6 = Inr (OP_CONFIG_MODEL_APP_BIND,
        le_bytes 2 el @ le_bytes 2 ai @ le_bytes 2 md)
      \<and> le_int (le_bytes 2 el) = el \<and> le_int (le_bytes 2 ai) = ai \<and> le_int (le_bytes 2 md) = md"
proof -
  have tid: "(word_of_int (tid AND 0xFF) :: byte) = word_of_int tid"
    by (rule word_uint_eqI) (simp add: and_mask_mod uint_byte_of_int)
  show "generic_onoff_set on tid = Inr m1 \<Longrightarrow>
      parse_access_opcode m1 = Inr (OP_GENERIC_ONOFF_SET, [if on then 1 else 0, word_of_int tid])"
    using tid by (auto simp: generic_onoff_set_def opcode_consts pack_be_2 parse_opcode_packed)
  show "generic_onoff_get = Inr m2 \<Longrightarrow> parse_access_opcode m2 = Inr (OP_GENERIC_ONOFF_GET, [])"
    using parse_opcode_packed [of OP_GENERIC_ONOFF_GET "[]"]
    by (auto simp: generic_onoff_get_def opcode_consts pack_be_2)
  show "generic_level_set level tid = Inr m3 \<Longrightarrow>
      parse_access_opcode m3 = Inr (OP_GENERIC_LEVEL_SET, le_bytes 2 level @ [word_of_int tid])
      \<and> to_signed 2 (le_int (le_bytes 2 level)) = level"
    using tid to_signed_mod [of 2 level]
    by (auto simp: generic_level_set_def opcode_consts pack_be_2 parse_opcode_packed
        le_int_le_bytes fits_signed_def split: if_splits)
  show "light_lightness_set light tid = Inr m4 \<Longrightarrow>
      parse_access_opcode m4 = Inr (OP_LIGHT_LIGHTNESS_SET, le_bytes 2 light @ [word_of_int tid])
      \<and> le_int (le_bytes 2 light) = light"
    using tid by (auto simp: light_lightness_set_def opcode_consts pack_be_2 pack_le_2
        parse_opcode_packed le_int_le_bytes_2 split: if_splits)
  show "config_composition_get page = Inr m5 \<Longrightarrow>
      parse_access_opcode m5 = Inr (OP_CONFIG_COMPOSITION_GET, [word_of_int page])"
    by (auto simp: config_composition_get_def opcode_consts pack_be_2 parse_opcode_packed
        split: if_splits)
  show "config_model_app_bind el ai md = Inr m6 \<Longrightarrow>
      parse_access_opcode m6 = Inr (OP_CONFIG_MODEL_APP_BIND,
        le_bytes 2 el @ le_bytes 2 ai @ le_bytes 2 md)
      \<and> le_int (le_bytes 2 el) = el \<and> le_int (le_bytes 2 ai) = ai \<and> le_int (le_bytes 2 md) = md"
    by (auto simp: config_model_app_bind_def opcode_consts pack_be_2 pack_le_2
        parse_opcode_packed le_int_le_bytes_2 split: if_splits)
qed

text \<open>the access messages are read back by \<^verbatim>\<open>parse_access_opcode\<close> with their opcode and
  their fields: On/Off Set and Get, Level Set (a signed level), Lightness Set, Composition
  Get and Model App Bind.\<close>

theorem access_messages_parse:
  assumes "(build, op) \<in> {(generic_onoff_set on tid, OP_GENERIC_ONOFF_SET),
      (generic_onoff_get, OP_GENERIC_ONOFF_GET), (generic_level_set level tid, OP_GENERIC_LEVEL_SET),
      (light_lightness_set light tid, OP_LIGHT_LIGHTNESS_SET),
      (config_composition_get page, OP_CONFIG_COMPOSITION_GET),
      (config_model_app_bind el ai md, OP_CONFIG_MODEL_APP_BIND)}"
    and "build = Inr message"
  shows "\<exists>params. parse_access_opcode message = Inr (op, params)
    \<and> (op = OP_GENERIC_ONOFF_SET \<longrightarrow> params = [if on then 1 else 0, word_of_int tid])
    \<and> (op = OP_GENERIC_ONOFF_GET \<longrightarrow> params = [])
    \<and> (op = OP_GENERIC_LEVEL_SET \<longrightarrow> to_signed 2 (le_int (take 2 params)) = level)
    \<and> (op = OP_LIGHT_LIGHTNESS_SET \<longrightarrow> le_int (take 2 params) = light)
    \<and> (op = OP_CONFIG_COMPOSITION_GET \<longrightarrow> params = [word_of_int page])
    \<and> (op = OP_CONFIG_MODEL_APP_BIND \<longrightarrow> le_int (take 2 params) = el
        \<and> le_int (slice 2 4 params) = ai \<and> le_int (drop 4 params) = md)"
  using assms access_messages_read(1) [of on tid message] access_messages_read(2) [of message]
    access_messages_read(3) [of level tid message] access_messages_read(4) [of light tid message]
    access_messages_read(5) [of page message] access_messages_read(6) [of el ai md message]
  by (elim insertE emptyE) (auto simp: opcode_consts slice_def)

theorem access_messages_parse_witness:
  "parse_access_opcode [0x82, 0x06, 0xFF, 0x7F, 5] = Inr (OP_GENERIC_LEVEL_SET, [0xFF, 0x7F, 5])
   \<and> to_signed 2 (le_int [0xFF, 0x7F]) = 32767"
proof -
  have "generic_level_set 32767 5 = Inr [0x82, 0x06, 0xFF, 0x7F, 5]" by code_simp
  from access_messages_parse [OF _ this, of OP_GENERIC_LEVEL_SET True 5 32767 0 0 0 0 0]
  obtain ps where ps: "parse_access_opcode [0x82, 0x06, 0xFF, 0x7F, 5] = Inr (OP_GENERIC_LEVEL_SET, ps)"
    "to_signed 2 (le_int (take 2 ps)) = 32767" by auto
  have v: "parse_access_opcode [0x82, 0x06, 0xFF, 0x7F, 5]
    = Inr (OP_GENERIC_LEVEL_SET, [0xFF, 0x7F, 5])" by code_simp
  then have "ps = [0xFF, 0x7F, 5]" using ps(1) by simp
  with ps(2) v show ?thesis by (simp del: le_int.simps)
qed

text \<open>\<^verbatim>\<open>_parse_dp_bytes\<close> reads the longest sequence of complete records: the input is
  the concatenation of the records it returns followed by a rest that holds no complete
  record, so no byte is read twice or beyond the end, whatever the input is.\<close>

theorem parse_dp_bytes_complete:
  "\<exists>rest. data = concat (map vendor_dp_bytes (parse_dp_bytes data)) @ rest
     \<and> (length rest < 3 \<or> length rest < 3 + unat (rest ! 2))
     \<and> list_all (\<lambda>d. length (vd_value d) < 256) (parse_dp_bytes data)"
proof (induction data rule: parse_dp_bytes.induct)
  case (1 data)
  show ?case
  proof (cases "data = [] \<or> length data < 3 \<or> length data < 3 + unat (data ! 2)")
    case True
    then show ?thesis by (auto simp: parse_dp_bytes_short)
  next
    case False
    let ?n = "unat (data ! 2)"
    let ?v = "slice 3 (3 + ?n) data"
    have n: "?n < 256" by (rule unat_byte_less)
    have v: "length ?v = ?n" using False by (auto simp: length_slice)
    have split3: "data = [data ! 0, data ! 1, data ! 2] @ drop 3 data"
      using False by (cases data; cases "tl data"; cases "tl (tl data)") auto
    have "?v @ drop (3 + ?n) data = drop 3 data" by (rule slice_append_drop) simp
    then have d: "data = [data ! 0, data ! 1, data ! 2] @ ?v @ drop (3 + ?n) data"
      using split3 by simp
    let ?r = "\<lparr>vd_id = uint (data ! 0), vd_type = uint (data ! 1), vd_value = ?v\<rparr>"
    have len: "(word_of_int (int (length ?v)) :: byte) = data ! 2" by (simp add: v)
    have r: "data = vendor_dp_bytes ?r @ drop (3 + ?n) data"
      using d len by (simp add: vendor_dp_bytes_def)
    have p: "parse_dp_bytes data = \<lparr>vd_id = uint (data ! 0), vd_type = uint (data ! 1), vd_value = ?v\<rparr>
        # parse_dp_bytes (drop (3 + ?n) data)"
      using parse_dp_bytes_Cons [of ?v "data ! 0" "data ! 1" "drop (3 + ?n) data"] n v d len by simp
    from "1.IH" False obtain rest where rest:
      "drop (3 + ?n) data = concat (map vendor_dp_bytes (parse_dp_bytes (drop (3 + ?n) data))) @ rest"
      "length rest < 3 \<or> length rest < 3 + unat (rest ! 2)"
      "list_all (\<lambda>d. length (vd_value d) < 256) (parse_dp_bytes (drop (3 + ?n) data))"
      by auto
    have "data = concat (map vendor_dp_bytes (parse_dp_bytes data)) @ rest"
      unfolding p by (subst r, subst rest(1)) simp
    then show ?thesis using rest(2,3) n v p by auto
  qed
qed

text \<open>the vendor parser reads the compact record of the Telink encoder: identifier,
  type and value come back, and parsing continues with the bytes that follow.\<close>

theorem compact_dp_parses:
  assumes "encode_compact_dp i t v = Inr b"
  shows "parse_tuya_vendor_dps (b @ rest) =
    \<lparr>vd_id = i, vd_type = t, vd_value = drop 3 b\<rparr> # parse_tuya_vendor_dps rest
    \<and> be_int (drop 3 b) = (if t = DP_TYPE_BOOLEAN then of_bool (v \<noteq> 0) else v)"
proof -
  have it: "1 \<le> i" "i \<le> 255" "0 \<le> t" "t \<le> 255"
    using assms by (auto simp: encode_compact_dp_def split: if_splits)
  obtain e where b: "b = [word_of_int i, word_of_int t, word_of_int (int (length e))] @ e"
    and e: "length e < 256" "be_int e = (if t = DP_TYPE_BOOLEAN then of_bool (v \<noteq> 0) else v)"
    using assms it
    by (auto simp: encode_compact_dp_def be_int_be_bytes dp_consts split: if_splits)
  have "parse_tuya_vendor_dps (b @ rest) =
    \<lparr>vd_id = i, vd_type = t, vd_value = drop 3 b\<rparr> # parse_tuya_vendor_dps rest"
    using parse_dp_bytes_Cons [OF e(1), of "word_of_int i" "word_of_int t" rest] it
    by (simp add: parse_tuya_vendor_dps_def b uint_byte_of_int)
  moreover have "be_int (drop 3 b) = (if t = DP_TYPE_BOOLEAN then of_bool (v \<noteq> 0) else v)"
    using e(2) by (simp add: b)
  ultimately show ?thesis by blast
qed

theorem compact_dp_parses_witness:
  "parse_tuya_vendor_dps ([122, 2, 4, 0, 0, 0, 50] @ [1]) =
     \<lparr>vd_id = 122, vd_type = 2, vd_value = [0, 0, 0, 50]\<rparr> # parse_tuya_vendor_dps [1]"
proof -
  have "encode_compact_dp 122 2 50 = Inr [122, 2, 4, 0, 0, 0, 50]" by code_simp
  from compact_dp_parses [OF this, of "[1]"] show ?thesis by simp
qed

end
