(* ===== verification/Sig_Protocol.thy ===== *)
theory Sig_Protocol
  imports Sig_Crypto Sig_Codec
begin

text \<open>
  \<^verbatim>\<open>lib/tuya_ble_mesh/sig_mesh_protocol.py\<close>: the derived key set, the network layer with its
  privacy obfuscation, and the transport layer with unsegmented and segmented access messages.
  A function that returns \<^verbatim>\<open>None\<close> on a failed authentication returns \<open>Inr None\<close>.
\<close>

subsection \<open>Key set\<close>

record mesh_keys =
  mk_net_key :: bytes
  mk_dev_key :: bytes
  mk_app_key :: "bytes option"
  mk_iv_index :: int
  mk_nid :: int
  mk_enc_key :: bytes
  mk_priv_key :: bytes
  mk_network_id :: bytes
  mk_aid :: int

text \<open>\<^verbatim>\<open>bytes.fromhex\<close>: pairs of hexadecimal digits, white space between them.\<close>

definition hex_digit :: "int \<Rightarrow> int option" where
  "hex_digit c =
     (if 48 \<le> c \<and> c \<le> 57 then Some (c - 48)
      else if 65 \<le> c \<and> c \<le> 70 then Some (c - 55)
      else if 97 \<le> c \<and> c \<le> 102 then Some (c - 87) else None)"

definition ascii_space :: "int \<Rightarrow> bool" where
  "ascii_space c \<longleftrightarrow> c = 32 \<or> (9 \<le> c \<and> c \<le> 13)"

fun bytes_fromhex :: "pystr \<Rightarrow> bytes res" where
  "bytes_fromhex [] = Inr []"
| "bytes_fromhex [c] = (if ascii_space c then Inr [] else Inl ValueError)"
| "bytes_fromhex (c # d # cs) =
     (if ascii_space c then bytes_fromhex (d # cs)
      else case (hex_digit c, hex_digit d) of
        (Some h, Some l) \<Rightarrow> bindR (bytes_fromhex cs) (\<lambda>r. Inr (word_of_int (16 * h + l) # r))
      | _ \<Rightarrow> Inl ValueError)"

definition make_mesh_keys ::
  "crypto_lib \<Rightarrow> pystr \<Rightarrow> pystr \<Rightarrow> pystr option \<Rightarrow> int \<Rightarrow> mesh_keys res" where
  "make_mesh_keys lib net_key_hex dev_key_hex app_key_hex iv_index =
     bindR (bytes_fromhex net_key_hex) (\<lambda>net_key.
     bindR (bytes_fromhex dev_key_hex) (\<lambda>dev_key.
     bindR (case app_key_hex of None \<Rightarrow> Inr None
            | Some h \<Rightarrow> if h = [] then Inr None
                        else bindR (bytes_fromhex h) (\<lambda>b. Inr (Some b))) (\<lambda>app_key.
     bindR (k2 lib net_key [0x00]) (\<lambda>(nid, enc_key, priv_key).
     bindR (k3 lib net_key) (\<lambda>network_id.
     bindR (case app_key of None \<Rightarrow> Inr 0
            | Some a \<Rightarrow> if a = [] then Inr 0 else k4 lib a) (\<lambda>aid.
       Inr \<lparr>mk_net_key = net_key, mk_dev_key = dev_key, mk_app_key = app_key,
            mk_iv_index = iv_index, mk_nid = nid, mk_enc_key = enc_key,
            mk_priv_key = priv_key, mk_network_id = network_id, mk_aid = aid\<rparr>))))))"

subsection \<open>Network layer\<close>

definition make_network_nonce :: "int \<Rightarrow> int \<Rightarrow> int \<Rightarrow> int \<Rightarrow> bytes res" where
  "make_network_nonce ctl_ttl seq src iv_index =
     bindR (to_byte ctl_ttl) (\<lambda>ct.
     bindR (pack_be 4 seq) (\<lambda>sq.
     bindR (pack_be 2 src) (\<lambda>sr.
     bindR (pack_be 4 iv_index) (\<lambda>iv.
       Inr ([0x00, ct] @ drop 1 sq @ sr @ [0x00, 0x00] @ iv)))))"

definition network_mic_len :: "int \<Rightarrow> nat" where
  "network_mic_len ctl = (if ctl \<noteq> 0 then MIC_LEN_CONTROL else MIC_LEN_ACCESS)"

text \<open>The privacy mask: one AES block over the IV index and the first seven encrypted bytes.\<close>

definition privacy_mask :: "crypto_lib \<Rightarrow> bytes \<Rightarrow> int \<Rightarrow> bytes \<Rightarrow> bytes res" where
  "privacy_mask lib priv_key iv_index encrypted =
     bindR (pack_be 4 iv_index) (\<lambda>iv.
       aes_ecb lib priv_key ([0x00, 0x00, 0x00, 0x00, 0x00] @ iv @ take 7 encrypted))"

definition encrypt_network_pdu ::
  "crypto_lib \<Rightarrow> bytes \<Rightarrow> bytes \<Rightarrow> int \<Rightarrow> int \<Rightarrow> int \<Rightarrow> int \<Rightarrow> int \<Rightarrow> int \<Rightarrow> bytes \<Rightarrow> int
    \<Rightarrow> bytes res" where
  "encrypt_network_pdu lib enc_key priv_key nid ctl ttl seq src dst transport_pdu iv_index =
     (let ctl_ttl = push_bit 7 (ctl AND 1) OR (ttl AND MESH_TTL_MASK) in
      bindR (make_network_nonce ctl_ttl seq src iv_index) (\<lambda>nonce.
      bindR (pack_be 2 dst) (\<lambda>ds.
      bindR (mesh_aes_ccm_encrypt lib enc_key nonce (ds @ transport_pdu) (network_mic_len ctl)) (\<lambda>encrypted.
      let ivi_nid = push_bit 7 (iv_index AND 1) OR (nid AND MESH_NID_MASK) in
      bindR (to_byte ivi_nid) (\<lambda>h.
      bindR (to_byte ctl_ttl) (\<lambda>ct.
      bindR (pack_be 4 seq) (\<lambda>sq.
      bindR (pack_be 2 src) (\<lambda>sr.
      let header = [h, ct] @ drop 1 sq @ sr in
      bindR (privacy_mask lib priv_key iv_index encrypted) (\<lambda>pecb.
      bindR (xor_strict (slice 1 7 header) (take 6 pecb)) (\<lambda>obfuscated.
        Inr ([h] @ obfuscated @ encrypted)))))))))))"

record network_pdu =
  np_ctl :: int
  np_ttl :: int
  np_seq :: int
  np_src :: int
  np_dst :: int
  np_transport_pdu :: bytes

text \<open>\<^verbatim>\<open>try ... except CryptoError: return None\<close>.\<close>

definition catch_crypto :: "'a res \<Rightarrow> 'a option res" where
  "catch_crypto m = (case m of
     Inl e \<Rightarrow> if isinstance e CryptoError then Inr None else Inl e | Inr x \<Rightarrow> Inr (Some x))"

text \<open>The header fields of the six de-obfuscated bytes.\<close>

definition network_fields :: "bytes \<Rightarrow> (int \<times> int \<times> int) res" where
  "network_fields d =
     bindR (py_index d 0) (\<lambda>d0. bindR (py_index d 1) (\<lambda>d1. bindR (py_index d 2) (\<lambda>d2.
     bindR (py_index d 3) (\<lambda>d3. bindR (py_index d 4) (\<lambda>d4. bindR (py_index d 5) (\<lambda>d5.
       Inr (uint d0, push_bit 16 (uint d1) OR push_bit 8 (uint d2) OR uint d3,
            push_bit 8 (uint d4) OR uint d5)))))))"

definition decrypt_network_pdu ::
  "crypto_lib \<Rightarrow> bytes \<Rightarrow> bytes \<Rightarrow> int \<Rightarrow> bytes \<Rightarrow> int \<Rightarrow> network_pdu option res" where
  "decrypt_network_pdu lib enc_key priv_key nid pdu iv_index =
     (if length pdu < 10 then Inr None
      else if uint (pdu ! 0) AND MESH_NID_MASK \<noteq> nid then Inr None
      else let encrypted_data = drop 7 pdu in
       bindR (privacy_mask lib priv_key iv_index encrypted_data) (\<lambda>pecb.
       bindR (xor_strict (slice 1 7 pdu) (take 6 pecb)) (\<lambda>deobfuscated.
       bindR (network_fields deobfuscated) (\<lambda>(ctl_ttl, seq, src).
       let ctl = drop_bit 7 ctl_ttl AND 1; ttl = ctl_ttl AND MESH_TTL_MASK in
       bindR (make_network_nonce ctl_ttl seq src iv_index) (\<lambda>nonce.
       bindR (catch_crypto (mesh_aes_ccm_decrypt lib enc_key nonce encrypted_data (network_mic_len ctl))) (\<lambda>r.
         case r of None \<Rightarrow> Inr None
         | Some plaintext \<Rightarrow>
             bindR (py_index plaintext 0) (\<lambda>p0. bindR (py_index plaintext 1) (\<lambda>p1.
               Inr (Some \<lparr>np_ctl = ctl, np_ttl = ttl, np_seq = seq, np_src = src,
                 np_dst = push_bit 8 (uint p0) OR uint p1,
                 np_transport_pdu = drop 2 plaintext\<rparr>)))))))))"

subsection \<open>Transport layer\<close>

definition make_app_nonce :: "int \<Rightarrow> int \<Rightarrow> int \<Rightarrow> int \<Rightarrow> int \<Rightarrow> int \<Rightarrow> bytes res" where
  "make_app_nonce akf szmic seq src dst iv_index =
     bindR (to_byte (push_bit 7 szmic)) (\<lambda>sz.
     bindR (pack_be 4 seq) (\<lambda>sq.
     bindR (pack_be 2 src) (\<lambda>sr.
     bindR (pack_be 2 dst) (\<lambda>ds.
     bindR (pack_be 4 iv_index) (\<lambda>iv.
       Inr ([if akf \<noteq> 0 then 0x01 else 0x02, sz] @ drop 1 sq @ sr @ ds @ iv))))))"

definition make_access_unsegmented ::
  "crypto_lib \<Rightarrow> bytes \<Rightarrow> int \<Rightarrow> int \<Rightarrow> int \<Rightarrow> int \<Rightarrow> bytes \<Rightarrow> int \<Rightarrow> int \<Rightarrow> bytes res" where
  "make_access_unsegmented lib key src dst seq iv_index access_payload akf aid =
     (if length access_payload > MAX_UNSEG_ACCESS_PAYLOAD then Inl ProtocolError
      else bindR (make_app_nonce akf 0 seq src dst iv_index) (\<lambda>nonce.
        bindR (mesh_aes_ccm_encrypt lib key nonce access_payload MIC_LEN_ACCESS) (\<lambda>encrypted.
        bindR (to_byte (push_bit 6 akf OR (aid AND MESH_AID_MASK))) (\<lambda>hdr.
          Inr ([hdr] @ encrypted)))))"

definition transport_mic_len :: "int \<Rightarrow> nat" where
  "transport_mic_len szmic = (if szmic \<noteq> 0 then MIC_LEN_CONTROL else MIC_LEN_ACCESS)"

text \<open>One lower transport PDU of a segmented message.\<close>

definition make_segment :: "int \<Rightarrow> int \<Rightarrow> int \<Rightarrow> int \<Rightarrow> int \<Rightarrow> int \<Rightarrow> bytes \<Rightarrow> bytes res" where
  "make_segment akf aid szmic seq_zero seg_o seg_n chunk =
     bindR (to_byte (MESH_SEG_BIT OR push_bit 6 akf OR (aid AND MESH_AID_MASK))) (\<lambda>hdr.
     bindR (pack_be 4 (push_bit 23 szmic OR push_bit 10 seq_zero OR push_bit 5 seg_o OR seg_n)) (\<lambda>info.
       Inr ([hdr] @ drop 1 info @ chunk)))"

text \<open>The loop of \<^verbatim>\<open>make_access_segmented\<close> over the segment numbers.\<close>

fun segment_loop ::
  "int \<Rightarrow> int \<Rightarrow> int \<Rightarrow> int \<Rightarrow> int \<Rightarrow> int \<Rightarrow> bytes \<Rightarrow> nat list \<Rightarrow> (int \<times> bytes) list res" where
  "segment_loop akf aid szmic seq_start seq_zero seg_n upper [] = Inr []"
| "segment_loop akf aid szmic seq_start seq_zero seg_n upper (i # is) =
     bindR (make_segment akf aid szmic seq_zero (int i) seg_n
              (slice (i * SEG_DATA_SIZE) ((i + 1) * SEG_DATA_SIZE) upper)) (\<lambda>pdu.
     bindR (segment_loop akf aid szmic seq_start seq_zero seg_n upper is) (\<lambda>rest.
       Inr ((seq_start + int i, pdu) # rest)))"

definition n_segments :: "nat \<Rightarrow> nat" where
  "n_segments n = (n + SEG_DATA_SIZE - 1) div SEG_DATA_SIZE"

definition make_access_segmented ::
  "crypto_lib \<Rightarrow> bytes \<Rightarrow> int \<Rightarrow> int \<Rightarrow> int \<Rightarrow> int \<Rightarrow> bytes \<Rightarrow> int \<Rightarrow> int \<Rightarrow> int
    \<Rightarrow> (int \<times> bytes) list res" where
  "make_access_segmented lib key src dst seq_start iv_index access_payload akf aid szmic =
     bindR (make_app_nonce akf szmic seq_start src dst iv_index) (\<lambda>nonce.
     bindR (mesh_aes_ccm_encrypt lib key nonce access_payload (transport_mic_len szmic)) (\<lambda>upper_transport.
       let n_segs = n_segments (length upper_transport);
           seg_n = int n_segs - 1;
           seq_zero = seq_start AND MESH_SEQ_ZERO_MASK
       in segment_loop akf aid szmic seq_start seq_zero seg_n upper_transport [0..<n_segs]))"

record access_message =
  am_seg :: bool
  am_akf :: int
  am_aid :: int
  am_access_payload :: "bytes option"
  am_raw :: bytes

definition decrypt_access_payload ::
  "crypto_lib \<Rightarrow> mesh_keys \<Rightarrow> int \<Rightarrow> int \<Rightarrow> int \<Rightarrow> bytes \<Rightarrow> access_message option res" where
  "decrypt_access_payload lib keys src dst seq transport_pdu =
     (if transport_pdu = [] then Inr None
      else let hdr = uint (transport_pdu ! 0);
               seg = (hdr AND MESH_SEG_BIT \<noteq> 0);
               akf = drop_bit 6 hdr AND 1;
               aid = hdr AND MESH_AID_MASK
        in if seg then Inr (Some \<lparr>am_seg = True, am_akf = akf, am_aid = aid,
                                  am_access_payload = None, am_raw = transport_pdu\<rparr>)
        else case (if akf \<noteq> 0 then mk_app_key keys else Some (mk_dev_key keys)) of
          None \<Rightarrow> Inr None
        | Some key \<Rightarrow>
            bindR (make_app_nonce akf 0 seq src dst (mk_iv_index keys)) (\<lambda>nonce.
            bindR (catch_crypto (mesh_aes_ccm_decrypt lib key nonce (drop 1 transport_pdu) MIC_LEN_ACCESS)) (\<lambda>r.
              case r of None \<Rightarrow> Inr None
              | Some access_payload \<Rightarrow>
                  Inr (Some \<lparr>am_seg = False, am_akf = akf, am_aid = aid,
                             am_access_payload = Some access_payload, am_raw = transport_pdu\<rparr>))))"

text \<open>The loop over the segment numbers; \<open>None\<close> when one is missing.\<close>

fun join_segments :: "(int, bytes) dict \<Rightarrow> nat list \<Rightarrow> bytes option" where
  "join_segments d [] = Some []"
| "join_segments d (i # is) =
     (case dict_get d (int i) of None \<Rightarrow> None
      | Some c \<Rightarrow> map_option (\<lambda>r. c @ r) (join_segments d is))"

definition reassemble_and_decrypt_segments ::
  "crypto_lib \<Rightarrow> mesh_keys \<Rightarrow> int \<Rightarrow> int \<Rightarrow> (int, bytes) dict \<Rightarrow> int \<Rightarrow> int \<Rightarrow> int \<Rightarrow> int
    \<Rightarrow> bytes option res" where
  "reassemble_and_decrypt_segments lib keys src dst segments seg_n szmic seq_zero akf =
     (case join_segments segments [0..<nat (seg_n + 1)] of
        None \<Rightarrow> Inr None
      | Some upper_transport \<Rightarrow>
          (case (if akf \<noteq> 0 then mk_app_key keys else Some (mk_dev_key keys)) of
             None \<Rightarrow> Inr None
           | Some key \<Rightarrow>
               bindR (make_app_nonce akf szmic seq_zero src dst (mk_iv_index keys)) (\<lambda>nonce.
                 catch_crypto (mesh_aes_ccm_decrypt lib key nonce upper_transport
                   (transport_mic_len szmic)))))"

subsection \<open>Packed fields\<close>

lemma pack_be_ok: "0 \<le> x \<Longrightarrow> x < 256 ^ n \<Longrightarrow> pack_be n x = Inr (be_bytes n x)"
  by (simp add: pack_be_def fits_unsigned_def)

lemma pack_be_4: "0 \<le> x \<Longrightarrow> x < 2 ^ 32 \<Longrightarrow> pack_be 4 x = Inr (be_bytes 4 x)"
  by (rule pack_be_ok) simp_all

lemma be_bytes_Suc: "be_bytes (Suc n) x = word_of_int (x div 256 ^ n) # be_bytes n x"
proof -
  have "le_bytes (Suc n) x = le_bytes n x @ [word_of_int (x div 256 ^ n)]" for x
    by (induction n arbitrary: x) (simp_all add: zdiv_zmult2_eq)
  then show ?thesis unfolding be_bytes_def by (simp del: le_bytes.simps)
qed

lemma drop_1_be_bytes_4: "drop 1 (be_bytes 4 x) = be_bytes 3 x"
  using be_bytes_Suc [of 3 x] by simp

lemma be_int_le_3: "length b = 3 \<Longrightarrow> 0 \<le> be_int b \<and> be_int b < 2 ^ 24"
  using be_int_bounds [of b] by simp

lemma be_int_le_2: "length b = 2 \<Longrightarrow> 0 \<le> be_int b \<and> be_int b < 2 ^ 16"
  using be_int_bounds [of b] by simp

lemma be_int_be_bytes_id: "0 \<le> x \<Longrightarrow> x < 256 ^ n \<Longrightarrow> be_int (be_bytes n x) = x"
  by (simp add: be_int_be_bytes)

lemma be_int_3: "0 \<le> x \<Longrightarrow> x < 2 ^ 24 \<Longrightarrow> be_int (be_bytes 3 x) = x"
  by (rule be_int_be_bytes_id) simp_all

lemma be_int_2: "0 \<le> x \<Longrightarrow> x \<le> 0xFFFF \<Longrightarrow> be_int (be_bytes 2 x) = x"
  by (rule be_int_be_bytes_id) simp_all

lemma be_int_4: "0 \<le> x \<Longrightarrow> x < 2 ^ 32 \<Longrightarrow> be_int (be_bytes 4 x) = x"
  by (rule be_int_be_bytes_id) simp_all

lemma or_7: "push_bit 7 a OR b AND 0x7F = a * 128 + b mod 128" for a b :: int
  using or_disjoint [of "b mod 128" 7 a] by (simp add: and_mask_mod)

subsection \<open>The network header\<close>

definition net_header :: "int \<Rightarrow> int \<Rightarrow> int \<Rightarrow> bytes" where
  "net_header ctl_ttl seq src = word_of_int ctl_ttl # be_bytes 3 seq @ be_bytes 2 src"

definition net_nonce :: "bytes \<Rightarrow> int \<Rightarrow> bytes" where
  "net_nonce header iv = 0 # header @ [0, 0] @ be_bytes 4 iv"

definition net_mask :: "crypto_lib \<Rightarrow> bytes \<Rightarrow> int \<Rightarrow> bytes \<Rightarrow> bytes" where
  "net_mask lib priv_key iv encrypted =
     take 6 (cl_aes lib priv_key ([0, 0, 0, 0, 0] @ be_bytes 4 iv @ take 7 encrypted))"

lemma length_net_header [simp]: "length (net_header c q s) = 6"
  by (simp add: net_header_def)

lemma length_net_nonce [simp]: "length (net_nonce h iv) = 7 + length h"
  by (simp add: net_nonce_def)

lemma make_network_nonce_ok:
  assumes "0 \<le> c" "c \<le> 255" "0 \<le> q" "q < 2 ^ 24" "0 \<le> s" "s \<le> 0xFFFF" "0 \<le> iv" "iv < 2 ^ 32"
  shows "make_network_nonce c q s iv = Inr (net_nonce (net_header c q s) iv)"
  using assms drop_1_be_bytes_4 [of q]
  by (simp add: make_network_nonce_def net_nonce_def net_header_def to_byte_ok pack_be_4 pack_be_2)

lemma split_6: "length d = 6 \<Longrightarrow> d = d ! 0 # slice 1 4 d @ slice 4 6 d"
proof -
  assume d: "length d = 6"
  have "slice 1 4 d @ slice 4 6 d = drop 1 d"
    using slice_append_drop [of 1 4 d] slice_append_drop [of 4 6 d] d by simp
  moreover have "d = d ! 0 # drop 1 d" using d by (cases d) auto
  ultimately show ?thesis by simp
qed

lemma network_fields_6:
  assumes "length d = 6"
  shows "network_fields d = Inr (uint (d ! 0), be_int (slice 1 4 d), be_int (slice 4 6 d))"
proof -
  obtain a b c x y z where "d = [a, b, c, x, y, z]"
    using assms by (auto simp: eval_nat_numeral length_Suc_conv)
  then show ?thesis
    by (simp add: network_fields_def py_index_def or_be16 or_be24 [unfolded or_be16 or.assoc]
        or.assoc slice_def)
qed

lemma net_header_6:
  assumes "length d = 6"
  shows "net_header (uint (d ! 0)) (be_int (slice 1 4 d)) (be_int (slice 4 6 d)) = d"
proof -
  have "length (slice 1 4 d) = 3" "length (slice 4 6 d) = 2" using assms by (simp_all add: length_slice)
  then show ?thesis using split_6 [OF assms] by (simp add: net_header_def be_bytes_be_int)
qed

lemma privacy_mask_ok:
  assumes "length priv_key = 16" "7 \<le> length e" "0 \<le> iv" "iv < 2 ^ 32"
  shows "bindR (privacy_mask lib priv_key iv e) f
    = f (cl_aes lib priv_key ([0, 0, 0, 0, 0] @ be_bytes 4 iv @ take 7 e))"
  using assms by (simp add: privacy_mask_def pack_be_4 aes_ecb_ok)

lemma length_net_mask:
  "block_cipher (cl_aes lib) \<Longrightarrow> length priv_key = 16 \<Longrightarrow> 7 \<le> length e \<Longrightarrow>
   length (net_mask lib priv_key iv e) = 6"
  by (simp add: net_mask_def block_cipherD)

text \<open>Decryption in terms of the unmasked header.\<close>

lemma decrypt_network_pdu_eq:
  assumes b: "block_cipher (cl_aes lib)" and k: "length priv_key = 16" and iv: "0 \<le> iv" "iv < 2 ^ 32"
    and len: "14 \<le> length pdu" and nid: "uint (pdu ! 0) AND MESH_NID_MASK = nid"
  defines "d \<equiv> xor_bytes (slice 1 7 pdu) (net_mask lib priv_key iv (drop 7 pdu))"
  shows "decrypt_network_pdu lib enc_key priv_key nid pdu iv =
    bindR (catch_crypto (mesh_aes_ccm_decrypt lib enc_key (net_nonce d iv) (drop 7 pdu)
             (network_mic_len (drop_bit 7 (uint (d ! 0)) AND 1)))) (\<lambda>r.
      case r of None \<Rightarrow> Inr None
      | Some p \<Rightarrow> bindR (py_index p 0) (\<lambda>p0. bindR (py_index p 1) (\<lambda>p1.
          Inr (Some \<lparr>np_ctl = drop_bit 7 (uint (d ! 0)) AND 1,
            np_ttl = uint (d ! 0) AND MESH_TTL_MASK, np_seq = be_int (slice 1 4 d),
            np_src = be_int (slice 4 6 d), np_dst = push_bit 8 (uint p0) OR uint p1,
            np_transport_pdu = drop 2 p\<rparr>))))"
proof -
  have l7: "7 \<le> length (drop 7 pdu)" using len by simp
  have lm: "length (net_mask lib priv_key iv (drop 7 pdu)) = 6" by (rule length_net_mask [OF b k l7])
  have ls: "length (slice 1 7 pdu) = 6" using len by (simp add: length_slice)
  have ld: "length d = 6" using lm ls by (simp add: d_def)
  have x: "xor_strict (slice 1 7 pdu) (take 6 (cl_aes lib priv_key
      ([0, 0, 0, 0, 0] @ be_bytes 4 iv @ take 7 (drop 7 pdu)))) = Inr d"
    using lm ls unfolding d_def net_mask_def by simp
  have s: "length (slice 1 4 d) = 3" "length (slice 4 6 d) = 2" using ld by (simp_all add: length_slice)
  have n: "make_network_nonce (uint (d ! 0)) (be_int (slice 1 4 d)) (be_int (slice 4 6 d)) iv
      = Inr (net_nonce d iv)"
    using make_network_nonce_ok [of "uint (d ! 0)" "be_int (slice 1 4 d)" "be_int (slice 4 6 d)" iv]
      be_int_le_3 [OF s(1)] be_int_le_2 [OF s(2)] uint_byte_bounds [of "d ! 0"] iv net_header_6 [OF ld]
    by simp
  have "\<not> length pdu < 10" using len by simp
  then show ?thesis
    unfolding decrypt_network_pdu_def Let_def privacy_mask_ok [OF k l7 iv] x bindR.simps
      network_fields_6 [OF ld] prod.case n nid by (simp only: if_False simp_thms)
qed

lemma catch_crypto_simps [simp]:
  "catch_crypto (Inr x) = Inr (Some x)" "catch_crypto (Inl CryptoError) = Inr None"
  by (simp_all add: catch_crypto_def)

lemma network_mic_len_cases: "network_mic_len c = 4 \<or> network_mic_len c = 8"
  by (simp add: network_mic_len_def mesh_consts)

lemma ccm_usableI:
  "crypto_lib_ok lib \<Longrightarrow> tag = 4 \<or> tag = 8 \<Longrightarrow> length k = 16 \<Longrightarrow> length n = 13 \<Longrightarrow>
   ccm_usable lib tag k n"
  by (simp add: ccm_usable_def crypto_lib_ok_def)

text \<open>Encryption in terms of the header.\<close>

lemma encrypt_network_pdu_eq:
  fixes ctl ttl seq src :: int
  assumes b: "block_cipher (cl_aes lib)" and k: "length priv_key = 16"
    and r: "0 \<le> seq" "seq < 2 ^ 24" "0 \<le> src" "src \<le> 0xFFFF" "0 \<le> dst" "dst \<le> 0xFFFF"
      "0 \<le> iv" "iv < 2 ^ 32"
  defines "c \<equiv> ctl mod 2 * 128 + ttl mod 128"
  defines "h \<equiv> net_header c seq src"
  assumes e: "mesh_aes_ccm_encrypt lib enc_key (net_nonce h iv) (be_bytes 2 dst @ t)
      (network_mic_len ctl) = Inr e" "7 \<le> length e"
  shows "encrypt_network_pdu lib enc_key priv_key nid ctl ttl seq src dst t iv =
    Inr (word_of_int (iv mod 2 * 128 + nid mod 128) # xor_bytes h (net_mask lib priv_key iv e) @ e)"
proof -
  have c: "push_bit 7 (ctl AND 1) OR ttl AND MESH_TTL_MASK = c"
    "push_bit 7 (iv AND 1) OR nid AND MESH_NID_MASK = iv mod 2 * 128 + nid mod 128"
    by (simp_all only: c_def mesh_consts or_7 and_mask_mod(8))
  have cb: "0 \<le> c" "c \<le> 255" "0 \<le> iv mod 2 * 128 + nid mod 128" "iv mod 2 * 128 + nid mod 128 \<le> 255"
    unfolding c_def using pos_mod_bound [of 2 ctl] pos_mod_bound [of 128 ttl]
      pos_mod_bound [of 2 iv] pos_mod_bound [of 128 nid] by simp_all
  have n: "make_network_nonce c seq src iv = Inr (net_nonce h iv)"
    unfolding h_def using cb r by (intro make_network_nonce_ok)
  have hd: "slice 1 7 ([x, word_of_int c] @ drop 1 (be_bytes 4 seq) @ be_bytes 2 src) = h" for x
    unfolding drop_1_be_bytes_4 h_def net_header_def by (simp add: slice_def)
  have lm: "length (net_mask lib priv_key iv e) = 6" by (rule length_net_mask [OF b k e(2)])
  have x: "xor_strict h (take 6 (cl_aes lib priv_key ([0, 0, 0, 0, 0] @ be_bytes 4 iv @ take 7 e)))
      = Inr (xor_bytes h (net_mask lib priv_key iv e))"
    using lm unfolding net_mask_def h_def by simp
  have p: "pack_be 2 dst = Inr (be_bytes 2 dst)" "pack_be 4 seq = Inr (be_bytes 4 seq)"
    "pack_be 2 src = Inr (be_bytes 2 src)" using r by (simp_all add: pack_be_2 pack_be_4)
  show ?thesis
    unfolding encrypt_network_pdu_def Let_def c n p e(1) bindR.simps to_byte_ok [OF cb(1,2)]
      to_byte_ok [OF cb(3,4)] privacy_mask_ok [OF k e(2) r(7,8)] hd x by simp
qed

lemma xor_bytes_undo:
  "length a = length b \<Longrightarrow> xor_bytes (xor_bytes a b) b = a"
  using xor_bytes_cancel [of b a] by (simp add: xor_bytes_comm)

subsection \<open>Properties of the network layer\<close>

lemma network_pdu_sent:
  assumes lib: "crypto_lib_ok lib" and keys: "length enc_key = 16" "length priv_key = 16"
    and r: "0 \<le> nid" "nid \<le> 127" "ctl \<in> {0, 1}" "0 \<le> seq" "seq < 2 ^ 24" "0 \<le> src" "src \<le> 0xFFFF"
      "0 \<le> dst" "dst \<le> 0xFFFF" "0 \<le> iv" "iv < 2 ^ 32"
    and t: "length t \<le> 65533" "t \<noteq> [] \<or> ctl = 1"
  shows "\<exists>pdu. encrypt_network_pdu lib enc_key priv_key nid ctl ttl seq src dst t iv = Inr pdu
    \<and> length pdu = 9 + length t + network_mic_len ctl
    \<and> decrypt_network_pdu lib enc_key priv_key nid pdu iv = Inr (Some \<lparr>np_ctl = ctl,
        np_ttl = ttl mod 128, np_seq = seq, np_src = src, np_dst = dst, np_transport_pdu = t\<rparr>)"
proof -
  let ?c = "ctl mod 2 * 128 + ttl mod 128" and ?mic = "network_mic_len ctl"
  let ?h = "net_header ?c seq src"
  let ?p = "be_bytes 2 dst @ t"
  have b: "block_cipher (cl_aes lib)" using lib by (simp add: crypto_lib_ok_def)
  have u: "ccm_usable lib ?mic enc_key (net_nonce ?h iv)"
    using lib keys network_mic_len_cases by (intro ccm_usableI) simp_all
  obtain e where e: "mesh_aes_ccm_encrypt lib enc_key (net_nonce ?h iv) ?p ?mic = Inr e"
    "length e = length ?p + ?mic" "mesh_aes_ccm_decrypt lib enc_key (net_nonce ?h iv) e ?mic = Inr ?p"
    using ccm.seal_ok [OF u, of ?p] t by auto
  have e7: "7 \<le> length e" using e(2) t r(3) by (cases t) (auto simp: network_mic_len_def mesh_consts)
  let ?m = "net_mask lib priv_key iv e"
  let ?hd = "word_of_int (iv mod 2 * 128 + nid mod 128) :: byte"
  let ?pdu = "?hd # xor_bytes ?h ?m @ e"
  have lm: "length ?m = 6" by (rule length_net_mask [OF b keys(2) e7])
  have len: "length ?pdu = 7 + length e" using lm by simp
  have drp: "drop 7 ?pdu = e" "slice 1 7 ?pdu = xor_bytes ?h ?m" using lm by (simp_all add: slice_def)
  have d: "xor_bytes (slice 1 7 ?pdu) (net_mask lib priv_key iv (drop 7 ?pdu)) = ?h"
    unfolding drp using lm by (simp add: xor_bytes_undo)
  have "uint ?hd = iv mod 2 * 128 + nid mod 128"
    unfolding uint_byte_of_int using pos_mod_bound [of 2 iv] pos_mod_bound [of 128 nid]
    by (intro mod_pos_pos_trivial) simp_all
  then have nid: "uint (?pdu ! 0) AND MESH_NID_MASK = nid"
    using r by (simp add: mesh_consts and_mask_mod)
  have cb: "uint (?h ! 0) = ?c"
    unfolding net_header_def nth_Cons_0 uint_byte_of_int
    using pos_mod_bound [of 2 ctl] pos_mod_bound [of 128 ttl] by (intro mod_pos_pos_trivial) simp_all
  have cd: "drop_bit 7 ?c = ctl mod 2" using pos_mod_bound [of 128 ttl]
    by (simp add: drop_bit_eq_div)
  have ctl: "drop_bit 7 (uint (?h ! 0)) AND 1 = ctl" unfolding cb cd using r(3)
    by (auto simp: and_mask_mod)
  have ttl: "uint (?h ! 0) AND MESH_TTL_MASK = ttl mod 128" unfolding cb mesh_consts and_mask_mod
    by simp
  have f: "be_int (slice 1 4 ?h) = seq" "be_int (slice 4 6 ?h) = src"
    using r by (simp_all add: net_header_def slice_def be_int_3 be_int_2)
  have dst: "push_bit 8 (uint (?p ! 0)) OR uint (?p ! 1) = dst" "drop 2 ?p = t"
    using be_int_2 [of dst] r by (simp_all add: bytes_2 or_be16)
  have "decrypt_network_pdu lib enc_key priv_key nid ?pdu iv = Inr (Some \<lparr>np_ctl = ctl,
        np_ttl = ttl mod 128, np_seq = seq, np_src = src, np_dst = dst, np_transport_pdu = t\<rparr>)"
    using decrypt_network_pdu_eq [OF b keys(2) r(10,11) _ nid, of enc_key, unfolded d,
        unfolded drp ctl ttl f e(3)] len e7
    by (simp add: py_index_def dst [simplified] del: of_int_add)
  moreover have "encrypt_network_pdu lib enc_key priv_key nid ctl ttl seq src dst t iv = Inr ?pdu"
    by (rule encrypt_network_pdu_eq [OF b keys(2) r(4-11) e(1) e7])
  ultimately show ?thesis using len e(2) by (intro exI [of _ ?pdu]) simp
qed

text \<open>C2: a network PDU that \<^verbatim>\<open>encrypt_network_pdu\<close> builds is decrypted by
  \<^verbatim>\<open>decrypt_network_pdu\<close> with the same keys and IV index to the control bit, the low seven
  bits of the TTL, the sequence number, both addresses and the transport PDU, for every transport
  PDU that is not empty (or any control message).\<close>

theorem network_pdu_roundtrip:
  assumes lib: "crypto_lib_ok lib" and keys: "length enc_key = 16" "length priv_key = 16"
    and r: "0 \<le> nid" "nid \<le> 127" "ctl \<in> {0, 1}" "0 \<le> seq" "seq < 2 ^ 24" "0 \<le> src" "src \<le> 0xFFFF"
      "0 \<le> dst" "dst \<le> 0xFFFF" "0 \<le> iv" "iv < 2 ^ 32"
    and t: "length t \<le> 65533" "t \<noteq> [] \<or> ctl = 1"
  shows "\<exists>pdu. encrypt_network_pdu lib enc_key priv_key nid ctl ttl seq src dst t iv = Inr pdu
    \<and> length pdu = 9 + length t + network_mic_len ctl
    \<and> decrypt_network_pdu lib enc_key priv_key nid pdu iv = Inr (Some \<lparr>np_ctl = ctl,
        np_ttl = ttl mod 128, np_seq = seq, np_src = src, np_dst = dst, np_transport_pdu = t\<rparr>)"
  by (rule network_pdu_sent [OF assms])

theorem network_pdu_roundtrip_witness:
  "\<exists>pdu. encrypt_network_pdu demo_lib (replicate 16 1) (replicate 16 2) 0x68 0 5 7 0x1201 0xFFFF [0, 1] 42
      = Inr pdu
    \<and> length pdu = 15
    \<and> decrypt_network_pdu demo_lib (replicate 16 1) (replicate 16 2) 0x68 pdu 42 = Inr (Some \<lparr>np_ctl = 0,
        np_ttl = 5, np_seq = 7, np_src = 0x1201, np_dst = 0xFFFF, np_transport_pdu = [0, 1]\<rparr>)"
  using network_pdu_roundtrip [OF demo_lib_ok, of "replicate 16 1" "replicate 16 2" "0x68" 0 7 "0x1201"
      "0xFFFF" 42 "[0, 1]" 5]
  by (simp add: network_mic_len_def mesh_consts)

lemma xor_mask_undo:
  assumes "length s = 6" "length m = 6"
  shows "length (xor_bytes s m) = 6" "xor_bytes (xor_bytes s m) m = s"
  using assms by (simp_all add: xor_bytes_undo)

lemma ctl_ttl_split:
  fixes c :: int
  assumes "0 \<le> c" "c < 256"
  shows "(drop_bit 7 c AND 1) mod 2 * 128 + (c AND MESH_TTL_MASK) mod 128 = c"
    "drop_bit 7 c AND 1 \<in> {0, 1}" "0 \<le> c AND MESH_TTL_MASK" "c AND MESH_TTL_MASK < 128"
proof -
  have "c div 128 < 2" "0 \<le> c div 128" using assms by (simp_all add: pos_imp_zdiv_nonneg_iff)
  then have q: "drop_bit 7 c AND 1 = c div 128" by (simp add: drop_bit_eq_div and_mask_mod)
  with \<open>c div 128 < 2\<close> \<open>0 \<le> c div 128\<close> show "drop_bit 7 c AND 1 \<in> {0, 1}" by auto
  show "(drop_bit 7 c AND 1) mod 2 * 128 + (c AND MESH_TTL_MASK) mod 128 = c"
    unfolding q unfolding mesh_consts and_mask_mod using \<open>c div 128 < 2\<close> \<open>0 \<le> c div 128\<close> by simp
  show "0 \<le> c AND MESH_TTL_MASK" "c AND MESH_TTL_MASK < 128" by (simp_all add: mesh_consts and_mask_mod)
qed

lemma catch_crypto_Some: "catch_crypto m = Inr (Some x) \<longleftrightarrow> m = Inr x"
  by (cases m) (auto simp: catch_crypto_def)



text \<open>what \<^verbatim>\<open>decrypt_network_pdu\<close> does with any input: a PDU of fewer than 10 bytes or
  with another NID is ignored, one of 10 to 13 bytes with the right NID raises CryptoError, since
  fewer than seven encrypted bytes are left for the privacy block, and one of 17 bytes or more
  never raises.\<close>

theorem decrypt_network_pdu_outcomes:
  assumes lib: "crypto_lib_ok lib" and keys: "length enc_key = 16" "length priv_key = 16"
    and iv: "0 \<le> iv" "iv < 2 ^ 32"
  shows "(length pdu < 10 \<or> uint (pdu ! 0) AND MESH_NID_MASK \<noteq> nid \<longrightarrow>
      decrypt_network_pdu lib enc_key priv_key nid pdu iv = Inr None)
    \<and> (10 \<le> length pdu \<and> length pdu < 14 \<and> uint (pdu ! 0) AND MESH_NID_MASK = nid \<longrightarrow>
      decrypt_network_pdu lib enc_key priv_key nid pdu iv = Inl CryptoError)
    \<and> (17 \<le> length pdu \<and> length pdu \<le> 65542 \<longrightarrow>
      (\<exists>r. decrypt_network_pdu lib enc_key priv_key nid pdu iv = Inr r))"
proof (intro conjI impI)
  assume "length pdu < 10 \<or> uint (pdu ! 0) AND MESH_NID_MASK \<noteq> nid"
  then show "decrypt_network_pdu lib enc_key priv_key nid pdu iv = Inr None"
    by (auto simp: decrypt_network_pdu_def)
next
  assume h: "10 \<le> length pdu \<and> length pdu < 14 \<and> uint (pdu ! 0) AND MESH_NID_MASK = nid"
  then have "privacy_mask lib priv_key iv (drop 7 pdu) = Inl CryptoError"
    using iv keys by (auto simp: privacy_mask_def pack_be_4 aes_ecb_def mesh_validate_key_ok min_def)
  with h show "decrypt_network_pdu lib enc_key priv_key nid pdu iv = Inl CryptoError"
    by (simp add: decrypt_network_pdu_def Let_def)
next
  assume len: "17 \<le> length pdu \<and> length pdu \<le> 65542"
  have b: "block_cipher (cl_aes lib)" using lib by (simp add: crypto_lib_ok_def)
  let ?e = "drop 7 pdu"
  define d where "d = xor_bytes (slice 1 7 pdu) (net_mask lib priv_key iv ?e)"
  show "\<exists>r. decrypt_network_pdu lib enc_key priv_key nid pdu iv = Inr r"
  proof (cases "uint (pdu ! 0) AND MESH_NID_MASK = nid")
    case True
    have "length (net_mask lib priv_key iv ?e) = 6" using len by (intro length_net_mask [OF b keys(2)]) auto
    then have ld: "length d = 6" using len by (auto simp: d_def length_slice)
    let ?mic = "network_mic_len (drop_bit 7 (uint (d ! 0)) AND 1)"
    have u: "ccm_usable lib ?mic enc_key (net_nonce d iv)"
      using lib keys ld network_mic_len_cases by (intro ccm_usableI) simp_all
    have l14: "14 \<le> length pdu" using len by simp
    have "length ?e \<le> 65535" using len by auto
    from ccm.opn_cases [OF u this]
    consider "mesh_aes_ccm_decrypt lib enc_key (net_nonce d iv) ?e ?mic = Inl CryptoError"
      | p where "mesh_aes_ccm_decrypt lib enc_key (net_nonce d iv) ?e ?mic = Inr p"
        "length ?e = length p + ?mic" by auto
    then show ?thesis
    proof cases
      case 1
      then show ?thesis
        unfolding decrypt_network_pdu_eq [OF b keys(2) iv l14 True, folded d_def] by simp
    next
      case 2
      moreover have "1 < length p" using 2(2) len network_mic_len_cases [of "drop_bit 7 (uint (d ! 0)) AND 1"]
        by auto
      ultimately show ?thesis
        unfolding decrypt_network_pdu_eq [OF b keys(2) iv l14 True, folded d_def]
        by (auto simp: py_index_def)
    qed
  qed (simp add: decrypt_network_pdu_def)
qed

theorem decrypt_network_pdu_outcomes_witness:
  "decrypt_network_pdu demo_lib (replicate 16 1) (replicate 16 2) 0x68 (0x68 # replicate 9 0) 42
    = Inl CryptoError"
  using decrypt_network_pdu_outcomes [OF demo_lib_ok, where enc_key = "replicate 16 1"
      and priv_key = "replicate 16 2" and iv = 42 and pdu = "0x68 # replicate 9 0" and nid = "0x68"]
  by (simp add: mesh_consts and_mask_mod)

subsection \<open>Unsegmented access messages\<close>

lemma make_app_nonce_ok:
  assumes "szmic \<in> {0, 1}" "0 \<le> seq" "seq < 2 ^ 32" "0 \<le> src" "src \<le> 0xFFFF" "0 \<le> dst" "dst \<le> 0xFFFF"
    "0 \<le> iv" "iv < 2 ^ 32"
  shows "make_app_nonce akf szmic seq src dst iv = Inr ([if akf \<noteq> 0 then 1 else 2, word_of_int (szmic * 128)]
      @ be_bytes 3 seq @ be_bytes 2 src @ be_bytes 2 dst @ be_bytes 4 iv)"
  using assms drop_1_be_bytes_4 [of seq]
  by (auto simp: make_app_nonce_def to_byte_ok pack_be_4 pack_be_2 push_bit_eq_mult)

lemma app_nonce_exists:
  assumes "szmic \<in> {0, 1}" "0 \<le> seq" "seq < 2 ^ 32" "0 \<le> src" "src \<le> 0xFFFF" "0 \<le> dst" "dst \<le> 0xFFFF"
    "0 \<le> iv" "iv < 2 ^ 32"
  obtains n where "make_app_nonce akf szmic seq src dst iv = Inr n" "length n = 13"
  using make_app_nonce_ok [OF assms, of akf] by auto

definition access_key :: "mesh_keys \<Rightarrow> int \<Rightarrow> bytes option" where
  "access_key keys akf = (if akf \<noteq> 0 then mk_app_key keys else Some (mk_dev_key keys))"

lemma or_6: "push_bit 6 a OR b AND 0x3F = a * 64 + b mod 64" for a b :: int
  using or_disjoint [of "b mod 64" 6 a] by (simp add: and_mask_mod)

lemma access_header:
  assumes "akf \<in> {0, 1}"
  shows "to_byte (push_bit 6 akf OR aid AND MESH_AID_MASK) = Inr (word_of_int (akf * 64 + aid mod 64))"
    and "uint (word_of_int (akf * 64 + aid mod 64) :: byte) = akf * 64 + aid mod 64"
    and "to_byte (MESH_SEG_BIT OR push_bit 6 akf OR aid AND MESH_AID_MASK)
      = Inr (word_of_int (128 + (akf * 64 + aid mod 64)))"
    and "uint (word_of_int (128 + (akf * 64 + aid mod 64)) :: byte) = 128 + (akf * 64 + aid mod 64)"
proof -
  have b: "0 \<le> aid mod 64" "aid mod 64 < 64" by simp_all
  have x: "0 \<le> akf * 64 + aid mod 64" "akf * 64 + aid mod 64 < 2 ^ 7" using assms b by auto
  show "to_byte (push_bit 6 akf OR aid AND MESH_AID_MASK) = Inr (word_of_int (akf * 64 + aid mod 64))"
    unfolding mesh_consts or_6 using x by (intro to_byte_ok) simp_all
  show "uint (word_of_int (akf * 64 + aid mod 64) :: byte) = akf * 64 + aid mod 64"
    unfolding uint_byte_of_int using x by (intro mod_pos_pos_trivial) simp_all
  have "(128 :: int) OR push_bit 6 akf OR aid AND 0x3F = push_bit 7 1 OR (akf * 64 + aid mod 64)"
    unfolding or.assoc or_6 by (simp add: push_bit_eq_mult)
  also have "\<dots> = 128 + (akf * 64 + aid mod 64)" using or_disjoint [OF x, of 1] by simp
  finally show "to_byte (MESH_SEG_BIT OR push_bit 6 akf OR aid AND MESH_AID_MASK)
      = Inr (word_of_int (128 + (akf * 64 + aid mod 64)))"
    unfolding mesh_consts using x by (simp add: to_byte_ok del: of_int_add)
  show "uint (word_of_int (128 + (akf * 64 + aid mod 64)) :: byte) = 128 + (akf * 64 + aid mod 64)"
    unfolding uint_byte_of_int using x by (intro mod_pos_pos_trivial) simp_all
qed

lemma div_mod_unique:
  fixes q m r :: int
  assumes "0 \<le> r" "r < m"
  shows "(q * m + r) div m = q" "(q * m + r) mod m = r"
  using assms by (simp_all add: div_add1_eq)

lemma access_header_fields:
  assumes "akf \<in> {0, 1}"
  shows "drop_bit 6 (akf * 64 + aid mod 64) AND 1 = akf"
    and "(akf * 64 + aid mod 64) AND MESH_AID_MASK = aid mod 64"
    and "drop_bit 6 (128 + (akf * 64 + aid mod 64)) AND 1 = akf"
    and "(128 + (akf * 64 + aid mod 64)) AND MESH_AID_MASK = aid mod 64"
proof -
  have b: "0 \<le> aid mod 64" "aid mod 64 < 64" by simp_all
  have e: "128 + (akf * 64 + aid mod 64) = (2 + akf) * 64 + aid mod 64" by simp
  show "drop_bit 6 (akf * 64 + aid mod 64) AND 1 = akf"
    "(akf * 64 + aid mod 64) AND MESH_AID_MASK = aid mod 64"
    "drop_bit 6 (128 + (akf * 64 + aid mod 64)) AND 1 = akf"
    "(128 + (akf * 64 + aid mod 64)) AND MESH_AID_MASK = aid mod 64"
    unfolding e mesh_consts and_mask_mod drop_bit_eq_div
    using div_mod_unique [OF b, of akf] div_mod_unique [OF b, of "2 + akf"] assms by auto
qed

lemma access_unsegmented_sent:
  assumes lib: "crypto_lib_ok lib" and key: "access_key keys akf = Some key" "length key = 16"
    and r: "akf \<in> {0, 1}" "0 \<le> seq" "seq < 2 ^ 24" "0 \<le> src" "src \<le> 0xFFFF" "0 \<le> dst" "dst \<le> 0xFFFF"
      "0 \<le> mk_iv_index keys" "mk_iv_index keys < 2 ^ 32"
  shows "if length p \<le> 11
    then \<exists>t. make_access_unsegmented lib key src dst seq (mk_iv_index keys) p akf aid = Inr t
      \<and> length t = length p + 5
      \<and> decrypt_access_payload lib keys src dst seq t = Inr (Some \<lparr>am_seg = False, am_akf = akf,
          am_aid = aid mod 64, am_access_payload = Some p, am_raw = t\<rparr>)
    else make_access_unsegmented lib key src dst seq (mk_iv_index keys) p akf aid = Inl ProtocolError"
proof (cases "length p \<le> 11")
  case True
  obtain n where n: "make_app_nonce akf 0 seq src dst (mk_iv_index keys) = Inr n" "length n = 13"
    using app_nonce_exists [of 0 seq src dst "mk_iv_index keys" akf] r by auto
  have u: "ccm_usable lib 4 key n" using lib key n by (intro ccm_usableI) simp_all
  obtain c where c: "mesh_aes_ccm_encrypt lib key n p 4 = Inr c" "length c = length p + 4"
    "mesh_aes_ccm_decrypt lib key n c 4 = Inr p"
    using ccm.seal_ok [OF u, of p] True by auto
  note h = access_header [OF r(1), of aid] and f = access_header_fields [OF r(1), of aid]
  let ?t = "word_of_int (akf * 64 + aid mod 64) # c"
  have m: "make_access_unsegmented lib key src dst seq (mk_iv_index keys) p akf aid = Inr ?t"
    using True n(1) c(1) h(1) by (simp add: make_access_unsegmented_def
        MAX_UNSEG_ACCESS_PAYLOAD_def MIC_LEN_ACCESS_def del: of_int_add)
  have "akf * 64 + aid mod 64 < 128" using r(1) pos_mod_bound [of 64 aid] by auto
  then have ns: "uint (?t ! 0) AND MESH_SEG_BIT = 0"
    using and_bit_byte(1) [of "?t ! 0"] h(2) by (simp add: MESH_SEG_BIT_def del: of_int_add)
  have "decrypt_access_payload lib keys src dst seq ?t = Inr (Some \<lparr>am_seg = False, am_akf = akf,
          am_aid = aid mod 64, am_access_payload = Some p, am_raw = ?t\<rparr>)"
    unfolding decrypt_access_payload_def Let_def ns
    using key(1) n(1) c(3) f(1,2)
    by (simp add: h(2) access_key_def MIC_LEN_ACCESS_def del: of_int_add split: if_splits)
  then show ?thesis using m c(2) True by (simp add: exI [of _ ?t] del: of_int_add)
qed (simp add: make_access_unsegmented_def MAX_UNSEG_ACCESS_PAYLOAD_def)

text \<open>an unsegmented access message of at most 11 bytes that \<^verbatim>\<open>make_access_unsegmented\<close>
  builds under the application or the device key is read back by
  \<^verbatim>\<open>decrypt_access_payload\<close> with its key flag, its AID and its payload; a longer payload
  is refused with ProtocolError.\<close>

theorem access_unsegmented_roundtrip:
  assumes lib: "crypto_lib_ok lib" and key: "access_key keys akf = Some key" "length key = 16"
    and r: "akf \<in> {0, 1}" "0 \<le> seq" "seq < 2 ^ 24" "0 \<le> src" "src \<le> 0xFFFF" "0 \<le> dst" "dst \<le> 0xFFFF"
      "0 \<le> mk_iv_index keys" "mk_iv_index keys < 2 ^ 32"
  shows "if length p \<le> 11
    then \<exists>t. make_access_unsegmented lib key src dst seq (mk_iv_index keys) p akf aid = Inr t
      \<and> length t = length p + 5
      \<and> decrypt_access_payload lib keys src dst seq t = Inr (Some \<lparr>am_seg = False, am_akf = akf,
          am_aid = aid mod 64, am_access_payload = Some p, am_raw = t\<rparr>)
    else make_access_unsegmented lib key src dst seq (mk_iv_index keys) p akf aid = Inl ProtocolError"
  by (rule access_unsegmented_sent [OF assms])

theorem access_unsegmented_roundtrip_witness:
  "\<exists>t. make_access_unsegmented demo_lib (replicate 16 9) 1 0x1201 5 0 [0x82, 0x01] 0 0 = Inr t
    \<and> length t = 7
    \<and> decrypt_access_payload demo_lib \<lparr>mk_net_key = [], mk_dev_key = replicate 16 9, mk_app_key = None,
        mk_iv_index = 0, mk_nid = 0, mk_enc_key = [], mk_priv_key = [], mk_network_id = [], mk_aid = 0\<rparr>
        1 0x1201 5 t = Inr (Some \<lparr>am_seg = False, am_akf = 0, am_aid = 0,
          am_access_payload = Some [0x82, 0x01], am_raw = t\<rparr>)"
  using access_unsegmented_roundtrip [OF demo_lib_ok, where key = "replicate 16 9" and akf = 0 and seq = 5
    and src = 1 and dst = "0x1201" and p = "[0x82, 0x01]" and aid = 0
    and keys = "\<lparr>mk_net_key = [], mk_dev_key = replicate 16 9, mk_app_key = None,
        mk_iv_index = 0, mk_nid = 0, mk_enc_key = [], mk_priv_key = [], mk_network_id = [], mk_aid = 0\<rparr>"]
  by (simp add: access_key_def)

subsection \<open>Segments\<close>

text \<open>The segment information as a number in mixed radix.\<close>

definition seg_info :: "int \<Rightarrow> int \<Rightarrow> int \<Rightarrow> int \<Rightarrow> int" where
  "seg_info z q i n = ((z * 8192 + q) * 32 + i) * 32 + n"

lemma seg_info_or:
  assumes "0 \<le> q" "q < 8192" "0 \<le> i" "i < 32" "0 \<le> n" "n < 32"
  shows "push_bit 23 z OR push_bit 10 q OR push_bit 5 i OR n = seg_info z q i n"
proof -
  have 1: "push_bit 5 i OR n = i * 2 ^ 5 + n" by (rule or_disjoint) (use assms in simp_all)
  have 2: "push_bit 10 q OR (i * 2 ^ 5 + n) = q * 2 ^ 10 + (i * 2 ^ 5 + n)"
    by (rule or_disjoint) (use assms in simp_all)
  have 3: "push_bit 23 z OR (q * 2 ^ 10 + (i * 2 ^ 5 + n)) = z * 2 ^ 23 + (q * 2 ^ 10 + (i * 2 ^ 5 + n))"
    by (rule or_disjoint) (use assms in simp_all)
  show ?thesis unfolding or.assoc 1 2 3 seg_info_def by simp
qed

lemma seg_info_fields:
  assumes "z \<in> {0, 1}" "0 \<le> q" "q < 8192" "0 \<le> i" "i < 32" "0 \<le> n" "n < 32"
  shows "0 \<le> seg_info z q i n" "seg_info z q i n < 2 ^ 24"
    and "drop_bit 23 (seg_info z q i n) AND 1 = z"
    and "drop_bit 10 (seg_info z q i n) AND MESH_SEQ_ZERO_MASK = q"
    and "drop_bit 5 (seg_info z q i n) AND MESH_SEG_MASK = i"
    and "seg_info z q i n AND MESH_SEG_MASK = n"
proof -
  show "0 \<le> seg_info z q i n" "seg_info z q i n < 2 ^ 24"
    using assms by (auto simp: seg_info_def)
  have 5: "seg_info z q i n div 32 = (z * 8192 + q) * 32 + i" "seg_info z q i n mod 32 = n"
    unfolding seg_info_def using assms by (intro div_mod_unique; simp)+
  have 10: "((z * 8192 + q) * 32 + i) div 32 = z * 8192 + q" "((z * 8192 + q) * 32 + i) mod 32 = i"
    using assms by (intro div_mod_unique; simp)+
  have 23: "(z * 8192 + q) div 8192 = z" "(z * 8192 + q) mod 8192 = q"
    using assms by (intro div_mod_unique; simp)+
  have d10: "x div 1024 = x div 32 div 32" and d23: "x div 8388608 = x div 32 div 32 div 8192" for x :: int
    by (simp_all flip: zdiv_zmult2_eq)
  have p23: "(2 :: int) ^ 23 = 8388608" and p10: "(2 :: int) ^ 10 = 1024" and p5: "(2 :: int) ^ 5 = 32" by simp_all
  have z: "z mod 2 = z" using assms(1) by auto
  show "drop_bit 23 (seg_info z q i n) AND 1 = z"
    using z by (simp only: and_mask_mod drop_bit_eq_div p23 d23 5(1) 10(1) 23(1))
  show "drop_bit 10 (seg_info z q i n) AND MESH_SEQ_ZERO_MASK = q"
    by (simp only: mesh_consts and_mask_mod drop_bit_eq_div p10 d10 5(1) 10(1) 23(2))
  show "drop_bit 5 (seg_info z q i n) AND MESH_SEG_MASK = i"
    by (simp only: mesh_consts and_mask_mod drop_bit_eq_div p5 5(1) 10(2))
  show "seg_info z q i n AND MESH_SEG_MASK = n" unfolding mesh_consts and_mask_mod by (rule 5)
qed

lemma parse_make_segment:
  assumes "akf \<in> {0, 1}" and f: "z \<in> {0, 1}" "0 \<le> q" "q < 8192" "0 \<le> i" "i < 32" "0 \<le> n" "n < 32"
  shows "\<exists>pdu. make_segment akf aid z q i n chunk = Inr pdu \<and>
    parse_segment_header pdu = Inr \<lparr>sh_akf = akf, sh_aid = aid mod 64, sh_szmic = z, sh_seq_zero = q,
      sh_seg_o = i, sh_seg_n = n, sh_segment_data = chunk\<rparr>"
proof -
  let ?h = "word_of_int (128 + (akf * 64 + aid mod 64)) :: byte"
  let ?i = "seg_info z q i n"
  note h = access_header [OF assms(1), of aid] and hf = access_header_fields [OF assms(1), of aid]
    and inf = seg_info_fields [OF f]
  obtain a b c where abc: "be_bytes 3 ?i = [a, b, c]"
    using length_be_bytes [of 3 ?i] by (auto simp: eval_nat_numeral length_Suc_conv simp del: length_be_bytes)
  have ip: "pack_be 4 ?i = Inr (be_bytes 4 ?i)" using inf by (intro pack_be_4) simp_all
  have bi: "push_bit 16 (uint a) OR push_bit 8 (uint b) OR uint c = ?i"
    unfolding or_be24 abc [symmetric] using inf by (intro be_int_3)
  have m: "make_segment akf aid z q i n chunk = Inr (?h # a # b # c # chunk)"
    unfolding make_segment_def h bindR.simps seg_info_or [OF f(2-7)] ip drop_1_be_bytes_4 abc by simp
  have s: "uint ?h AND MESH_SEG_BIT \<noteq> 0"
    using and_bit_byte(1) [of ?h] h(4) assms(1) pos_mod_sign [of 64 aid]
    by (auto simp: MESH_SEG_BIT_def simp del: of_int_add)
  have "parse_segment_header (?h # a # b # c # chunk) = Inr \<lparr>sh_akf = akf, sh_aid = aid mod 64,
      sh_szmic = z, sh_seq_zero = q, sh_seg_o = i, sh_seg_n = n, sh_segment_data = chunk\<rparr>"
    using s inf(3-6) hf(3,4) bi
    by (simp add: parse_segment_header_def Let_def h(4) del: of_int_add)
  with m show ?thesis by blast
qed

lemma join_segments_all:
  "\<forall>i\<in>set is. dict_get d (int i) = Some (f i) \<Longrightarrow> join_segments d is = Some (concat (map f is))"
  by (induction "is") auto

lemma join_segments_missing:
  "i \<in> set is \<Longrightarrow> dict_get d (int i) = None \<Longrightarrow> join_segments d is = None"
  by (induction "is") (auto split: option.splits)

lemma concat_slices: "concat (map (\<lambda>i. slice (i * k) ((i + 1) * k) u) [0..<n]) = take (n * k) u"
proof (induction n)
  case (Suc n)
  have n: "Suc n * k = n * k + k" "(n + 1) * k = n * k + k" by simp_all
  show ?case using Suc unfolding n(1) take_add by (simp add: slice_def n(2))
qed simp

lemma n_segments_cover: "length u \<le> n_segments (length u) * SEG_DATA_SIZE"
  unfolding n_segments_def mesh_consts by linarith

lemma segment_loop_ok:
  assumes "akf \<in> {0, 1}" "z \<in> {0, 1}" "0 \<le> q" "q < 8192" "\<forall>i\<in>set is. i < 32" "0 \<le> n" "n < 32"
  shows "\<exists>segs. segment_loop akf aid z s q n u is = Inr segs \<and> map fst segs = map (\<lambda>i. s + int i) is
    \<and> list_all2 (\<lambda>seg i. parse_segment_header (snd seg) = Inr \<lparr>sh_akf = akf, sh_aid = aid mod 64,
        sh_szmic = z, sh_seq_zero = q, sh_seg_o = int i, sh_seg_n = n,
        sh_segment_data = slice (i * 12) ((i + 1) * 12) u\<rparr>) segs is"
  using assms(5)
proof (induction "is")
  case (Cons i "is")
  obtain pdu where pdu: "make_segment akf aid z q (int i) n (slice (i * 12) ((i + 1) * 12) u) = Inr pdu"
    "parse_segment_header pdu = Inr \<lparr>sh_akf = akf, sh_aid = aid mod 64, sh_szmic = z, sh_seq_zero = q,
      sh_seg_o = int i, sh_seg_n = n, sh_segment_data = slice (i * 12) ((i + 1) * 12) u\<rparr>"
    using parse_make_segment [of akf z q "int i" n aid "slice (i * 12) ((i + 1) * 12) u"] assms Cons.prems
    by auto
  obtain segs where "segment_loop akf aid z s q n u is = Inr segs" "map fst segs = map (\<lambda>i. s + int i) is"
    "list_all2 (\<lambda>seg i. parse_segment_header (snd seg) = Inr \<lparr>sh_akf = akf, sh_aid = aid mod 64,
        sh_szmic = z, sh_seq_zero = q, sh_seg_o = int i, sh_seg_n = n,
        sh_segment_data = slice (i * 12) ((i + 1) * 12) u\<rparr>) segs is"
    using Cons by auto
  with pdu show ?case unfolding segment_loop.simps SEG_DATA_SIZE_def pdu(1) by simp
qed simp

definition segment_stored :: "(int, bytes) dict \<Rightarrow> int \<times> bytes \<Rightarrow> bool" where
  "segment_stored d seg \<longleftrightarrow> (case parse_segment_header (snd seg) of
     Inl e \<Rightarrow> False | Inr h \<Rightarrow> dict_get d (sh_seg_o h) = Some (sh_segment_data h))"

lemma segmented_parts:
  assumes lib: "crypto_lib_ok lib" and key: "access_key keys akf = Some key" "length key = 16"
    and r: "akf \<in> {0, 1}" "szmic \<in> {0, 1}" "0 \<le> seq" "seq \<le> 0x1FFF" "0 \<le> src" "src \<le> 0xFFFF"
      "0 \<le> dst" "dst \<le> 0xFFFF" "0 \<le> mk_iv_index keys" "mk_iv_index keys < 2 ^ 32"
    and len: "length p + transport_mic_len szmic \<le> 384"
  obtains segs c where
    "make_access_segmented lib key src dst seq (mk_iv_index keys) p akf aid szmic = Inr segs"
    "length segs = n_segments (length p + transport_mic_len szmic)" "segs \<noteq> []"
    "map fst segs = map (\<lambda>i. seq + int i) [0..<length segs]"
    "\<And>i. i < length segs \<Longrightarrow> parse_segment_header (snd (segs ! i)) = Inr \<lparr>sh_akf = akf,
        sh_aid = aid mod 64, sh_szmic = szmic, sh_seq_zero = seq, sh_seg_o = int i,
        sh_seg_n = int (length segs) - 1, sh_segment_data = slice (i * 12) ((i + 1) * 12) c\<rparr>"
    "\<And>d. (\<And>i. i < length segs \<Longrightarrow> dict_get d (int i) = Some (slice (i * 12) ((i + 1) * 12) c)) \<Longrightarrow>
        reassemble_and_decrypt_segments lib keys src dst d (int (length segs) - 1) szmic seq akf
          = Inr (Some p)"
proof -
  let ?mic = "transport_mic_len szmic"
  have mic: "?mic = 4 \<or> ?mic = 8" by (simp add: transport_mic_len_def mesh_consts)
  obtain nonce where nonce: "make_app_nonce akf szmic seq src dst (mk_iv_index keys) = Inr nonce"
    "length nonce = 13"
    using app_nonce_exists [of szmic seq src dst "mk_iv_index keys" akf] r by auto
  have u: "ccm_usable lib ?mic key nonce" using lib key nonce mic by (intro ccm_usableI) simp_all
  obtain c where c: "mesh_aes_ccm_encrypt lib key nonce p ?mic = Inr c" "length c = length p + ?mic"
    "mesh_aes_ccm_decrypt lib key nonce c ?mic = Inr p"
    using ccm.seal_ok [OF u, of p] len by auto
  let ?n = "n_segments (length c)"
  have n: "0 < ?n" "?n \<le> 32" using mic len c(2) unfolding n_segments_def mesh_consts by linarith+
  have q: "seq AND MESH_SEQ_ZERO_MASK = seq" using r unfolding mesh_consts and_mask_mod by simp
  obtain segs where segs: "segment_loop akf aid szmic seq seq (int ?n - 1) c [0..<?n] = Inr segs"
    "map fst segs = map (\<lambda>i. seq + int i) [0..<?n]"
    "list_all2 (\<lambda>seg i. parse_segment_header (snd seg) = Inr \<lparr>sh_akf = akf, sh_aid = aid mod 64,
        sh_szmic = szmic, sh_seq_zero = seq, sh_seg_o = int i, sh_seg_n = int ?n - 1,
        sh_segment_data = slice (i * 12) ((i + 1) * 12) c\<rparr>) segs [0..<?n]"
    using segment_loop_ok [of akf szmic seq "[0..<?n]" "int ?n - 1" aid seq c] r n by auto
  have ls: "length segs = ?n" using segs(3) by (simp add: list_all2_lengthD)
  have hdr: "parse_segment_header (snd (segs ! i)) = Inr \<lparr>sh_akf = akf, sh_aid = aid mod 64,
        sh_szmic = szmic, sh_seq_zero = seq, sh_seg_o = int i, sh_seg_n = int ?n - 1,
        sh_segment_data = slice (i * 12) ((i + 1) * 12) c\<rparr>" if "i < ?n" for i
    using list_all2_nthD2 [OF segs(3), of i] that by simp
  have "make_access_segmented lib key src dst seq (mk_iv_index keys) p akf aid szmic = Inr segs"
    unfolding make_access_segmented_def nonce(1) c(1) bindR.simps Let_def q segs(1) ..
  moreover have "reassemble_and_decrypt_segments lib keys src dst d (int (length segs) - 1) szmic seq akf
      = Inr (Some p)"
    if d: "\<And>i. i < length segs \<Longrightarrow> dict_get d (int i) = Some (slice (i * 12) ((i + 1) * 12) c)" for d
  proof -
    have "join_segments d [0..<?n] = Some (concat (map (\<lambda>i. slice (i * 12) ((i + 1) * 12) c) [0..<?n]))"
      using d ls by (intro join_segments_all) simp
    also have "\<dots> = Some c" using concat_slices [of 12 c ?n] n_segments_cover [of c]
      by (simp add: SEG_DATA_SIZE_def)
    finally have "join_segments d [0..<?n] = Some c" .
    moreover have "nat (int (length segs) - 1 + 1) = ?n" using ls by simp
    ultimately show ?thesis
      using key(1) nonce(1) c(3)
      by (simp add: reassemble_and_decrypt_segments_def access_key_def split: if_splits)
  qed
  moreover have "segs \<noteq> []" "length segs = n_segments (length p + ?mic)" using ls n c(2) by auto
  ultimately show ?thesis using that [of segs c] hdr segs(2) ls by simp
qed

text \<open>C5: the segments of an access message whose sequence number has at most 13 bits reassemble:
  every segment's header is read back with the message's fields, and once a dictionary holds each
  segment's data under its number, in whatever order they were stored,
  \<^verbatim>\<open>reassemble_and_decrypt_segments\<close> returns the payload.  The payload and its tag fill at
  most 32 segments.\<close>

theorem access_segmented_roundtrip:
  assumes lib: "crypto_lib_ok lib" and key: "access_key keys akf = Some key" "length key = 16"
    and r: "akf \<in> {0, 1}" "szmic \<in> {0, 1}" "0 \<le> seq" "seq \<le> 0x1FFF" "0 \<le> src" "src \<le> 0xFFFF"
      "0 \<le> dst" "dst \<le> 0xFFFF" "0 \<le> mk_iv_index keys" "mk_iv_index keys < 2 ^ 32"
    and len: "length p + transport_mic_len szmic \<le> 384"
  shows "\<exists>segs. make_access_segmented lib key src dst seq (mk_iv_index keys) p akf aid szmic = Inr segs
    \<and> map fst segs = map (\<lambda>i. seq + int i) [0..<n_segments (length p + transport_mic_len szmic)]
    \<and> (\<forall>seg\<in>set segs. \<exists>h. parse_segment_header (snd seg) = Inr h \<and> sh_akf h = akf
        \<and> sh_aid h = aid mod 64 \<and> sh_szmic h = szmic \<and> sh_seq_zero h = seq
        \<and> sh_seg_n h = int (length segs) - 1)
    \<and> (\<forall>d. (\<forall>seg\<in>set segs. segment_stored d seg) \<longrightarrow>
        reassemble_and_decrypt_segments lib keys src dst d (int (length segs) - 1) szmic seq akf
          = Inr (Some p))"
proof -
  obtain segs c where segs:
    "make_access_segmented lib key src dst seq (mk_iv_index keys) p akf aid szmic = Inr segs"
    "length segs = n_segments (length p + transport_mic_len szmic)"
    "map fst segs = map (\<lambda>i. seq + int i) [0..<length segs]"
    "\<And>i. i < length segs \<Longrightarrow> parse_segment_header (snd (segs ! i)) = Inr \<lparr>sh_akf = akf,
        sh_aid = aid mod 64, sh_szmic = szmic, sh_seq_zero = seq, sh_seg_o = int i,
        sh_seg_n = int (length segs) - 1, sh_segment_data = slice (i * 12) ((i + 1) * 12) c\<rparr>"
    "\<And>d. (\<And>i. i < length segs \<Longrightarrow> dict_get d (int i) = Some (slice (i * 12) ((i + 1) * 12) c)) \<Longrightarrow>
        reassemble_and_decrypt_segments lib keys src dst d (int (length segs) - 1) szmic seq akf
          = Inr (Some p)"
    using segmented_parts [OF lib key r len, of aid] by metis
  have "\<forall>seg\<in>set segs. \<exists>h. parse_segment_header (snd seg) = Inr h \<and> sh_akf h = akf
        \<and> sh_aid h = aid mod 64 \<and> sh_szmic h = szmic \<and> sh_seq_zero h = seq
        \<and> sh_seg_n h = int (length segs) - 1"
  proof
    fix seg assume "seg \<in> set segs"
    then obtain i where "i < length segs" "seg = segs ! i" by (auto simp: in_set_conv_nth)
    then show "\<exists>h. parse_segment_header (snd seg) = Inr h \<and> sh_akf h = akf
        \<and> sh_aid h = aid mod 64 \<and> sh_szmic h = szmic \<and> sh_seq_zero h = seq
        \<and> sh_seg_n h = int (length segs) - 1"
      using segs(4) [of i] by simp
  qed
  moreover have "reassemble_and_decrypt_segments lib keys src dst d (int (length segs) - 1) szmic seq akf
      = Inr (Some p)" if d: "\<forall>seg\<in>set segs. segment_stored d seg" for d
  proof (rule segs(5))
    fix i assume i: "i < length segs"
    then show "dict_get d (int i) = Some (slice (i * 12) ((i + 1) * 12) c)"
      using d [rule_format, OF nth_mem [OF i]] segs(4) [OF i] by (simp add: segment_stored_def)
  qed
  ultimately show ?thesis using segs(1-3) by auto
qed

theorem access_segmented_roundtrip_witness:
  "\<exists>segs. make_access_segmented demo_lib (replicate 16 3) 1 0x1201 9 0 (replicate 20 7) 0 0 0 = Inr segs
    \<and> map fst segs = [9, 10]"
  using access_segmented_roundtrip [OF demo_lib_ok, where key = "replicate 16 3" and akf = 0
    and szmic = 0 and seq = 9 and src = 1 and dst = "0x1201" and p = "replicate 20 7" and aid = 0
    and keys = "\<lparr>mk_net_key = [], mk_dev_key = replicate 16 3, mk_app_key = None,
        mk_iv_index = 0, mk_nid = 0, mk_enc_key = [], mk_priv_key = [], mk_network_id = [], mk_aid = 0\<rparr>"]
  by (auto simp: access_key_def transport_mic_len_def mesh_consts n_segments_def upt_rec)

text \<open>the sender encrypts a segmented message under its full 24-bit sequence number, the
  receiver rebuilds the nonce from the 13-bit field of the segment headers: the two nonces agree
  exactly for sequence numbers of at most 13 bits.\<close>

theorem segmented_nonce_truncated:
  assumes "szmic \<in> {0, 1}" "0 \<le> seq" "seq < 2 ^ 24" "0 \<le> src" "src \<le> 0xFFFF" "0 \<le> dst" "dst \<le> 0xFFFF"
    "0 \<le> iv" "iv < 2 ^ 32"
  shows "make_app_nonce akf szmic (seq AND MESH_SEQ_ZERO_MASK) src dst iv
      = make_app_nonce akf szmic seq src dst iv \<longleftrightarrow> seq \<le> 0x1FFF"
proof -
  have q: "seq AND MESH_SEQ_ZERO_MASK = seq mod 8192" unfolding mesh_consts and_mask_mod ..
  have b: "0 \<le> seq mod 8192" "seq mod 8192 < 8192" by simp_all
  have "make_app_nonce akf szmic (seq mod 8192) src dst iv = make_app_nonce akf szmic seq src dst iv
      \<longleftrightarrow> be_bytes 3 (seq mod 8192) = be_bytes 3 seq"
    using make_app_nonce_ok [of szmic seq src dst iv akf]
      make_app_nonce_ok [of szmic "seq mod 8192" src dst iv akf] assms b by simp
  also have "\<dots> \<longleftrightarrow> seq mod 8192 = seq"
    using be_bytes_inj [of 3 "seq mod 8192" seq] assms b by (auto simp: fits_unsigned_def)
  also have "\<dots> \<longleftrightarrow> seq \<le> 0x1FFF" using assms b by (auto)
  finally show ?thesis unfolding q .
qed

theorem segmented_nonce_truncated_witness:
  "make_app_nonce 1 0 (0x2001 AND MESH_SEQ_ZERO_MASK) 1 2 0 \<noteq> make_app_nonce 1 0 0x2001 1 2 0"
  using segmented_nonce_truncated [of 0 "0x2001" 1 2 0 1] by simp

text \<open>from any hexadecimal keys of 16 bytes \<^verbatim>\<open>MeshKeys\<close> derives a NID of seven bits, two
  16-byte network keys, an 8-byte network identifier and an AID of six bits, and keeps the given
  keys; a network key of another size raises CryptoError.\<close>

theorem mesh_keys_derived:
  assumes b: "block_cipher (cl_aes lib)" and net: "bytes_fromhex net_hex = Inr net"
    and dev: "bytes_fromhex dev_hex = Inr dev"
    and app: "app_hex = None \<and> app = None \<or>
      (\<exists>h a. app_hex = Some h \<and> h \<noteq> [] \<and> bytes_fromhex h = Inr a \<and> length a = 16 \<and> app = Some a)"
  shows "if length net = 16
    then \<exists>keys. make_mesh_keys lib net_hex dev_hex app_hex iv = Inr keys
      \<and> mk_net_key keys = net \<and> mk_dev_key keys = dev \<and> mk_app_key keys = app \<and> mk_iv_index keys = iv
      \<and> mk_nid keys \<in> {0..<128} \<and> length (mk_enc_key keys) = 16 \<and> length (mk_priv_key keys) = 16
      \<and> length (mk_network_id keys) = 8 \<and> mk_aid keys \<in> {0..<64}
    else make_mesh_keys lib net_hex dev_hex app_hex iv = Inl CryptoError"
proof -
  have app2: "(case app_hex of None \<Rightarrow> Inr None
            | Some h \<Rightarrow> if h = [] then Inr None
                        else bindR (bytes_fromhex h) (\<lambda>b. Inr (Some b))) = Inr app"
    using app by auto
  show ?thesis
  proof (cases "length net = 16")
    case True
    obtain nid ek pk where k2: "k2 lib net [0x00] = Inr (nid, ek, pk)" "0 \<le> nid" "nid < 128"
      "length ek = 16" "length pk = 16" by (rule k2_ok [OF b True])
    obtain nw where k3: "k3 lib net = Inr nw" "length nw = 8" by (rule k3_ok [OF b True])
    have "\<exists>aid. (case app of None \<Rightarrow> Inr 0 | Some a \<Rightarrow> if a = [] then Inr 0 else k4 lib a) = Inr aid
        \<and> 0 \<le> aid \<and> aid < 64"
    proof (cases app)
      case (Some a)
      with app have a: "length a = 16" by auto
      obtain aid where "k4 lib a = Inr aid" "0 \<le> aid" "aid < 64" by (rule k4_ok [OF b a])
      with a Some show ?thesis by auto
    qed simp
    then obtain aid where "(case app of None \<Rightarrow> Inr 0 | Some a \<Rightarrow> if a = [] then Inr 0 else k4 lib a)
        = Inr aid" "0 \<le> aid" "aid < 64" by blast
    with k2 k3 True show ?thesis by (simp add: make_mesh_keys_def net dev app2)
  next
    case False
    then have "k2 lib net [0x00] = Inl CryptoError" by (simp add: k2_def mesh_validate_key_def)
    with False show ?thesis by (simp add: make_mesh_keys_def net dev app2)
  qed
qed

theorem mesh_keys_derived_witness:
  "make_mesh_keys demo_lib [97, 66] [32, 48, 49] None 0 = Inl CryptoError"
proof -
  have "bytes_fromhex [97, 66] = Inr [0xAB]" "bytes_fromhex [32, 48, 49] = Inr [1]" by code_simp+
  moreover have "block_cipher (cl_aes demo_lib)" by (simp add: demo_lib_def demo_aes_block_cipher)
  ultimately show ?thesis
    using mesh_keys_derived [of demo_lib "[97, 66]" "[0xAB]" "[32, 48, 49]" "[1]" None None 0] by simp
qed

end
