(* ===== verification/Sig_Segments.thy ===== *)
theory Sig_Segments
  imports Sig_Protocol
begin

text \<open>
  \<^verbatim>\<open>lib/tuya_ble_mesh/sig_mesh_device_segments.py\<close>: the receiving side of a SIG Mesh device.
  \<open>sig_device\<close> is the part of \<^verbatim>\<open>SIGMeshDevice\<close> that it reads and writes.  The methods run
  under \<^verbatim>\<open>_segment_lock\<close> or without an await, so each is one step: it takes the device and
  returns the new device, the calls it made in order (\<open>cb_event\<close>), and the exception that left
  it, if any.  A callback is a number in the list it is registered in; \<open>raises\<close> is the foreign
  code of the callbacks: the exception a call raises, if any.  Shown: the buffers stay bounded,
  a message is dispatched once all its segments are there in whatever order, responses are
  matched first in first out, and a status reaches every callback.
\<close>

definition REASSEMBLY_TIMEOUT :: seconds where "REASSEMBLY_TIMEOUT = 10"
definition OPCODE_ONOFF_STATUS :: int where "OPCODE_ONOFF_STATUS = 0x8204"
definition OPCODE_LEVEL_STATUS :: int where "OPCODE_LEVEL_STATUS = 0x8208"
definition OPCODE_APPKEY_STATUS :: int where "OPCODE_APPKEY_STATUS = 0x8003"
definition OPCODE_MODEL_APP_STATUS :: int where "OPCODE_MODEL_APP_STATUS = 0x803E"

lemmas segment_consts = REASSEMBLY_TIMEOUT_def OPCODE_ONOFF_STATUS_def OPCODE_LEVEL_STATUS_def
  OPCODE_APPKEY_STATUS_def OPCODE_MODEL_APP_STATUS_def

subsection \<open>State\<close>

record reassembly_buffer =
  rb_src :: int
  rb_dst :: int
  rb_akf :: int
  rb_aid :: int
  rb_szmic :: int
  rb_seq_zero :: int
  rb_seg_n :: int
  rb_segments :: "(int, bytes) dict"
  rb_created_at :: seconds

type_synonym buf_key = "int \<times> int \<times> int \<times> int"

text \<open>A future in the table of pending responses: still waiting, or already done (cancelled).\<close>

datatype future = Waiting | Finished

record sig_device =
  sd_keys :: "mesh_keys option"
  sd_has_client :: bool
  sd_segment_buffers :: "(buf_key, reassembly_buffer) dict"
  sd_pending_responses :: "(int \<times> int, future) dict"
  sd_onoff_callbacks :: "nat list"
  sd_level_callbacks :: "nat list"
  sd_vendor_callbacks :: "nat list"
  sd_composition_callbacks :: "nat list"
  sd_disconnect_callbacks :: "nat list"
  sd_composition :: "composition_data option"
  sd_firmware_version :: "string option"

datatype cb_event =
    OnOffCall nat bool
  | LevelCall nat int
  | VendorCall nat int bytes
  | CompositionCall nat composition_data
  | DisconnectCall nat
  | FutureResult "int \<times> int" bytes

type_synonym step_result = "sig_device \<times> cb_event list \<times> py_error option"

subsection \<open>Calling the callbacks\<close>

text \<open>The loop over a copy of a callback list: \<^verbatim>\<open>CancelledError\<close> and what is not an
  \<^verbatim>\<open>Exception\<close> leave it, any other exception is logged and the loop goes on.\<close>

fun call_all :: "(cb_event \<Rightarrow> py_error option) \<Rightarrow> cb_event list \<Rightarrow> cb_event list \<times> py_error option" where
  "call_all raises [] = ([], None)"
| "call_all raises (e # es) =
     (case raises e of
        Some x \<Rightarrow> if isinstance x CancelledError \<or> \<not> isinstance x PyException then ([e], Some x)
                  else (let (out, r) = call_all raises es in (e # out, r))
      | None \<Rightarrow> (let (out, r) = call_all raises es in (e # out, r)))"

text \<open>Four upper case hexadecimal digits, \<^verbatim>\<open>:04X\<close> of a 16-bit number.\<close>

definition hex4 :: "int \<Rightarrow> string" where
  "hex4 x = map (\<lambda>d. ''0123456789ABCDEF'' ! nat (x div d mod 16)) [0x1000, 0x100, 0x10, 1]"

definition handle_composition_data ::
  "(cb_event \<Rightarrow> py_error option) \<Rightarrow> bytes \<Rightarrow> sig_device \<Rightarrow> step_result" where
  "handle_composition_data raises params d =
     (case parse_composition_data params of
        Inl e \<Rightarrow> if isinstance e MalformedPacketError then (d, [], None) else (d, [], Some e)
      | Inr compn \<Rightarrow>
          let d1 = d\<lparr>sd_composition := Some compn,
                     sd_firmware_version := Some (''CID:'' @ hex4 (cd_cid compn) @ '' PID:''
                       @ hex4 (cd_pid compn) @ '' VID:'' @ hex4 (cd_vid compn))\<rparr>;
              (out, r) = call_all raises (map (\<lambda>c. CompositionCall c compn) (sd_composition_callbacks d1))
          in (d1, out, r))"

subsection \<open>Dispatch\<close>

text \<open>The first pending key with the opcode, in insertion order.\<close>

definition find_pending :: "int \<Rightarrow> (int \<times> int, future) dict \<Rightarrow> (int \<times> int) option" where
  "find_pending opcode pending = find (\<lambda>k. fst k = opcode) (map fst pending)"

definition dispatch_access_payload_unlocked ::
  "(cb_event \<Rightarrow> py_error option) \<Rightarrow> int \<Rightarrow> bytes \<Rightarrow> sig_device \<Rightarrow> step_result" where
  "dispatch_access_payload_unlocked raises opcode params d =
     (case find_pending opcode (sd_pending_responses d) of
        Some key \<Rightarrow>
          (let fut = dict_get (sd_pending_responses d) key;
               d1 = d\<lparr>sd_pending_responses := dict_pop key (sd_pending_responses d)\<rparr>
           in if fut = Some Waiting then (d1, [FutureResult key params], None) else (d1, [], None))
      | None \<Rightarrow>
          if opcode = OPCODE_ONOFF_STATUS \<and> params \<noteq> [] then
            (let on_state = (params ! 0 \<noteq> 0);
                 (out, r) = call_all raises (map (\<lambda>c. OnOffCall c on_state) (sd_onoff_callbacks d))
             in (d, out, r))
          else if opcode = OPCODE_LEVEL_STATUS \<and> length params \<ge> 2 then
            (let level = to_signed 2 (le_int (take 2 params));
                 (out, r) = call_all raises (map (\<lambda>c. LevelCall c level) (sd_level_callbacks d))
             in (d, out, r))
          else if opcode = OP_LIGHT_LIGHTNESS_STATUS \<and> length params \<ge> 2 then
            (let level = le_int (take 2 params) - 32768;
                 (out, r) = call_all raises (map (\<lambda>c. LevelCall c level) (sd_level_callbacks d))
             in (d, out, r))
          else if opcode = OP_CONFIG_COMPOSITION_STATUS then handle_composition_data raises params d
          else if opcode > 0xFFFF then
            (let (out, r) = call_all raises (map (\<lambda>c. VendorCall c opcode params) (sd_vendor_callbacks d))
             in (d, out, r))
          else (d, [], None))"

definition dispatch_access_payload ::
  "(cb_event \<Rightarrow> py_error option) \<Rightarrow> bytes \<Rightarrow> sig_device \<Rightarrow> step_result" where
  "dispatch_access_payload raises access_payload d =
     (case parse_access_opcode access_payload of
        Inl e \<Rightarrow> if isinstance e MalformedPacketError then (d, [], None) else (d, [], Some e)
      | Inr (opcode, params) \<Rightarrow> dispatch_access_payload_unlocked raises opcode params d)"

subsection \<open>Reassembly\<close>

definition clean_stale_buffers :: "seconds \<Rightarrow> sig_device \<Rightarrow> sig_device" where
  "clean_stale_buffers now d =
     d\<lparr>sd_segment_buffers :=
        filter (\<lambda>(key, buf). \<not> (now - rb_created_at buf > REASSEMBLY_TIMEOUT)) (sd_segment_buffers d)\<rparr>"

definition complete_reassembly ::
  "crypto_lib \<Rightarrow> (cb_event \<Rightarrow> py_error option) \<Rightarrow> buf_key \<Rightarrow> sig_device \<Rightarrow> step_result" where
  "complete_reassembly lib raises buf_key d =
     (let d1 = d\<lparr>sd_segment_buffers := dict_pop buf_key (sd_segment_buffers d)\<rparr> in
      case (dict_get (sd_segment_buffers d) buf_key, sd_keys d) of
        (Some buf, Some keys) \<Rightarrow>
          (case reassemble_and_decrypt_segments lib keys (rb_src buf) (rb_dst buf) (rb_segments buf)
                  (rb_seg_n buf) (rb_szmic buf) (rb_seq_zero buf) (rb_akf buf) of
             Inl e \<Rightarrow> (d1, [], Some e)
           | Inr None \<Rightarrow> (d1, [], None)
           | Inr (Some access_payload) \<Rightarrow> dispatch_access_payload raises access_payload d1)
      | _ \<Rightarrow> (d1, [], None))"

text \<open>The buffer after a segment: created at \<open>now\<close> when there is none.\<close>

definition add_segment ::
  "int \<Rightarrow> int \<Rightarrow> segment_header \<Rightarrow> seconds \<Rightarrow> reassembly_buffer option \<Rightarrow> reassembly_buffer" where
  "add_segment src dst h now found =
     (let buf = (case found of Some b \<Rightarrow> b
        | None \<Rightarrow> \<lparr>rb_src = src, rb_dst = dst, rb_akf = sh_akf h, rb_aid = sh_aid h,
                   rb_szmic = sh_szmic h, rb_seq_zero = sh_seq_zero h, rb_seg_n = sh_seg_n h,
                   rb_segments = [], rb_created_at = now\<rparr>)
      in buf\<lparr>rb_segments := dict_set (sh_seg_o h) (sh_segment_data h) (rb_segments buf)\<rparr>)"

text \<open>\<open>now\<close> and \<open>later\<close> are the two readings of the clock, for a new buffer and for the cleaning.\<close>

definition handle_segment ::
  "crypto_lib \<Rightarrow> (cb_event \<Rightarrow> py_error option) \<Rightarrow> int \<Rightarrow> int \<Rightarrow> bytes \<Rightarrow> seconds \<Rightarrow> seconds
    \<Rightarrow> sig_device \<Rightarrow> step_result" where
  "handle_segment lib raises src dst transport_pdu now later d =
     (case parse_segment_header transport_pdu of
        Inl e \<Rightarrow> if isinstance e MalformedPacketError then (d, [], None) else (d, [], Some e)
      | Inr h \<Rightarrow>
          (let key = (src, dst, sh_seq_zero h, sh_aid h);
               buf = add_segment src dst h now (dict_get (sd_segment_buffers d) key);
               d1 = d\<lparr>sd_segment_buffers := dict_set key buf (sd_segment_buffers d)\<rparr>
           in if int (length (rb_segments buf)) = rb_seg_n buf + 1
              then (case complete_reassembly lib raises key d1 of
                      (d2, out, None) \<Rightarrow> (clean_stale_buffers later d2, out, None)
                    | (d2, out, Some e) \<Rightarrow> (d2, out, Some e))
              else (clean_stale_buffers later d1, [], None)))"

subsection \<open>Notifications\<close>

definition process_notify ::
  "crypto_lib \<Rightarrow> (cb_event \<Rightarrow> py_error option) \<Rightarrow> bytes \<Rightarrow> seconds \<Rightarrow> seconds \<Rightarrow> sig_device \<Rightarrow> step_result" where
  "process_notify lib raises data now later d =
     (case sd_keys d of None \<Rightarrow> (d, [], None)
      | Some keys \<Rightarrow>
       (case parse_proxy_pdu data of
          Inl e \<Rightarrow> if isinstance e MalformedPacketError then (d, [], None) else (d, [], Some e)
        | Inr proxy \<Rightarrow>
         (case decrypt_network_pdu lib (mk_enc_key keys) (mk_priv_key keys) (mk_nid keys)
                 (px_payload proxy) (mk_iv_index keys) of
            Inl e \<Rightarrow> (d, [], Some e)
          | Inr None \<Rightarrow> (d, [], None)
          | Inr (Some net_pdu) \<Rightarrow>
           (case decrypt_access_payload lib keys (np_src net_pdu) (np_dst net_pdu) (np_seq net_pdu)
                   (np_transport_pdu net_pdu) of
              Inl e \<Rightarrow> (d, [], Some e)
            | Inr None \<Rightarrow> (d, [], None)
            | Inr (Some access_msg) \<Rightarrow>
                if am_seg access_msg then
                  handle_segment lib raises (np_src net_pdu) (np_dst net_pdu)
                    (np_transport_pdu net_pdu) now later d
                else (case am_access_payload access_msg of
                        None \<Rightarrow> (d, [], None)
                      | Some access_payload \<Rightarrow> dispatch_access_payload raises access_payload d)))))"

definition on_ble_disconnect :: "(cb_event \<Rightarrow> py_error option) \<Rightarrow> sig_device \<Rightarrow> step_result" where
  "on_ble_disconnect raises d =
     (let d1 = d\<lparr>sd_has_client := False\<rparr>;
          (out, r) = call_all raises (map DisconnectCall (sd_disconnect_callbacks d1))
      in (d1, out, r))"

subsection \<open>Facts on dispatch\<close>

text \<open>Ordinary exceptions of callbacks only.\<close>

definition harmless :: "(cb_event \<Rightarrow> py_error option) \<Rightarrow> bool" where
  "harmless raises \<longleftrightarrow> (\<forall>e x. raises e = Some x \<longrightarrow> \<not> isinstance x CancelledError \<and> isinstance x PyException)"

lemma call_all_harmless: "harmless raises \<Longrightarrow> call_all raises es = (es, None)"
  by (induction es) (auto simp: harmless_def split: option.splits)

lemma call_all_prefix: "fst (call_all raises es) = take (length (fst (call_all raises es))) es"
  by (induction es) (auto simp: Let_def split: option.splits prod.splits)

definition with_buffers :: "(buf_key, reassembly_buffer) dict \<Rightarrow> step_result \<Rightarrow> step_result" where
  "with_buffers b r = (case r of (d, out, e) \<Rightarrow> (d\<lparr>sd_segment_buffers := b\<rparr>, out, e))"

lemma with_buffers_simp [simp]: "with_buffers b (d, r) = (d\<lparr>sd_segment_buffers := b\<rparr>, r)"
  by (cases r) (simp add: with_buffers_def)

lemma handle_composition_buffers:
  "handle_composition_data raises params (d\<lparr>sd_segment_buffers := b\<rparr>)
    = with_buffers b (handle_composition_data raises params d)"
  by (simp add: handle_composition_data_def with_buffers_def Let_def split: sum.split prod.split)

lemma dispatch_unlocked_buffers:
  "dispatch_access_payload_unlocked raises opcode params (d\<lparr>sd_segment_buffers := b\<rparr>)
    = with_buffers b (dispatch_access_payload_unlocked raises opcode params d)"
  unfolding dispatch_access_payload_unlocked_def
  by (cases "find_pending opcode (sd_pending_responses d)",
      simp_all add: Let_def split_beta handle_composition_buffers if_distrib [of "with_buffers b"]
        split del: if_split cong: if_cong, simp)

lemma dispatch_buffers:
  "dispatch_access_payload raises p (d\<lparr>sd_segment_buffers := b\<rparr>)
    = with_buffers b (dispatch_access_payload raises p d)"
  by (simp add: dispatch_access_payload_def dispatch_unlocked_buffers with_buffers_def
      split: sum.split prod.split)

lemma dispatch_keeps_buffers:
  "sd_segment_buffers (fst (dispatch_access_payload raises p d)) = sd_segment_buffers d"
proof -
  have "dispatch_access_payload raises p (d\<lparr>sd_segment_buffers := sd_segment_buffers d\<rparr>)
    = with_buffers (sd_segment_buffers d) (dispatch_access_payload raises p d)"
    by (rule dispatch_buffers)
  then have "dispatch_access_payload raises p d
    = with_buffers (sd_segment_buffers d) (dispatch_access_payload raises p d)" by simp
  then have "fst (dispatch_access_payload raises p d)
    = (fst (dispatch_access_payload raises p d))\<lparr>sd_segment_buffers := sd_segment_buffers d\<rparr>"
    by (cases "dispatch_access_payload raises p d") simp
  from arg_cong [OF this, of sd_segment_buffers] show ?thesis by simp
qed

subsection \<open>The buffers stay bounded\<close>

definition buffer_ok :: "buf_key \<Rightarrow> reassembly_buffer \<Rightarrow> bool" where
  "buffer_ok key b \<longleftrightarrow> key = (rb_src b, rb_dst b, rb_seq_zero b, rb_aid b) \<and> dict_ok (rb_segments b)
    \<and> 1 \<le> length (rb_segments b) \<and> int (length (rb_segments b)) \<le> rb_seg_n b \<and> rb_seg_n b \<le> 31"

definition buffers_ok :: "sig_device \<Rightarrow> bool" where
  "buffers_ok d \<longleftrightarrow> dict_ok (sd_segment_buffers d)
    \<and> (\<forall>key b. dict_get (sd_segment_buffers d) key = Some b \<longrightarrow> buffer_ok key b)"

lemma parse_segment_header_bounds:
  "parse_segment_header pdu = Inr h \<Longrightarrow> 0 \<le> sh_seg_n h \<and> sh_seg_n h \<le> 31"
proof -
  assume "parse_segment_header pdu = Inr h"
  then have "\<exists>x. sh_seg_n h = x AND MESH_SEG_MASK"
    by (auto simp: parse_segment_header_def Let_def split: if_splits)
  then show ?thesis by (auto simp: mesh_consts and_mask_mod)
qed

lemma clean_stale_buffers_ok: "buffers_ok d \<Longrightarrow> buffers_ok (clean_stale_buffers now d)"
  by (auto simp: buffers_ok_def clean_stale_buffers_def dict_get_filter dict_ok_filter)

lemma buffers_ok_pop:
  "buffers_ok d \<Longrightarrow> sd_segment_buffers d' = dict_pop k (sd_segment_buffers d) \<Longrightarrow> buffers_ok d'"
  by (auto simp: buffers_ok_def dict_get_pop dict_ok_pop split: if_splits)

lemma complete_reassembly_buffers:
  "sd_segment_buffers (fst (complete_reassembly lib raises key d)) = dict_pop key (sd_segment_buffers d)"
  by (auto simp: complete_reassembly_def Let_def dispatch_keeps_buffers split: option.split sum.split)

lemma add_segment_fields [simp]:
  "rb_segments (add_segment src dst h now None) = [(sh_seg_o h, sh_segment_data h)]"
  "rb_seg_n (add_segment src dst h now None) = sh_seg_n h"
  "rb_segments (add_segment src dst h now (Some b)) = dict_set (sh_seg_o h) (sh_segment_data h) (rb_segments b)"
  "rb_seg_n (add_segment src dst h now (Some b)) = rb_seg_n b"
  "rb_src (add_segment src dst h now (Some b)) = rb_src b"
  "rb_dst (add_segment src dst h now (Some b)) = rb_dst b"
  "rb_seq_zero (add_segment src dst h now (Some b)) = rb_seq_zero b"
  "rb_aid (add_segment src dst h now (Some b)) = rb_aid b"
  "rb_created_at (add_segment src dst h now (Some b)) = rb_created_at b"
  "rb_szmic (add_segment src dst h now (Some b)) = rb_szmic b"
  "rb_akf (add_segment src dst h now (Some b)) = rb_akf b"
  by (simp_all add: add_segment_def)

lemma add_segment_new [simp]:
  "rb_src (add_segment src dst h now None) = src" "rb_dst (add_segment src dst h now None) = dst"
  "rb_seq_zero (add_segment src dst h now None) = sh_seq_zero h"
  "rb_aid (add_segment src dst h now None) = sh_aid h"
  "rb_created_at (add_segment src dst h now None) = now"
  "rb_szmic (add_segment src dst h now None) = sh_szmic h"
  "rb_akf (add_segment src dst h now None) = sh_akf h"
  by (simp_all add: add_segment_def)

text \<open>A buffer grows by at most one segment, so it is complete or still within its bound.\<close>

lemma add_segment_ok:
  assumes h: "0 \<le> sh_seg_n h \<and> sh_seg_n h \<le> 31"
    and found: "\<forall>b. found = Some b \<longrightarrow> buffer_ok (src, dst, sh_seq_zero h, sh_aid h) b"
    and not_full: "int (length (rb_segments (add_segment src dst h now found))) \<noteq>
      rb_seg_n (add_segment src dst h now found) + 1"
  shows "buffer_ok (src, dst, sh_seq_zero h, sh_aid h) (add_segment src dst h now found)"
proof (cases found)
  case None
  with h not_full show ?thesis by (auto simp: buffer_ok_def)
next
  case (Some b)
  with found have b: "buffer_ok (src, dst, sh_seq_zero h, sh_aid h) b" by simp
  have "1 \<le> length (dict_set (sh_seg_o h) (sh_segment_data h) (rb_segments b))"
    "length (dict_set (sh_seg_o h) (sh_segment_data h) (rb_segments b)) \<le> length (rb_segments b) + 1"
    by (simp_all add: length_dict_set Suc_leI) (cases "rb_segments b"; simp)+
  with b not_full Some show ?thesis by (auto simp: buffer_ok_def dict_ok_set)
qed

lemma handle_segment_ok:
  assumes d: "buffers_ok d" and r: "handle_segment lib raises src dst pdu now later d = (d', out, r)"
  shows "buffers_ok d'"
proof (cases "parse_segment_header pdu")
  case (Inl e)
  with r d show ?thesis by (auto simp: handle_segment_def split: if_splits)
next
  case (Inr h)
  let ?key = "(src, dst, sh_seq_zero h, sh_aid h)"
  let ?buf = "add_segment src dst h now (dict_get (sd_segment_buffers d) ?key)"
  let ?d1 = "d\<lparr>sd_segment_buffers := dict_set ?key ?buf (sd_segment_buffers d)\<rparr>"
  show ?thesis
  proof (cases "int (length (rb_segments ?buf)) = rb_seg_n ?buf + 1")
    case True
    obtain d2 out2 r2 where c: "complete_reassembly lib raises ?key ?d1 = (d2, out2, r2)"
      by (cases "complete_reassembly lib raises ?key ?d1")
    have pop: "sd_segment_buffers d2 = dict_pop ?key (sd_segment_buffers ?d1)"
      using complete_reassembly_buffers [of lib raises ?key ?d1] unfolding c by simp
    have "buffers_ok d2" using d pop
      by (auto simp: buffers_ok_def dict_get_pop dict_get_set dict_ok_pop dict_ok_set split: if_splits)
    with r True Inr c show ?thesis
      by (auto simp: handle_segment_def Let_def clean_stale_buffers_ok split: option.splits)
  next
    case False
    have "buffer_ok ?key ?buf"
      by (rule add_segment_ok [OF parse_segment_header_bounds [OF Inr] _ False])
         (use d in \<open>auto simp: buffers_ok_def\<close>)
    then have "buffers_ok ?d1" using d by (auto simp: buffers_ok_def dict_get_set dict_ok_set split: if_splits)
    with r False Inr show ?thesis
      by (auto simp: handle_segment_def Let_def clean_stale_buffers_ok)
  qed
qed

subsection \<open>Collecting a message\<close>

text \<open>The segments of a message arriving one after the other, each with its two clock readings.\<close>

fun feed_segments ::
  "crypto_lib \<Rightarrow> (cb_event \<Rightarrow> py_error option) \<Rightarrow> int \<Rightarrow> int \<Rightarrow> (bytes \<times> seconds \<times> seconds) list
    \<Rightarrow> sig_device \<Rightarrow> step_result" where
  "feed_segments lib raises src dst [] d = (d, [], None)"
| "feed_segments lib raises src dst ((pdu, now, later) # rest) d =
     (case handle_segment lib raises src dst pdu now later d of
        (d1, out, None) \<Rightarrow>
          (let (d2, out2, r) = feed_segments lib raises src dst rest d1 in (d2, out @ out2, r))
      | (d1, out, Some e) \<Rightarrow> (d1, out, Some e))"

text \<open>A buffer that holds exactly the chunks with numbers in \<open>got\<close>.\<close>

definition holds_chunks :: "reassembly_buffer \<Rightarrow> (nat \<Rightarrow> bytes) \<Rightarrow> nat set \<Rightarrow> bool" where
  "holds_chunks b chunk got \<longleftrightarrow> dict_ok (rb_segments b)
    \<and> (\<forall>j. dict_get (rb_segments b) j = (if j \<in> int ` got then Some (chunk (nat j)) else None))"

lemma dict_get_filter_None: "dict_ok d \<Longrightarrow> dict_get d k = None \<Longrightarrow> dict_get (filter P d) k = None"
  using dict_get_filter [of d P k] by (cases "dict_get (filter P d) k") auto

lemma holds_chunks_length:
  assumes "holds_chunks b chunk got" "finite got"
  shows "length (rb_segments b) = card got"
proof -
  have "set (map fst (rb_segments b)) = dom (dict_get (rb_segments b))" by (simp add: dom_map_of_conv_image_fst)
  also have "\<dots> = int ` got" using assms(1) by (auto simp: holds_chunks_def dom_def split: if_splits)
  finally have "card (set (map fst (rb_segments b))) = card got" by (simp add: card_image)
  moreover have "card (set (map fst (rb_segments b))) = length (map fst (rb_segments b))"
    using assms(1) by (intro distinct_card) (simp add: holds_chunks_def)
  ultimately show ?thesis by simp
qed

lemma holds_chunks_add:
  assumes "holds_chunks b chunk got"
  shows "holds_chunks (b\<lparr>rb_segments := dict_set (int i) (chunk i) (rb_segments b)\<rparr>) chunk (insert i got)"
  using assms by (auto simp: holds_chunks_def dict_ok_set dict_get_set)

text \<open>What the segments of one message have in common.\<close>

record segmented_message =
  gm_src :: int
  gm_dst :: int
  gm_akf :: int
  gm_aid :: int
  gm_szmic :: int
  gm_seq_zero :: int
  gm_count :: nat

definition gm_key :: "segmented_message \<Rightarrow> buf_key" where
  "gm_key m = (gm_src m, gm_dst m, gm_seq_zero m, gm_aid m)"

definition gm_header :: "segmented_message \<Rightarrow> (nat \<Rightarrow> bytes) \<Rightarrow> nat \<Rightarrow> segment_header" where
  "gm_header m chunk i = \<lparr>sh_akf = gm_akf m, sh_aid = gm_aid m, sh_szmic = gm_szmic m,
     sh_seq_zero = gm_seq_zero m, sh_seg_o = int i, sh_seg_n = int (gm_count m) - 1,
     sh_segment_data = chunk i\<rparr>"

definition buffer_for :: "segmented_message \<Rightarrow> seconds \<Rightarrow> reassembly_buffer \<Rightarrow> bool" where
  "buffer_for m t b \<longleftrightarrow> rb_src b = gm_src m \<and> rb_dst b = gm_dst m \<and> rb_akf b = gm_akf m
    \<and> rb_szmic b = gm_szmic m \<and> rb_seq_zero b = gm_seq_zero m \<and> rb_seg_n b = int (gm_count m) - 1
    \<and> rb_created_at b = t"

text \<open>The device has received the chunks \<open>got\<close> of the message, the first at time \<open>t\<close>.\<close>

definition collecting ::
  "segmented_message \<Rightarrow> (nat \<Rightarrow> bytes) \<Rightarrow> seconds \<Rightarrow> nat set \<Rightarrow> (buf_key, reassembly_buffer) dict \<Rightarrow> bool" where
  "collecting m chunk t got bufs \<longleftrightarrow> dict_ok bufs \<and>
     (if got = {} then dict_get bufs (gm_key m) = None
      else \<exists>b. dict_get bufs (gm_key m) = Some b \<and> buffer_for m t b \<and> holds_chunks b chunk got)"

lemma add_segment_collects:
  fixes i :: nat
  assumes "collecting m chunk t got bufs" "got = {} \<Longrightarrow> now = t"
  defines "b \<equiv> add_segment (gm_src m) (gm_dst m) (gm_header m chunk i) now (dict_get bufs (gm_key m))"
  shows "buffer_for m t b \<and> holds_chunks b chunk (insert i got)"
proof (cases "got = {}")
  case True
  with assms have "dict_get bufs (gm_key m) = None" "now = t" by (auto simp: collecting_def)
  then show ?thesis using True
    by (auto simp: b_def add_segment_def buffer_for_def gm_header_def holds_chunks_def)
next
  case False
  with assms(1) obtain b0 where b0: "dict_get bufs (gm_key m) = Some b0" "buffer_for m t b0"
    "holds_chunks b0 chunk got" by (auto simp: collecting_def)
  have "b = b0\<lparr>rb_segments := dict_set (int i) (chunk i) (rb_segments b0)\<rparr>"
    by (simp add: b_def b0 add_segment_def gm_header_def)
  with b0 holds_chunks_add [OF b0(3), of i] show ?thesis by (simp add: buffer_for_def)
qed

text \<open>A segment that does not complete the message is only stored.\<close>

lemma handle_segment_stores:
  assumes d: "collecting m chunk t got (sd_segment_buffers d)" and fin: "finite got" "i \<notin> got"
    and first: "got = {} \<Longrightarrow> now = t" and fresh: "later \<le> t + REASSEMBLY_TIMEOUT"
    and hdr: "parse_segment_header pdu = Inr (gm_header m chunk i)"
    and more: "Suc (card got) < gm_count m"
  shows "\<exists>bufs. handle_segment lib raises (gm_src m) (gm_dst m) pdu now later d
      = (d\<lparr>sd_segment_buffers := bufs\<rparr>, [], None) \<and> collecting m chunk t (insert i got) bufs"
proof -
  let ?b = "add_segment (gm_src m) (gm_dst m) (gm_header m chunk i) now
    (dict_get (sd_segment_buffers d) (gm_key m))"
  let ?bufs = "dict_set (gm_key m) ?b (sd_segment_buffers d)"
  let ?fresh = "filter (\<lambda>(key, buf). \<not> (later - rb_created_at buf > REASSEMBLY_TIMEOUT)) ?bufs"
  have b: "buffer_for m t ?b" "holds_chunks ?b chunk (insert i got)"
    using add_segment_collects [OF d first, where i = i] by blast+
  have len: "length (rb_segments ?b) = Suc (card got)"
    using holds_chunks_length [OF b(2)] fin by simp
  have ok: "dict_ok ?bufs" using d by (auto simp: collecting_def dict_ok_set)
  have "dict_get ?fresh (gm_key m) = Some ?b"
    using ok fresh b(1) by (simp add: dict_get_filter dict_get_set buffer_for_def)
  then have "collecting m chunk t (insert i got) ?fresh"
    using b ok by (simp add: collecting_def dict_ok_filter)
  moreover have key: "(gm_src m, gm_dst m, sh_seq_zero (gm_header m chunk i), sh_aid (gm_header m chunk i)) = gm_key m"
    by (simp add: gm_key_def gm_header_def)
  have "int (length (rb_segments ?b)) \<noteq> rb_seg_n ?b + 1"
    using len more b(1) by (simp add: buffer_for_def)
  then have "handle_segment lib raises (gm_src m) (gm_dst m) pdu now later d
      = (d\<lparr>sd_segment_buffers := ?fresh\<rparr>, [], None)"
    by (simp add: handle_segment_def hdr Let_def key clean_stale_buffers_def)
  ultimately show ?thesis by blast
qed

text \<open>The segment that completes it dispatches the payload.\<close>

lemma handle_segment_completes:
  assumes d: "collecting m chunk t got (sd_segment_buffers d)" and fin: "finite got" "i \<notin> got"
    and first: "got = {} \<Longrightarrow> now = t"
    and hdr: "parse_segment_header pdu = Inr (gm_header m chunk i)"
    and last: "insert i got = {..<gm_count m}"
    and keys: "sd_keys d = Some keys"
    and reass: "\<And>s. (\<And>j. j < gm_count m \<Longrightarrow> dict_get s (int j) = Some (chunk j)) \<Longrightarrow>
      reassemble_and_decrypt_segments lib keys (gm_src m) (gm_dst m) s (int (gm_count m) - 1)
        (gm_szmic m) (gm_seq_zero m) (gm_akf m) = Inr (Some p)"
  shows "\<exists>bufs. dict_get bufs (gm_key m) = None \<and>
    handle_segment lib raises (gm_src m) (gm_dst m) pdu now later d
      = with_buffers bufs (dispatch_access_payload raises p d)"
proof -
  let ?b = "add_segment (gm_src m) (gm_dst m) (gm_header m chunk i) now
    (dict_get (sd_segment_buffers d) (gm_key m))"
  let ?bufs = "dict_set (gm_key m) ?b (sd_segment_buffers d)"
  let ?popped = "dict_pop (gm_key m) ?bufs"
  let ?d1 = "d\<lparr>sd_segment_buffers := ?bufs\<rparr>"
  have b: "buffer_for m t ?b" "holds_chunks ?b chunk (insert i got)"
    using add_segment_collects [OF d first, where i = i] by blast+
  have "length (rb_segments ?b) = card {..<gm_count m}"
    using holds_chunks_length [OF b(2)] fin last by simp
  then have full: "int (length (rb_segments ?b)) = rb_seg_n ?b + 1"
    using b(1) by (simp add: buffer_for_def)
  have key: "(gm_src m, gm_dst m, sh_seq_zero (gm_header m chunk i), sh_aid (gm_header m chunk i)) = gm_key m"
    by (simp add: gm_key_def gm_header_def)
  have "dict_get (rb_segments ?b) (int j) = Some (chunk j)" if "j < gm_count m" for j
    using b(2) that unfolding last holds_chunks_def by auto
  then have r: "reassemble_and_decrypt_segments lib keys (rb_src ?b) (rb_dst ?b) (rb_segments ?b)
      (rb_seg_n ?b) (rb_szmic ?b) (rb_seq_zero ?b) (rb_akf ?b) = Inr (Some p)"
    using reass b(1) by (simp add: buffer_for_def)
  have "dict_get (sd_segment_buffers ?d1) (gm_key m) = Some ?b" by (simp add: dict_get_set)
  then have c: "complete_reassembly lib raises (gm_key m) ?d1
      = with_buffers ?popped (dispatch_access_payload raises p d)"
    using keys r dispatch_buffers [of raises p ?popped d]
    by (simp add: complete_reassembly_def Let_def)
  obtain d2 out r2 where disp: "dispatch_access_payload raises p d = (d2, out, r2)"
    by (cases "dispatch_access_payload raises p d")
  have ok: "dict_ok ?popped" using d by (auto simp: collecting_def dict_ok_set dict_ok_pop)
  let ?clean = "filter (\<lambda>(key, buf). \<not> (later - rb_created_at buf > REASSEMBLY_TIMEOUT)) ?popped"
  have gone: "dict_get ?popped (gm_key m) = None" "dict_get ?clean (gm_key m) = None"
    by (simp_all add: dict_get_pop dict_get_filter_None [OF ok])
  show ?thesis
  proof (cases r2)
    case None
    then show ?thesis
      using gone(2) full c disp
      by (intro exI [of _ ?clean]) (simp add: handle_segment_def hdr Let_def key clean_stale_buffers_def)
  next
    case (Some e)
    then show ?thesis
      using gone(1) full c disp
      by (intro exI [of _ ?popped]) (simp add: handle_segment_def hdr Let_def key)
  qed
qed

lemma feed_segments_collect:
  assumes keys: "sd_keys d = Some keys"
    and reass: "\<And>s. (\<And>j. j < gm_count m \<Longrightarrow> dict_get s (int j) = Some (chunk j)) \<Longrightarrow>
      reassemble_and_decrypt_segments lib keys (gm_src m) (gm_dst m) s (int (gm_count m) - 1)
        (gm_szmic m) (gm_seq_zero m) (gm_akf m) = Inr (Some p)"
    and hdr: "\<And>i. i < gm_count m \<Longrightarrow> parse_segment_header (pdu i) = Inr (gm_header m chunk i)"
  shows "collecting m chunk t got bufs \<Longrightarrow> distinct (map fst order) \<Longrightarrow> order \<noteq> [] \<Longrightarrow>
    got \<inter> set (map fst order) = {} \<Longrightarrow> got \<union> set (map fst order) = {..<gm_count m} \<Longrightarrow>
    (got = {} \<Longrightarrow> fst (snd (hd order)) = t) \<Longrightarrow>
    (\<forall>(i, now, later)\<in>set order. later \<le> t + REASSEMBLY_TIMEOUT) \<Longrightarrow>
    \<exists>bufs'. dict_get bufs' (gm_key m) = None \<and>
      feed_segments lib raises (gm_src m) (gm_dst m) (map (\<lambda>(i, c). (pdu i, c)) order)
        (d\<lparr>sd_segment_buffers := bufs\<rparr>) = with_buffers bufs' (dispatch_access_payload raises p d)"
proof (induction order arbitrary: got bufs)
  case (Cons x order)
  obtain i now later where x: "x = (i, now, later)" by (cases x)
  let ?d = "d\<lparr>sd_segment_buffers := bufs\<rparr>"
  have fin: "finite got" using Cons.prems(5) finite_subset [of got "{..<gm_count m}"] by auto
  have i: "i \<notin> got" "i < gm_count m" using Cons.prems(4,5) x by auto
  have t: "later \<le> t + REASSEMBLY_TIMEOUT" "got = {} \<Longrightarrow> now = t" using Cons.prems(6,7) x by auto
  have coll: "collecting m chunk t got (sd_segment_buffers ?d)" using Cons.prems(1) by simp
  show ?case
  proof (cases "order = []")
    case True
    then have "insert i got = {..<gm_count m}" using Cons.prems(5) x by auto
    from handle_segment_completes [OF coll fin i(1) t(2) hdr [OF i(2)] this _ reass, where later = later and raises = raises]
    obtain b where "dict_get b (gm_key m) = None"
      "handle_segment lib raises (gm_src m) (gm_dst m) (pdu i) now later ?d
        = with_buffers b (dispatch_access_payload raises p ?d)"
      using keys by auto
    then show ?thesis using True x
      by (intro exI [of _ b]) (cases "dispatch_access_payload raises p d";
          auto simp: dispatch_buffers split: option.split)
  next
    case False
    then obtain y ys where "order = y # ys" by (cases order) auto
    then have "fst y \<notin> insert i got" "fst y < gm_count m" using Cons.prems(2,4,5) x by auto
    moreover have "insert i got \<subseteq> {..<gm_count m}" using Cons.prems(5) x by auto
    ultimately have "insert i got \<subset> {..<gm_count m}" by auto
    then have "card (insert i got) < gm_count m" using psubset_card_mono [of "{..<gm_count m}"] by simp
    then have more: "Suc (card got) < gm_count m" using fin i by simp
    obtain b where b: "handle_segment lib raises (gm_src m) (gm_dst m) (pdu i) now later ?d
        = (?d\<lparr>sd_segment_buffers := b\<rparr>, [], None)" "collecting m chunk t (insert i got) b"
      using handle_segment_stores [OF coll fin i(1) t(2,1) hdr [OF i(2)] more] by blast
    have "\<exists>bufs'. dict_get bufs' (gm_key m) = None \<and>
      feed_segments lib raises (gm_src m) (gm_dst m) (map (\<lambda>(i, c). (pdu i, c)) order)
        (d\<lparr>sd_segment_buffers := b\<rparr>) = with_buffers bufs' (dispatch_access_payload raises p d)"
      using Cons.prems x by (intro Cons.IH [OF b(2) _ False]) auto
    then show ?thesis using x b(1)
      by (cases "dispatch_access_payload raises p d") auto
  qed
qed simp

lemma filter_key_absent: "k \<notin> fst ` set d \<Longrightarrow> filter (\<lambda>p. fst p \<noteq> k) d = d"
  by (induction d) auto

subsection \<open>Properties\<close>



text \<open>C1: the segments of one message, received in any order within the reassembly timeout on a
  device that has no buffer for it, are dispatched exactly once, with the last of them, as the
  payload the sender encrypted; the buffer is gone afterwards.\<close>

theorem segmented_message_dispatched:
  assumes lib: "crypto_lib_ok lib" and dev: "sd_keys d = Some keys"
    and key: "access_key keys akf = Some key" "length key = 16"
    and r: "akf \<in> {0, 1}" "szmic \<in> {0, 1}" "0 \<le> seq" "seq \<le> 0x1FFF" "0 \<le> src" "src \<le> 0xFFFF"
      "0 \<le> dst" "dst \<le> 0xFFFF" "0 \<le> mk_iv_index keys" "mk_iv_index keys < 2 ^ 32"
    and len: "length p + transport_mic_len szmic \<le> 384"
    and sent: "make_access_segmented lib key src dst seq (mk_iv_index keys) p akf aid szmic = Inr segs"
    and bufs: "dict_ok (sd_segment_buffers d)"
      "dict_get (sd_segment_buffers d) (src, dst, seq, aid mod 64) = None"
    and order: "distinct (map fst order)" "set (map fst order) = {..<length segs}"
    and timely: "\<forall>(i, now, later)\<in>set order. later \<le> fst (snd (hd order)) + REASSEMBLY_TIMEOUT"
  shows "\<exists>bufs'. dict_get bufs' (src, dst, seq, aid mod 64) = None \<and>
    feed_segments lib raises src dst (map (\<lambda>(i, c). (snd (segs ! i), c)) order) d
      = with_buffers bufs' (dispatch_access_payload raises p d)"
proof -
  obtain c where c: "segs \<noteq> []"
    "\<And>i. i < length segs \<Longrightarrow> parse_segment_header (snd (segs ! i)) = Inr \<lparr>sh_akf = akf,
        sh_aid = aid mod 64, sh_szmic = szmic, sh_seq_zero = seq, sh_seg_o = int i,
        sh_seg_n = int (length segs) - 1, sh_segment_data = slice (i * 12) ((i + 1) * 12) c\<rparr>"
    "\<And>d. (\<And>i. i < length segs \<Longrightarrow> dict_get d (int i) = Some (slice (i * 12) ((i + 1) * 12) c)) \<Longrightarrow>
        reassemble_and_decrypt_segments lib keys src dst d (int (length segs) - 1) szmic seq akf
          = Inr (Some p)"
    by (rule segmented_parts [OF lib key r len, of aid]) (use sent in auto)
  let ?m = "\<lparr>gm_src = src, gm_dst = dst, gm_akf = akf, gm_aid = aid mod 64, gm_szmic = szmic,
    gm_seq_zero = seq, gm_count = length segs\<rparr>"
  let ?chunk = "\<lambda>i. slice (i * 12) ((i + 1) * 12) c"
  have ne: "order \<noteq> []" using order(2) c(1) by auto
  have "\<exists>bufs'. dict_get bufs' (gm_key ?m) = None \<and>
      feed_segments lib raises (gm_src ?m) (gm_dst ?m) (map (\<lambda>(i, c). (snd (segs ! i), c)) order)
        (d\<lparr>sd_segment_buffers := sd_segment_buffers d\<rparr>)
      = with_buffers bufs' (dispatch_access_payload raises p d)"
  proof (rule feed_segments_collect [OF dev, where chunk = ?chunk and got = "{}"])
    show "collecting ?m ?chunk (fst (snd (hd order))) {} (sd_segment_buffers d)"
      using bufs by (simp add: collecting_def gm_key_def)
  qed (use order ne timely c(2,3) in \<open>simp_all add: gm_header_def\<close>)
  then show ?thesis by (simp add: gm_key_def)
qed

definition demo_keys :: "bytes \<Rightarrow> mesh_keys" where
  "demo_keys k = \<lparr>mk_net_key = [], mk_dev_key = k, mk_app_key = Some k, mk_iv_index = 0, mk_nid = 0x68,
     mk_enc_key = k, mk_priv_key = k, mk_network_id = [], mk_aid = 0\<rparr>"

definition demo_device :: "bytes \<Rightarrow> sig_device" where
  "demo_device k = \<lparr>sd_keys = Some (demo_keys k), sd_has_client = True, sd_segment_buffers = [],
     sd_pending_responses = [], sd_onoff_callbacks = [1, 2], sd_level_callbacks = [],
     sd_vendor_callbacks = [3], sd_composition_callbacks = [], sd_disconnect_callbacks = [],
     sd_composition = None, sd_firmware_version = None\<rparr>"

theorem segmented_message_dispatched_witness:
  "\<exists>segs bufs'. make_access_segmented demo_lib (replicate 16 3) 1 2 9 0 (replicate 20 0xC7) 1 0 0 = Inr segs
    \<and> feed_segments demo_lib (\<lambda>e. None) 1 2 [(snd (segs ! 1), 0, 0), (snd (segs ! 0), 3, 3)]
        (demo_device (replicate 16 3))
      = with_buffers bufs' (dispatch_access_payload (\<lambda>e. None) (replicate 20 0xC7)
          (demo_device (replicate 16 3)))"
proof -
  let ?k = "replicate 16 3 :: bytes" and ?p = "replicate 20 0xC7 :: bytes"
  have "case make_access_segmented demo_lib ?k 1 2 9 0 ?p 1 0 0 of Inl e \<Rightarrow> False | Inr s \<Rightarrow> length s = 2"
    by code_simp
  then obtain segs where segs: "make_access_segmented demo_lib ?k 1 2 9 0 ?p 1 0 0 = Inr segs"
    "length segs = 2" by (auto split: sum.splits)
  have "{..<2 :: nat} = {0, 1}" by auto
  then have "\<exists>bufs'. dict_get bufs' (1, 2, 9, 0) = None \<and>
    feed_segments demo_lib (\<lambda>e. None) 1 2 (map (\<lambda>(i, c). (snd (segs ! i), c)) [(1, 0, 0), (0, 3, 3)])
        (demo_device ?k)
      = with_buffers bufs' (dispatch_access_payload (\<lambda>e. None) ?p (demo_device ?k))"
    using segmented_message_dispatched [OF demo_lib_ok, where d = "demo_device ?k" and keys = "demo_keys ?k"
      and key = ?k and akf = 1 and szmic = 0 and seq = 9 and src = 1 and dst = 2 and p = ?p and aid = 0
      and segs = segs and order = "[(1, 0, 0), (0, 3, 3)]" and raises = "\<lambda>e. None"] segs
    by (auto simp: access_key_def demo_keys_def demo_device_def transport_mic_len_def mesh_consts
        REASSEMBLY_TIMEOUT_def)
  with segs(1) show ?thesis by auto
qed

text \<open>a response goes to the oldest request with its opcode and to nobody else: the first
  pending entry with the opcode is removed, its future gets the parameters unless it is already
  done, and no callback is called.\<close>

theorem response_matches_oldest:
  assumes "sd_pending_responses d = older @ ((opcode, c), fut) # newer"
    and "\<forall>k\<in>set (map fst older). fst k \<noteq> opcode" and "dict_ok (sd_pending_responses d)"
  shows "dispatch_access_payload_unlocked raises opcode params d =
    (d\<lparr>sd_pending_responses := older @ newer\<rparr>,
     if fut = Waiting then [FutureResult (opcode, c) params] else [], None)"
proof -
  have f: "find (\<lambda>k. fst k = opcode) (map fst older) = None"
    using assms(2) by (simp add: find_None_iff)
  have find: "find_pending opcode (sd_pending_responses d) = Some (opcode, c)"
    using assms(2) unfolding find_pending_def assms(1)
    by (induction older) auto
  have "(opcode, c) \<notin> fst ` set older" "(opcode, c) \<notin> fst ` set newer" using assms by auto
  then have pop: "dict_pop (opcode, c) (sd_pending_responses d) = older @ newer"
    unfolding assms(1) dict_pop_filter by (simp add: filter_key_absent)
  have get: "dict_get (sd_pending_responses d) (opcode, c) = Some fut"
    using assms(3) unfolding assms(1) by (intro map_of_is_SomeI) auto
  show ?thesis by (simp add: dispatch_access_payload_unlocked_def find pop get Let_def)
qed

theorem response_matches_oldest_witness:
  "dispatch_access_payload_unlocked (\<lambda>e. None) 0x8003 [0] ((demo_device [])\<lparr>sd_pending_responses :=
      [((0x803E, 1), Waiting), ((0x8003, 2), Waiting), ((0x8003, 3), Waiting)]\<rparr>) =
    ((demo_device [])\<lparr>sd_pending_responses := [((0x803E, 1), Waiting), ((0x8003, 3), Waiting)]\<rparr>,
     [FutureResult (0x8003, 2) [0]], None)"
  using response_matches_oldest [where older = "[((0x803E, 1), Waiting)]" and opcode = "0x8003" and c = 2
      and fut = Waiting and newer = "[((0x8003, 3), Waiting)]" and raises = "\<lambda>e. None" and params = "[0]"
      and d = "(demo_device [])\<lparr>sd_pending_responses :=
      [((0x803E, 1), Waiting), ((0x8003, 2), Waiting), ((0x8003, 3), Waiting)]\<rparr>"]
  by simp

text \<open>C19: an unsegmented access message that a peer of the same network sends is handed to the
  dispatcher of the device exactly as it was sent: the proxy, network and transport layers of
  \<^verbatim>\<open>_process_notify\<close> undo those of the sender and leave the device unchanged.\<close>

theorem notify_delivers_access_payload:
  assumes lib: "crypto_lib_ok lib" and dev: "sd_keys d = Some keys"
    and key: "access_key keys akf = Some key" "length key = 16"
      "length (mk_enc_key keys) = 16" "length (mk_priv_key keys) = 16" "mk_nid keys \<in> {0..127}"
    and r: "akf \<in> {0, 1}" "0 \<le> seq" "seq < 2 ^ 24" "0 \<le> src" "src \<le> 0xFFFF" "0 \<le> dst" "dst \<le> 0xFFFF"
      "0 \<le> mk_iv_index keys" "mk_iv_index keys < 2 ^ 32"
    and p: "length p \<le> 11"
    and transport: "make_access_unsegmented lib key src dst seq (mk_iv_index keys) p akf aid = Inr t"
    and network: "encrypt_network_pdu lib (mk_enc_key keys) (mk_priv_key keys) (mk_nid keys) 0 ttl seq src dst t
      (mk_iv_index keys) = Inr pdu"
  shows "process_notify lib raises (make_proxy_pdu pdu) now later d = dispatch_access_payload raises p d"
proof -
  obtain t' where t': "make_access_unsegmented lib key src dst seq (mk_iv_index keys) p akf aid = Inr t'"
    "length t' = length p + 5" "decrypt_access_payload lib keys src dst seq t' = Inr (Some \<lparr>am_seg = False,
      am_akf = akf, am_aid = aid mod 64, am_access_payload = Some p, am_raw = t'\<rparr>)"
    using access_unsegmented_sent [OF lib key(1,2) r, of p aid] p by auto
  then have t: "t' = t" using transport by simp
  have tl: "t \<noteq> []" "length t \<le> 65533" using t t'(2) p by auto
  have "0 \<le> mk_nid keys" "mk_nid keys \<le> 127" using key(5) by auto
  with tl obtain pdu' where pdu': "encrypt_network_pdu lib (mk_enc_key keys) (mk_priv_key keys) (mk_nid keys) 0 ttl
      seq src dst t (mk_iv_index keys) = Inr pdu'"
    "decrypt_network_pdu lib (mk_enc_key keys) (mk_priv_key keys) (mk_nid keys) pdu' (mk_iv_index keys)
      = Inr (Some \<lparr>np_ctl = 0, np_ttl = ttl mod 128, np_seq = seq, np_src = src, np_dst = dst,
          np_transport_pdu = t\<rparr>)"
    using network_pdu_sent [OF lib key(3,4), of "mk_nid keys" 0 seq src dst "mk_iv_index keys" t ttl]
      r(2-9) by auto
  have "pdu' = pdu" using pdu'(1) network by simp
  then show ?thesis
    using pdu'(2) t'(3) t by (simp add: process_notify_def dev parse_make_proxy_pdu)
qed

theorem notify_delivers_access_payload_witness:
  "process_notify demo_lib (\<lambda>e. None)
      (make_proxy_pdu (case encrypt_network_pdu demo_lib (replicate 16 3) (replicate 16 3) 0x68 0 5 7 2 1
        (case make_access_unsegmented demo_lib (replicate 16 3) 2 1 7 0 [0x82, 0x04, 1] 1 0 of Inr t \<Rightarrow> t)
        0 of Inr n \<Rightarrow> n)) 0 0 (demo_device (replicate 16 3))
    = (demo_device (replicate 16 3), [OnOffCall 1 True, OnOffCall 2 True], None)"
proof -
  let ?k = "replicate 16 3 :: bytes"
  let ?t = "make_access_unsegmented demo_lib ?k 2 1 7 0 [0x82, 0x04, 1] 1 0"
  let ?n = "encrypt_network_pdu demo_lib ?k ?k 0x68 0 5 7 2 1 (case ?t of Inr t \<Rightarrow> t) 0"
  have "case ?t of Inl e \<Rightarrow> False | Inr t \<Rightarrow> True" by code_simp
  then have t: "?t = Inr (case ?t of Inr t \<Rightarrow> t)" by (auto split: sum.splits)
  have "case ?n of Inl e \<Rightarrow> False | Inr n \<Rightarrow> True" by code_simp
  then have n: "?n = Inr (case ?n of Inr n \<Rightarrow> n)" by (auto split: sum.splits)
  have "process_notify demo_lib (\<lambda>e. None) (make_proxy_pdu (case ?n of Inr n \<Rightarrow> n)) 0 0 (demo_device ?k)
      = dispatch_access_payload (\<lambda>e. None) [0x82, 0x04, 1] (demo_device ?k)"
    by (rule notify_delivers_access_payload [OF demo_lib_ok, where keys = "demo_keys ?k" and key = ?k
        and akf = 1 and aid = 0 and seq = 7 and src = 2 and dst = 1 and ttl = 5])
       (use t n in \<open>simp_all add: demo_device_def access_key_def demo_keys_def\<close>)
  also have "\<dots> = (demo_device ?k, [OnOffCall 1 True, OnOffCall 2 True], None)" by code_simp
  finally show ?thesis .
qed

text \<open>A status reaches every registered callback, in the order of registration, even when some
  of them raise ordinary exceptions: the exceptions are swallowed and the device is unchanged.\<close>

theorem onoff_status_reaches_all_callbacks:
  assumes "harmless raises" and "find_pending OPCODE_ONOFF_STATUS (sd_pending_responses d) = None"
  shows "dispatch_access_payload raises (0x82 # 0x04 # b # rest) d =
    (d, map (\<lambda>c. OnOffCall c (b \<noteq> 0)) (sd_onoff_callbacks d), None)"
proof -
  have "parse_access_opcode (be_bytes 2 OPCODE_ONOFF_STATUS @ b # rest) = Inr (OPCODE_ONOFF_STATUS, b # rest)"
    by (rule parse_opcode_packed) (simp_all add: segment_consts)
  moreover have "be_bytes 2 OPCODE_ONOFF_STATUS = [0x82, 0x04]" by code_simp
  ultimately show ?thesis using assms
    by (simp add: dispatch_access_payload_def dispatch_access_payload_unlocked_def call_all_harmless Let_def)
qed

theorem onoff_status_reaches_all_callbacks_witness:
  "dispatch_access_payload (\<lambda>e. if e = OnOffCall 1 True then Some ValueError else None) [0x82, 0x04, 1, 0, 5]
     (demo_device []) = (demo_device [], [OnOffCall 1 True, OnOffCall 2 True], None)"
proof -
  have "\<not> isinstance ValueError CancelledError" "isinstance ValueError PyException" by code_simp+
  then have "harmless (\<lambda>e. if e = OnOffCall 1 True then Some ValueError else None)"
    by (auto simp: harmless_def split: if_splits)
  from onoff_status_reaches_all_callbacks [OF this, where d = "demo_device []" and b = 1 and rest = "[0, 5]"]
  show ?thesis by (simp add: demo_device_def find_pending_def)
qed

end
