(* ===== verification/Sig_Commands.thy ===== *)
theory Sig_Commands
  imports Sequence Sig_Segments
begin

text \<open>
  \<^verbatim>\<open>lib/tuya_ble_mesh/sig_mesh_device_commands.py\<close>: the commands of a SIG Mesh device.
  \<open>sig_node\<close> adds to the receiving device the addresses, the counters and the sequence store.
  What happens at an await is a parameter: \<open>interfere k\<close> is what other tasks do to the device
  before the k-th PDU is built (a disconnect drops the client, say), \<open>write k\<close> the exception of
  the k-th GATT write.  A command returns its result, the new node, and the trace of its writes,
  each with the sequence number it used, and of its sleeps.
\<close>

definition DEFAULT_TTL :: int where "DEFAULT_TTL = 5"
definition WRITE_RETRY_INITIAL_BACKOFF :: seconds where "WRITE_RETRY_INITIAL_BACKOFF = 1"
definition WRITE_RETRY_BACKOFF_MULTIPLIER :: seconds where "WRITE_RETRY_BACKOFF_MULTIPLIER = 2"
definition STATUS_WAIT_POLL_INTERVAL :: seconds where "STATUS_WAIT_POLL_INTERVAL = 1 / 10"

subsection \<open>State\<close>

record 's sig_node =
  sn_device :: sig_device
  sn_our_addr :: int
  sn_target_addr :: int
  sn_level_target_addr :: int
  sn_brightness_model_id :: int
  sn_tid :: int
  sn_correlation_id :: int
  sn_seq_store :: 's

datatype io_event = Write int bytes | Sleep seconds

type_synonym interference = "nat \<Rightarrow> sig_device \<Rightarrow> sig_device"
type_synonym write_oracle = "nat \<Rightarrow> py_error option"

subsection \<open>One message\<close>

text \<open>The transport, network and proxy layers that every unsegmented command goes through.\<close>

definition network_proxy_pdu ::
  "crypto_lib \<Rightarrow> mesh_keys \<Rightarrow> int \<Rightarrow> int \<Rightarrow> int \<Rightarrow> bytes \<Rightarrow> bytes res" where
  "network_proxy_pdu lib keys seq src dst transport_pdu =
     bindR (encrypt_network_pdu lib (mk_enc_key keys) (mk_priv_key keys) (mk_nid keys) 0 DEFAULT_TTL
              seq src dst transport_pdu (mk_iv_index keys)) (\<lambda>pdu. Inr (make_proxy_pdu pdu))"

definition build_pdu ::
  "crypto_lib \<Rightarrow> mesh_keys \<Rightarrow> bytes \<Rightarrow> int \<Rightarrow> int \<Rightarrow> int \<Rightarrow> bytes \<Rightarrow> int \<Rightarrow> int \<Rightarrow> bytes res" where
  "build_pdu lib keys key src dst seq access_payload akf aid =
     bindR (make_access_unsegmented lib key src dst seq (mk_iv_index keys) access_payload akf aid)
       (network_proxy_pdu lib keys seq src dst)"

text \<open>
  One attempt of a command: the payload, a fresh sequence number, the PDU and the write.
  \<open>app_key\<close> was read before the attempts, the other keys are read again, and
  \<^verbatim>\<open>None\<close> in their place is an AttributeError.
\<close>

definition send_attempt ::
  "('s \<Rightarrow> int) \<Rightarrow> (int \<Rightarrow> 's \<Rightarrow> 's) \<Rightarrow> crypto_lib \<Rightarrow> interference \<Rightarrow> write_oracle \<Rightarrow> bytes res \<Rightarrow> bytes
    \<Rightarrow> int \<Rightarrow> nat \<Rightarrow> 's sig_node \<Rightarrow> unit res \<times> 's sig_node \<times> io_event list" where
  "send_attempt get_seq set_seq lib interfere write access_payload app_key dst k n =
     (case access_payload of Inl e \<Rightarrow> (Inl e, n, [])
      | Inr payload \<Rightarrow>
       (case next_seq get_seq set_seq (sn_seq_store n) of
          (Inl e, st) \<Rightarrow> (Inl e, n\<lparr>sn_seq_store := st\<rparr>, [])
        | (Inr seq, st) \<Rightarrow>
            (let d = interfere k (sn_device n); n1 = n\<lparr>sn_seq_store := st, sn_device := d\<rparr> in
             case sd_keys d of None \<Rightarrow> (Inl AttributeError, n1, [])
             | Some keys \<Rightarrow>
              (case build_pdu lib keys app_key (sn_our_addr n) dst seq payload 1 (mk_aid keys) of
                 Inl e \<Rightarrow> (Inl e, n1, [])
               | Inr proxy_pdu \<Rightarrow>
                   if \<not> sd_has_client d then (Inl AttributeError, n1, [])
                   else (case write k of None \<Rightarrow> (Inr (), n1, [Write seq proxy_pdu])
                         | Some e \<Rightarrow> (Inl e, n1, [Write seq proxy_pdu]))))))"

text \<open>The attempts \<open>k, k + 1, ...\<close>: \<open>left\<close> of them remain.\<close>

fun send_attempts ::
  "('s \<Rightarrow> int) \<Rightarrow> (int \<Rightarrow> 's \<Rightarrow> 's) \<Rightarrow> crypto_lib \<Rightarrow> interference \<Rightarrow> write_oracle \<Rightarrow> bytes res \<Rightarrow> bytes
    \<Rightarrow> int \<Rightarrow> nat \<Rightarrow> nat \<Rightarrow> seconds \<Rightarrow> 's sig_node \<Rightarrow> unit res \<times> 's sig_node \<times> io_event list" where
  "send_attempts get_seq set_seq lib interfere write payload app_key dst 0 k backoff n =
     (Inl MeshConnectionError, n, [])"
| "send_attempts get_seq set_seq lib interfere write payload app_key dst (Suc left) k backoff n =
     (case send_attempt get_seq set_seq lib interfere write payload app_key dst k n of
        (Inr u, n1, out) \<Rightarrow> (Inr u, n1, out)
      | (Inl e, n1, out) \<Rightarrow>
          if isinstance e SIGMeshError \<or> isinstance e SIGMeshKeyError then (Inl e, n1, out)
          else if isinstance e BleakError \<or> isinstance e OSError then
            (if left = 0 then (Inl MeshConnectionError, n1, out)
             else (let (r, n2, out2) = send_attempts get_seq set_seq lib interfere write payload app_key dst
                         left (Suc k) (backoff * WRITE_RETRY_BACKOFF_MULTIPLIER) n1
                   in (r, n2, out @ [Sleep backoff] @ out2)))
          else (Inl e, n1, out))"

definition with_app_key ::
  "'s sig_node \<Rightarrow> (bytes \<Rightarrow> 'r res \<times> 's sig_node \<times> io_event list) \<Rightarrow> 'r res \<times> 's sig_node \<times> io_event list" where
  "with_app_key n f =
     (if \<not> sd_has_client (sn_device n) then (Inl SIGMeshError, n, [])
      else case sd_keys (sn_device n) of None \<Rightarrow> (Inl SIGMeshError, n, [])
      | Some keys \<Rightarrow>
         (case mk_app_key keys of None \<Rightarrow> (Inl SIGMeshKeyError, n, []) | Some app_key \<Rightarrow> f app_key))"

subsection \<open>Light commands\<close>

definition send_power ::
  "('s \<Rightarrow> int) \<Rightarrow> (int \<Rightarrow> 's \<Rightarrow> 's) \<Rightarrow> crypto_lib \<Rightarrow> interference \<Rightarrow> write_oracle \<Rightarrow> bool \<Rightarrow> nat
    \<Rightarrow> 's sig_node \<Rightarrow> unit res \<times> 's sig_node \<times> io_event list" where
  "send_power get_seq set_seq lib interfere write on max_retries n =
     with_app_key n (\<lambda>app_key.
       let transaction_id = sn_tid n; n1 = n\<lparr>sn_tid := (sn_tid n + 1) AND 0xFF\<rparr> in
       send_attempts get_seq set_seq lib interfere write (generic_onoff_set on transaction_id) app_key
         (sn_target_addr n) max_retries 1 WRITE_RETRY_INITIAL_BACKOFF n1)"

definition level_payload :: "int \<Rightarrow> int \<Rightarrow> int \<Rightarrow> bytes res" where
  "level_payload brightness_model_id level transaction_id =
     (if brightness_model_id = 0x1300 then light_lightness_set (level + 32768) transaction_id
      else generic_level_set level transaction_id)"

definition send_level ::
  "('s \<Rightarrow> int) \<Rightarrow> (int \<Rightarrow> 's \<Rightarrow> 's) \<Rightarrow> crypto_lib \<Rightarrow> interference \<Rightarrow> write_oracle \<Rightarrow> int \<Rightarrow> nat
    \<Rightarrow> 's sig_node \<Rightarrow> unit res \<times> 's sig_node \<times> io_event list" where
  "send_level get_seq set_seq lib interfere write level max_retries n =
     with_app_key n (\<lambda>app_key.
       let transaction_id = sn_tid n; n1 = n\<lparr>sn_tid := (sn_tid n + 1) AND 0xFF\<rparr> in
       send_attempts get_seq set_seq lib interfere write
         (level_payload (sn_brightness_model_id n) level transaction_id) app_key
         (sn_level_target_addr n) max_retries 1 WRITE_RETRY_INITIAL_BACKOFF n1)"

definition send_vendor_command ::
  "('s \<Rightarrow> int) \<Rightarrow> (int \<Rightarrow> 's \<Rightarrow> 's) \<Rightarrow> crypto_lib \<Rightarrow> interference \<Rightarrow> write_oracle \<Rightarrow> bytes
    \<Rightarrow> 's sig_node \<Rightarrow> unit res \<times> 's sig_node \<times> io_event list" where
  "send_vendor_command get_seq set_seq lib interfere write access_payload n =
     with_app_key n (\<lambda>app_key.
       send_attempt get_seq set_seq lib interfere write (Inr access_payload) app_key (sn_target_addr n) 1 n)"

subsection \<open>Configuration commands\<close>

text \<open>A configuration message is sent under the device key, which is read after the sequence
  number.\<close>

definition prepare_config ::
  "('s \<Rightarrow> int) \<Rightarrow> (int \<Rightarrow> 's \<Rightarrow> 's) \<Rightarrow> crypto_lib \<Rightarrow> interference \<Rightarrow> bytes res \<Rightarrow> 's sig_node
    \<Rightarrow> (int \<times> bytes) res \<times> 's sig_node" where
  "prepare_config get_seq set_seq lib interfere access_payload n =
     (case access_payload of Inl e \<Rightarrow> (Inl e, n)
      | Inr payload \<Rightarrow>
       (case next_seq get_seq set_seq (sn_seq_store n) of
          (Inl e, st) \<Rightarrow> (Inl e, n\<lparr>sn_seq_store := st\<rparr>)
        | (Inr seq, st) \<Rightarrow>
            (let d = interfere 0 (sn_device n); n1 = n\<lparr>sn_seq_store := st, sn_device := d\<rparr> in
             case sd_keys d of None \<Rightarrow> (Inl AttributeError, n1)
             | Some keys \<Rightarrow>
                (bindR (build_pdu lib keys (mk_dev_key keys) (sn_our_addr n) (sn_target_addr n) seq payload 0 0)
                   (\<lambda>pdu. Inr (seq, pdu)), n1))))"

definition connected_with_keys :: "'s sig_node \<Rightarrow> bool" where
  "connected_with_keys n \<longleftrightarrow> sd_has_client (sn_device n) \<and> sd_keys (sn_device n) \<noteq> None"

definition write_pdu :: "write_oracle \<Rightarrow> nat \<Rightarrow> int \<Rightarrow> bytes \<Rightarrow> 's sig_node \<Rightarrow> unit res \<times> io_event list" where
  "write_pdu write k seq pdu n =
     (if \<not> sd_has_client (sn_device n) then (Inl AttributeError, [])
      else (case write k of None \<Rightarrow> (Inr (), [Write seq pdu]) | Some e \<Rightarrow> (Inl e, [Write seq pdu])))"

definition request_composition_data ::
  "('s \<Rightarrow> int) \<Rightarrow> (int \<Rightarrow> 's \<Rightarrow> 's) \<Rightarrow> crypto_lib \<Rightarrow> interference \<Rightarrow> write_oracle
    \<Rightarrow> 's sig_node \<Rightarrow> unit res \<times> 's sig_node \<times> io_event list" where
  "request_composition_data get_seq set_seq lib interfere write n =
     (if \<not> connected_with_keys n then (Inl SIGMeshError, n, [])
      else case prepare_config get_seq set_seq lib interfere (config_composition_get 0) n of
        (Inl e, n1) \<Rightarrow> (Inl e, n1, [])
      | (Inr (seq, pdu), n1) \<Rightarrow> (let (r, out) = write_pdu write 0 seq pdu n1 in (r, n1, out)))"

text \<open>Registering and removing the future of a request.\<close>

definition register_response :: "int \<Rightarrow> 's sig_node \<Rightarrow> (int \<times> int) \<times> 's sig_node" where
  "register_response opcode n =
     (let key = (opcode, sn_correlation_id n); d = sn_device n in
      (key, n\<lparr>sn_correlation_id := sn_correlation_id n + 1,
              sn_device := d\<lparr>sd_pending_responses := dict_set key Waiting (sd_pending_responses d)\<rparr>\<rparr>))"

definition drop_response :: "int \<times> int \<Rightarrow> 's sig_node \<Rightarrow> 's sig_node" where
  "drop_response key n =
     (let d = sn_device n in
      n\<lparr>sn_device := d\<lparr>sd_pending_responses := dict_pop key (sd_pending_responses d)\<rparr>\<rparr>)"

definition status_ok :: "bytes \<Rightarrow> bool" where
  "status_ok params = ((if params \<noteq> [] then uint (params ! 0) else 0xFF) = 0x00)"

text \<open>
  The end of a request: \<open>response\<close> is how waiting for the future ends, with the parameters or
  with the TimeoutError of \<^verbatim>\<open>wait_for\<close>; a TimeoutError becomes SIGMeshError, and the future is
  dropped in every case.
\<close>

definition finish_request ::
  "int \<times> int \<Rightarrow> bytes res \<Rightarrow> 's sig_node \<Rightarrow> bool res \<times> 's sig_node" where
  "finish_request key result n =
     (case result of
        Inl e \<Rightarrow> (Inl (if isinstance e TimeoutError then SIGMeshError else e), drop_response key n)
      | Inr params \<Rightarrow> (Inr (status_ok params), drop_response key n))"

text \<open>The loop over the segments; before each one \<open>interfere (Suc k)\<close> happens.\<close>

fun send_segments ::
  "crypto_lib \<Rightarrow> interference \<Rightarrow> write_oracle \<Rightarrow> nat \<Rightarrow> (int \<times> bytes) list
    \<Rightarrow> 's sig_node \<Rightarrow> unit res \<times> 's sig_node \<times> io_event list" where
  "send_segments lib interfere write k [] n = (Inr (), n, [])"
| "send_segments lib interfere write k ((seg_seq, transport_pdu) # segs) n =
     (let n1 = n\<lparr>sn_device := interfere (Suc k) (sn_device n)\<rparr> in
      case sd_keys (sn_device n1) of None \<Rightarrow> (Inl AttributeError, n1, [])
      | Some keys \<Rightarrow>
       (case network_proxy_pdu lib keys seg_seq (sn_our_addr n1) (sn_target_addr n1) transport_pdu of
          Inl e \<Rightarrow> (Inl e, n1, [])
        | Inr pdu \<Rightarrow>
           (case write_pdu write k seg_seq pdu n1 of
              (Inl e, out) \<Rightarrow> (Inl e, n1, out)
            | (Inr u, out) \<Rightarrow>
                (let (r, n2, out2) = send_segments lib interfere write (Suc k) segs n1
                 in (r, n2, out @ [Sleep STATUS_WAIT_POLL_INTERVAL] @ out2)))))"

definition send_config_appkey_add ::
  "('s \<Rightarrow> int) \<Rightarrow> (int \<Rightarrow> 's \<Rightarrow> 's) \<Rightarrow> crypto_lib \<Rightarrow> interference \<Rightarrow> write_oracle \<Rightarrow> bytes res
    \<Rightarrow> bytes \<Rightarrow> int \<Rightarrow> int \<Rightarrow> 's sig_node \<Rightarrow> bool res \<times> 's sig_node \<times> io_event list" where
  "send_config_appkey_add get_seq set_seq lib interfere write response app_key net_idx app_idx n =
     (if \<not> connected_with_keys n then (Inl SIGMeshError, n, [])
      else case config_appkey_add net_idx app_idx app_key of Inl e \<Rightarrow> (Inl e, n, [])
      | Inr access_payload \<Rightarrow>
       (case next_seqs get_seq set_seq (int (n_segments (length access_payload + 4))) (sn_seq_store n) of
          (Inl e, st) \<Rightarrow> (Inl e, n\<lparr>sn_seq_store := st\<rparr>, [])
        | (Inr seq_start, st) \<Rightarrow>
           (let n1 = n\<lparr>sn_seq_store := st, sn_device := interfere 0 (sn_device n)\<rparr> in
            case sd_keys (sn_device n1) of None \<Rightarrow> (Inl AttributeError, n1, [])
            | Some keys \<Rightarrow>
             (case make_access_segmented lib (mk_dev_key keys) (sn_our_addr n1) (sn_target_addr n1) seq_start
                     (mk_iv_index keys) access_payload 0 0 0 of
                Inl e \<Rightarrow> (Inl e, n1, [])
              | Inr segments \<Rightarrow>
                 (let (key, n2) = register_response OPCODE_APPKEY_STATUS n1;
                      (r, n3, out) = send_segments lib interfere write 0 segments n2;
                      (result, n4) = finish_request key (bindR r (\<lambda>_. response))
                        (n3\<lparr>sn_device := (case r of Inl e \<Rightarrow> sn_device n3
                           | Inr u \<Rightarrow> interfere (Suc (length segments)) (sn_device n3))\<rparr>)
                  in (result, n4, out))))))"

definition send_config_model_app_bind ::
  "('s \<Rightarrow> int) \<Rightarrow> (int \<Rightarrow> 's \<Rightarrow> 's) \<Rightarrow> crypto_lib \<Rightarrow> interference \<Rightarrow> write_oracle \<Rightarrow> bytes res
    \<Rightarrow> int \<Rightarrow> int \<Rightarrow> int \<Rightarrow> 's sig_node \<Rightarrow> bool res \<times> 's sig_node \<times> io_event list" where
  "send_config_model_app_bind get_seq set_seq lib interfere write response element_addr app_idx model_id n =
     (if \<not> connected_with_keys n then (Inl SIGMeshError, n, [])
      else case prepare_config get_seq set_seq lib interfere
                  (config_model_app_bind element_addr app_idx model_id) n of
        (Inl e, n1) \<Rightarrow> (Inl e, n1, [])
      | (Inr (seq, pdu), n1) \<Rightarrow>
         (let (key, n2) = register_response OPCODE_MODEL_APP_STATUS n1;
              n3 = n2\<lparr>sn_device := interfere 1 (sn_device n2)\<rparr>;
              (r, out) = write_pdu write 0 seq pdu n3;
              (result, n4) = finish_request key (bindR r (\<lambda>_. response))
                (n3\<lparr>sn_device := (case r of Inl e \<Rightarrow> sn_device n3 | Inr u \<Rightarrow> interfere 2 (sn_device n3))\<rparr>)
          in (result, n4, out)))"

subsection \<open>What a PDU carries\<close>

text \<open>A node with the same keys reads the access payload out of the proxy PDU.\<close>

definition carries ::
  "crypto_lib \<Rightarrow> mesh_keys \<Rightarrow> int \<Rightarrow> int \<Rightarrow> int \<Rightarrow> int \<Rightarrow> bytes \<Rightarrow> bytes \<Rightarrow> bool" where
  "carries lib keys akf src dst seq payload proxy \<longleftrightarrow> (\<exists>pdu t ttl aid. proxy = make_proxy_pdu pdu
     \<and> decrypt_network_pdu lib (mk_enc_key keys) (mk_priv_key keys) (mk_nid keys) pdu (mk_iv_index keys)
         = Inr (Some \<lparr>np_ctl = 0, np_ttl = ttl, np_seq = seq, np_src = src, np_dst = dst, np_transport_pdu = t\<rparr>)
     \<and> decrypt_access_payload lib keys src dst seq t = Inr (Some \<lparr>am_seg = False, am_akf = akf,
         am_aid = aid, am_access_payload = Some payload, am_raw = t\<rparr>))"

definition mesh_keys_ok :: "mesh_keys \<Rightarrow> bool" where
  "mesh_keys_ok keys \<longleftrightarrow> length (mk_enc_key keys) = 16 \<and> length (mk_priv_key keys) = 16
     \<and> length (mk_dev_key keys) = 16 \<and> (\<forall>a. mk_app_key keys = Some a \<longrightarrow> length a = 16)
     \<and> mk_nid keys \<in> {0..127} \<and> 0 \<le> mk_iv_index keys \<and> mk_iv_index keys < 2 ^ 32"

lemma build_pdu_ok:
  assumes lib: "crypto_lib_ok lib" and keys: "mesh_keys_ok keys" and key: "access_key keys akf = Some key"
    and r: "akf \<in> {0, 1}" "0 \<le> seq" "seq < 2 ^ 24" "0 \<le> src" "src \<le> 0xFFFF" "0 \<le> dst" "dst \<le> 0xFFFF"
    and p: "length p \<le> 11"
  obtains proxy where "build_pdu lib keys key src dst seq p akf aid = Inr proxy"
    "carries lib keys akf src dst seq p proxy"
proof -
  have k: "length key = 16" using keys key by (auto simp: mesh_keys_ok_def access_key_def split: if_splits)
  have iv: "0 \<le> mk_iv_index keys" "mk_iv_index keys < 2 ^ 32" "0 \<le> mk_nid keys" "mk_nid keys \<le> 127"
    "length (mk_enc_key keys) = 16" "length (mk_priv_key keys) = 16"
    using keys by (auto simp: mesh_keys_ok_def)
  obtain t where t: "make_access_unsegmented lib key src dst seq (mk_iv_index keys) p akf aid = Inr t"
    "length t = length p + 5" "decrypt_access_payload lib keys src dst seq t = Inr (Some \<lparr>am_seg = False,
      am_akf = akf, am_aid = aid mod 64, am_access_payload = Some p, am_raw = t\<rparr>)"
    using access_unsegmented_sent [OF lib key k r iv(1,2), of p aid] p by auto
  have tl: "t \<noteq> []" "length t \<le> 65533" using t(2) p by auto
  then obtain pdu where "encrypt_network_pdu lib (mk_enc_key keys) (mk_priv_key keys) (mk_nid keys) 0 DEFAULT_TTL
      seq src dst t (mk_iv_index keys) = Inr pdu"
    "decrypt_network_pdu lib (mk_enc_key keys) (mk_priv_key keys) (mk_nid keys) pdu (mk_iv_index keys)
      = Inr (Some \<lparr>np_ctl = 0, np_ttl = DEFAULT_TTL mod 128, np_seq = seq, np_src = src, np_dst = dst,
          np_transport_pdu = t\<rparr>)"
    using network_pdu_sent [OF lib iv(5,6), of "mk_nid keys" 0 seq src dst "mk_iv_index keys" t DEFAULT_TTL]
      r iv by auto
  with t that show ?thesis
    by (auto simp: build_pdu_def network_proxy_pdu_def carries_def)
qed

subsection \<open>The attempts\<close>

fun writes :: "io_event list \<Rightarrow> (int \<times> bytes) list" where
  "writes [] = []"
| "writes (Write q pdu # es) = (q, pdu) # writes es"
| "writes (Sleep t # es) = writes es"

lemma writes_append [simp]: "writes (a @ b) = writes a @ writes b"
  by (induction a rule: writes.induct) auto

text \<open>Other tasks may drop the keys or the client, they do not replace the keys.\<close>

definition only_drops_keys :: "interference \<Rightarrow> bool" where
  "only_drops_keys interfere \<longleftrightarrow> (\<forall>k d. sd_keys (interfere k d) = None \<or> sd_keys (interfere k d) = sd_keys d)"

definition transient :: "py_error \<Rightarrow> bool" where
  "transient e \<longleftrightarrow> \<not> isinstance e SIGMeshError \<and> \<not> isinstance e SIGMeshKeyError
     \<and> (isinstance e BleakError \<or> isinstance e OSError)"

context seq_store
begin

lemma send_attempt_result:
  assumes "send_attempt get_seq set_seq lib interfere write payload app_key dst k n = (r, n', out)"
  shows "(out = [] \<or> (\<exists>q p keys pdu. out = [Write q pdu] \<and> q = get_seq (sn_seq_store n) \<and> q \<le> 0xFFFFFF
        \<and> get_seq (sn_seq_store n') = q + 1 \<and> payload = Inr p \<and> sd_keys (interfere k (sn_device n)) = Some keys
        \<and> sn_device n' = interfere k (sn_device n)
        \<and> build_pdu lib keys app_key (sn_our_addr n) dst q p 1 (mk_aid keys) = Inr pdu
        \<and> (case write k of None \<Rightarrow> r = Inr () | Some e \<Rightarrow> r = Inl e)))
    \<and> (out = [] \<longrightarrow> r \<noteq> Inr ()) \<and> sn_our_addr n' = sn_our_addr n \<and> sn_tid n' = sn_tid n
    \<and> (\<exists>i::nat. get_seq (sn_seq_store n') = get_seq (sn_seq_store n) + int i)"
proof (cases payload)
  case (Inl e)
  with assms show ?thesis by (auto simp: send_attempt_def intro: exI [of _ 0])
next
  case (Inr p)
  show ?thesis
  proof (cases "get_seq (sn_seq_store n) > 0xFFFFFF")
    case True
    with assms Inr show ?thesis
      by (auto simp: send_attempt_def next_seq_def Let_def intro: exI [of _ 0])
  next
    case False
    with assms Inr show ?thesis
      by (auto simp: send_attempt_def next_seq_def Let_def get_set intro: exI [of _ "Suc 0"]
          split: option.splits sum.splits if_splits)
  qed
qed

end

lemma send_attempt_device:
  assumes "send_attempt get_seq set_seq lib interfere write payload app_key dst k n = (r, n', out)"
  shows "sn_device n' \<in> {sn_device n, interfere k (sn_device n)}"
proof (cases payload)
  case (Inl e)
  with assms show ?thesis by (auto simp: send_attempt_def)
next
  case (Inr p)
  with assms show ?thesis
    by (cases "next_seq get_seq set_seq (sn_seq_store n)")
       (auto simp: send_attempt_def Let_def split: option.splits sum.splits if_splits)
qed

context seq_store
begin

lemma send_attempts_writes:
  assumes "send_attempts get_seq set_seq lib interfere write payload app_key dst left k backoff n = (r, n', out)"
    and "only_drops_keys interfere" and "sd_keys (sn_device n) \<in> {None, Some keys}"
  shows "length (writes out) \<le> left \<and> sn_tid n' = sn_tid n
    \<and> get_seq (sn_seq_store n) \<le> get_seq (sn_seq_store n')
    \<and> sorted_wrt (<) (map fst (writes out))
    \<and> (\<forall>(q, pdu) \<in> set (writes out). get_seq (sn_seq_store n) \<le> q \<and> q \<le> 0xFFFFFF
        \<and> q < get_seq (sn_seq_store n')
        \<and> (\<exists>p. payload = Inr p \<and> build_pdu lib keys app_key (sn_our_addr n) dst q p 1 (mk_aid keys) = Inr pdu))"
  using assms(1,3)
proof (induction left arbitrary: k backoff n r n' out)
  case (Suc left)
  obtain r1 n1 out1 where a: "send_attempt get_seq set_seq lib interfere write payload app_key dst k n = (r1, n1, out1)"
    using prod_cases3 by blast
  note s = send_attempt_result [OF a]
  have keys: "sd_keys (interfere k (sn_device n)) \<in> {None, Some keys}"
    using Suc.prems(2) assms(2) unfolding only_drops_keys_def by (metis insertCI)
  have one: "length (writes out1) \<le> 1" "sn_tid n1 = sn_tid n" "sn_our_addr n1 = sn_our_addr n"
    "get_seq (sn_seq_store n) \<le> get_seq (sn_seq_store n1)"
    "\<forall>(q, pdu) \<in> set (writes out1). get_seq (sn_seq_store n) \<le> q \<and> q \<le> 0xFFFFFF \<and> q < get_seq (sn_seq_store n1)
        \<and> (\<exists>p. payload = Inr p \<and> build_pdu lib keys app_key (sn_our_addr n) dst q p 1 (mk_aid keys) = Inr pdu)"
    "sorted_wrt (<) (map fst (writes out1))"
    using s keys by auto
  show ?case
  proof (cases "\<exists>e. r1 = Inl e \<and> transient e \<and> left \<noteq> 0")
    case False
    with Suc.prems(1) a have "n' = n1" "out = out1"
      by (auto simp: transient_def split: sum.splits if_splits prod.splits)
    with one show ?thesis by auto
  next
    case True
    then obtain e where e: "r1 = Inl e" "transient e" "left \<noteq> 0" by blast
    obtain r2 n2 out2 where t: "send_attempts get_seq set_seq lib interfere write payload app_key dst left (Suc k)
        (backoff * WRITE_RETRY_BACKOFF_MULTIPLIER) n1 = (r2, n2, out2)"
      using prod_cases3 by blast
    have out: "n' = n2" "out = out1 @ [Sleep backoff] @ out2"
      using Suc.prems(1) a e t by (auto simp: transient_def)
    have k1: "sd_keys (sn_device n1) \<in> {None, Some keys}"
      using send_attempt_device [OF a] keys Suc.prems(2) by auto
    note ih = Suc.IH [OF t k1]
    have "sorted_wrt (<) (map fst (writes out1 @ writes out2))"
      using one(5,6) ih by (auto simp: sorted_wrt_append dest!: bspec split: prod.splits)
    moreover have "\<forall>(q, pdu) \<in> set (writes out1 @ writes out2). get_seq (sn_seq_store n) \<le> q \<and> q \<le> 0xFFFFFF
        \<and> q < get_seq (sn_seq_store n2)
        \<and> (\<exists>p. payload = Inr p \<and> build_pdu lib keys app_key (sn_our_addr n) dst q p 1 (mk_aid keys) = Inr pdu)"
      using one(3,4,5) ih by (auto simp del: One_nat_def dest!: bspec)
    ultimately show ?thesis using ih one(1,2,4) unfolding out by simp
  qed
qed simp

end

text \<open>C34: Every write of \<^verbatim>\<open>send_power\<close> carries the GenericOnOff Set message with the transaction
  identifier of the call, encrypted so that the target reads back exactly that message; there are
  at most \<^verbatim>\<open>max_retries\<close> writes, and each has a sequence number that is new and above those before it,
  whatever fails and whatever other tasks disconnect in between.\<close>

theorem send_power_writes:
  assumes "seq_store get_seq set_seq" and "crypto_lib_ok lib" and "only_drops_keys interfere"
    and "sd_keys (sn_device n) = Some keys" and "mesh_keys_ok keys"
    and "0 \<le> get_seq (sn_seq_store n)" and "sn_our_addr n \<in> {0..0xFFFF}" and "sn_target_addr n \<in> {0..0xFFFF}"
    and "send_power get_seq set_seq lib interfere write on max_retries n = (r, n', out)"
  shows "length (writes out) \<le> max_retries \<and> sorted_wrt (<) (map fst (writes out))
    \<and> (\<forall>(q, pdu) \<in> set (writes out). get_seq (sn_seq_store n) \<le> q \<and> q < get_seq (sn_seq_store n')
        \<and> (\<exists>p. generic_onoff_set on (sn_tid n) = Inr p
            \<and> carries lib keys 1 (sn_our_addr n) (sn_target_addr n) q p pdu))"
proof (cases "out = []")
  case False
  then obtain app_key where k: "mk_app_key keys = Some app_key"
    and a: "send_attempts get_seq set_seq lib interfere write (generic_onoff_set on (sn_tid n)) app_key
      (sn_target_addr n) max_retries 1 WRITE_RETRY_INITIAL_BACKOFF (n\<lparr>sn_tid := (sn_tid n + 1) AND 0xFF\<rparr>)
      = (r, n', out)"
    using assms(4,9) by (auto simp: send_power_def with_app_key_def Let_def split: if_splits option.splits)
  have len: "length p \<le> 11" if "generic_onoff_set on (sn_tid n) = Inr p" for p
    using that by (auto simp: generic_onoff_set_def opcode_consts pack_be_2)
  show ?thesis
    using seq_store.send_attempts_writes [OF assms(1) a assms(3), of keys] assms(4)
  proof (clarsimp, goal_cases)
    case (1 q pdu)
    then obtain p where p: "generic_onoff_set on (sn_tid n) = Inr p"
      "build_pdu lib keys app_key (sn_our_addr n) (sn_target_addr n) q p 1 (mk_aid keys) = Inr pdu"
      "get_seq (sn_seq_store n) \<le> q" "q \<le> 0xFFFFFF" "q < get_seq (sn_seq_store n')"
      by auto
    then show ?case
      using build_pdu_ok [OF assms(2,5), of 1 app_key q "sn_our_addr n" "sn_target_addr n" p "mk_aid keys"]
        assms(6-8) k len by (auto simp: access_key_def)
  qed
qed simp

definition demo_node :: "in_memory_seq_store sig_node" where
  "demo_node = \<lparr>sn_device = demo_device (replicate 16 3), sn_our_addr = 1, sn_target_addr = 0xB0,
     sn_level_target_addr = 0xB0, sn_brightness_model_id = 0, sn_tid = 255, sn_correlation_id = 0,
     sn_seq_store = \<lparr>ims_seq = 7\<rparr>\<rparr>"

lemma mesh_keys_ok_demo: "mesh_keys_ok (demo_keys (replicate 16 3))"
  by (simp add: mesh_keys_ok_def demo_keys_def)

theorem send_power_writes_witness:
  "\<exists>r n' out q pdu. send_power ims_get_seq ims_set_seq demo_lib (\<lambda>k d. d)
       (\<lambda>k. if k = 1 then Some BleakError else None) True 3 demo_node = (r, n', out)
     \<and> sorted_wrt (<) (map fst (writes out)) \<and> length (writes out) = 2 \<and> (q, pdu) \<in> set (writes out)
     \<and> (\<exists>p. generic_onoff_set True 255 = Inr p \<and> carries demo_lib (demo_keys (replicate 16 3)) 1 1 0xB0 q p pdu)"
proof -
  let ?s = "send_power ims_get_seq ims_set_seq demo_lib (\<lambda>k d. d)
       (\<lambda>k. if k = 1 then Some BleakError else None) True 3 demo_node"
  have w: "length (writes (snd (snd ?s))) = 2" by code_simp
  obtain r n' out where s: "?s = (r, n', out)" using prod_cases3 by blast
  have l: "length (writes out) = 2" using w s by simp
  then obtain q pdu where q: "(q, pdu) \<in> set (writes out)" by (cases "writes out") auto
  have t: "length (writes out) \<le> 3 \<and> sorted_wrt (<) (map fst (writes out)) \<and> (\<forall>(q, pdu) \<in> set (writes out).
      ims_get_seq (sn_seq_store demo_node) \<le> q \<and> q < ims_get_seq (sn_seq_store n')
      \<and> (\<exists>p. generic_onoff_set True (sn_tid demo_node) = Inr p
        \<and> carries demo_lib (demo_keys (replicate 16 3)) 1 (sn_our_addr demo_node) (sn_target_addr demo_node) q p pdu))"
    by (rule send_power_writes [OF ims.seq_store_axioms demo_lib_ok _ _ mesh_keys_ok_demo _ _ _ s])
      (simp_all add: only_drops_keys_def demo_node_def demo_device_def ims_get_seq_def)
  then obtain p where "generic_onoff_set True 255 = Inr p"
    "carries demo_lib (demo_keys (replicate 16 3)) 1 1 0xB0 q p pdu"
    using q by (auto simp: demo_node_def dest!: bspec)
  with s t l q show ?thesis by blast
qed

fun sleeps :: "io_event list \<Rightarrow> seconds list" where
  "sleeps [] = []"
| "sleeps (Write q pdu # es) = sleeps es"
| "sleeps (Sleep t # es) = t # sleeps es"

lemma sleeps_append [simp]: "sleeps (a @ b) = sleeps a @ sleeps b"
  by (induction a rule: sleeps.induct) auto

text \<open>Without interference every attempt reaches its write.\<close>

definition ready :: "crypto_lib \<Rightarrow> bytes \<Rightarrow> int \<Rightarrow> bytes res \<Rightarrow> 's sig_node \<Rightarrow> bool" where
  "ready lib app_key dst payload n \<longleftrightarrow> sd_has_client (sn_device n) \<and> (\<exists>keys p. sd_keys (sn_device n) = Some keys
     \<and> payload = Inr p \<and> (\<forall>q. 0 \<le> q \<and> q \<le> 0xFFFFFF \<longrightarrow>
         (\<exists>pdu. build_pdu lib keys app_key (sn_our_addr n) dst q p 1 (mk_aid keys) = Inr pdu)))"

lemma transient_errors: "transient OSError" "transient BleakError" "\<not> transient AttributeError"
  by code_simp+

context seq_store
begin

lemma send_attempt_ready:
  assumes "ready lib app_key dst payload n" and "interfere k (sn_device n) = sn_device n"
    and "0 \<le> get_seq (sn_seq_store n)" and "get_seq (sn_seq_store n) \<le> 0xFFFFFF"
  obtains q pdu st where "get_seq st = get_seq (sn_seq_store n) + 1"
    and "send_attempt get_seq set_seq lib interfere write payload app_key dst k n
      = (case write k of None \<Rightarrow> Inr () | Some e \<Rightarrow> Inl e, n\<lparr>sn_seq_store := st\<rparr>, [Write q pdu])"
proof -
  obtain keys p pdu where k: "sd_has_client (sn_device n)" "sd_keys (sn_device n) = Some keys" "payload = Inr p"
    "build_pdu lib keys app_key (sn_our_addr n) dst (get_seq (sn_seq_store n)) p 1 (mk_aid keys) = Inr pdu"
    using assms(1,3,4) unfolding ready_def by blast
  show ?thesis
  proof (rule that)
    show "get_seq (set_seq (get_seq (sn_seq_store n) + 1) (sn_seq_store n)) = get_seq (sn_seq_store n) + 1"
      by (simp add: get_set)
    show "send_attempt get_seq set_seq lib interfere write payload app_key dst k n
      = (case write k of None \<Rightarrow> Inr () | Some e \<Rightarrow> Inl e,
         n\<lparr>sn_seq_store := set_seq (get_seq (sn_seq_store n) + 1) (sn_seq_store n)\<rparr>,
         [Write (get_seq (sn_seq_store n)) pdu])"
      using k assms(2,4) by (simp add: send_attempt_def next_seq_def Let_def split: option.splits)
  qed
qed

lemma send_attempts_ready:
  assumes "ready lib app_key dst payload n" and "\<forall>k d. interfere k d = d"
    and "0 \<le> get_seq (sn_seq_store n)" and "get_seq (sn_seq_store n) + int left \<le> 0x1000000"
    and "\<forall>k e. write k = Some e \<longrightarrow> transient e"
    and "send_attempts get_seq set_seq lib interfere write payload app_key dst left k backoff n = (r, n', out)"
  shows "r = (if \<exists>i<left. write (k + i) = None then Inr () else Inl MeshConnectionError)
    \<and> length (writes out) \<le> left
    \<and> (\<forall>i < length (writes out) - 1. write (k + i) \<noteq> None)
    \<and> (r = Inr () \<longrightarrow> writes out \<noteq> [] \<and> write (k + (length (writes out) - 1)) = None)
    \<and> (r \<noteq> Inr () \<longrightarrow> length (writes out) = left)
    \<and> sleeps out = map (\<lambda>i. backoff * 2 ^ i) [0..<length (writes out) - 1]"
  using assms(1,3,4,6)
proof (induction left arbitrary: k backoff n r n' out)
  case (Suc left)
  obtain q pdu st where a: "get_seq st = get_seq (sn_seq_store n) + 1"
    "send_attempt get_seq set_seq lib interfere write payload app_key dst k n
      = (case write k of None \<Rightarrow> Inr () | Some e \<Rightarrow> Inl e, n\<lparr>sn_seq_store := st\<rparr>, [Write q pdu])"
    by (rule send_attempt_ready [where interfere = interfere and k = k and lib = lib and app_key = app_key and dst = dst and payload = payload and n = n]) (use Suc.prems assms(2) in auto)
  show ?case
  proof (cases "write k")
    case None
    with Suc.prems(4) a show ?thesis by auto
  next
    case (Some e)
    then have e: "transient e" using assms(5) by blast
    show ?thesis
    proof (cases left)
      case 0
      with Some e Suc.prems(4) a show ?thesis by (auto simp: transient_def)
    next
      case (Suc l)
      obtain r2 n2 out2 where t: "send_attempts get_seq set_seq lib interfere write payload app_key dst left (Suc k)
          (backoff * WRITE_RETRY_BACKOFF_MULTIPLIER) (n\<lparr>sn_seq_store := st\<rparr>) = (r2, n2, out2)"
        using prod_cases3 by blast
      have out: "r = r2" "out = Write q pdu # Sleep backoff # out2"
        using Suc.prems(4) a Some e t Suc by (auto simp: transient_def)
      have ih: "r2 = (if \<exists>i<left. write (Suc k + i) = None then Inr () else Inl MeshConnectionError)
        \<and> length (writes out2) \<le> left \<and> (\<forall>i < length (writes out2) - 1. write (Suc k + i) \<noteq> None)
        \<and> (r2 = Inr () \<longrightarrow> writes out2 \<noteq> [] \<and> write (Suc k + (length (writes out2) - 1)) = None)
        \<and> (r2 \<noteq> Inr () \<longrightarrow> length (writes out2) = left)
        \<and> sleeps out2 = map (\<lambda>i. backoff * WRITE_RETRY_BACKOFF_MULTIPLIER * 2 ^ i) [0..<length (writes out2) - 1]"
        using Suc.prems a(1) by (intro Suc.IH [OF _ _ _ t]) (simp_all add: ready_def)
      note ih1 = conjunct1 [OF ih] and ih2 = conjunct1 [OF conjunct2 [OF ih]]
        and ih3 = conjunct1 [OF conjunct2 [OF conjunct2 [OF ih]]]
        and ih4 = conjunct1 [OF conjunct2 [OF conjunct2 [OF conjunct2 [OF ih]]]]
        and ih56 = conjunct2 [OF conjunct2 [OF conjunct2 [OF conjunct2 [OF ih]]]]
      have len: "length (writes out) = Suc (length (writes out2))" by (simp add: out)
      have nonempty: "writes out2 \<noteq> []" using ih4 ih56 Suc by auto
      have count: "(\<exists>i<Suc left. write (k + i) = None) \<longleftrightarrow> (\<exists>i<left. write (Suc k + i) = None)"
        using Some by (simp add: Ex_less_Suc2)
      have earlier: "\<forall>i < length (writes out) - 1. write (k + i) \<noteq> None"
      proof (intro allI impI)
        fix i assume i: "i < length (writes out) - 1"
        show "write (k + i) \<noteq> None"
        proof (cases i)
          case 0
          with Some show ?thesis by simp
        next
          case (Suc j)
          with i len have "j < length (writes out2) - 1" by simp
          with ih3 Suc show ?thesis by simp
        qed
      qed
      have "sleeps out2 = map (\<lambda>i. backoff * 2 * 2 ^ i) [0..<length (writes out2) - 1]"
        using conjunct2 [OF ih56] by (simp add: WRITE_RETRY_BACKOFF_MULTIPLIER_def)
      then have "sleeps out = map (\<lambda>i. backoff * 2 ^ i) [0..<length (writes out) - 1]"
        unfolding len using nonempty by (cases "writes out2")
          (simp_all add: out upt_conv_Cons map_Suc_upt [symmetric] mult.assoc comp_def del: upt_Suc map_Suc_upt)
      moreover have "r = Inr () \<longrightarrow> writes out \<noteq> [] \<and> write (k + (length (writes out) - 1)) = None"
        using ih4 by (cases "writes out2") (simp_all add: out)
      moreover have "r = (if \<exists>i<Suc left. write (k + i) = None then Inr () else Inl MeshConnectionError)"
        unfolding out(1) ih1 count ..
      moreover have "r \<noteq> Inr () \<longrightarrow> length (writes out) = Suc left" using conjunct1 [OF ih56] by (simp add: out)
      ultimately show ?thesis using ih2 earlier by (simp only: len Suc_le_mono simp_thms)
    qed
  qed
qed auto

end

text \<open>On a connected node whose writes fail only with transient errors, \<^verbatim>\<open>send_power\<close> succeeds
  when one of its first \<^verbatim>\<open>max_retries\<close> writes does, stopping at that write, and otherwise raises
  MeshConnectionError after exactly \<^verbatim>\<open>max_retries\<close> writes; it sleeps 1, 2, 4, ... seconds between
  them.\<close>

theorem send_power_retries:
  assumes "seq_store get_seq set_seq" and "crypto_lib_ok lib" and "\<forall>k d. interfere k d = d"
    and "sd_keys (sn_device n) = Some keys" and "mesh_keys_ok keys" and "mk_app_key keys \<noteq> None"
    and "sd_has_client (sn_device n)"
    and "0 \<le> get_seq (sn_seq_store n)" and "get_seq (sn_seq_store n) + int max_retries \<le> 0x1000000"
    and "sn_our_addr n \<in> {0..0xFFFF}" and "sn_target_addr n \<in> {0..0xFFFF}"
    and "\<forall>k e. write k = Some e \<longrightarrow> transient e"
    and "send_power get_seq set_seq lib interfere write on max_retries n = (r, n', out)"
  shows "r = (if \<exists>i<max_retries. write (1 + i) = None then Inr () else Inl MeshConnectionError)
    \<and> length (writes out) \<le> max_retries
    \<and> (\<forall>i < length (writes out) - 1. write (1 + i) \<noteq> None)
    \<and> (r = Inr () \<longrightarrow> writes out \<noteq> [] \<and> write (1 + (length (writes out) - 1)) = None)
    \<and> (r \<noteq> Inr () \<longrightarrow> length (writes out) = max_retries)
    \<and> sleeps out = map (\<lambda>i. WRITE_RETRY_INITIAL_BACKOFF * 2 ^ i) [0..<length (writes out) - 1]"
proof -
  obtain app_key where k: "mk_app_key keys = Some app_key" using assms(6) by blast
  obtain p where p: "generic_onoff_set on (sn_tid n) = Inr p" "length p \<le> 11"
    by (cases on) (auto simp: generic_onoff_set_def opcode_consts pack_be_2)
  have pdu: "\<exists>pdu. build_pdu lib keys app_key (sn_our_addr n) (sn_target_addr n) q p 1 (mk_aid keys) = Inr pdu"
    if "0 \<le> q" "q \<le> 0xFFFFFF" for q
    using build_pdu_ok [OF assms(2,5), of 1 app_key q "sn_our_addr n" "sn_target_addr n" p "mk_aid keys"]
      assms(10,11) k p that by (auto simp: access_key_def)
  let ?n = "n\<lparr>sn_tid := (sn_tid n + 1) AND 0xFF\<rparr>"
  have "ready lib app_key (sn_target_addr n) (generic_onoff_set on (sn_tid n)) ?n"
    using assms(4,7) p(1) pdu by (simp add: ready_def)
  moreover have "send_attempts get_seq set_seq lib interfere write (generic_onoff_set on (sn_tid n)) app_key
      (sn_target_addr n) max_retries 1 WRITE_RETRY_INITIAL_BACKOFF ?n = (r, n', out)"
    using assms(4,7,13) k by (simp add: send_power_def with_app_key_def Let_def)
  ultimately show ?thesis
    using assms(8,9) by (intro seq_store.send_attempts_ready [OF assms(1) _ assms(3) _ _ assms(12)]) simp_all
qed

theorem send_power_retries_witness:
  "\<exists>n' out. send_power ims_get_seq ims_set_seq demo_lib (\<lambda>k d. d)
       (\<lambda>k. if k < 3 then Some OSError else None) False 3 demo_node = (Inr (), n', out)
     \<and> length (writes out) = 3 \<and> sleeps out = [1, 2]"
proof -
  let ?w = "\<lambda>k::nat. if k < 3 then Some OSError else None"
  let ?s = "send_power ims_get_seq ims_set_seq demo_lib (\<lambda>k d. d) ?w False 3 demo_node"
  obtain r n' out where s: "?s = (r, n', out)" using prod_cases3 by blast
  have t: "r = (if \<exists>i<3::nat. ?w (1 + i) = None then Inr () else Inl MeshConnectionError)
    \<and> length (writes out) \<le> 3 \<and> (\<forall>i < length (writes out) - 1. ?w (1 + i) \<noteq> None)
    \<and> (r = Inr () \<longrightarrow> writes out \<noteq> [] \<and> ?w (1 + (length (writes out) - 1)) = None)
    \<and> (r \<noteq> Inr () \<longrightarrow> length (writes out) = 3)
    \<and> sleeps out = map (\<lambda>i. WRITE_RETRY_INITIAL_BACKOFF * 2 ^ i) [0..<length (writes out) - 1]"
    by (rule send_power_retries [OF ims.seq_store_axioms demo_lib_ok _ _ mesh_keys_ok_demo _ _ _ _ _ _ _ s])
      (simp_all add: demo_node_def demo_device_def demo_keys_def ims_get_seq_def transient_errors)
  have "\<exists>i<3::nat. ?w (1 + i) = None" by (intro exI [of _ 2]) simp
  with conjunct1 [OF t] have r: "r = Inr ()" by simp
  with t have "?w (1 + (length (writes out) - 1)) = None" by blast
  then have "3 \<le> length (writes out)" by (simp split: if_splits)
  with t have l: "length (writes out) = 3" by linarith
  have "sleeps out = map (\<lambda>i. WRITE_RETRY_INITIAL_BACKOFF * 2 ^ i) [0..<length (writes out) - 1]"
    using t by blast
  with l have "sleeps out = [1, 2]" by (simp add: WRITE_RETRY_INITIAL_BACKOFF_def upt_rec)
  with s r l show ?thesis by blast
qed

text \<open>A disconnect while \<^verbatim>\<open>send_power\<close> sleeps: the next attempt takes the attribute of \<^verbatim>\<open>None\<close>, and
  the AttributeError is not one of those that the loop handles.\<close>

text \<open>When the device is disconnected during the backoff after a failed first write, \<^verbatim>\<open>send_power\<close>
  raises neither SIGMeshError nor MeshConnectionError but AttributeError.\<close>

theorem send_power_disconnected:
  assumes "seq_store get_seq set_seq" and "crypto_lib_ok lib"
    and "sd_keys (sn_device n) = Some keys" and "mesh_keys_ok keys" and "mk_app_key keys \<noteq> None"
    and "sd_has_client (sn_device n)"
    and "0 \<le> get_seq (sn_seq_store n)" and "get_seq (sn_seq_store n) < 0xFFFFFF"
    and "sn_our_addr n \<in> {0..0xFFFF}" and "sn_target_addr n \<in> {0..0xFFFF}"
    and "write 1 = Some e" and "transient e" and "2 \<le> max_retries"
    and "interfere = (\<lambda>k d. if k = 1 then d else d\<lparr>sd_has_client := False\<rparr>)"
  shows "fst (send_power get_seq set_seq lib interfere write on max_retries n) = Inl AttributeError"
proof -
  obtain app_key where k: "mk_app_key keys = Some app_key" using assms(5) by blast
  obtain p where p: "generic_onoff_set on (sn_tid n) = Inr p" "length p \<le> 11"
    by (cases on) (auto simp: generic_onoff_set_def opcode_consts pack_be_2)
  have pdu: "\<exists>pdu. build_pdu lib keys app_key (sn_our_addr n) (sn_target_addr n) q p 1 (mk_aid keys) = Inr pdu"
    if "0 \<le> q" "q \<le> 0xFFFFFF" for q
    using build_pdu_ok [OF assms(2,4), of 1 app_key q "sn_our_addr n" "sn_target_addr n" p "mk_aid keys"]
      assms(9,10) k p that by (auto simp: access_key_def)
  let ?q = "get_seq (sn_seq_store n)" and ?n = "n\<lparr>sn_tid := (sn_tid n + 1) AND 0xFF\<rparr>"
  obtain pdu1 where q1: "build_pdu lib keys app_key (sn_our_addr n) (sn_target_addr n) ?q p 1 (mk_aid keys) = Inr pdu1"
    using pdu [of ?q] assms(7,8) by auto
  obtain pdu2 where q2: "build_pdu lib keys app_key (sn_our_addr n) (sn_target_addr n) (?q + 1) p 1 (mk_aid keys) = Inr pdu2"
    using pdu [of "?q + 1"] assms(7,8) by auto
  obtain left where left: "max_retries = Suc (Suc left)" by (metis assms(13) add_2_eq_Suc le_Suc_ex)
  have set: "get_seq (set_seq (?q + 1) (sn_seq_store n)) = ?q + 1"
    by (rule seq_store.get_set [OF assms(1)]) simp
  show ?thesis
    using assms(3,6,8,11,12) k p(1) q1 q2 set
    by (simp add: send_power_def with_app_key_def Let_def left assms(14) send_attempt_def next_seq_def
        transient_def) (simp add: isinstance_def eval_nat_numeral)
qed

theorem send_power_disconnected_witness:
  "fst (send_power ims_get_seq ims_set_seq demo_lib (\<lambda>k d. if k = 1 then d else d\<lparr>sd_has_client := False\<rparr>)
     (\<lambda>k. Some BleakError) True 3 demo_node) = Inl AttributeError"
  by (rule send_power_disconnected [OF ims.seq_store_axioms demo_lib_ok _ mesh_keys_ok_demo,
        where e = BleakError])
    (simp_all add: demo_node_def demo_device_def demo_keys_def ims_get_seq_def transient_errors)

subsection \<open>Requests\<close>

lemma segment_loop_seqs:
  "segment_loop akf aid z s q n u is = Inr segs \<Longrightarrow> map fst segs = map (\<lambda>i. s + int i) is"
  by (induction "is" arbitrary: segs) (auto simp: res_simps)

lemma segmented_seqs:
  assumes "make_access_segmented lib key src dst s iv p akf aid szmic = Inr segs"
    and "crypto_lib_ok lib" "length key = 16" "szmic \<in> {0, 1}" "0 \<le> s" "s < 2 ^ 32" "0 \<le> src" "src \<le> 0xFFFF"
    "0 \<le> dst" "dst \<le> 0xFFFF" "0 \<le> iv" "iv < 2 ^ 32" "length p \<le> 65535"
  shows "map fst segs = map (\<lambda>i. s + int i) [0..<n_segments (length p + transport_mic_len szmic)]"
proof -
  obtain nonce where n: "make_app_nonce akf szmic s src dst iv = Inr nonce" "length nonce = 13"
    by (rule app_nonce_exists [of szmic s src dst iv akf]) (use assms in auto)
  have u: "ccm_usable lib (transport_mic_len szmic) key nonce"
    using assms(2-4) n by (auto simp: ccm_usable_def crypto_lib_ok_def transport_mic_len_def mesh_consts)
  obtain c where "mesh_aes_ccm_encrypt lib key nonce p (transport_mic_len szmic) = Inr c"
    "length c = length p + transport_mic_len szmic"
    using ccm.seal_ok [OF u assms(13)] by blast
  with assms(1) n show ?thesis
    by (auto simp: make_access_segmented_def Let_def dest!: segment_loop_seqs)
qed

lemma write_pdu_trace:
  "write_pdu write k q pdu n = (r, out) \<Longrightarrow> map fst (writes out) \<in> {[], [q]} \<and> (r = Inr () \<longrightarrow> writes out = [(q, pdu)])"
  by (auto simp: write_pdu_def split: option.splits if_splits)

lemma send_segments_writes:
  "send_segments lib interfere write k segs n = (r, n', out) \<Longrightarrow>
     (\<exists>m. map fst (writes out) = take m (map fst segs)) \<and> (r = Inr () \<longrightarrow> map fst (writes out) = map fst segs)
     \<and> sn_seq_store n' = sn_seq_store n \<and> sn_correlation_id n' = sn_correlation_id n"
proof (induction segs arbitrary: k n r n' out)
  case (Cons seg segs)
  obtain q t where seg: "seg = (q, t)" by fastforce
  let ?n = "n\<lparr>sn_device := interfere (Suc k) (sn_device n)\<rparr>"
  have stop: "\<exists>m. [] = take m (q # map fst segs)" "\<exists>m. [q] = take m (q # map fst segs)"
    by (auto intro: exI [of _ 0] exI [of _ 1])
  show ?case
  proof (cases "\<exists>keys pdu o1. sd_keys (sn_device ?n) = Some keys
      \<and> network_proxy_pdu lib keys q (sn_our_addr ?n) (sn_target_addr ?n) t = Inr pdu
      \<and> write_pdu write k q pdu ?n = (Inr (), o1)")
    case False
    with Cons.prems stop show ?thesis
      by (auto simp: seg Let_def split: option.splits sum.splits prod.splits dest!: write_pdu_trace)
  next
    case True
    then obtain keys pdu o1 where w: "sd_keys (sn_device ?n) = Some keys"
      "network_proxy_pdu lib keys q (sn_our_addr ?n) (sn_target_addr ?n) t = Inr pdu"
      "write_pdu write k q pdu ?n = (Inr (), o1)" by blast
    obtain r2 n2 out2 where t: "send_segments lib interfere write (Suc k) segs ?n = (r2, n2, out2)"
      using prod_cases3 by blast
    obtain m where m: "map fst (writes out2) = take m (map fst segs)" using Cons.IH [OF t] by blast
    have o1: "writes o1 = [(q, pdu)]" using write_pdu_trace [OF w(3)] by simp
    have res: "r = r2" "n' = n2" "map fst (writes out) = q # map fst (writes out2)"
      using Cons.prems w t o1 by (auto simp: seg Let_def)
    have "q # map fst (writes out2) = take (Suc m) (q # map fst segs)" using m by simp
    then have "\<exists>m. q # map fst (writes out2) = take m (q # map fst segs)" by blast
    with Cons.IH [OF t] res seg show ?thesis by simp
  qed
qed auto

lemma register_response_fields [simp]:
  "register_response op n = (key, n1) \<Longrightarrow> key = (op, sn_correlation_id n) \<and> sn_seq_store n1 = sn_seq_store n
     \<and> sn_correlation_id n1 = sn_correlation_id n + 1"
  by (auto simp: register_response_def Let_def)

lemma finish_request_fields:
  assumes "finish_request key result n = (r, n1)"
  shows "sn_seq_store n1 = sn_seq_store n \<and> sn_correlation_id n1 = sn_correlation_id n
     \<and> dict_get (sd_pending_responses (sn_device n1)) key = None
     \<and> (r = Inr b \<longleftrightarrow> (\<exists>params. result = Inr params \<and> b = status_ok params))
     \<and> (result = Inl TimeoutError \<longrightarrow> r = Inl SIGMeshError)"
  using assms
  by (auto simp: finish_request_def drop_response_def Let_def dict_get_pop split: sum.splits)

text \<open>\<^verbatim>\<open>send_config_appkey_add\<close> reserves two sequence numbers and writes its two segments with
  them; it returns only the status of the answer, a timeout is a SIGMeshError, and in every case
  the future that it registered is gone at the end.\<close>

theorem send_config_appkey_add_result:
  assumes "seq_store get_seq set_seq" and "crypto_lib_ok lib" and "only_drops_keys interfere"
    and "sd_keys (sn_device n) = Some keys" and "mesh_keys_ok keys"
    and "0 \<le> get_seq (sn_seq_store n)" and "sn_our_addr n \<in> {0..0xFFFF}" and "sn_target_addr n \<in> {0..0xFFFF}"
    and "send_config_appkey_add get_seq set_seq lib interfere write response app_key net_idx app_idx n = (r, n', out)"
  shows "(sn_correlation_id n' = sn_correlation_id n \<longrightarrow> out = [] \<and> (\<exists>e. r = Inl e))
    \<and> (sn_correlation_id n' \<noteq> sn_correlation_id n \<longrightarrow>
         get_seq (sn_seq_store n') = get_seq (sn_seq_store n) + 2
       \<and> dict_get (sd_pending_responses (sn_device n')) (OPCODE_APPKEY_STATUS, sn_correlation_id n) = None
       \<and> (\<exists>m. map fst (writes out) = take m [get_seq (sn_seq_store n), get_seq (sn_seq_store n) + 1])
       \<and> (\<forall>b. r = Inr b \<longrightarrow> length (writes out) = 2 \<and> (\<exists>params. response = Inr params \<and> b = status_ok params))
       \<and> (response = Inl TimeoutError \<longrightarrow> (\<exists>e. r = Inl e)))"
proof -
  let ?q = "get_seq (sn_seq_store n)"
  have two: "n_segments 24 = 2" by (simp add: n_segments_def mesh_consts)
  have len: "length p = 20" if "config_appkey_add net_idx app_idx app_key = Inr p" for p
    using that by (auto simp: config_appkey_add_def Let_def pack_le_def res_simps split: if_splits)
  have keys: "sd_keys (interfere 0 (sn_device n)) \<in> {None, Some keys}"
    using assms(3,4) unfolding only_drops_keys_def by (metis insertCI)
  show ?thesis
  proof (cases "\<exists>p segs. sd_has_client (sn_device n) \<and> config_appkey_add net_idx app_idx app_key = Inr p \<and> ?q + 2 \<le> 0xFFFFFF
      \<and> sd_keys (interfere 0 (sn_device n)) = Some keys
      \<and> make_access_segmented lib (mk_dev_key keys) (sn_our_addr n) (sn_target_addr n) ?q
          (mk_iv_index keys) p 0 0 0 = Inr segs")
    case False
    then have "sn_correlation_id n' = sn_correlation_id n \<and> out = [] \<and> (\<exists>e. r = Inl e)"
      using assms(4,9) keys len two
      by (auto simp: send_config_appkey_add_def connected_with_keys_def next_seqs_def Let_def
          split: if_splits sum.splits option.splits)
    then show ?thesis by simp
  next
    case True
    then obtain p segs where h: "sd_has_client (sn_device n)" "config_appkey_add net_idx app_idx app_key = Inr p" "?q + 2 \<le> 0xFFFFFF"
      "sd_keys (interfere 0 (sn_device n)) = Some keys"
      "make_access_segmented lib (mk_dev_key keys) (sn_our_addr n) (sn_target_addr n) ?q
          (mk_iv_index keys) p 0 0 0 = Inr segs" by blast
    have segs: "map fst segs = [?q, ?q + 1]"
      using segmented_seqs [OF h(5) assms(2)] assms(5-8) h(3) len [OF h(2)] two
      by (simp add: mesh_keys_ok_def transport_mic_len_def mesh_consts upt_rec)
    define n1 where "n1 = n\<lparr>sn_seq_store := set_seq (?q + 2) (sn_seq_store n), sn_device := interfere 0 (sn_device n)\<rparr>"
    have n1: "get_seq (sn_seq_store n1) = ?q + 2" "sn_correlation_id n1 = sn_correlation_id n"
      using seq_store.get_set [OF assms(1), of "sn_seq_store n" "?q + 2"] by (simp_all add: n1_def)
    obtain key n2 where reg: "register_response OPCODE_APPKEY_STATUS n1 = (key, n2)" by fastforce
    obtain r3 n3 out3 where snd: "send_segments lib interfere write 0 segs n2 = (r3, n3, out3)"
      using prod_cases3 by blast
    define n3' where "n3' = n3\<lparr>sn_device := (case r3 of Inl e \<Rightarrow> sn_device n3
        | Inr u \<Rightarrow> interfere (Suc (length segs)) (sn_device n3))\<rparr>"
    obtain r4 n4 where fin: "finish_request key (bindR r3 (\<lambda>_. response)) n3' = (r4, n4)" by fastforce
    have res: "r = r4" "n' = n4" "out = out3"
      using assms(4,9) h len [OF h(2)] two reg snd fin
      by (auto simp: send_config_appkey_add_def connected_with_keys_def next_seqs_def n1_def n3'_def Let_def)
    note f = finish_request_fields [OF fin] and w = send_segments_writes [OF snd]
    have key: "key = (OPCODE_APPKEY_STATUS, sn_correlation_id n)" "sn_seq_store n2 = sn_seq_store n1"
      "sn_correlation_id n2 = sn_correlation_id n + 1"
      using register_response_fields [OF reg] n1 by auto
    have n4: "sn_seq_store n4 = sn_seq_store n1" "sn_correlation_id n4 = sn_correlation_id n + 1"
      using f w key by (simp_all add: n3'_def)
    have ok: "length (writes out) = 2 \<and> (\<exists>params. response = Inr params \<and> b = status_ok params)" if rb: "r = Inr b" for b
    proof -
      obtain params where p: "bindR r3 (\<lambda>_. response) = Inr params" "b = status_ok params"
        using finish_request_fields [OF fin, of b] rb res(1) by auto
      then have "map fst (writes out) = [?q, ?q + 1]" using w segs res(3) by (auto simp: res_simps)
      then have "length (writes out) = 2" by (metis length_map length_Cons list.size(3) numeral_2_eq_2)
      with p show ?thesis by (auto simp: res_simps)
    qed
    have "\<exists>e. r = Inl e" if "response = Inl TimeoutError"
      using ok that by (cases r) auto
    then show ?thesis
      using ok f w n4 n1 segs key unfolding res by auto
  qed
qed

theorem send_config_appkey_add_result_witness:
  "\<exists>n' out. send_config_appkey_add ims_get_seq ims_set_seq demo_lib (\<lambda>k d. d) (\<lambda>k. None) (Inr [0]) (replicate 16 5)
       0 0 demo_node = (Inr True, n', out)
     \<and> length (writes out) = 2 \<and> ims_get_seq (sn_seq_store n') = 9
     \<and> dict_get (sd_pending_responses (sn_device n')) (OPCODE_APPKEY_STATUS, 0) = None"
proof -
  let ?s = "send_config_appkey_add ims_get_seq ims_set_seq demo_lib (\<lambda>k d. d) (\<lambda>k. None) (Inr [0]) (replicate 16 5) 0 0 demo_node"
  have r: "fst ?s = Inr True" by code_simp
  obtain n' out where s: "?s = (Inr True, n', out)" using r by (metis prod.collapse)
  note t = send_config_appkey_add_result [OF ims.seq_store_axioms demo_lib_ok _ _ mesh_keys_ok_demo _ _ _ s]
  have "sn_correlation_id n' \<noteq> sn_correlation_id demo_node \<and> length (writes out) = 2
     \<and> ims_get_seq (sn_seq_store n') = ims_get_seq (sn_seq_store demo_node) + 2
     \<and> dict_get (sd_pending_responses (sn_device n')) (OPCODE_APPKEY_STATUS, sn_correlation_id demo_node) = None"
    using t by (auto simp: only_drops_keys_def demo_node_def demo_device_def ims_get_seq_def)
  with s show ?thesis by (auto simp: demo_node_def ims_get_seq_def)
qed

end
