(* ===== verification/Sig_Provisioning.thy ===== *)
theory Sig_Provisioning
  imports Sig_Protocol
begin

text \<open>
  \<^verbatim>\<open>lib/tuya_ble_mesh/sig_mesh_provisioner_exchange.py\<close>: the PB-GATT provisioning exchange, over an
  environment that says what the client, the peer, \<^verbatim>\<open>os.urandom\<close> and the elliptic-curve package do.
  The exchange is a sequence of operations on a state that holds the receive buffers of
  \<^verbatim>\<open>_run_exchange\<close> and the trace of the writes and sleeps.
\<close>

definition PROV_INVITE :: byte where "PROV_INVITE = 0x00"
definition PROV_CAPABILITIES :: byte where "PROV_CAPABILITIES = 0x01"
definition PROV_START :: byte where "PROV_START = 0x02"
definition PROV_PUBLIC_KEY :: byte where "PROV_PUBLIC_KEY = 0x03"
definition PROV_CONFIRMATION :: byte where "PROV_CONFIRMATION = 0x05"
definition PROV_RANDOM :: byte where "PROV_RANDOM = 0x06"
definition PROV_DATA :: byte where "PROV_DATA = 0x07"
definition PROV_COMPLETE :: byte where "PROV_COMPLETE = 0x08"
definition PROV_FAILED :: byte where "PROV_FAILED = 0x09"

lemmas prov_types = PROV_INVITE_def PROV_CAPABILITIES_def PROV_START_def PROV_PUBLIC_KEY_def
  PROV_CONFIRMATION_def PROV_RANDOM_def PROV_DATA_def PROV_COMPLETE_def PROV_FAILED_def

definition SAR_COMPLETE :: int where "SAR_COMPLETE = 0x00"
definition SAR_FIRST :: int where "SAR_FIRST = 0x01"
definition SAR_CONTINUATION :: int where "SAR_CONTINUATION = 0x02"
definition SAR_LAST :: int where "SAR_LAST = 0x03"

lemmas sar_types = SAR_COMPLETE_def SAR_FIRST_def SAR_CONTINUATION_def SAR_LAST_def

definition NO_OOB_AUTH :: bytes where "NO_OOB_AUTH = replicate 16 0"
definition ATTENTION_DURATION :: byte where "ATTENTION_DURATION = 5"
definition POST_START_PDU_DELAY :: seconds where "POST_START_PDU_DELAY = 1 / 2"
definition POST_COMPLETE_DELAY :: seconds where "POST_COMPLETE_DELAY = 5 / 2"
definition PROVISIONING_POLL_INTERVAL :: seconds where "PROVISIONING_POLL_INTERVAL = 5 / 100"

subsection \<open>Framing\<close>

definition sar_byte :: "int \<Rightarrow> byte" where
  "sar_byte sar = word_of_int (push_bit 6 sar OR 0x03)"

text \<open>\<^verbatim>\<open>[pdu[i : i + n] for i in range(0, len(pdu), n)]\<close>\<close>

definition chunks_of :: "nat \<Rightarrow> bytes \<Rightarrow> bytes list" where
  "chunks_of n pdu = map (\<lambda>i. slice (i * n) ((i + 1) * n) pdu) [0..<(length pdu + n - 1) div n]"

definition sar_of :: "nat \<Rightarrow> nat \<Rightarrow> int" where
  "sar_of n i = (if i = 0 then SAR_FIRST else if i = n - 1 then SAR_LAST else SAR_CONTINUATION)"

definition wrap_provisioning_pdu :: "bytes \<Rightarrow> int \<Rightarrow> bytes list res" where
  "wrap_provisioning_pdu pdu mtu =
     (let max_payload = mtu - 4 in
      if int (length pdu) \<le> max_payload then Inr [sar_byte SAR_COMPLETE # pdu]
      else if max_payload = 0 then Inl ValueError
      else if max_payload < 0 then Inr []
      else let chunks = chunks_of (nat max_payload) pdu in
        Inr (map (\<lambda>i. sar_byte (sar_of (length chunks) i) # (chunks ! i)) [0..<length chunks]))"

record rx_state =
  rx_event :: bool
  rx_buffer :: bytes
  rx_sar_buffer :: bytes

definition make_rx_state :: rx_state where
  "make_rx_state = \<lparr>rx_event = False, rx_buffer = [], rx_sar_buffer = []\<rparr>"

text \<open>\<^verbatim>\<open>_on_notify\<close> ignores an empty notification and hands the others to \<^verbatim>\<open>_process_notify\<close>.\<close>

fun process_prov_notify :: "bytes \<Rightarrow> rx_state \<Rightarrow> rx_state" where
  "process_prov_notify [] rx = rx"
| "process_prov_notify (h # payload) rx =
     (let sar = drop_bit 6 (uint h) AND 0x03 in
      if sar = SAR_COMPLETE then rx\<lparr>rx_buffer := payload, rx_event := True\<rparr>
      else if sar = SAR_FIRST then rx\<lparr>rx_sar_buffer := payload\<rparr>
      else if sar = SAR_CONTINUATION then rx\<lparr>rx_sar_buffer := rx_sar_buffer rx @ payload\<rparr>
      else if sar = SAR_LAST then
        rx\<lparr>rx_buffer := rx_sar_buffer rx @ payload, rx_sar_buffer := [], rx_event := True\<rparr>
      else rx)"

definition process_notifications :: "bytes list \<Rightarrow> rx_state \<Rightarrow> rx_state" where
  "process_notifications ns rx = fold process_prov_notify ns rx"

text \<open>
  \<^verbatim>\<open>recv_prov\<close>: \<open>before\<close> are the notifications processed between the last call and this one, which
  starts with a fresh event, and \<open>during\<close> those processed while it waits and until it reads the
  buffer.
\<close>

definition recv_prov :: "bytes list \<Rightarrow> bytes list \<Rightarrow> rx_state \<Rightarrow> bytes res \<times> rx_state" where
  "recv_prov before during rx =
     (let rx1 = (process_notifications before rx)\<lparr>rx_event := False\<rparr>;
          rx2 = process_notifications during rx1
      in if rx_event rx2 then (Inr (rx_buffer rx2), rx2) else (Inl ProvisioningError, rx2))"

definition check_pdu :: "bytes \<Rightarrow> byte \<Rightarrow> unit res" where
  "check_pdu pdu expected_type =
     (case pdu of [] \<Rightarrow> Inl ProvisioningError
      | b # rest \<Rightarrow> if b = PROV_FAILED then Inl ProvisioningError
          else if b \<noteq> expected_type then Inl ProvisioningError else Inr ())"

subsection \<open>The environment and the state\<close>

record prov_env =
  pe_lib :: crypto_lib
  pe_ecdh :: "bytes \<Rightarrow> bytes res"
  pe_random :: bytes
  pe_mtu :: int
  pe_pair :: "py_error option option"
  pe_start_notify :: "py_error option"
  pe_write :: "nat \<Rightarrow> py_error option"
  pe_before :: "nat \<Rightarrow> bytes list"
  pe_during :: "nat \<Rightarrow> bytes list"

record provisioner =
  pv_our_pub_key_bytes :: bytes
  pv_net_key :: bytes
  pv_app_key :: bytes
  pv_net_key_index :: int
  pv_iv_index :: int
  pv_flags :: int
  pv_unicast_addr :: int

record provisioning_result =
  pr_dev_key :: bytes
  pr_net_key :: bytes
  pr_app_key :: bytes
  pr_unicast_addr :: int
  pr_iv_index :: int
  pr_num_elements :: int

datatype prov_event = Prov_Write bytes | Prov_Sleep seconds

record exchange_state =
  es_rx :: rx_state
  es_trace :: "prov_event list"
  es_writes :: nat

type_synonym 'a exchange = "(exchange_state, 'a) action"

definition sleepX :: "seconds \<Rightarrow> unit exchange" where
  "sleepX t s = (Inr (), s\<lparr>es_trace := es_trace s @ [Prov_Sleep t]\<rparr>)"

definition write_segment :: "prov_env \<Rightarrow> bytes \<Rightarrow> unit exchange" where
  "write_segment env seg s =
     (case pe_write env (es_writes s) of Some e \<Rightarrow> Inl e | None \<Rightarrow> Inr (),
      s\<lparr>es_trace := es_trace s @ [Prov_Write seg], es_writes := es_writes s + 1\<rparr>)"

fun write_segments :: "prov_env \<Rightarrow> bool \<Rightarrow> bytes list \<Rightarrow> unit exchange" where
  "write_segments env several [] = liftS (Inr ())"
| "write_segments env several (seg # segs) =
     bindS (write_segment env seg) (\<lambda>_.
     bindS (if several then sleepX PROVISIONING_POLL_INTERVAL else liftS (Inr ())) (\<lambda>_.
       write_segments env several segs))"

definition send_prov :: "prov_env \<Rightarrow> bytes \<Rightarrow> unit exchange" where
  "send_prov env pdu =
     bindS (liftS (wrap_provisioning_pdu pdu (pe_mtu env))) (\<lambda>segs. write_segments env (length segs > 1) segs)"

definition recvX :: "prov_env \<Rightarrow> nat \<Rightarrow> bytes exchange" where
  "recvX env i s = (let (r, rx) = recv_prov (pe_before env i) (pe_during env i) (es_rx s) in (r, s\<lparr>es_rx := rx\<rparr>))"

subsection \<open>The steps of the exchange\<close>

definition pair_and_subscribe :: "prov_env \<Rightarrow> unit exchange" where
  "pair_and_subscribe env =
     bindS (liftS (case pe_pair env of Some (Some e) \<Rightarrow>
                     if isinstance e TimeoutError \<or> isinstance e OSError then Inr () else Inl e
                   | _ \<Rightarrow> Inr ())) (\<lambda>_.
       liftS (case pe_start_notify env of Some e \<Rightarrow> Inl e | None \<Rightarrow> Inr ()))"

definition invite_params :: bytes where "invite_params = [ATTENTION_DURATION]"
definition start_params :: bytes where "start_params = [0, 0, 0, 0, 0]"

text \<open>Invite and Capabilities: the device's capabilities and its number of elements.\<close>

definition invite_step :: "prov_env \<Rightarrow> (bytes \<times> int) exchange" where
  "invite_step env =
     bindS (send_prov env (PROV_INVITE # invite_params)) (\<lambda>_.
     bindS (recvX env 0) (\<lambda>caps_pdu.
     bindS (liftS (check_pdu caps_pdu PROV_CAPABILITIES)) (\<lambda>_.
       liftS (Inr (drop 1 caps_pdu, if length caps_pdu > 1 then uint (caps_pdu ! 1) else 1)))))"

text \<open>Start and the public keys: the device's key and the shared secret.\<close>

definition public_key_step :: "prov_env \<Rightarrow> provisioner \<Rightarrow> (bytes \<times> bytes) exchange" where
  "public_key_step env pv =
     bindS (send_prov env (PROV_START # start_params)) (\<lambda>_.
     bindS (sleepX POST_START_PDU_DELAY) (\<lambda>_.
     bindS (send_prov env (PROV_PUBLIC_KEY # pv_our_pub_key_bytes pv)) (\<lambda>_.
     bindS (recvX env 1) (\<lambda>dev_pub_pdu.
     bindS (liftS (check_pdu dev_pub_pdu PROV_PUBLIC_KEY)) (\<lambda>_.
       let device_pub_key_bytes = drop 1 dev_pub_pdu in
       if length device_pub_key_bytes \<noteq> 64 then liftS (Inl ProvisioningError)
       else case pe_ecdh env device_pub_key_bytes of
         Inl e \<Rightarrow> liftS (Inl (if isinstance e ValueError then ProvisioningError else e))
       | Inr shared_secret \<Rightarrow> liftS (Inr (device_pub_key_bytes, shared_secret)))))))"

definition prck :: bytes where "prck = [0x70, 0x72, 0x63, 0x6B]"
definition prsk :: bytes where "prsk = [0x70, 0x72, 0x73, 0x6B]"
definition prsn :: bytes where "prsn = [0x70, 0x72, 0x73, 0x6E]"
definition prdk :: bytes where "prdk = [0x70, 0x72, 0x64, 0x6B]"

definition confirmation_keys :: "crypto_lib \<Rightarrow> bytes \<Rightarrow> bytes \<Rightarrow> (bytes \<times> bytes) res" where
  "confirmation_keys lib conf_inputs shared_secret =
     bindR (s1 lib conf_inputs) (\<lambda>conf_salt.
     bindR (k1 lib shared_secret conf_salt prck) (\<lambda>conf_key. Inr (conf_salt, conf_key)))"

text \<open>The confirmations and the random numbers: the salt and the device's random number.\<close>

definition confirmation_step ::
  "prov_env \<Rightarrow> provisioner \<Rightarrow> bytes \<Rightarrow> bytes \<Rightarrow> bytes \<Rightarrow> (bytes \<times> bytes) exchange" where
  "confirmation_step env pv device_caps device_pub_key_bytes shared_secret =
     (let lib = pe_lib env; random_provisioner = pe_random env;
          conf_inputs = invite_params @ device_caps @ start_params @ pv_our_pub_key_bytes pv @ device_pub_key_bytes in
     bindS (liftS (confirmation_keys lib conf_inputs shared_secret)) (\<lambda>(conf_salt, conf_key).
     bindS (liftS (aes_cmac lib conf_key (random_provisioner @ NO_OOB_AUTH))) (\<lambda>conf_provisioner.
     bindS (send_prov env (PROV_CONFIRMATION # conf_provisioner)) (\<lambda>_.
     bindS (recvX env 2) (\<lambda>dev_conf_pdu.
     bindS (liftS (check_pdu dev_conf_pdu PROV_CONFIRMATION)) (\<lambda>_.
       let dev_confirmation = drop 1 dev_conf_pdu in
     bindS (send_prov env (PROV_RANDOM # random_provisioner)) (\<lambda>_.
     bindS (recvX env 3) (\<lambda>dev_random_pdu.
     bindS (liftS (check_pdu dev_random_pdu PROV_RANDOM)) (\<lambda>_.
       let random_device = drop 1 dev_random_pdu in
     bindS (liftS (aes_cmac lib conf_key (random_device @ NO_OOB_AUTH))) (\<lambda>expected_conf.
       if expected_conf \<noteq> dev_confirmation then liftS (Inl ProvisioningError)
       else liftS (Inr (conf_salt, random_device))))))))))))"

definition session_keys :: "crypto_lib \<Rightarrow> bytes \<Rightarrow> bytes \<Rightarrow> bytes \<Rightarrow> bytes \<Rightarrow> (bytes \<times> bytes \<times> bytes) res" where
  "session_keys lib shared_secret conf_salt random_provisioner random_device =
     bindR (s1 lib (conf_salt @ random_provisioner @ random_device)) (\<lambda>prov_salt.
     bindR (k1 lib shared_secret prov_salt prsk) (\<lambda>session_key.
     bindR (k1 lib shared_secret prov_salt prsn) (\<lambda>n.
     bindR (k1 lib shared_secret prov_salt prdk) (\<lambda>dev_key.
       Inr (session_key, drop 3 n, dev_key)))))"

definition provisioning_data :: "provisioner \<Rightarrow> bytes res" where
  "provisioning_data pv =
     bindR (pack_be 2 (pv_net_key_index pv)) (\<lambda>ki.
     bindR (to_byte (pv_flags pv)) (\<lambda>fl.
     bindR (pack_be 4 (pv_iv_index pv)) (\<lambda>iv.
     bindR (pack_be 2 (pv_unicast_addr pv)) (\<lambda>ua.
       Inr (pv_net_key pv @ ki @ [fl] @ iv @ ua)))))"

text \<open>The encrypted data and the device's verdict; the verdict's first byte is read without a check
  that there is one.\<close>

definition data_step :: "prov_env \<Rightarrow> provisioner \<Rightarrow> bytes \<Rightarrow> bytes \<Rightarrow> unit exchange" where
  "data_step env pv session_key session_nonce =
     bindS (liftS (provisioning_data pv)) (\<lambda>prov_data.
     bindS (liftS (mesh_aes_ccm_encrypt (pe_lib env) session_key session_nonce prov_data 8)) (\<lambda>encrypted_data.
     bindS (send_prov env (PROV_DATA # encrypted_data)) (\<lambda>_.
     bindS (recvX env 4) (\<lambda>result_pdu.
     bindS (liftS (py_index result_pdu 0)) (\<lambda>b.
       if b = PROV_FAILED then liftS (Inl ProvisioningError)
       else if b \<noteq> PROV_COMPLETE then liftS (Inl ProvisioningError)
       else sleepX POST_COMPLETE_DELAY)))))"

definition run_exchange :: "prov_env \<Rightarrow> provisioner \<Rightarrow> provisioning_result exchange" where
  "run_exchange env pv =
     bindS (pair_and_subscribe env) (\<lambda>_.
     bindS (invite_step env) (\<lambda>(device_caps, num_elements).
     bindS (public_key_step env pv) (\<lambda>(device_pub_key_bytes, shared_secret).
     bindS (confirmation_step env pv device_caps device_pub_key_bytes shared_secret) (\<lambda>(conf_salt, random_device).
     bindS (liftS (session_keys (pe_lib env) shared_secret conf_salt (pe_random env) random_device))
       (\<lambda>(session_key, session_nonce, dev_key).
     bindS (data_step env pv session_key session_nonce) (\<lambda>_.
       liftS (Inr \<lparr>pr_dev_key = dev_key, pr_net_key = pv_net_key pv, pr_app_key = pv_app_key pv,
         pr_unicast_addr = pv_unicast_addr pv, pr_iv_index = pv_iv_index pv, pr_num_elements = num_elements\<rparr>)))))))"

definition start_state :: exchange_state where
  "start_state = \<lparr>es_rx = make_rx_state, es_trace = [], es_writes = 0\<rparr>"

subsection \<open>Framing is reassembled\<close>

lemma sar_byte_field:
  "drop_bit 6 (uint (sar_byte SAR_COMPLETE)) AND 3 = SAR_COMPLETE"
  "drop_bit 6 (uint (sar_byte SAR_FIRST)) AND 3 = SAR_FIRST"
  "drop_bit 6 (uint (sar_byte SAR_CONTINUATION)) AND 3 = SAR_CONTINUATION"
  "drop_bit 6 (uint (sar_byte SAR_LAST)) AND 3 = SAR_LAST"
  by code_simp+

lemma process_sar [simp]:
  "process_prov_notify (sar_byte SAR_COMPLETE # p) rx = rx\<lparr>rx_buffer := p, rx_event := True\<rparr>"
  "process_prov_notify (sar_byte SAR_FIRST # p) rx = rx\<lparr>rx_sar_buffer := p\<rparr>"
  "process_prov_notify (sar_byte SAR_CONTINUATION # p) rx = rx\<lparr>rx_sar_buffer := rx_sar_buffer rx @ p\<rparr>"
  "process_prov_notify (sar_byte SAR_LAST # p) rx
     = rx\<lparr>rx_buffer := rx_sar_buffer rx @ p, rx_sar_buffer := [], rx_event := True\<rparr>"
  by (simp_all add: sar_byte_field Let_def) (simp_all add: sar_types)

declare process_prov_notify.simps(2) [simp del]

lemma process_continuations:
  "fold process_prov_notify (map (\<lambda>i. sar_byte SAR_CONTINUATION # c i) is) rx
     = rx\<lparr>rx_sar_buffer := rx_sar_buffer rx @ concat (map c is)\<rparr>"
  by (induction "is" arbitrary: rx) simp_all

lemma chunks_of_concat: "0 < n \<Longrightarrow> concat (chunks_of n pdu) = pdu"
proof -
  assume n: "0 < n"
  have "length pdu \<le> (length pdu + n - 1) div n * n"
  proof -
    have "length pdu + n - 1 < (length pdu + n - 1) div n * n + n"
      using div_mult_mod_eq [of "length pdu + n - 1" n] mod_less_divisor [OF n, of "length pdu + n - 1"] by linarith
    then show ?thesis by linarith
  qed
  then show ?thesis unfolding chunks_of_def concat_slices by simp
qed

lemma two_chunks: "0 < n \<Longrightarrow> n < length pdu \<Longrightarrow> 2 \<le> length (chunks_of n pdu)"
proof -
  assume n: "0 < n" "n < length pdu"
  have "(n + n) div n \<le> (length pdu + n - 1) div n" by (rule div_le_mono) (use n in linarith)
  then show ?thesis using n by (simp add: chunks_of_def)
qed

lemma wrapped_segments:
  assumes "5 \<le> mtu"
  obtains segs where "wrap_provisioning_pdu pdu mtu = Inr segs"
    "process_notifications segs rx = rx\<lparr>rx_buffer := pdu, rx_event := True,
       rx_sar_buffer := (if int (length pdu) \<le> mtu - 4 then rx_sar_buffer rx else [])\<rparr>"
    "\<forall>seg \<in> set segs. int (length seg) \<le> mtu - 3"
proof (cases "int (length pdu) \<le> mtu - 4")
  case True
  show ?thesis
    by (rule that [of "[sar_byte SAR_COMPLETE # pdu]"])
      (use True in \<open>simp_all add: wrap_provisioning_pdu_def process_notifications_def\<close>)
next
  case False
  let ?m = "nat (mtu - 4)" let ?cs = "chunks_of ?m pdu" let ?n = "length ?cs"
  have m: "0 < ?m" "?m < length pdu" using assms False by linarith+
  have n: "2 \<le> ?n" by (rule two_chunks [OF m])
  let ?seg = "\<lambda>i. sar_byte (sar_of ?n i) # (?cs ! i)"
  have w: "wrap_provisioning_pdu pdu mtu = Inr (map ?seg [0..<?n])"
    using False assms by (simp add: wrap_provisioning_pdu_def Let_def)
  have idx: "[0..<?n] = 0 # [1..<?n - 1] @ [?n - 1]"
    using n by (metis (no_types, lifting) One_nat_def Suc_1 Suc_diff_1 Suc_le_lessD less_SucE upt_Suc_append
        upt_conv_Cons zero_less_Suc not_less_eq_eq le_Suc_eq append_Cons)
  have mid: "map ?seg [1..<?n - 1] = map (\<lambda>i. sar_byte SAR_CONTINUATION # (?cs ! i)) [1..<?n - 1]"
    using n by (auto simp: sar_of_def)
  have all: "?cs ! 0 @ concat (map ((!) ?cs) [1..<?n - 1]) @ ?cs ! (?n - 1) = pdu"
  proof -
    have "concat (map ((!) ?cs) [0..<?n]) = pdu" using chunks_of_concat [OF m(1)] by (simp add: map_nth)
    then show ?thesis unfolding idx by simp
  qed
  have "process_notifications (map ?seg [0..<?n]) rx = rx\<lparr>rx_buffer := pdu, rx_event := True, rx_sar_buffer := []\<rparr>"
    using n all unfolding process_notifications_def idx map_append list.map(2) mid
    by (simp add: sar_of_def process_continuations)
  moreover have "\<forall>seg \<in> set (map ?seg [0..<?n]). int (length seg) \<le> mtu - 3"
    using assms by (auto simp: chunks_of_def slice_def)
  ultimately show ?thesis using w False by (intro that) auto
qed

text \<open>The segments that \<^verbatim>\<open>_wrap_provisioning_pdu\<close> makes of a PDU fit the MTU and are put together again by
  the reassembly of \<^verbatim>\<open>_process_notify\<close>, whatever was in its buffers before.\<close>

theorem framing_roundtrip:
  assumes "5 \<le> mtu"
  shows "\<exists>segs. wrap_provisioning_pdu pdu mtu = Inr segs \<and> (\<forall>seg \<in> set segs. int (length seg) \<le> mtu - 3)
    \<and> rx_event (process_notifications segs rx) \<and> rx_buffer (process_notifications segs rx) = pdu"
  by (rule wrapped_segments [OF assms, of pdu rx]) auto

theorem framing_roundtrip_witness:
  "\<exists>segs. wrap_provisioning_pdu (replicate 65 3) 23 = Inr segs \<and> length segs = 4
     \<and> rx_buffer (process_notifications segs make_rx_state) = replicate 65 3"
proof -
  obtain segs where s: "wrap_provisioning_pdu (replicate 65 3) 23 = Inr segs"
    "rx_buffer (process_notifications segs make_rx_state) = replicate 65 3"
    using framing_roundtrip [of 23 "replicate 65 3" make_rx_state] by auto
  have "case wrap_provisioning_pdu (replicate 65 3) 23 of Inl e \<Rightarrow> False | Inr segs \<Rightarrow> length segs = 4" by code_simp
  with s show ?thesis by simp
qed

subsection \<open>The exchange with a device\<close>

fun prov_writes :: "prov_event list \<Rightarrow> bytes list" where
  "prov_writes [] = []"
| "prov_writes (Prov_Write seg # es) = seg # prov_writes es"
| "prov_writes (Prov_Sleep t # es) = prov_writes es"

lemma prov_writes_append [simp]: "prov_writes (a @ b) = prov_writes a @ prov_writes b"
  by (induction a rule: prov_writes.induct) auto

text \<open>What an operation adds to the state: writes, and nothing to the receive buffers.\<close>

definition adds_writes :: "exchange_state \<Rightarrow> bytes list \<Rightarrow> exchange_state \<Rightarrow> bool" where
  "adds_writes s segs t \<longleftrightarrow> es_rx t = es_rx s \<and> prov_writes (es_trace t) = prov_writes (es_trace s) @ segs"

lemma write_segments_ok:
  assumes "\<forall>k. pe_write env k = None"
  shows "\<exists>t. write_segments env several segs s = (Inr (), t) \<and> adds_writes s segs t"
proof (induction segs arbitrary: s)
  case (Cons seg segs)
  define s1 where "s1 = s\<lparr>es_trace := es_trace s @ [Prov_Write seg], es_writes := es_writes s + 1\<rparr>"
  have w: "write_segment env seg s = (Inr (), s1)" using assms by (simp add: write_segment_def s1_def)
  define s2 where "s2 = (if several then s1\<lparr>es_trace := es_trace s1 @ [Prov_Sleep PROVISIONING_POLL_INTERVAL]\<rparr> else s1)"
  have p: "(if several then sleepX PROVISIONING_POLL_INTERVAL else liftS (Inr ())) s1 = (Inr (), s2)"
    by (simp add: s2_def sleepX_def liftS_def)
  have a: "adds_writes s [seg] s2" by (simp add: adds_writes_def s2_def s1_def)
  obtain t where "write_segments env several segs s2 = (Inr (), t)" "adds_writes s2 segs t"
    using Cons.IH by blast
  with w p a show ?case by (auto simp: adds_writes_def)
qed (simp add: liftS_def adds_writes_def)

lemma send_prov_ok:
  assumes "\<forall>k. pe_write env k = None" "wrap_provisioning_pdu pdu (pe_mtu env) = Inr segs"
  obtains t where "send_prov env pdu s = (Inr (), t)" "adds_writes s segs t"
  using write_segments_ok [OF assms(1), of "length segs > 1" segs s] assms(2)
  by (auto simp: send_prov_def)

text \<open>The frames a peer with this MTU sends for a PDU.\<close>

definition frames :: "int \<Rightarrow> bytes \<Rightarrow> bytes list" where
  "frames mtu pdu = (case wrap_provisioning_pdu pdu mtu of Inl e \<Rightarrow> [] | Inr segs \<Rightarrow> segs)"

lemma recvX_frames:
  assumes "5 \<le> mtu" "pe_before env i = []" "pe_during env i = frames mtu pdu"
  obtains t where "recvX env i s = (Inr pdu, t)" "es_trace t = es_trace s"
proof -
  obtain segs where "wrap_provisioning_pdu pdu mtu = Inr segs"
    "rx_event (process_notifications segs ((es_rx s)\<lparr>rx_event := False\<rparr>))"
    "rx_buffer (process_notifications segs ((es_rx s)\<lparr>rx_event := False\<rparr>)) = pdu"
    by (rule wrapped_segments [OF assms(1), of pdu "(es_rx s)\<lparr>rx_event := False\<rparr>"]) auto
  with assms(2,3) have "recvX env i s
      = (Inr pdu, s\<lparr>es_rx := process_notifications segs ((es_rx s)\<lparr>rx_event := False\<rparr>)\<rparr>)"
    by (simp add: recvX_def recv_prov_def frames_def) (simp add: process_notifications_def)
  then show ?thesis by (rule that) simp
qed

lemma check_pdu_ok: "b \<noteq> PROV_FAILED \<Longrightarrow> check_pdu (b # rest) b = Inr ()"
  by (simp add: check_pdu_def)

text \<open>A client without faults, and a device that answers each step in time.\<close>

definition sound_client :: "prov_env \<Rightarrow> bool" where
  "sound_client env \<longleftrightarrow> (\<forall>k. pe_write env k = None) \<and> 5 \<le> pe_mtu env \<and> pe_start_notify env = None
     \<and> (\<forall>e. pe_pair env = Some (Some e) \<longrightarrow> isinstance e TimeoutError \<or> isinstance e OSError)"

record prov_device =
  dv_mtu :: int
  dv_caps :: bytes
  dv_pub_key :: bytes
  dv_confirmation :: bytes
  dv_random :: bytes

definition answers :: "prov_env \<Rightarrow> prov_device \<Rightarrow> bool" where
  "answers env dv \<longleftrightarrow> 5 \<le> dv_mtu dv \<and> (\<forall>i. pe_before env i = [])
     \<and> pe_during env 0 = frames (dv_mtu dv) (PROV_CAPABILITIES # dv_caps dv)
     \<and> pe_during env 1 = frames (dv_mtu dv) (PROV_PUBLIC_KEY # dv_pub_key dv)
     \<and> pe_during env 2 = frames (dv_mtu dv) (PROV_CONFIRMATION # dv_confirmation dv)
     \<and> pe_during env 3 = frames (dv_mtu dv) (PROV_RANDOM # dv_random dv)
     \<and> pe_during env 4 = frames (dv_mtu dv) [PROV_COMPLETE]"

definition conf_inputs :: "provisioner \<Rightarrow> prov_device \<Rightarrow> bytes" where
  "conf_inputs pv dv = invite_params @ dv_caps dv @ start_params @ pv_our_pub_key_bytes pv @ dv_pub_key dv"

lemma sendable:
  assumes "sound_client env"
  obtains segs t where "wrap_provisioning_pdu pdu (pe_mtu env) = Inr segs" "send_prov env pdu s = (Inr (), t)"
    "es_rx t = es_rx s" "prov_writes (es_trace t) = prov_writes (es_trace s) @ segs"
proof -
  obtain segs where w: "wrap_provisioning_pdu pdu (pe_mtu env) = Inr segs"
    by (rule wrapped_segments [of "pe_mtu env" pdu make_rx_state]) (use assms in \<open>auto simp: sound_client_def\<close>)
  show ?thesis
    by (rule send_prov_ok [OF _ w, of s]) (use assms w that in \<open>auto simp: sound_client_def adds_writes_def\<close>)
qed

lemma invite_step_ok:
  assumes c: "sound_client env" and a: "answers env dv" and "dv_caps dv \<noteq> []"
  obtains t where "invite_step env s = (Inr (dv_caps dv, uint (dv_caps dv ! 0)), t)"
proof -
  obtain t1 where "send_prov env (PROV_INVITE # invite_params) s = (Inr (), t1)"
    by (rule sendable [OF c, of "PROV_INVITE # invite_params" s]) blast
  moreover obtain t2 where "recvX env 0 t1 = (Inr (PROV_CAPABILITIES # dv_caps dv), t2)"
    by (rule recvX_frames [of "dv_mtu dv" env 0 "PROV_CAPABILITIES # dv_caps dv" t1])
      (use a in \<open>auto simp: answers_def\<close>)
  moreover have "check_pdu (PROV_CAPABILITIES # dv_caps dv) PROV_CAPABILITIES = Inr ()"
    by (rule check_pdu_ok) (simp add: prov_types)
  ultimately show ?thesis using assms(3) that by (simp add: invite_step_def liftS_def)
qed

lemma public_key_step_ok:
  assumes c: "sound_client env" and a: "answers env dv" and k: "length (dv_pub_key dv) = 64"
    and e: "pe_ecdh env (dv_pub_key dv) = Inr secret"
  obtains t where "public_key_step env pv s = (Inr (dv_pub_key dv, secret), t)"
proof -
  obtain t1 where 1: "send_prov env (PROV_START # start_params) s = (Inr (), t1)"
    by (rule sendable [OF c, of "PROV_START # start_params" s]) blast
  obtain t2 where 2: "sleepX POST_START_PDU_DELAY t1 = (Inr (), t2)" by (simp add: sleepX_def)
  obtain t3 where 3: "send_prov env (PROV_PUBLIC_KEY # pv_our_pub_key_bytes pv) t2 = (Inr (), t3)"
    by (rule sendable [OF c, of "PROV_PUBLIC_KEY # pv_our_pub_key_bytes pv" t2]) blast
  obtain t4 where 4: "recvX env 1 t3 = (Inr (PROV_PUBLIC_KEY # dv_pub_key dv), t4)"
    by (rule recvX_frames [of "dv_mtu dv" env 1 "PROV_PUBLIC_KEY # dv_pub_key dv" t3])
      (use a in \<open>auto simp: answers_def\<close>)
  have "check_pdu (PROV_PUBLIC_KEY # dv_pub_key dv) PROV_PUBLIC_KEY = Inr ()"
    by (rule check_pdu_ok) (simp add: prov_types)
  with 1 2 3 4 show ?thesis using k e that by (simp add: public_key_step_def liftS_def Let_def)
qed

lemma confirmation_step_ok:
  assumes c: "sound_client env" and a: "answers env dv"
    and ck: "confirmation_keys (pe_lib env) (conf_inputs pv dv) secret = Inr (salt, key)"
    and own: "aes_cmac (pe_lib env) key (pe_random env @ NO_OOB_AUTH) = Inr conf"
    and dev: "aes_cmac (pe_lib env) key (dv_random dv @ NO_OOB_AUTH) = Inr (dv_confirmation dv)"
  obtains t where "confirmation_step env pv (dv_caps dv) (dv_pub_key dv) secret s = (Inr (salt, dv_random dv), t)"
proof -
  obtain t1 where 1: "send_prov env (PROV_CONFIRMATION # conf) s = (Inr (), t1)"
    by (rule sendable [OF c, of "PROV_CONFIRMATION # conf" s]) blast
  obtain t2 where 2: "recvX env 2 t1 = (Inr (PROV_CONFIRMATION # dv_confirmation dv), t2)"
    by (rule recvX_frames [of "dv_mtu dv" env 2 "PROV_CONFIRMATION # dv_confirmation dv" t1])
      (use a in \<open>auto simp: answers_def\<close>)
  obtain t3 where 3: "send_prov env (PROV_RANDOM # pe_random env) t2 = (Inr (), t3)"
    by (rule sendable [OF c, of "PROV_RANDOM # pe_random env" t2]) blast
  obtain t4 where 4: "recvX env 3 t3 = (Inr (PROV_RANDOM # dv_random dv), t4)"
    by (rule recvX_frames [of "dv_mtu dv" env 3 "PROV_RANDOM # dv_random dv" t3])
      (use a in \<open>auto simp: answers_def\<close>)
  have "check_pdu (PROV_CONFIRMATION # dv_confirmation dv) PROV_CONFIRMATION = Inr ()"
    "check_pdu (PROV_RANDOM # dv_random dv) PROV_RANDOM = Inr ()"
    by (rule check_pdu_ok, simp add: prov_types)+
  with 1 2 3 4 show ?thesis
    using ck own dev that
    by (simp add: confirmation_step_def liftS_def Let_def flip: conf_inputs_def)
qed

lemma data_step_ok:
  assumes c: "sound_client env" and a: "answers env dv" and l: "crypto_lib_ok (pe_lib env)"
    and d: "provisioning_data pv = Inr data" "length data \<le> 65535"
    and k: "length session_key = 16" "length nonce = 13"
  obtains enc segs t where "data_step env pv session_key nonce s = (Inr (), t)"
    "mesh_aes_ccm_decrypt (pe_lib env) session_key nonce enc 8 = Inr data"
    "wrap_provisioning_pdu (PROV_DATA # enc) (pe_mtu env) = Inr segs"
    "prov_writes (es_trace t) = prov_writes (es_trace s) @ segs"
proof -
  have "ccm_usable (pe_lib env) 8 session_key nonce"
    using l k by (simp add: ccm_usable_def crypto_lib_ok_def)
  from ccm.seal_ok [OF this d(2)] obtain enc
    where enc: "mesh_aes_ccm_encrypt (pe_lib env) session_key nonce data 8 = Inr enc"
      "mesh_aes_ccm_decrypt (pe_lib env) session_key nonce enc 8 = Inr data" by blast
  obtain segs t1 where 1: "wrap_provisioning_pdu (PROV_DATA # enc) (pe_mtu env) = Inr segs"
    "send_prov env (PROV_DATA # enc) s = (Inr (), t1)"
    "prov_writes (es_trace t1) = prov_writes (es_trace s) @ segs"
    by (rule sendable [OF c, of "PROV_DATA # enc" s]) blast
  obtain t2 where 2: "recvX env 4 t1 = (Inr [PROV_COMPLETE], t2)" "es_trace t2 = es_trace t1"
    by (rule recvX_frames [of "dv_mtu dv" env 4 "[PROV_COMPLETE]" t1]) (use a in \<open>auto simp: answers_def\<close>)
  have p: "py_index [PROV_COMPLETE] 0 = Inr PROV_COMPLETE" by (simp add: py_index_def)
  have "data_step env pv session_key nonce s
      = (Inr (), t2\<lparr>es_trace := es_trace t2 @ [Prov_Sleep POST_COMPLETE_DELAY]\<rparr>)"
    using d(1) enc(1) 1(2) 2(1) p by (simp add: data_step_def sleepX_def) (simp add: prov_types)
  then show ?thesis by (rule that [OF _ enc(2) 1(1)]) (simp add: 1(3) 2(2))
qed

text \<open>The keys that a device derives which has the same secret and has seen the same messages.\<close>

definition device_keys ::
  "crypto_lib \<Rightarrow> provisioner \<Rightarrow> prov_device \<Rightarrow> bytes \<Rightarrow> bytes \<Rightarrow> (bytes \<times> bytes \<times> bytes) res" where
  "device_keys lib pv dv secret random_provisioner =
     bindR (confirmation_keys lib (conf_inputs pv dv) secret) (\<lambda>(salt, key).
       session_keys lib secret salt random_provisioner (dv_random dv))"

definition confirms :: "crypto_lib \<Rightarrow> provisioner \<Rightarrow> prov_device \<Rightarrow> bytes \<Rightarrow> bool" where
  "confirms lib pv dv secret \<longleftrightarrow> (\<exists>salt key. confirmation_keys lib (conf_inputs pv dv) secret = Inr (salt, key)
     \<and> aes_cmac lib key (dv_random dv @ NO_OOB_AUTH) = Inr (dv_confirmation dv))"

lemma session_keys_ok:
  assumes "block_cipher (cl_aes lib)" "conf_salt \<noteq> []"
  obtains sk n dk where "session_keys lib secret conf_salt rp rd = Inr (sk, n, dk)"
    "length sk = 16" "length n = 13" "length dk = 16"
proof -
  obtain salt where s: "s1 lib (conf_salt @ rp @ rd) = Inr salt" "length salt = 16"
    using s1_ok [OF assms(1), of "conf_salt @ rp @ rd"] assms(2) by auto
  obtain sk where sk: "k1 lib secret salt prsk = Inr sk" "length sk = 16" by (rule k1_ok [OF assms(1) s(2)])
  obtain n where n: "k1 lib secret salt prsn = Inr n" "length n = 16" by (rule k1_ok [OF assms(1) s(2)])
  obtain dk where dk: "k1 lib secret salt prdk = Inr dk" "length dk = 16" by (rule k1_ok [OF assms(1) s(2)])
  show ?thesis by (rule that [of sk "drop 3 n" dk]) (use s sk n dk in \<open>simp_all add: session_keys_def\<close>)
qed

lemma confirmation_keys_ok:
  assumes "block_cipher (cl_aes lib)" "m \<noteq> []"
  obtains salt key where "confirmation_keys lib m secret = Inr (salt, key)" "length salt = 16" "length key = 16"
proof -
  obtain salt where s: "s1 lib m = Inr salt" "length salt = 16" by (rule s1_ok [OF assms])
  obtain key where "k1 lib secret salt prck = Inr key" "length key = 16" by (rule k1_ok [OF assms(1) s(2)])
  with s that show ?thesis by (simp add: confirmation_keys_def)
qed


definition demo_provisioner :: provisioner where
  "demo_provisioner = \<lparr>pv_our_pub_key_bytes = replicate 64 1, pv_net_key = replicate 16 2, pv_app_key = replicate 16 3,
     pv_net_key_index = 0, pv_iv_index = 0, pv_flags = 0, pv_unicast_addr = 0xB0\<rparr>"

definition demo_answers :: "prov_device \<Rightarrow> nat \<Rightarrow> bytes list" where
  "demo_answers dv i = frames (dv_mtu dv) (if i = 0 then PROV_CAPABILITIES # dv_caps dv
     else if i = 1 then PROV_PUBLIC_KEY # dv_pub_key dv else if i = 2 then PROV_CONFIRMATION # dv_confirmation dv
     else if i = 3 then PROV_RANDOM # dv_random dv else [PROV_COMPLETE])"

definition demo_env :: "prov_device \<Rightarrow> prov_env" where
  "demo_env dv = \<lparr>pe_lib = demo_lib, pe_ecdh = (\<lambda>pub. Inr (take 32 pub)), pe_random = replicate 16 9, pe_mtu = 23,
     pe_pair = Some (Some OSError), pe_start_notify = None, pe_write = (\<lambda>k. None), pe_before = (\<lambda>i. []),
     pe_during = demo_answers dv\<rparr>"


text \<open>An answer that arrives while the request is still being written is lost: \<^verbatim>\<open>recv_prov\<close> replaces the
  event that the notification has set, waits for another one, and the exchange fails although the
  device has sent its capabilities.\<close>

theorem early_answer_lost:
  assumes "sound_client env" and "5 \<le> mtu"
    and "pe_before env 0 = frames mtu (PROV_CAPABILITIES # caps)" and "pe_during env 0 = []"
  shows "fst (run_exchange env pv start_state) = Inl ProvisioningError
    \<and> rx_buffer (es_rx (snd (run_exchange env pv start_state))) = PROV_CAPABILITIES # caps"
proof -
  have 0: "pair_and_subscribe env s = (Inr (), s)" for s
    using assms(1) by (auto simp: pair_and_subscribe_def sound_client_def liftS_def bindS_def split: option.splits)
  obtain segs t1 where 1: "send_prov env (PROV_INVITE # invite_params) start_state = (Inr (), t1)"
    by (rule sendable [OF assms(1), of "PROV_INVITE # invite_params" start_state]) blast
  obtain segs where s: "wrap_provisioning_pdu (PROV_CAPABILITIES # caps) mtu = Inr segs"
    "rx_buffer (process_notifications segs (es_rx t1)) = PROV_CAPABILITIES # caps"
    by (rule wrapped_segments [OF assms(2), of "PROV_CAPABILITIES # caps" "es_rx t1"]) auto
  have "recvX env 0 t1 = (Inl ProvisioningError, t1\<lparr>es_rx := (process_notifications segs (es_rx t1))\<lparr>rx_event := False\<rparr>\<rparr>)"
    using assms(3,4) s(1) by (simp add: recvX_def recv_prov_def frames_def process_notifications_def)
  with 0 1 have "run_exchange env pv start_state
      = (Inl ProvisioningError, t1\<lparr>es_rx := (process_notifications segs (es_rx t1))\<lparr>rx_event := False\<rparr>\<rparr>)"
    by (simp add: run_exchange_def invite_step_def)
  then show ?thesis using s(2) by simp
qed

theorem early_answer_lost_witness:
  "\<exists>env. pe_before env 0 = frames 23 (PROV_CAPABILITIES # [1, 0]) \<and>
     fst (run_exchange env demo_provisioner start_state) = Inl ProvisioningError"
proof -
  define env where "env = \<lparr>pe_lib = demo_lib, pe_ecdh = (\<lambda>pub. Inr (take 32 pub)), pe_random = replicate 16 9,
    pe_mtu = 23, pe_pair = None, pe_start_notify = None, pe_write = (\<lambda>k. None),
    pe_before = (\<lambda>i. frames 23 (PROV_CAPABILITIES # [1, 0])), pe_during = (\<lambda>i. [])\<rparr>"
  have "sound_client env" by (simp add: sound_client_def env_def)
  from early_answer_lost [OF this, of 23 "[1, 0]" demo_provisioner] show ?thesis
    by (auto simp: env_def intro!: exI [of _ env])
qed

end
