(* ===== verification/Transport.thy ===== *)
theory Transport
  imports Prelude
begin

text \<open>
  The parts of the transport layer under \<^verbatim>\<open>lib/tuya_ble_mesh/transport\<close>: the requests of
  \<^verbatim>\<open>request.py\<close>, the results of \<^verbatim>\<open>result.py\<close>, the \<^verbatim>\<open>CorrelationEngine\<close> of \<^verbatim>\<open>correlation.py\<close>
  and the \<^verbatim>\<open>TransportMetrics\<close> of \<^verbatim>\<open>metrics.py\<close>.  Request identifiers are numbers, readings of
  the clock are arguments, floats are rationals.
\<close>

subsection \<open>Requests\<close>

record retry_policy =
  rp_max_retries :: int
  rp_backoff_base :: seconds
  rp_backoff_max :: seconds
  rp_jitter :: rat

text \<open>\<^verbatim>\<open>__post_init__\<close>: the values that the class accepts.\<close>

definition make_retry_policy :: "int \<Rightarrow> seconds \<Rightarrow> seconds \<Rightarrow> rat \<Rightarrow> retry_policy res" where
  "make_retry_policy max_retries backoff_base backoff_max jitter =
     (if max_retries < 0 then Inl InvalidRequestError
      else if backoff_base \<le> 0 then Inl InvalidRequestError
      else if backoff_max < backoff_base then Inl InvalidRequestError
      else if \<not> (0 \<le> jitter \<and> jitter \<le> 1) then Inl InvalidRequestError
      else Inr \<lparr>rp_max_retries = max_retries, rp_backoff_base = backoff_base,
                rp_backoff_max = backoff_max, rp_jitter = jitter\<rparr>)"

type_synonym request_id = nat

record command_request =
  cr_request_id :: request_id
  cr_protocol :: string
  cr_target_node :: int
  cr_opcode :: int
  cr_params :: bytes
  cr_expected_response_opcode :: "int option"
  cr_ttl :: seconds
  cr_retry_policy :: retry_policy
  cr_deadline :: seconds
  cr_context :: string
  cr_priority :: int
  cr_created_at :: seconds

text \<open>\<^verbatim>\<open>CommandRequest(...)\<close>: the deadline is computed and then the fields are checked.\<close>

definition make_command_request :: "command_request \<Rightarrow> command_request res" where
  "make_command_request req =
     (let r = req\<lparr>cr_deadline := cr_created_at req + cr_ttl req\<rparr> in
      if \<not> (0 \<le> cr_target_node r \<and> cr_target_node r \<le> 0xFFFF) then Inl InvalidRequestError
      else if \<not> (0 \<le> cr_opcode r \<and> cr_opcode r \<le> 0xFFFF) then Inl InvalidRequestError
      else if cr_ttl r \<le> 0 then Inl InvalidRequestError
      else if cr_priority r < 0 then Inl InvalidRequestError
      else if cr_protocol r \<notin> {''telink'', ''sig''} then Inl InvalidRequestError
      else Inr r)"

definition is_expired :: "seconds \<Rightarrow> command_request \<Rightarrow> bool" where
  "is_expired now r \<longleftrightarrow> now \<ge> cr_deadline r"

definition age :: "seconds \<Rightarrow> command_request \<Rightarrow> seconds" where
  "age now r = now - cr_created_at r"

subsection \<open>Results\<close>

datatype status = Success | Timeout | Error | Cancelled | Coalesced

record command_result =
  cs_request_id :: request_id
  cs_status :: status
  cs_response_data :: "bytes option"
  cs_latency_ms :: rat
  cs_retries_used :: int
  cs_error :: "py_error option"

definition make_command_result :: "command_result \<Rightarrow> command_result res" where
  "make_command_result c =
     (if cs_status c = Error \<and> cs_error c = None then Inl InvalidResultError
      else if cs_status c = Success \<and> cs_error c \<noteq> None then Inl InvalidResultError
      else if cs_latency_ms c < 0 then Inl InvalidResultError
      else if cs_retries_used c < 0 then Inl InvalidResultError
      else Inr c)"

definition is_successful :: "command_result \<Rightarrow> bool" where
  "is_successful c \<longleftrightarrow> cs_status c = Success"

definition is_failure :: "command_result \<Rightarrow> bool" where
  "is_failure c \<longleftrightarrow> cs_status c \<in> {Error, Timeout}"

subsection \<open>Correlation\<close>

record correlation_key =
  ck_opcode :: int
  ck_destination :: int
  ck_sequence :: int
  ck_request_id :: request_id

record correlation_engine =
  ce_pending :: "(correlation_key, command_request) dict"
  ce_by_request_id :: "(request_id, correlation_key) dict"

definition make_correlation_engine :: correlation_engine where
  "make_correlation_engine = \<lparr>ce_pending = [], ce_by_request_id = []\<rparr>"

text \<open>\<^verbatim>\<open>expected_response_opcode or opcode\<close>: an expected opcode of 0 counts as none.\<close>

definition make_key :: "command_request \<Rightarrow> int \<Rightarrow> correlation_key" where
  "make_key r sequence = \<lparr>ck_opcode = (case cr_expected_response_opcode r of None \<Rightarrow> cr_opcode r
       | Some op \<Rightarrow> if op = 0 then cr_opcode r else op),
     ck_destination = cr_target_node r, ck_sequence = sequence, ck_request_id = cr_request_id r\<rparr>"

definition register :: "command_request \<Rightarrow> int \<Rightarrow> correlation_engine \<Rightarrow> correlation_key res \<times> correlation_engine" where
  "register r sequence e =
     (if dict_get (ce_by_request_id e) (cr_request_id r) \<noteq> None then (Inl CorrelationConflictError, e)
      else let key = make_key r sequence in
        (Inr key, e\<lparr>ce_pending := dict_set key r (ce_pending e),
                    ce_by_request_id := dict_set (cr_request_id r) key (ce_by_request_id e)\<rparr>))"

text \<open>\<^verbatim>\<open>del d[k]\<close>\<close>

definition dict_del :: "'k \<Rightarrow> ('k, 'v) dict \<Rightarrow> ('k, 'v) dict res" where
  "dict_del k d = (if dict_get d k = None then Inl KeyError else Inr (dict_pop k d))"

text \<open>The two \<^verbatim>\<open>del\<close> statements that drop a registration.\<close>

definition forget :: "correlation_key \<Rightarrow> request_id \<Rightarrow> correlation_engine \<Rightarrow> unit res \<times> correlation_engine" where
  "forget key rid e =
     (case dict_del key (ce_pending e) of Inl x \<Rightarrow> (Inl x, e)
      | Inr p \<Rightarrow> (let e1 = e\<lparr>ce_pending := p\<rparr> in
          case dict_del rid (ce_by_request_id e1) of Inl x \<Rightarrow> (Inl x, e1)
          | Inr b \<Rightarrow> (Inr (), e1\<lparr>ce_by_request_id := b\<rparr>)))"

definition key_matches :: "int \<Rightarrow> int \<Rightarrow> int \<Rightarrow> correlation_key \<Rightarrow> bool" where
  "key_matches opcode source sequence key \<longleftrightarrow>
     ck_opcode key = opcode \<and> ck_destination key = source \<and> ck_sequence key = sequence"

definition match_response ::
  "int \<Rightarrow> int \<Rightarrow> int \<Rightarrow> correlation_engine \<Rightarrow> command_request option res \<times> correlation_engine" where
  "match_response opcode source sequence e =
     (case find (\<lambda>(key, r). key_matches opcode source sequence key) (ce_pending e) of
        None \<Rightarrow> (Inr None, e)
      | Some (key, r) \<Rightarrow>
         (case forget key (cr_request_id r) e of
            (Inl x, e1) \<Rightarrow> (Inl x, e1) | (Inr u, e1) \<Rightarrow> (Inr (Some r), e1)))"

definition cancel :: "request_id \<Rightarrow> correlation_engine \<Rightarrow> bool res \<times> correlation_engine" where
  "cancel rid e =
     (case dict_get (ce_by_request_id e) rid of
        None \<Rightarrow> (Inr False, e)
      | Some key \<Rightarrow>
         (case forget key rid e of (Inl x, e1) \<Rightarrow> (Inl x, e1) | (Inr u, e1) \<Rightarrow> (Inr True, e1)))"

text \<open>The loop of \<^verbatim>\<open>expire_stale\<close> runs over a copy of the items.\<close>

fun expire_loop ::
  "seconds \<Rightarrow> (correlation_key \<times> command_request) list \<Rightarrow> correlation_engine
    \<Rightarrow> command_request list res \<times> correlation_engine" where
  "expire_loop now [] e = (Inr [], e)"
| "expire_loop now ((key, r) # items) e =
     (if cr_deadline r \<le> now then
        (case forget key (cr_request_id r) e of
           (Inl x, e1) \<Rightarrow> (Inl x, e1)
         | (Inr u, e1) \<Rightarrow> (case expire_loop now items e1 of
              (Inl x, e2) \<Rightarrow> (Inl x, e2) | (Inr rs, e2) \<Rightarrow> (Inr (r # rs), e2)))
      else expire_loop now items e)"

definition expire_stale :: "seconds \<Rightarrow> correlation_engine \<Rightarrow> command_request list res \<times> correlation_engine" where
  "expire_stale now e = expire_loop now (ce_pending e) e"

definition pending_count :: "correlation_engine \<Rightarrow> nat" where
  "pending_count e = length (ce_pending e)"

definition clear :: "correlation_engine \<Rightarrow> correlation_engine" where
  "clear e = e\<lparr>ce_pending := [], ce_by_request_id := []\<rparr>"

subsection \<open>Metrics\<close>

text \<open>\<^verbatim>\<open>deque(maxlen=100)\<close>: appending to a full deque drops its first element.\<close>

definition deque_append :: "nat \<Rightarrow> 'a \<Rightarrow> 'a list \<Rightarrow> 'a list" where
  "deque_append maxlen x xs = drop (Suc (length xs) - maxlen) (xs @ [x])"

record opcode_stats =
  os_sent :: int
  os_succeeded :: int
  os_failed :: int
  os_timed_out :: int
  os_latency_samples :: "rat list"

definition make_opcode_stats :: opcode_stats where
  "make_opcode_stats = \<lparr>os_sent = 0, os_succeeded = 0, os_failed = 0, os_timed_out = 0, os_latency_samples = []\<rparr>"

record transport_metrics =
  tm_commands_sent :: int
  tm_commands_succeeded :: int
  tm_commands_failed :: int
  tm_commands_timed_out :: int
  tm_commands_cancelled :: int
  tm_commands_coalesced :: int
  tm_retries_total :: int
  tm_in_flight_max :: nat
  tm_latency_samples :: "rat list"
  tm_per_opcode_stats :: "(int, opcode_stats) dict"

definition make_transport_metrics :: transport_metrics where
  "make_transport_metrics = \<lparr>tm_commands_sent = 0, tm_commands_succeeded = 0, tm_commands_failed = 0,
     tm_commands_timed_out = 0, tm_commands_cancelled = 0, tm_commands_coalesced = 0,
     tm_retries_total = 0, tm_in_flight_max = 0, tm_latency_samples = [], tm_per_opcode_stats = []\<rparr>"

text \<open>\<^verbatim>\<open>self._per_opcode_stats[opcode]\<close> of the defaultdict, and an update through it.\<close>

definition opcode_stats_of :: "int \<Rightarrow> transport_metrics \<Rightarrow> opcode_stats" where
  "opcode_stats_of opcode m =
     (case dict_get (tm_per_opcode_stats m) opcode of None \<Rightarrow> make_opcode_stats | Some st \<Rightarrow> st)"

definition update_opcode :: "int \<Rightarrow> (opcode_stats \<Rightarrow> opcode_stats) \<Rightarrow> transport_metrics \<Rightarrow> transport_metrics" where
  "update_opcode opcode f m =
     m\<lparr>tm_per_opcode_stats := dict_set opcode (f (opcode_stats_of opcode m)) (tm_per_opcode_stats m)\<rparr>"

fun record_status :: "status \<Rightarrow> int \<Rightarrow> transport_metrics \<Rightarrow> transport_metrics" where
  "record_status Success opcode m = update_opcode opcode (\<lambda>st. st\<lparr>os_succeeded := os_succeeded st + 1\<rparr>)
     (m\<lparr>tm_commands_succeeded := tm_commands_succeeded m + 1\<rparr>)"
| "record_status Timeout opcode m = update_opcode opcode (\<lambda>st. st\<lparr>os_timed_out := os_timed_out st + 1\<rparr>)
     (m\<lparr>tm_commands_timed_out := tm_commands_timed_out m + 1\<rparr>)"
| "record_status Error opcode m = update_opcode opcode (\<lambda>st. st\<lparr>os_failed := os_failed st + 1\<rparr>)
     (m\<lparr>tm_commands_failed := tm_commands_failed m + 1\<rparr>)"
| "record_status Cancelled opcode m = m\<lparr>tm_commands_cancelled := tm_commands_cancelled m + 1\<rparr>"
| "record_status Coalesced opcode m = m\<lparr>tm_commands_coalesced := tm_commands_coalesced m + 1\<rparr>"

definition record_result :: "command_result \<Rightarrow> int \<Rightarrow> transport_metrics \<Rightarrow> transport_metrics" where
  "record_result result opcode m =
     (let m1 = record_status (cs_status result) opcode (m\<lparr>tm_commands_sent := tm_commands_sent m + 1\<rparr>);
          m2 = m1\<lparr>tm_retries_total := tm_retries_total m1 + cs_retries_used result\<rparr>;
          m3 = (if cs_latency_ms result > 0 then
             update_opcode opcode (\<lambda>st. st\<lparr>os_latency_samples :=
                 deque_append 100 (cs_latency_ms result) (os_latency_samples st)\<rparr>)
               (m2\<lparr>tm_latency_samples := deque_append 100 (cs_latency_ms result) (tm_latency_samples m2)\<rparr>)
             else m2)
      in update_opcode opcode (\<lambda>st. st\<lparr>os_sent := os_sent st + 1\<rparr>) m3)"

definition record_in_flight :: "nat \<Rightarrow> transport_metrics \<Rightarrow> transport_metrics" where
  "record_in_flight count m = (if count > tm_in_flight_max m then m\<lparr>tm_in_flight_max := count\<rparr> else m)"

text \<open>\<^verbatim>\<open>int(k)\<close> truncates, which is the floor for a fraction \<open>p\<close> between 0 and 1; the indices of
  any other \<open>p\<close> are IndexErrors here, although Python reads negative ones from the end.\<close>

definition percentile :: "rat list \<Rightarrow> rat \<Rightarrow> rat res" where
  "percentile samples p =
     (if samples = [] then Inr 0
      else let sorted_samples = sort samples; n = length sorted_samples;
               k = (of_nat n - 1) * p; f = \<lfloor>k\<rfloor>; c = (if f < int n - 1 then f + 1 else f)
           in if \<not> (0 \<le> f \<and> f < int n \<and> 0 \<le> c \<and> c < int n) then Inl IndexError
              else Inr (sorted_samples ! nat f
                   + (k - of_int f) * (sorted_samples ! nat c - sorted_samples ! nat f)))"

definition p50 :: "transport_metrics \<Rightarrow> rat res" where "p50 m = percentile (tm_latency_samples m) (1 / 2)"
definition p95 :: "transport_metrics \<Rightarrow> rat res" where "p95 m = percentile (tm_latency_samples m) (95 / 100)"
definition p99 :: "transport_metrics \<Rightarrow> rat res" where "p99 m = percentile (tm_latency_samples m) (99 / 100)"

definition success_rate :: "transport_metrics \<Rightarrow> rat" where
  "success_rate m = (if tm_commands_sent m = 0 then 0
     else of_int (tm_commands_succeeded m) / of_int (tm_commands_sent m))"

text \<open>\<^verbatim>\<open>opcode_stats\<close> reads the defaultdict, which inserts the default.\<close>

definition opcode_stats_get :: "int \<Rightarrow> transport_metrics \<Rightarrow> opcode_stats \<times> transport_metrics" where
  "opcode_stats_get opcode m =
     (opcode_stats_of opcode m,
      if dict_get (tm_per_opcode_stats m) opcode = None then update_opcode opcode id m else m)"

definition metrics_reset :: "transport_metrics \<Rightarrow> transport_metrics" where
  "metrics_reset m = m\<lparr>tm_commands_sent := 0, tm_commands_succeeded := 0, tm_commands_failed := 0,
     tm_commands_timed_out := 0, tm_commands_cancelled := 0, tm_commands_coalesced := 0,
     tm_retries_total := 0, tm_in_flight_max := 0, tm_latency_samples := [], tm_per_opcode_stats := []\<rparr>"

subsection \<open>The correlation engine as one map\<close>

text \<open>The two dictionaries describe one map from request identifiers to the request and the
  sequence number that it was sent with.\<close>

definition registered :: "correlation_engine \<Rightarrow> request_id \<rightharpoonup> command_request \<times> int" where
  "registered e rid = (case dict_get (ce_by_request_id e) rid of None \<Rightarrow> None
     | Some key \<Rightarrow> map_option (\<lambda>r. (r, ck_sequence key)) (dict_get (ce_pending e) key))"

definition correlation_ok :: "correlation_engine \<Rightarrow> bool" where
  "correlation_ok e \<longleftrightarrow> dict_ok (ce_pending e) \<and> dict_ok (ce_by_request_id e)
     \<and> (\<forall>rid key. dict_get (ce_by_request_id e) rid = Some key \<longleftrightarrow>
          (\<exists>r. dict_get (ce_pending e) key = Some r \<and> cr_request_id r = rid))
     \<and> (\<forall>key r. dict_get (ce_pending e) key = Some r \<longrightarrow> key = make_key r (ck_sequence key))"

lemma correlation_okD:
  assumes "correlation_ok e"
  shows "dict_get (ce_by_request_id e) rid = Some key \<longleftrightarrow>
      (\<exists>r. dict_get (ce_pending e) key = Some r \<and> cr_request_id r = rid)"
    and "dict_get (ce_pending e) key = Some r \<Longrightarrow> key = make_key r (ck_sequence key)"
    and "dict_ok (ce_pending e)" and "dict_ok (ce_by_request_id e)"
  using assms unfolding correlation_ok_def by blast+

lemma registered_iff:
  assumes "correlation_ok e"
  shows "registered e rid = Some (r, q) \<longleftrightarrow> cr_request_id r = rid \<and> dict_get (ce_pending e) (make_key r q) = Some r"
proof
  assume "registered e rid = Some (r, q)"
  then obtain key where k: "dict_get (ce_by_request_id e) rid = Some key" "dict_get (ce_pending e) key = Some r"
    "ck_sequence key = q"
    by (auto simp: registered_def split: option.splits)
  moreover have "cr_request_id r = rid" "key = make_key r q"
    using correlation_okD(1,2) [OF assms] k by (metis option.inject)+
  ultimately show "cr_request_id r = rid \<and> dict_get (ce_pending e) (make_key r q) = Some r" by simp
next
  assume a: "cr_request_id r = rid \<and> dict_get (ce_pending e) (make_key r q) = Some r"
  then have "dict_get (ce_by_request_id e) rid = Some (make_key r q)"
    using assms unfolding correlation_ok_def by blast
  moreover have "ck_sequence (make_key r q) = q" by (simp add: make_key_def)
  ultimately show "registered e rid = Some (r, q)" using a by (simp add: registered_def)
qed

lemma registered_None:
  assumes "correlation_ok e"
  shows "registered e rid = None \<longleftrightarrow> dict_get (ce_by_request_id e) rid = None"
  using correlation_okD(1) [OF assms, of rid] by (cases "dict_get (ce_by_request_id e) rid") (auto simp: registered_def)

lemma make_key_eq: "make_key r q = make_key r' q' \<Longrightarrow> cr_request_id r = cr_request_id r' \<and> q = q'"
  by (simp add: make_key_def)

lemma register_refines:
  assumes ok: "correlation_ok e"
  shows "if registered e (cr_request_id r) = None
    then fst (register r q e) = Inr (make_key r q) \<and> correlation_ok (snd (register r q e))
      \<and> registered (snd (register r q e)) = (registered e)(cr_request_id r \<mapsto> (r, q))
    else register r q e = (Inl CorrelationConflictError, e)"
proof (cases "registered e (cr_request_id r) = None")
  case False
  with registered_None [OF ok, of "cr_request_id r"] show ?thesis by (auto simp: register_def)
next
  case True
  then have n: "dict_get (ce_by_request_id e) (cr_request_id r) = None" using registered_None [OF ok] by blast
  let ?k = "make_key r q"
  have fresh: "dict_get (ce_pending e) k = Some r' \<Longrightarrow> cr_request_id r' \<noteq> cr_request_id r" for k r'
    using correlation_okD(1) [OF ok, of "cr_request_id r" k] n by auto
  have fk: "dict_get (ce_pending e) ?k = None"
  proof (rule ccontr)
    assume "\<not> ?thesis"
    then obtain r' where r': "dict_get (ce_pending e) ?k = Some r'" by blast
    then have "?k = make_key r' (ck_sequence ?k)" using ok unfolding correlation_ok_def by blast
    with fresh [OF r'] make_key_eq show False by metis
  qed
  define e' where "e' = e\<lparr>ce_pending := dict_set ?k r (ce_pending e),
      ce_by_request_id := dict_set (cr_request_id r) ?k (ce_by_request_id e)\<rparr>"
  have reg: "register r q e = (Inr ?k, e')" using n by (simp add: register_def e'_def Let_def)
  have sel: "dict_get (ce_pending e') k = (if k = ?k then Some r else dict_get (ce_pending e) k)"
    "dict_get (ce_by_request_id e') i = (if i = cr_request_id r then Some ?k else dict_get (ce_by_request_id e) i)"
    for k i by (simp_all add: e'_def dict_get_set)
  have ok': "correlation_ok e'"
    unfolding correlation_ok_def
  proof (intro conjI allI impI)
    show "dict_ok (ce_pending e')" "dict_ok (ce_by_request_id e')"
      using ok by (simp_all add: e'_def correlation_ok_def dict_ok_set)
    show "k = make_key r' (ck_sequence k)" if "dict_get (ce_pending e') k = Some r'" for k r'
    proof (cases "k = ?k")
      case True
      with that have "r' = r" by (simp add: sel)
      with True show ?thesis by (simp add: make_key_def)
    next
      case False
      with that show ?thesis by (intro correlation_okD(2) [OF ok]) (simp add: sel)
    qed
    show "dict_get (ce_by_request_id e') i = Some k \<longleftrightarrow>
        (\<exists>r'. dict_get (ce_pending e') k = Some r' \<and> cr_request_id r' = i)" for i k
      using correlation_okD(1) [OF ok, of i k] n fk by (cases "i = cr_request_id r"; cases "k = ?k") (simp_all add: sel)
  qed
  have "registered e' i = ((registered e)(cr_request_id r \<mapsto> (r, q))) i" for i
  proof (cases "i = cr_request_id r")
    case True
    then show ?thesis by (simp add: registered_def sel make_key_def)
  next
    case False
    have "k \<noteq> ?k" if "dict_get (ce_by_request_id e) i = Some k" for k
      using that correlation_okD(1) [OF ok] fk by (metis option.distinct(1))
    with False show ?thesis by (auto simp: registered_def sel split: option.splits)
  qed
  with True reg ok' show ?thesis by auto
qed

lemma forget_refines:
  assumes ok: "correlation_ok e" and k: "dict_get (ce_pending e) key = Some r"
  obtains e' where "forget key (cr_request_id r) e = (Inr (), e')" "correlation_ok e'"
    "registered e' = (registered e)(cr_request_id r := None)" "ce_pending e' = dict_pop key (ce_pending e)"
proof -
  have b: "dict_get (ce_by_request_id e) (cr_request_id r) = Some key"
    using ok k unfolding correlation_ok_def by blast
  define e' where "e' = e\<lparr>ce_pending := dict_pop key (ce_pending e),
      ce_by_request_id := dict_pop (cr_request_id r) (ce_by_request_id e)\<rparr>"
  have f: "forget key (cr_request_id r) e = (Inr (), e')"
    using k b by (simp add: forget_def dict_del_def Let_def e'_def)
  have sel: "dict_get (ce_pending e') k = (if k = key then None else dict_get (ce_pending e) k)"
    "dict_get (ce_by_request_id e') i = (if i = cr_request_id r then None else dict_get (ce_by_request_id e) i)"
    for k i by (simp_all add: e'_def dict_get_pop)
  have inj: "k = key" if "dict_get (ce_pending e) k = Some r'" "cr_request_id r' = cr_request_id r" for k r'
    using that correlation_okD(1) [OF ok] b by (metis option.inject)
  have "correlation_ok e'"
    unfolding correlation_ok_def
  proof (intro conjI allI impI)
    show "dict_ok (ce_pending e')" "dict_ok (ce_by_request_id e')"
      using ok by (simp_all add: e'_def correlation_ok_def dict_ok_pop)
    show "k = make_key r' (ck_sequence k)" if "dict_get (ce_pending e') k = Some r'" for k r'
      using that by (intro correlation_okD(2) [OF ok]) (simp add: sel split: if_splits)
    show "dict_get (ce_by_request_id e') i = Some k \<longleftrightarrow>
        (\<exists>r'. dict_get (ce_pending e') k = Some r' \<and> cr_request_id r' = i)" for i k
    proof (cases "i = cr_request_id r")
      case True
      with inj show ?thesis by (auto simp: sel)
    next
      case False
      with correlation_okD(1) [OF ok, of i k] k show ?thesis by (cases "k = key") (simp_all add: sel)
    qed
  qed
  moreover have "registered e' i = ((registered e)(cr_request_id r := None)) i" for i
  proof -
    have "i = cr_request_id r" if "dict_get (ce_by_request_id e) i = Some key"
      using that correlation_okD(1) [OF ok] k by (metis option.inject)
    then have "i \<noteq> cr_request_id r \<Longrightarrow> dict_get (ce_by_request_id e) i \<noteq> Some key" by blast
    then show ?thesis
      by (cases "i = cr_request_id r"; cases "dict_get (ce_by_request_id e) i") (simp_all add: registered_def sel)
  qed
  ultimately show ?thesis using f by (intro that) (auto simp: e'_def)
qed

lemma match_response_refines:
  assumes ok: "correlation_ok e"
  shows "case match_response opcode source sequence e of
      (Inl x, e') \<Rightarrow> False
    | (Inr None, e') \<Rightarrow> e' = e \<and> (\<forall>rid r q. registered e rid = Some (r, q) \<longrightarrow>
         \<not> key_matches opcode source sequence (make_key r q))
    | (Inr (Some r), e') \<Rightarrow> correlation_ok e' \<and> registered e' = (registered e)(cr_request_id r := None)
        \<and> registered e (cr_request_id r) = Some (r, sequence)
        \<and> key_matches opcode source sequence (make_key r sequence)"
proof (cases "find (\<lambda>(key, r). key_matches opcode source sequence key) (ce_pending e)")
  case None
  then have no: "\<not> key_matches opcode source sequence key" if "(key, r) \<in> set (ce_pending e)" for key r
    using that by (auto simp: find_None_iff)
  have "\<not> key_matches opcode source sequence (make_key r q)" if "registered e rid = Some (r, q)" for rid r q
    using that no [OF map_of_SomeD] registered_iff [OF ok] by blast
  with None show ?thesis by (auto simp: match_response_def)
next
  case (Some p)
  obtain key r where p: "p = (key, r)" by fastforce
  with Some have m: "key_matches opcode source sequence key" and "(key, r) \<in> set (ce_pending e)"
    by (auto simp: find_Some_iff) (metis nth_mem)
  then have get: "dict_get (ce_pending e) key = Some r" using correlation_okD(3) [OF ok] by simp
  then have key: "key = make_key r sequence"
    using correlation_okD(2) [OF ok get] m by (simp add: key_matches_def)
  obtain e' where f: "forget key (cr_request_id r) e = (Inr (), e')" "correlation_ok e'"
    "registered e' = (registered e)(cr_request_id r := None)"
    using forget_refines [OF ok get] by metis
  have "registered e (cr_request_id r) = Some (r, sequence)"
    using registered_iff [OF ok] get key by simp
  with Some p f m key show ?thesis by (simp add: match_response_def)
qed

lemma cancel_refines:
  assumes ok: "correlation_ok e"
  shows "\<exists>e'. cancel rid e = (Inr (registered e rid \<noteq> None), e') \<and> correlation_ok e'
    \<and> registered e' = (registered e)(rid := None)"
proof (cases "dict_get (ce_by_request_id e) rid")
  case None
  with registered_None [OF ok, of rid] ok show ?thesis by (auto simp: cancel_def)
next
  case (Some key)
  then obtain r where r: "dict_get (ce_pending e) key = Some r" "cr_request_id r = rid"
    using correlation_okD(1) [OF ok] by blast
  obtain e' where "forget key (cr_request_id r) e = (Inr (), e')" "correlation_ok e'"
    "registered e' = (registered e)(cr_request_id r := None)"
    using forget_refines [OF ok r(1)] by metis
  with Some r registered_None [OF ok, of rid] show ?thesis by (auto simp: cancel_def)
qed

definition stale :: "seconds \<Rightarrow> command_request \<Rightarrow> bool" where
  "stale now r \<longleftrightarrow> cr_deadline r \<le> now"

lemma expire_loop_refines:
  assumes "correlation_ok e" and "dict_ok items" and "\<forall>(key, r) \<in> set items. dict_get (ce_pending e) key = Some r"
  shows "\<exists>e'. expire_loop now items e = (Inr (filter (stale now) (map snd items)), e') \<and> correlation_ok e'
    \<and> registered e' = (\<lambda>rid. if rid \<in> cr_request_id ` set (filter (stale now) (map snd items)) then None
         else registered e rid)"
  using assms
proof (induction now items e rule: expire_loop.induct)
  case (2 now key r items e)
  show ?case
  proof (cases "cr_deadline r \<le> now")
    case False
    then have "\<not> stale now r" by (simp add: stale_def)
    with 2 False show ?thesis by auto
  next
    case True
    have get: "dict_get (ce_pending e) key = Some r" using "2.prems"(3) by simp
    obtain e1 where e1: "forget key (cr_request_id r) e = (Inr (), e1)" "correlation_ok e1"
      "registered e1 = (registered e)(cr_request_id r := None)" "ce_pending e1 = dict_pop key (ce_pending e)"
      using forget_refines [OF "2.prems"(1) get] by metis
    have "\<forall>(k, r) \<in> set items. dict_get (ce_pending e1) k = Some r"
    proof safe
      fix k b assume "(k, b) \<in> set items"
      moreover from this have "k \<noteq> key" using "2.prems"(2) by force
      ultimately show "dict_get (ce_pending e1) k = Some b" using "2.prems"(3) by (auto simp: e1(4) dict_get_pop)
    qed
    moreover have "dict_ok items" using "2.prems"(2) by simp
    ultimately obtain e2 where e2: "expire_loop now items e1 = (Inr (filter (stale now) (map snd items)), e2)"
      "correlation_ok e2" "registered e2 = (\<lambda>rid. if rid \<in> cr_request_id ` set (filter (stale now) (map snd items))
         then None else registered e1 rid)"
      using "2.IH"(1) [OF True e1(1)[symmetric] refl e1(2)] by blast
    moreover have "stale now r" using True by (simp add: stale_def)
    ultimately show ?thesis using True e1 by (auto simp: fun_eq_iff)
  qed
qed auto

lemma expire_stale_refines:
  assumes ok: "correlation_ok e"
  shows "\<exists>rs e'. expire_stale now e = (Inr rs, e') \<and> correlation_ok e' \<and> distinct (map cr_request_id rs)
    \<and> set rs = {r. \<exists>q. registered e (cr_request_id r) = Some (r, q) \<and> stale now r}
    \<and> registered e' = (\<lambda>rid. if rid \<in> cr_request_id ` set rs then None else registered e rid)"
proof -
  let ?rs = "filter (stale now) (map snd (ce_pending e))"
  have items: "\<forall>(key, r) \<in> set (ce_pending e). dict_get (ce_pending e) key = Some r"
    using correlation_okD(3) [OF ok] by auto
  obtain e' where e': "expire_loop now (ce_pending e) e = (Inr ?rs, e')" "correlation_ok e'"
    "registered e' = (\<lambda>rid. if rid \<in> cr_request_id ` set ?rs then None else registered e rid)"
    using expire_loop_refines [OF ok correlation_okD(3) [OF ok] items] by metis
  have reg: "r \<in> snd ` set (ce_pending e) \<longleftrightarrow> (\<exists>q. registered e (cr_request_id r) = Some (r, q))" for r
  proof
    assume "r \<in> snd ` set (ce_pending e)"
    then obtain key where "(key, r) \<in> set (ce_pending e)" by force
    then have "dict_get (ce_pending e) key = Some r" using items by blast
    then show "\<exists>q. registered e (cr_request_id r) = Some (r, q)"
      using registered_iff [OF ok] correlation_okD(2) [OF ok] by metis
  next
    assume "\<exists>q. registered e (cr_request_id r) = Some (r, q)"
    then show "r \<in> snd ` set (ce_pending e)" using registered_iff [OF ok] map_of_SomeD by (metis image_eqI snd_conv)
  qed
  have inj: "inj_on (cr_request_id \<circ> snd) (set (ce_pending e))"
  proof (rule inj_onI)
    fix x y assume xy: "x \<in> set (ce_pending e)" "y \<in> set (ce_pending e)" "(cr_request_id \<circ> snd) x = (cr_request_id \<circ> snd) y"
    then have "dict_get (ce_pending e) (fst x) = Some (snd x)" "dict_get (ce_pending e) (fst y) = Some (snd y)"
      using items by auto
    with xy(3) have "fst x = fst y" using correlation_okD(1) [OF ok] by (metis comp_apply option.inject)
    with xy items show "x = y" by (metis (mono_tags, lifting) case_prodD option.inject prod.collapse)
  qed
  have "distinct (map (cr_request_id \<circ> snd) (ce_pending e))"
    using inj correlation_okD(3) [OF ok] by (simp add: distinct_map)
  then have "distinct (map cr_request_id ?rs)"
    using distinct_map_filter [of cr_request_id "map snd (ce_pending e)"] by simp
  moreover have "set ?rs = {r. \<exists>q. registered e (cr_request_id r) = Some (r, q) \<and> stale now r}"
    using reg by auto
  ultimately show ?thesis using e' by (auto simp: expire_stale_def)
qed

subsection \<open>The interface of a correlator\<close>

text \<open>What a user of the engine does over time, and what each operation registers and gives back.\<close>

datatype corr_op = Register command_request int | Match int int int | Cancel request_id | Expire seconds

definition corr_step :: "corr_op \<Rightarrow> correlation_engine \<Rightarrow> request_id list \<times> request_id list \<times> correlation_engine" where
  "corr_step op e = (case op of
       Register r q \<Rightarrow> (case register r q e of (Inl x, e') \<Rightarrow> ([], [], e') | (Inr k, e') \<Rightarrow> ([cr_request_id r], [], e'))
     | Match opcode source sequence \<Rightarrow> (case match_response opcode source sequence e of
           (Inr (Some r), e') \<Rightarrow> ([], [cr_request_id r], e') | (_, e') \<Rightarrow> ([], [], e'))
     | Cancel rid \<Rightarrow> (case cancel rid e of (Inr True, e') \<Rightarrow> ([], [rid], e') | (_, e') \<Rightarrow> ([], [], e'))
     | Expire now \<Rightarrow> (case expire_stale now e of
           (Inr rs, e') \<Rightarrow> ([], map cr_request_id rs, e') | (Inl x, e') \<Rightarrow> ([], [], e')))"

fun perform_all :: "('o \<Rightarrow> 's \<Rightarrow> 'i list \<times> 'i list \<times> 's) \<Rightarrow> 'o list \<Rightarrow> 's \<Rightarrow> 'i list \<times> 'i list \<times> 's" where
  "perform_all perform [] s = ([], [], s)"
| "perform_all perform (op # ops) s =
     (let (a, r, s1) = perform op s; (as, rs, s2) = perform_all perform ops s1 in (a @ as, r @ rs, s2))"

definition held :: "request_id set \<Rightarrow> request_id \<Rightarrow> nat" where
  "held rids rid = (if rid \<in> rids then 1 else 0)"

text \<open>An implementation keeps an invariant and changes its set of identifiers by exactly what it reports.\<close>

locale correlator =
  fixes ok :: "'s \<Rightarrow> bool" and ids :: "'s \<Rightarrow> request_id set"
    and perform :: "'o \<Rightarrow> 's \<Rightarrow> request_id list \<times> request_id list \<times> 's"
  assumes keeps_ok: "ok s \<Longrightarrow> perform op s = (added, removed, s') \<Longrightarrow> ok s'"
    and disjoint_parts: "ok s \<Longrightarrow> perform op s = (added, removed, s') \<Longrightarrow> distinct added \<and> distinct removed
      \<and> set added \<inter> ids s = {} \<and> set removed \<subseteq> ids s \<and> ids s' = (ids s \<union> set added) - set removed
      \<and> set added \<inter> set removed = {}"
begin

lemma balance_step:
  assumes "ok s" "perform op s = (a, r, s1)"
  shows "count_list r rid + held (ids s1) rid = count_list a rid + held (ids s) rid"
proof -
  have c: "count_list xs rid = (if rid \<in> set xs then 1 else 0)" if "distinct xs" for xs
    using that by (induction xs) auto
  show ?thesis using disjoint_parts [OF assms] by (auto simp: c held_def)
qed

lemma balance:
  "ok s \<Longrightarrow> perform_all perform ops s = (a, r, s') \<Longrightarrow> ok s' \<and> count_list r rid + held (ids s') rid = count_list a rid + held (ids s) rid"
proof (induction ops arbitrary: s a r s')
  case (Cons op ops)
  obtain a1 r1 s1 where 1: "perform op s = (a1, r1, s1)" using prod_cases3 by blast
  obtain a2 r2 s2 where 2: "perform_all perform ops s1 = (a2, r2, s2)" using prod_cases3 by blast
  show ?case
    using Cons.prems 1 2 Cons.IH [OF keeps_ok [OF Cons.prems(1) 1] 2] balance_step [OF Cons.prems(1) 1, of rid]
    by auto
qed simp

end

definition registered_ids :: "correlation_engine \<Rightarrow> request_id set" where
  "registered_ids e = dom (registered e)"

interpretation corr: correlator correlation_ok registered_ids corr_step
proof
  fix e op added removed e'
  assume ok: "correlation_ok e" and s: "corr_step op e = (added, removed, e')"
  have "correlation_ok e' \<and> distinct added \<and> distinct removed
      \<and> set added \<inter> registered_ids e = {} \<and> set removed \<subseteq> registered_ids e
      \<and> registered_ids e' = (registered_ids e \<union> set added) - set removed \<and> set added \<inter> set removed = {}"
  proof (cases op)
    case (Register r q)
    then show ?thesis
      using s register_refines [OF ok, of r q] ok
      by (cases "register r q e"; cases "registered e (cr_request_id r)")
         (auto simp: corr_step_def registered_ids_def split: if_splits sum.splits)
  next
    case (Match opcode source sequence)
    then show ?thesis
      using s match_response_refines [OF ok, of opcode source sequence] ok
      by (cases "match_response opcode source sequence e")
         (auto simp: corr_step_def registered_ids_def split: sum.splits option.splits)
  next
    case (Cancel rid)
    obtain e1 where "cancel rid e = (Inr (registered e rid \<noteq> None), e1)" "correlation_ok e1"
      "registered e1 = (registered e)(rid := None)"
      using cancel_refines [OF ok] by blast
    then show ?thesis
      using s Cancel by (cases "registered e rid") (auto simp: corr_step_def registered_ids_def split: if_splits)
  next
    case (Expire now)
    obtain rs e1 where r: "expire_stale now e = (Inr rs, e1)" "correlation_ok e1" "distinct (map cr_request_id rs)"
      "set rs = {r. \<exists>q. registered e (cr_request_id r) = Some (r, q) \<and> stale now r}"
      "registered e1 = (\<lambda>rid. if rid \<in> cr_request_id ` set rs then None else registered e rid)"
      using expire_stale_refines [OF ok] by blast
    have "\<forall>x \<in> set rs. cr_request_id x \<in> registered_ids e" using r(4) by (auto simp: registered_ids_def)
    then show ?thesis
      using s Expire r(1,2,3,5) by (auto simp: corr_step_def registered_ids_def dom_def split: if_splits)
  qed
  then show "correlation_ok e'" "distinct added \<and> distinct removed \<and> set added \<inter> registered_ids e = {}
      \<and> set removed \<subseteq> registered_ids e \<and> registered_ids e' = (registered_ids e \<union> set added) - set removed
      \<and> set added \<inter> set removed = {}" by blast+
qed

lemma correlation_ok_empty: "correlation_ok make_correlation_engine" "registered_ids make_correlation_engine = {}"
  by (auto simp: correlation_ok_def make_correlation_engine_def registered_ids_def registered_def)

text \<open>Whatever sequence of calls an engine sees, each registration of a request ends at most once, in a
  match, a cancellation or an expiry, and a request is still registered exactly when it was
  registered once more often than it ended; no call raises KeyError, and the two dictionaries stay
  consistent.\<close>

theorem registrations_end_once:
  assumes "perform_all corr_step ops make_correlation_engine = (added, removed, e')"
  shows "correlation_ok e' \<and> count_list removed rid + held (registered_ids e') rid = count_list added rid"
  using corr.balance [OF correlation_ok_empty(1) assms, of rid] by (simp add: correlation_ok_empty held_def)

definition demo_request :: "request_id \<Rightarrow> int option \<Rightarrow> command_request" where
  "demo_request rid expected = \<lparr>cr_request_id = rid, cr_protocol = ''telink'', cr_target_node = 5, cr_opcode = 0xD0,
     cr_params = [1], cr_expected_response_opcode = expected, cr_ttl = 60,
     cr_retry_policy = \<lparr>rp_max_retries = 3, rp_backoff_base = 1 / 2, rp_backoff_max = 10, rp_jitter = 0\<rparr>,
     cr_deadline = 60, cr_context = [], cr_priority = 1, cr_created_at = 0\<rparr>"

theorem registrations_end_once_witness:
  "\<exists>e'. perform_all corr_step [Register (demo_request 1 (Some 0xDB)) 7, Register (demo_request 2 None) 8,
       Register (demo_request 1 (Some 0xDB)) 9, Match 0xDB 5 7, Cancel 1, Expire 61] make_correlation_engine
     = ([1, 2], [1, 2], e') \<and> correlation_ok e' \<and> held (registered_ids e') 2 = 0"
proof -
  let ?r = "perform_all corr_step [Register (demo_request 1 (Some 0xDB)) 7, Register (demo_request 2 None) 8,
       Register (demo_request 1 (Some 0xDB)) 9, Match 0xDB 5 7, Cancel 1, Expire 61] make_correlation_engine"
  have c: "fst ?r = [1, 2] \<and> fst (snd ?r) = [1, 2]" by code_simp
  then obtain e' where r: "?r = ([1, 2], [1, 2], e')" by (metis prod.collapse)
  then show ?thesis using registrations_end_once [OF r, of 2] by auto
qed



subsection \<open>Latency percentiles\<close>

text \<open>The interpolation of \<^verbatim>\<open>_percentile\<close> between two elements of a sorted list.\<close>

definition interpolate :: "rat list \<Rightarrow> rat \<Rightarrow> rat" where
  "interpolate xs k = (let f = \<lfloor>k\<rfloor>; c = (if f < int (length xs) - 1 then f + 1 else f)
     in xs ! nat f + (k - of_int f) * (xs ! nat c - xs ! nat f))"

lemma interpolate_between:
  assumes s: "sorted xs" and k: "0 \<le> k" "k \<le> of_nat (length xs) - 1" and f: "f = nat \<lfloor>k\<rfloor>"
    and c: "c = (if f < length xs - 1 then Suc f else f)"
  shows "f < length xs \<and> c < length xs \<and> xs ! f \<le> interpolate xs k \<and> interpolate xs k \<le> xs ! c
    \<and> interpolate xs k = xs ! f + (k - of_nat f) * (xs ! c - xs ! f) \<and> 0 \<le> k - of_nat f \<and> k - of_nat f \<le> 1"
proof -
  have pos: "0 \<le> \<lfloor>k\<rfloor>" using k(1) by simp
  have "of_int \<lfloor>k\<rfloor> \<le> (of_nat (length xs) - 1 :: rat)" using k(2) of_int_floor_le [of k] by linarith
  then have "of_int \<lfloor>k\<rfloor> < (of_int (int (length xs)) :: rat)" by simp
  then have "\<lfloor>k\<rfloor> < int (length xs)" by (simp only: of_int_less_iff)
  with f pos have fl: "f < length xs" "int f = \<lfloor>k\<rfloor>" by linarith+
  then have cl: "c < length xs" using c by auto
  have fr: "of_nat f = (of_int \<lfloor>k\<rfloor> :: rat)" by (simp flip: fl(2))
  have frac: "0 \<le> k - of_nat f" "k - of_nat f \<le> 1"
    using floor_correct [of k] unfolding fr by linarith+
  have "f \<le> c" using c by simp
  then have d: "xs ! f \<le> xs ! c" using s cl by (simp add: sorted_nth_mono)
  have i: "interpolate xs k = xs ! f + (k - of_nat f) * (xs ! c - xs ! f)"
  proof -
    have nc: "nat (if \<lfloor>k\<rfloor> < int (length xs) - 1 then \<lfloor>k\<rfloor> + 1 else \<lfloor>k\<rfloor>) = c"
      using fl c by (auto simp flip: fl(2))
    show ?thesis unfolding interpolate_def Let_def nc fr f [symmetric] ..
  qed
  have "(k - of_nat f) * (xs ! c - xs ! f) \<le> 1 * (xs ! c - xs ! f)" using frac d by (intro mult_right_mono) auto
  moreover have "0 \<le> (k - of_nat f) * (xs ! c - xs ! f)" using frac d by simp
  ultimately show ?thesis using fl(1) cl i frac by simp
qed

lemma interpolate_mono:
  assumes s: "sorted xs" and k: "0 \<le> k" "k \<le> l" "l \<le> of_nat (length xs) - 1"
  shows "interpolate xs k \<le> interpolate xs l"
proof -
  define f where "f = nat \<lfloor>k\<rfloor>"
  define c where "c = (if f < length xs - 1 then Suc f else f)"
  define f' where "f' = nat \<lfloor>l\<rfloor>"
  define c' where "c' = (if f' < length xs - 1 then Suc f' else f')"
  have kb: "k \<le> of_nat (length xs) - 1" "0 \<le> l" using k by linarith+
  note a = interpolate_between [OF s k(1) kb(1) f_def c_def] and b = interpolate_between [OF s kb(2) k(3) f'_def c'_def]
  have ff: "f \<le> f'" unfolding f_def f'_def using k(2) by (intro nat_mono floor_mono)
  show ?thesis
  proof (cases "f = f'")
    case True
    then have cc: "c = c'" by (simp add: c_def c'_def)
    have "xs ! f \<le> xs ! c" using a by simp
    then have "(k - of_nat f) * (xs ! c - xs ! f) \<le> (l - of_nat f) * (xs ! c - xs ! f)"
      using k(2) by (intro mult_right_mono) auto
    with a b True cc show ?thesis by simp
  next
    case False
    then have "c \<le> f'" using ff b by (auto simp: c_def)
    then have "xs ! c \<le> xs ! f'" using s b by (simp add: sorted_nth_mono)
    with a b show ?thesis by linarith
  qed
qed

lemma percentile_interpolate:
  assumes "samples \<noteq> []" "0 \<le> p" "p \<le> 1"
  shows "percentile samples p = Inr (interpolate (sort samples) ((of_nat (length samples) - 1) * p))
    \<and> 0 \<le> (of_nat (length samples) - 1) * p \<and> (of_nat (length samples) - 1) * p \<le> of_nat (length (sort samples)) - 1"
proof -
  have n: "1 \<le> (of_nat (length samples) :: rat)" using assms(1) by (cases samples) auto
  then have k: "0 \<le> (of_nat (length samples) - 1) * p" using assms by simp
  have k': "(of_nat (length samples) - 1) * p \<le> of_nat (length (sort samples)) - 1"
    using n assms mult_left_le [of p "of_nat (length samples) - 1"] by simp
  show ?thesis
    using interpolate_between [OF sorted_sort k k' refl refl] k k' assms(1)
    by (auto simp: percentile_def Let_def interpolate_def nat_less_iff split: if_splits)
qed

text \<open>The latency percentiles are ordered: for fractions \<open>p \<le> q\<close> between 0 and 1 the two lookups stay
  inside the sample list, the result for \<open>p\<close> is at most the one for \<open>q\<close>, and both lie between the
  least and the greatest sample.\<close>

theorem percentile_monotone:
  assumes "samples \<noteq> []" and "0 \<le> p" and "p \<le> q" and "q \<le> 1"
  shows "\<exists>a b. percentile samples p = Inr a \<and> percentile samples q = Inr b \<and> a \<le> b
    \<and> Min (set samples) \<le> a \<and> b \<le> Max (set samples)"
proof -
  let ?n = "of_nat (length samples) - 1 :: rat" and ?xs = "sort samples"
  have p: "p \<le> 1" "0 \<le> q" using assms by linarith+
  note a = percentile_interpolate [OF assms(1,2) p(1)] and b = percentile_interpolate [OF assms(1) p(2) assms(4)]
  have "0 \<le> ?n" using assms(1) by (cases samples) auto
  then have "?n * p \<le> ?n * q" using assms(3) by (rule mult_left_mono [rotated])
  then have m: "interpolate ?xs (?n * p) \<le> interpolate ?xs (?n * q)"
    using a b by (intro interpolate_mono) auto
  note ia = interpolate_between [OF sorted_sort conjunct1 [OF conjunct2 [OF a]] conjunct2 [OF conjunct2 [OF a]] refl refl]
    and ib = interpolate_between [OF sorted_sort conjunct1 [OF conjunct2 [OF b]] conjunct2 [OF conjunct2 [OF b]] refl refl]
  have mem: "?xs ! i \<in> set samples" if "i < length ?xs" for i using nth_mem [OF that] by simp
  have "Min (set samples) \<le> interpolate ?xs (?n * p)"
    using conjunct1 [OF ia] conjunct1 [OF conjunct2 [OF conjunct2 [OF ia]]] mem Min_le [OF finite_set] by (meson order_trans)
  moreover have "interpolate ?xs (?n * q) \<le> Max (set samples)"
    using conjunct1 [OF conjunct2 [OF ib]] conjunct1 [OF conjunct2 [OF conjunct2 [OF conjunct2 [OF ib]]]] mem Max_ge [OF finite_set]
    by (meson order_trans)
  ultimately show ?thesis using a b m by blast
qed

theorem percentile_monotone_witness:
  "\<exists>a b. percentile [5, 1, 9, 3] (1 / 2) = Inr a \<and> percentile [5, 1, 9, 3] (95 / 100) = Inr b \<and> a \<le> b \<and> 1 \<le> a \<and> b \<le> 9"
  using percentile_monotone [of "[5, 1, 9, 3]" "1 / 2" "95 / 100"] by simp

end
