(* ===== verification/Dispatcher.thy ===== *)
theory Dispatcher
  imports Transport
begin

text \<open>
  \<^verbatim>\<open>AsyncCommandDispatcher\<close> of \<^verbatim>\<open>lib/tuya_ble_mesh/transport/dispatcher.py\<close>.  Between two awaits
  the code of a task is one step: the worker's iterations, the attempts of each send task and the
  calls of the users are the rules of the relation \<open>dstep\<close>, and the order of the steps is any.
  The clock, the sequence numbers and the outcome of the send callback come with the step.
  The priority queue is the list of its entries, of which a least one in \<^verbatim>\<open>(priority, created_at)\<close>
  is taken; two entries with equal pairs may make the heap compare the requests themselves, which is
  a TypeError, or may not, depending on where the heap meets them, so both happen.
\<close>

definition QUEUE_POLL_INTERVAL :: seconds where "QUEUE_POLL_INTERVAL = 1 / 10"

subsection \<open>State\<close>

text \<open>A future is a number, the index of its result in \<open>dp_futures\<close>.\<close>

type_synonym future = nat

datatype task_phase = Created | Attempting | Sending | Backing_off

record send_task =
  st_request :: command_request
  st_start_time :: seconds
  st_attempt :: nat
  st_retries_used :: nat
  st_last_error :: "py_error option"
  st_phase :: task_phase

datatype worker = Idle | Polling | Holding command_request | Finished | Crashed py_error

record config =
  cf_per_device_limit :: int
  cf_total_limit :: int
  cf_coalesce_window_ms :: rat

record dispatcher =
  dp_running :: bool
  dp_stopping :: nat
  dp_queue :: "command_request list"
  dp_in_flight :: "(request_id, command_request) dict"
  dp_in_flight_per_device :: "(int, int) dict"
  dp_result_futures :: "(request_id, future) dict"
  dp_futures :: "command_result option list"
  dp_history :: "(command_request \<times> command_result) list"
  dp_correlation :: correlation_engine
  dp_metrics :: transport_metrics
  dp_worker :: worker
  dp_tasks :: "send_task list"

definition make_dispatcher :: dispatcher where
  "make_dispatcher = \<lparr>dp_running = False, dp_stopping = 0, dp_queue = [], dp_in_flight = [], dp_in_flight_per_device = [],
     dp_result_futures = [], dp_futures = [], dp_history = [], dp_correlation = make_correlation_engine,
     dp_metrics = make_transport_metrics, dp_worker = Idle, dp_tasks = []\<rparr>"

subsection \<open>Futures\<close>

definition future_done :: "dispatcher \<Rightarrow> future \<Rightarrow> bool" where
  "future_done s f \<longleftrightarrow> f < length (dp_futures s) \<and> dp_futures s ! f \<noteq> None"

definition set_result :: "future \<Rightarrow> command_result \<Rightarrow> dispatcher \<Rightarrow> dispatcher" where
  "set_result f result s = s\<lparr>dp_futures := (dp_futures s)[f := Some result]\<rparr>"

definition new_future :: "command_result option \<Rightarrow> dispatcher \<Rightarrow> future \<times> dispatcher" where
  "new_future r s = (length (dp_futures s), s\<lparr>dp_futures := dp_futures s @ [r]\<rparr>)"

subsection \<open>Completing a request\<close>

definition complete_request :: "command_request \<Rightarrow> command_result \<Rightarrow> dispatcher \<Rightarrow> dispatcher" where
  "complete_request request result s =
     (let s1 = s\<lparr>dp_metrics := record_result result (cr_opcode request) (dp_metrics s),
                 dp_history := deque_append 100 (request, result) (dp_history s)\<rparr>;
          f = dict_get (dp_result_futures s1) (cr_request_id request);
          s2 = s1\<lparr>dp_result_futures := dict_pop (cr_request_id request) (dp_result_futures s1)\<rparr>
      in case f of None \<Rightarrow> s2
         | Some f \<Rightarrow> if \<not> future_done s2 f then set_result f result s2 else s2)"

definition timeout_result :: "seconds \<Rightarrow> command_request \<Rightarrow> command_result res" where
  "timeout_result now r = make_command_result \<lparr>cs_request_id = cr_request_id r, cs_status = Timeout,
     cs_response_data = None, cs_latency_ms = age now r * 1000, cs_retries_used = 0, cs_error = None\<rparr>"

text \<open>Completing with a timeout; the error is that of the result's own checks.\<close>

definition complete_timeout :: "seconds \<Rightarrow> command_request \<Rightarrow> dispatcher \<Rightarrow> unit res \<times> dispatcher" where
  "complete_timeout now r s =
     (case timeout_result now r of Inl e \<Rightarrow> (Inl e, s) | Inr result \<Rightarrow> (Inr (), complete_request r result s))"

fun complete_timeouts :: "seconds \<Rightarrow> command_request list \<Rightarrow> dispatcher \<Rightarrow> unit res \<times> dispatcher" where
  "complete_timeouts now [] s = (Inr (), s)"
| "complete_timeouts now (r # rs) s =
     (case complete_timeout now r s of (Inl e, s1) \<Rightarrow> (Inl e, s1) | (Inr u, s1) \<Rightarrow> complete_timeouts now rs s1)"

subsection \<open>The calls of the users\<close>

definition coalesce_check :: "config \<Rightarrow> seconds \<Rightarrow> command_request \<Rightarrow> dispatcher \<Rightarrow> future option" where
  "coalesce_check cfg now request s =
     (let window_start = now - cf_coalesce_window_ms cfg / 1000;
          candidates = filter (\<lambda>r. cr_opcode r = cr_opcode request \<and> cr_target_node r = cr_target_node request
              \<and> cr_params r = cr_params request \<and> cr_protocol r = cr_protocol request
              \<and> cr_created_at r \<ge> window_start) (map snd (dp_in_flight s));
          futures = List.map_filter (\<lambda>r. dict_get (dp_result_futures s) (cr_request_id r)) candidates
      in find (\<lambda>f. \<not> future_done s f) futures)"

definition rank :: "command_request \<Rightarrow> int \<times> seconds" where
  "rank r = (cr_priority r, cr_created_at r)"

definition rank_less :: "command_request \<Rightarrow> command_request \<Rightarrow> bool" where
  "rank_less r r' \<longleftrightarrow> cr_priority r < cr_priority r'
     \<or> (cr_priority r = cr_priority r' \<and> cr_created_at r < cr_created_at r')"

text \<open>\<open>enqueue\<close>; \<open>compares\<close> says whether the heap compares \<open>request\<close> with an entry of equal rank.
  The heap has the entry by then.\<close>

definition enqueue ::
  "config \<Rightarrow> seconds \<Rightarrow> bool \<Rightarrow> command_request \<Rightarrow> dispatcher \<Rightarrow> future res \<times> dispatcher" where
  "enqueue cfg now compares request s =
     (if is_expired now request then
        (case timeout_result now request of Inl e \<Rightarrow> (Inl e, s)
         | Inr result \<Rightarrow>
            (let s1 = s\<lparr>dp_metrics := record_result result (cr_opcode request) (dp_metrics s)\<rparr>;
                 (f, s2) = new_future (Some result) s1 in (Inr f, s2)))
      else case coalesce_check cfg now request s of
        Some f \<Rightarrow> (Inr f, s\<lparr>dp_metrics := (dp_metrics s)\<lparr>tm_commands_coalesced := tm_commands_coalesced (dp_metrics s) + 1\<rparr>\<rparr>)
      | None \<Rightarrow>
         (let (f, s1) = new_future None s;
              s2 = s1\<lparr>dp_result_futures := dict_set (cr_request_id request) f (dp_result_futures s1)\<rparr>
          in (if rank request \<in> rank ` set (dp_queue s2) \<and> compares then Inl TypeError else Inr f,
              s2\<lparr>dp_queue := dp_queue s2 @ [request]\<rparr>)))"

definition start :: "dispatcher \<Rightarrow> dispatcher" where
  "start s = (if dp_running s then s else s\<lparr>dp_running := True, dp_worker := Idle\<rparr>)"

text \<open>
  \<^verbatim>\<open>stop\<close> up to the cancelled worker, whose error it raises when it has crashed; the second part runs
  after the worker has ended.  It leaves the queue, and the send tasks run on.
\<close>

definition cancelled_result :: "request_id \<Rightarrow> command_result" where
  "cancelled_result rid = \<lparr>cs_request_id = rid, cs_status = Cancelled, cs_response_data = None,
     cs_latency_ms = 0, cs_retries_used = 0, cs_error = None\<rparr>"

fun cancel_futures :: "(request_id \<times> future) list \<Rightarrow> dispatcher \<Rightarrow> dispatcher" where
  "cancel_futures [] s = s"
| "cancel_futures ((rid, f) # items) s =
     cancel_futures items (if \<not> future_done s f then set_result f (cancelled_result rid) s else s)"

definition stop_begin :: "dispatcher \<Rightarrow> dispatcher" where
  "stop_begin s = (if \<not> dp_running s then s
     else case dp_worker s of
       Crashed e \<Rightarrow> s\<lparr>dp_running := False\<rparr>
     | _ \<Rightarrow> s\<lparr>dp_running := False, dp_worker := Finished, dp_stopping := dp_stopping s + 1\<rparr>)"

definition stop_end :: "dispatcher \<Rightarrow> dispatcher" where
  "stop_end s =
     (let s1 = cancel_futures (dp_result_futures s) s
      in s1\<lparr>dp_result_futures := [], dp_in_flight := [], dp_in_flight_per_device := [],
            dp_correlation := clear (dp_correlation s1), dp_stopping := dp_stopping s1 - 1\<rparr>)"

subsection \<open>The worker\<close>

text \<open>The start of an iteration; an error ends the worker.\<close>

definition worker_expire :: "seconds \<Rightarrow> dispatcher \<Rightarrow> dispatcher" where
  "worker_expire now s =
     (if \<not> dp_running s then s\<lparr>dp_worker := Finished\<rparr>
      else case expire_stale now (dp_correlation s) of
        (Inl e, c) \<Rightarrow> s\<lparr>dp_correlation := c, dp_worker := Crashed e\<rparr>
      | (Inr rs, c) \<Rightarrow>
          (case complete_timeouts now rs (s\<lparr>dp_correlation := c\<rparr>) of
             (Inl e, s1) \<Rightarrow> s1\<lparr>dp_worker := Crashed e\<rparr> | (Inr u, s1) \<Rightarrow> s1\<lparr>dp_worker := Polling\<rparr>))"

definition finish_expired :: "seconds \<Rightarrow> command_request \<Rightarrow> dispatcher \<Rightarrow> dispatcher" where
  "finish_expired now r s =
     (case complete_timeout now r s of
        (Inl e, s1) \<Rightarrow> s1\<lparr>dp_worker := Crashed e\<rparr> | (Inr u, s1) \<Rightarrow> s1\<lparr>dp_worker := Idle\<rparr>)"

text \<open>\<open>r\<close> is the entry that \<^verbatim>\<open>get\<close> takes off the heap; when the heap compares two entries of equal
  rank the entry is lost.\<close>

definition least_entry :: "command_request \<Rightarrow> dispatcher \<Rightarrow> bool" where
  "least_entry r s \<longleftrightarrow> r \<in> set (dp_queue s) \<and> (\<forall>q \<in> set (dp_queue s). \<not> rank_less q r)"

definition worker_get :: "seconds \<Rightarrow> bool \<Rightarrow> command_request \<Rightarrow> dispatcher \<Rightarrow> dispatcher" where
  "worker_get now compares r s =
     (let s1 = s\<lparr>dp_queue := remove1 r (dp_queue s)\<rparr> in
      if compares \<and> \<not> distinct (map rank (dp_queue s)) then s1\<lparr>dp_worker := Crashed TypeError\<rparr>
      else if is_expired now r then finish_expired now r s1
      else s1\<lparr>dp_worker := Holding r\<rparr>)"

definition device_count :: "int \<Rightarrow> dispatcher \<Rightarrow> int" where
  "device_count node s = (case dict_get (dp_in_flight_per_device s) node of None \<Rightarrow> 0 | Some c \<Rightarrow> c)"

definition can_send :: "config \<Rightarrow> command_request \<Rightarrow> dispatcher \<Rightarrow> bool" where
  "can_send cfg r s \<longleftrightarrow> \<not> int (length (dp_in_flight s)) \<ge> cf_total_limit cfg
     \<and> device_count (cr_target_node r) s < cf_per_device_limit cfg"

definition launch :: "command_request \<Rightarrow> dispatcher \<Rightarrow> dispatcher" where
  "launch r s =
     (let s1 = s\<lparr>dp_in_flight := dict_set (cr_request_id r) r (dp_in_flight s)\<rparr>;
          s2 = s1\<lparr>dp_in_flight_per_device :=
             dict_set (cr_target_node r) (device_count (cr_target_node r) s1 + 1) (dp_in_flight_per_device s1)\<rparr>
      in s2\<lparr>dp_metrics := record_in_flight (length (dp_in_flight s2)) (dp_metrics s2),
            dp_tasks := dp_tasks s2 @ [\<lparr>st_request = r, st_start_time = 0, st_attempt = 0, st_retries_used = 0,
               st_last_error = None, st_phase = Created\<rparr>],
            dp_worker := Idle\<rparr>)"

text \<open>One round of the wait for capacity.\<close>

definition worker_try :: "config \<Rightarrow> seconds \<Rightarrow> command_request \<Rightarrow> dispatcher \<Rightarrow> dispatcher" where
  "worker_try cfg now r s =
     (if \<not> dp_running s then s\<lparr>dp_worker := Finished\<rparr>
      else if is_expired now r then finish_expired now r s
      else if can_send cfg r s then launch r s
      else s)"

subsection \<open>The send tasks\<close>

text \<open>The \<^verbatim>\<open>finally\<close> block of \<^verbatim>\<open>_send_with_retry\<close>, and the end of the task.\<close>

definition remove_at :: "nat \<Rightarrow> 'a list \<Rightarrow> 'a list" where
  "remove_at i xs = take i xs @ drop (Suc i) xs"

definition end_task :: "nat \<Rightarrow> command_request \<Rightarrow> dispatcher \<Rightarrow> dispatcher" where
  "end_task i r s =
     (let s1 = s\<lparr>dp_in_flight := dict_pop (cr_request_id r) (dp_in_flight s), dp_tasks := remove_at i (dp_tasks s)\<rparr>;
          c = device_count (cr_target_node r) s1
      in if c > 0 then s1\<lparr>dp_in_flight_per_device := dict_set (cr_target_node r) (c - 1) (dp_in_flight_per_device s1)\<rparr>
         else s1)"

text \<open>After the loop: an error result.  Without an error to report its construction fails, and the
  task ends with that exception.\<close>

definition give_up :: "seconds \<Rightarrow> nat \<Rightarrow> send_task \<Rightarrow> dispatcher \<Rightarrow> dispatcher" where
  "give_up now i t s =
     (let r = st_request t in
      case make_command_result \<lparr>cs_request_id = cr_request_id r, cs_status = Error, cs_response_data = None,
          cs_latency_ms = (now - st_start_time t) * 1000, cs_retries_used = int (st_retries_used t),
          cs_error = st_last_error t\<rparr> of
        Inl e \<Rightarrow> end_task i r s
      | Inr result \<Rightarrow> end_task i r (complete_request r result s))"

text \<open>The \<^verbatim>\<open>except\<close> clause of an attempt.  Exceptions that it does not name end the task.\<close>

definition absorbed :: "py_error \<Rightarrow> bool" where
  "absorbed e \<longleftrightarrow> isinstance e OSError \<or> isinstance e TimeoutError \<or> isinstance e TuyaBLEMeshError"

definition attempt_failed :: "seconds \<Rightarrow> nat \<Rightarrow> send_task \<Rightarrow> py_error \<Rightarrow> dispatcher \<Rightarrow> dispatcher" where
  "attempt_failed now i t e s =
     (if \<not> absorbed e then end_task i (st_request t) s
      else let t1 = t\<lparr>st_last_error := Some e, st_retries_used := st_retries_used t + 1\<rparr> in
        if int (st_attempt t) \<ge> rp_max_retries (cr_retry_policy (st_request t)) then give_up now i t1 s
        else s\<lparr>dp_tasks := (dp_tasks s)[i := t1\<lparr>st_phase := Backing_off\<rparr>]\<rparr>)"

text \<open>The sleep before the next attempt; \<open>u\<close> is the random number.\<close>

definition backoff_delay :: "retry_policy \<Rightarrow> nat \<Rightarrow> rat \<Rightarrow> seconds" where
  "backoff_delay rp attempt u =
     (let backoff = min (rp_backoff_base rp * 2 ^ attempt) (rp_backoff_max rp) in
      if rp_jitter rp > 0 then backoff + backoff * rp_jitter rp * (u * 2 - 1) else backoff)"

definition begin_task :: "seconds \<Rightarrow> nat \<Rightarrow> send_task \<Rightarrow> dispatcher \<Rightarrow> dispatcher" where
  "begin_task now i t s = s\<lparr>dp_tasks := (dp_tasks s)[i := t\<lparr>st_start_time := now, st_phase := Attempting\<rparr>]\<rparr>"

text \<open>An attempt up to the call of the send callback.\<close>

definition attempt :: "seconds \<Rightarrow> int res \<Rightarrow> nat \<Rightarrow> send_task \<Rightarrow> dispatcher \<Rightarrow> dispatcher" where
  "attempt now sequence i t s =
     (let r = st_request t in
      if int (st_attempt t) \<ge> rp_max_retries (cr_retry_policy r) + 1 \<or> \<not> dp_running s \<or> is_expired now r
      then give_up now i t s
      else case sequence of Inl e \<Rightarrow> attempt_failed now i t e s
      | Inr q \<Rightarrow>
         (case (if cr_expected_response_opcode r \<noteq> None then register r q (dp_correlation s)
                else (Inr (make_key r q), dp_correlation s)) of
            (Inl e, c) \<Rightarrow> attempt_failed now i t e (s\<lparr>dp_correlation := c\<rparr>)
          | (Inr k, c) \<Rightarrow> s\<lparr>dp_correlation := c, dp_tasks := (dp_tasks s)[i := t\<lparr>st_phase := Sending\<rparr>]\<rparr>))"

definition attempt_succeeded :: "seconds \<Rightarrow> nat \<Rightarrow> send_task \<Rightarrow> bytes \<Rightarrow> dispatcher \<Rightarrow> dispatcher" where
  "attempt_succeeded now i t response_data s =
     (let r = st_request t in
      case make_command_result \<lparr>cs_request_id = cr_request_id r, cs_status = Success,
          cs_response_data = Some response_data, cs_latency_ms = (now - st_start_time t) * 1000,
          cs_retries_used = int (st_retries_used t), cs_error = None\<rparr> of
        Inl e \<Rightarrow> attempt_failed now i t e s
      | Inr result \<Rightarrow> end_task i r (complete_request r result s))"

text \<open>The sleep is over.\<close>

definition next_attempt :: "nat \<Rightarrow> send_task \<Rightarrow> dispatcher \<Rightarrow> dispatcher" where
  "next_attempt i t s =
     s\<lparr>dp_tasks := (dp_tasks s)[i := t\<lparr>st_attempt := st_attempt t + 1, st_phase := Attempting\<rparr>]\<rparr>"

subsection \<open>Steps\<close>

text \<open>Identifiers of requests are fresh (\<^verbatim>\<open>uuid4\<close>): none that is queued, held or being sent is enqueued
  again.\<close>

definition live_requests :: "dispatcher \<Rightarrow> command_request list" where
  "live_requests s = dp_queue s @ (case dp_worker s of Holding r \<Rightarrow> [r] | _ \<Rightarrow> []) @ map st_request (dp_tasks s)"

inductive dstep :: "config \<Rightarrow> dispatcher \<Rightarrow> dispatcher \<Rightarrow> bool" for cfg where
  dstep_start: "dstep cfg s (start s)"
| dstep_enqueue: "cr_request_id r \<notin> cr_request_id ` set (live_requests s)
    \<Longrightarrow> dstep cfg s (snd (enqueue cfg now compares r s))"
| dstep_expire: "dp_worker s = Idle \<Longrightarrow> dstep cfg s (worker_expire now s)"
| dstep_poll: "dp_worker s = Polling \<Longrightarrow> dp_queue s = [] \<Longrightarrow> dstep cfg s (s\<lparr>dp_worker := Idle\<rparr>)"
| dstep_get: "dp_worker s = Polling \<Longrightarrow> least_entry r s \<Longrightarrow> dstep cfg s (worker_get now compares r s)"
| dstep_try: "dp_worker s = Holding r \<Longrightarrow> dstep cfg s (worker_try cfg now r s)"
| dstep_begin: "i < length (dp_tasks s) \<Longrightarrow> t = dp_tasks s ! i \<Longrightarrow> st_phase t = Created
    \<Longrightarrow> dstep cfg s (begin_task now i t s)"
| dstep_attempt: "i < length (dp_tasks s) \<Longrightarrow> t = dp_tasks s ! i \<Longrightarrow> st_phase t = Attempting
    \<Longrightarrow> dstep cfg s (attempt now sequence i t s)"
| dstep_success: "i < length (dp_tasks s) \<Longrightarrow> t = dp_tasks s ! i \<Longrightarrow> st_phase t = Sending
    \<Longrightarrow> dstep cfg s (attempt_succeeded now i t data s)"
| dstep_failure: "i < length (dp_tasks s) \<Longrightarrow> t = dp_tasks s ! i \<Longrightarrow> st_phase t = Sending
    \<Longrightarrow> dstep cfg s (attempt_failed now i t e s)"
| dstep_wake: "i < length (dp_tasks s) \<Longrightarrow> t = dp_tasks s ! i \<Longrightarrow> st_phase t = Backing_off
    \<Longrightarrow> dstep cfg s (next_attempt i t s)"

inductive dstop :: "dispatcher \<Rightarrow> dispatcher \<Rightarrow> bool" where
  dstop_begin: "dstop s (stop_begin s)"
| dstop_end: "dp_stopping s > 0 \<Longrightarrow> dstop s (stop_end s)"

inductive_cases dstopE: "dstop s s'"

text \<open>The states a dispatcher gets to; \<open>stops\<close> says whether it may be stopped.\<close>

inductive reachable :: "config \<Rightarrow> bool \<Rightarrow> dispatcher \<Rightarrow> bool" for cfg stops where
  reachable_init: "reachable cfg stops make_dispatcher"
| reachable_step: "reachable cfg stops s \<Longrightarrow> dstep cfg s s' \<Longrightarrow> reachable cfg stops s'"
| reachable_stop: "reachable cfg stops s \<Longrightarrow> stops \<Longrightarrow> dstop s s' \<Longrightarrow> reachable cfg stops s'"

subsection \<open>In-flight limits\<close>

named_theorems frame_simps \<open>fields that an operation leaves alone\<close>

lemma set_result_frame [frame_simps]:
  "dp_in_flight (set_result f r s) = dp_in_flight s"
  "dp_in_flight_per_device (set_result f r s) = dp_in_flight_per_device s"
  "dp_tasks (set_result f r s) = dp_tasks s" "dp_queue (set_result f r s) = dp_queue s"
  "dp_worker (set_result f r s) = dp_worker s" "dp_stopping (set_result f r s) = dp_stopping s"
  "dp_running (set_result f r s) = dp_running s" "dp_correlation (set_result f r s) = dp_correlation s"
  "dp_result_futures (set_result f r s) = dp_result_futures s"
  by (simp_all add: set_result_def)

lemma complete_request_frame [frame_simps]:
  "dp_in_flight (complete_request q r s) = dp_in_flight s"
  "dp_in_flight_per_device (complete_request q r s) = dp_in_flight_per_device s"
  "dp_tasks (complete_request q r s) = dp_tasks s" "dp_queue (complete_request q r s) = dp_queue s"
  "dp_worker (complete_request q r s) = dp_worker s" "dp_stopping (complete_request q r s) = dp_stopping s"
  "dp_running (complete_request q r s) = dp_running s" "dp_correlation (complete_request q r s) = dp_correlation s"
  by (simp_all add: complete_request_def Let_def frame_simps split: option.splits)

lemma complete_timeout_frame [frame_simps]:
  "dp_in_flight (snd (complete_timeout now r s)) = dp_in_flight s"
  "dp_in_flight_per_device (snd (complete_timeout now r s)) = dp_in_flight_per_device s"
  "dp_tasks (snd (complete_timeout now r s)) = dp_tasks s" "dp_queue (snd (complete_timeout now r s)) = dp_queue s"
  "dp_worker (snd (complete_timeout now r s)) = dp_worker s" "dp_stopping (snd (complete_timeout now r s)) = dp_stopping s"
  "dp_running (snd (complete_timeout now r s)) = dp_running s"
  by (simp_all add: complete_timeout_def frame_simps split: sum.splits)

lemma complete_timeouts_frame [frame_simps]:
  "dp_in_flight (snd (complete_timeouts now rs s)) = dp_in_flight s
   \<and> dp_in_flight_per_device (snd (complete_timeouts now rs s)) = dp_in_flight_per_device s
   \<and> dp_tasks (snd (complete_timeouts now rs s)) = dp_tasks s \<and> dp_queue (snd (complete_timeouts now rs s)) = dp_queue s
   \<and> dp_worker (snd (complete_timeouts now rs s)) = dp_worker s \<and> dp_stopping (snd (complete_timeouts now rs s)) = dp_stopping s
   \<and> dp_running (snd (complete_timeouts now rs s)) = dp_running s"
proof (induction now rs s rule: complete_timeouts.induct)
  case (2 now r rs s)
  obtain x s1 where "complete_timeout now r s = (x, s1)" by fastforce
  with 2 complete_timeout_frame [of now r s] show ?case by (auto split: sum.splits)
qed simp

text \<open>The bookkeeping of what is being sent, against the requests of the send tasks.\<close>

definition node_count :: "int \<Rightarrow> (int, int) dict \<Rightarrow> int" where
  "node_count node d = (case dict_get d node of None \<Rightarrow> 0 | Some c \<Rightarrow> c)"

lemma device_count_node: "device_count node s = node_count node (dp_in_flight_per_device s)"
  by (simp add: device_count_def node_count_def)

lemma node_count_set: "node_count n (dict_set m c d) = (if n = m then c else node_count n d)"
  by (simp add: node_count_def dict_get_set)

definition sending_ok ::
  "config \<Rightarrow> (request_id, command_request) dict \<Rightarrow> (int, int) dict \<Rightarrow> command_request list \<Rightarrow> bool" where
  "sending_ok cfg flight counts rs \<longleftrightarrow> dict_ok flight \<and> fst ` set flight = cr_request_id ` set rs
     \<and> (\<forall>node. node_count node counts = int (length (filter (\<lambda>r. cr_target_node r = node) rs)))
     \<and> (\<forall>node. node_count node counts \<le> max 0 (cf_per_device_limit cfg))
     \<and> int (length flight) \<le> max 0 (cf_total_limit cfg)"

lemma sending_ok_launch:
  assumes ok: "sending_ok cfg flight counts rs" and new: "cr_request_id r \<notin> cr_request_id ` set rs"
    and total: "\<not> int (length flight) \<ge> cf_total_limit cfg"
    and device: "node_count (cr_target_node r) counts < cf_per_device_limit cfg"
  shows "sending_ok cfg (dict_set (cr_request_id r) r flight)
    (dict_set (cr_target_node r) (node_count (cr_target_node r) counts + 1) counts) (rs @ [r])"
proof -
  have f: "fst ` set (dict_set (cr_request_id r) r flight) = insert (cr_request_id r) (fst ` set flight)"
    using dom_update [of "cr_request_id r" r flight] by (simp add: dom_map_of_conv_image_fst)
  have k: "fst ` set flight = cr_request_id ` set rs"
    "node_count node counts = int (length (filter (\<lambda>r. cr_target_node r = node) rs))"
    "node_count node counts \<le> max 0 (cf_per_device_limit cfg)" for node
    using ok unfolding sending_ok_def by blast+
  show ?thesis
    unfolding sending_ok_def
  proof (intro conjI allI)
    show "dict_ok (dict_set (cr_request_id r) r flight)" using ok by (simp add: sending_ok_def dict_ok_set)
    show "int (length (dict_set (cr_request_id r) r flight)) \<le> max 0 (cf_total_limit cfg)"
      using total new k(1) by (simp add: length_dict_set)
    show "fst ` set (dict_set (cr_request_id r) r flight) = cr_request_id ` set (rs @ [r])"
      using k(1) by (simp add: f)
    show "node_count node (dict_set (cr_target_node r) (node_count (cr_target_node r) counts + 1) counts)
        = int (length (filter (\<lambda>r. cr_target_node r = node) (rs @ [r])))" for node
      by (simp add: node_count_set k(2))
    show "node_count node (dict_set (cr_target_node r) (node_count (cr_target_node r) counts + 1) counts)
        \<le> max 0 (cf_per_device_limit cfg)" for node
      using k(3) [of node] device by (auto simp: node_count_set max_def)
  qed
qed

lemma sending_ok_end:
  assumes ok: "sending_ok cfg flight counts (as @ r # bs)" and d: "distinct (map cr_request_id (as @ r # bs))"
  shows "sending_ok cfg (dict_pop (cr_request_id r) flight)
      (dict_set (cr_target_node r) (node_count (cr_target_node r) counts - 1) counts) (as @ bs)
    \<and> node_count (cr_target_node r) counts > 0"
proof -
  have f: "fst ` set (dict_pop (cr_request_id r) flight) = fst ` set flight - {cr_request_id r}"
    by (auto simp: dict_pop_filter)
  have len: "length (dict_pop (cr_request_id r) flight) \<le> length flight"
    by (simp add: dict_pop_filter)
  have k: "fst ` set flight = cr_request_id ` set (as @ r # bs)"
    "node_count node counts = int (length (filter (\<lambda>r. cr_target_node r = node) (as @ r # bs)))"
    "node_count node counts \<le> max 0 (cf_per_device_limit cfg)" for node
    using ok unfolding sending_ok_def by blast+
  have "sending_ok cfg (dict_pop (cr_request_id r) flight)
      (dict_set (cr_target_node r) (node_count (cr_target_node r) counts - 1) counts) (as @ bs)"
    unfolding sending_ok_def
  proof (intro conjI allI)
    show "dict_ok (dict_pop (cr_request_id r) flight)" using ok by (simp add: sending_ok_def dict_ok_pop)
    show "int (length (dict_pop (cr_request_id r) flight)) \<le> max 0 (cf_total_limit cfg)"
      using ok len by (simp add: sending_ok_def)
    show "fst ` set (dict_pop (cr_request_id r) flight) = cr_request_id ` set (as @ bs)"
      using d unfolding f k(1) by (simp add: image_Un Diff_insert_absorb)
    show "node_count node (dict_set (cr_target_node r) (node_count (cr_target_node r) counts - 1) counts)
        = int (length (filter (\<lambda>r. cr_target_node r = node) (as @ bs)))" for node
      by (simp add: node_count_set k(2))
    show "node_count node (dict_set (cr_target_node r) (node_count (cr_target_node r) counts - 1) counts)
        \<le> max 0 (cf_per_device_limit cfg)" for node
      using k(3) [of node] k(3) [of "cr_target_node r"] by (simp add: node_count_set)
  qed
  moreover have "node_count (cr_target_node r) counts > 0" by (simp add: k(2))
  ultimately show ?thesis by blast
qed

definition limits_inv :: "config \<Rightarrow> dispatcher \<Rightarrow> bool" where
  "limits_inv cfg s \<longleftrightarrow> sending_ok cfg (dp_in_flight s) (dp_in_flight_per_device s) (map st_request (dp_tasks s))
     \<and> distinct (map cr_request_id (live_requests s)) \<and> dp_stopping s = 0"

lemma limits_inv_frame:
  assumes "limits_inv cfg s" and "dp_in_flight s' = dp_in_flight s"
    and "dp_in_flight_per_device s' = dp_in_flight_per_device s"
    and "map st_request (dp_tasks s') = map st_request (dp_tasks s)" and "dp_stopping s' = dp_stopping s"
    and "distinct (map cr_request_id (live_requests s'))"
  shows "limits_inv cfg s'"
  using assms unfolding limits_inv_def by simp

lemma limits_inv_launch:
  assumes inv: "limits_inv cfg s" and w: "dp_worker s = Holding r" and c: "can_send cfg r s"
  shows "limits_inv cfg (launch r s)"
proof -
  have "cr_request_id r \<notin> cr_request_id ` set (map st_request (dp_tasks s))"
    using inv w by (auto simp: limits_inv_def live_requests_def)
  from sending_ok_launch [OF _ this] have
    "sending_ok cfg (dict_set (cr_request_id r) r (dp_in_flight s))
      (dict_set (cr_target_node r) (node_count (cr_target_node r) (dp_in_flight_per_device s) + 1)
        (dp_in_flight_per_device s)) (map st_request (dp_tasks s) @ [r])"
    using inv c by (simp add: limits_inv_def can_send_def device_count_node)
  moreover have "distinct (map cr_request_id (live_requests (launch r s)))"
    using inv w by (auto simp: limits_inv_def live_requests_def launch_def Let_def)
  ultimately show ?thesis
    using inv by (simp add: limits_inv_def launch_def Let_def device_count_node)
qed

lemma split_at: "i < length xs \<Longrightarrow> xs = take i xs @ xs ! i # drop (Suc i) xs"
  by (simp add: id_take_nth_drop)

lemma limits_inv_end_task:
  assumes inv: "limits_inv cfg s" and i: "i < length (dp_tasks s)" and r: "r = st_request (dp_tasks s ! i)"
  shows "limits_inv cfg (end_task i r s)"
proof -
  define as where "as = map st_request (take i (dp_tasks s))"
  define bs where "bs = map st_request (drop (Suc i) (dp_tasks s))"
  have split: "map st_request (dp_tasks s) = as @ r # bs"
    using arg_cong [OF split_at [OF i], of "map st_request"] by (simp add: as_def bs_def r)
  have rest: "map st_request (remove_at i (dp_tasks s)) = as @ bs"
    by (simp add: remove_at_def as_def bs_def)
  have d: "distinct (map cr_request_id (as @ r # bs))"
    using inv by (simp add: limits_inv_def live_requests_def split)
  have ok: "sending_ok cfg (dp_in_flight s) (dp_in_flight_per_device s) (as @ r # bs)"
    using inv by (simp add: limits_inv_def split)
  define front where "front = dp_queue s @ (case dp_worker s of Holding r \<Rightarrow> [r] | _ \<Rightarrow> [])"
  have live: "live_requests s = front @ as @ r # bs" "live_requests (end_task i r s) = front @ as @ bs"
    by (simp_all add: live_requests_def end_task_def Let_def split rest front_def)
  have "distinct (map cr_request_id (live_requests (end_task i r s)))"
    using inv by (simp add: limits_inv_def live)
  with sending_ok_end [OF ok d] inv rest show ?thesis
    by (simp add: limits_inv_def end_task_def Let_def device_count_node)
qed

text \<open>The other steps.\<close>

lemma limits_inv_same:
  assumes "limits_inv cfg s" and "dp_in_flight s' = dp_in_flight s"
    and "dp_in_flight_per_device s' = dp_in_flight_per_device s"
    and "map st_request (dp_tasks s') = map st_request (dp_tasks s)" and "dp_stopping s' = dp_stopping s"
    and "dp_queue s' = dp_queue s" and "dp_worker s' = dp_worker s \<or> (\<forall>r. dp_worker s' \<noteq> Holding r)"
  shows "limits_inv cfg s'"
proof (rule limits_inv_frame [OF assms(1-5)])
  have "distinct (map cr_request_id (live_requests s))" using assms(1) by (simp add: limits_inv_def)
  then show "distinct (map cr_request_id (live_requests s'))"
    using assms(4,6,7) by (auto simp: live_requests_def split: worker.splits)
qed

lemma limits_inv_complete_request: "limits_inv cfg s \<Longrightarrow> limits_inv cfg (complete_request r res s)"
  by (erule limits_inv_same) (simp_all add: frame_simps)

lemma limits_inv_correlation: "limits_inv cfg s \<Longrightarrow> limits_inv cfg (s\<lparr>dp_correlation := c\<rparr>)"
  by (erule limits_inv_same) simp_all

lemma limits_inv_task:
  assumes "limits_inv cfg s" "i < length (dp_tasks s)" "st_request t' = st_request (dp_tasks s ! i)"
  shows "limits_inv cfg (s\<lparr>dp_tasks := (dp_tasks s)[i := t']\<rparr>)"
proof -
  have "map st_request ((dp_tasks s)[i := t']) = map st_request (dp_tasks s)"
    using assms(2,3) by (simp add: map_update) (metis list_update_id nth_map)
  with assms(1) show ?thesis by (intro limits_inv_same [OF assms(1)]) simp_all
qed

lemma limits_inv_idle: "limits_inv cfg s \<Longrightarrow> (\<And>r. w \<noteq> Holding r) \<Longrightarrow> limits_inv cfg (s\<lparr>dp_worker := w\<rparr>)"
  by (erule limits_inv_same) simp_all

lemma limits_inv_finish_expired: "limits_inv cfg s \<Longrightarrow> limits_inv cfg (finish_expired now r s)"
  unfolding finish_expired_def complete_timeout_def
  by (auto intro: limits_inv_idle limits_inv_complete_request split: sum.splits)

lemma limits_inv_complete_timeouts: "limits_inv cfg s \<Longrightarrow> limits_inv cfg (snd (complete_timeouts now rs s))"
  by (erule limits_inv_same) (simp_all add: frame_simps)

lemma limits_inv_worker_expire:
  assumes "limits_inv cfg s" shows "limits_inv cfg (worker_expire now s)"
proof -
  obtain x c where e: "expire_stale now (dp_correlation s) = (x, c)" by fastforce
  have inv: "limits_inv cfg (s\<lparr>dp_correlation := c\<rparr>)" by (rule limits_inv_correlation [OF assms])
  then have "limits_inv cfg (snd (complete_timeouts now rs (s\<lparr>dp_correlation := c\<rparr>)))" for rs
    by (rule limits_inv_complete_timeouts)
  then have "limits_inv cfg (snd (complete_timeouts now rs (s\<lparr>dp_correlation := c\<rparr>))\<lparr>dp_worker := w\<rparr>)"
    if "\<And>r. w \<noteq> Holding r" for rs w using that by (rule limits_inv_idle)
  moreover have "limits_inv cfg (s\<lparr>dp_correlation := c, dp_worker := Crashed y\<rparr>)" for y
    using limits_inv_idle [OF inv] by simp
  moreover have "limits_inv cfg (s\<lparr>dp_worker := Finished\<rparr>)" using limits_inv_idle [OF assms] by simp
  ultimately show ?thesis
    by (auto simp: worker_expire_def e split: sum.splits prod.splits) (metis snd_conv worker.distinct)+
qed

lemma limits_inv_enqueue:
  assumes inv: "limits_inv cfg s" and fresh: "cr_request_id r \<notin> cr_request_id ` set (live_requests s)"
  shows "limits_inv cfg (snd (enqueue cfg now compares r s))"
proof -
  have "distinct (map cr_request_id (live_requests s))" using inv by (simp add: limits_inv_def)
  then have "distinct (map cr_request_id (live_requests (snd (enqueue cfg now compares r s))))"
    using fresh by (auto simp: enqueue_def new_future_def Let_def live_requests_def split: sum.splits option.splits)
  then show ?thesis
    by (intro limits_inv_frame [OF inv])
      (simp_all add: enqueue_def new_future_def Let_def split: sum.splits option.splits)
qed

lemma distinct_map_remove1:
  "distinct (map f xs) \<Longrightarrow> x \<in> set xs \<Longrightarrow>
     distinct (map f (remove1 x xs)) \<and> f ` set (remove1 x xs) = f ` set xs - {f x}"
  by (induction xs) auto

lemma limits_inv_worker_get:
  assumes inv: "limits_inv cfg s" and w: "dp_worker s = Polling" and r: "least_entry r s"
  shows "limits_inv cfg (worker_get now compares r s)"
proof -
  have q: "r \<in> set (dp_queue s)" using r by (simp add: least_entry_def)
  have all: "distinct (map cr_request_id (dp_queue s @ map st_request (dp_tasks s)))"
    using inv w by (simp add: limits_inv_def live_requests_def)
  then have "distinct (map cr_request_id (dp_queue s))" by simp
  from distinct_map_remove1 [OF this q] all q
  have d: "distinct (map cr_request_id (remove1 r (dp_queue s) @ [r] @ map st_request (dp_tasks s)))" by auto
  have "limits_inv cfg (s\<lparr>dp_queue := remove1 r (dp_queue s)\<rparr>)"
    by (rule limits_inv_frame [OF inv]) (use d w in \<open>auto simp: live_requests_def\<close>)
  moreover have "limits_inv cfg (s\<lparr>dp_queue := remove1 r (dp_queue s), dp_worker := Holding r\<rparr>)"
    by (rule limits_inv_frame [OF inv]) (use d in \<open>auto simp: live_requests_def\<close>)
  ultimately show ?thesis
    by (auto simp: worker_get_def Let_def intro: limits_inv_finish_expired dest: limits_inv_idle [where w = "Crashed TypeError"])
qed

lemma limits_inv_give_up:
  assumes "limits_inv cfg s" "i < length (dp_tasks s)" "st_request t = st_request (dp_tasks s ! i)"
  shows "limits_inv cfg (give_up now i t s)"
  using assms unfolding give_up_def Let_def
  by (auto intro!: limits_inv_end_task limits_inv_complete_request simp: frame_simps split: sum.splits)

lemma limits_inv_attempt_failed:
  assumes "limits_inv cfg s" "i < length (dp_tasks s)" "st_request t = st_request (dp_tasks s ! i)"
  shows "limits_inv cfg (attempt_failed now i t e s)"
  using assms unfolding attempt_failed_def Let_def
  by (auto intro!: limits_inv_end_task limits_inv_give_up limits_inv_task)

lemma limits_inv_attempt:
  assumes inv: "limits_inv cfg s" and i: "i < length (dp_tasks s)" "st_request t = st_request (dp_tasks s ! i)"
  shows "limits_inv cfg (attempt now sequence i t s)"
proof -
  have "limits_inv cfg (s\<lparr>dp_correlation := c, dp_tasks := (dp_tasks s)[i := t\<lparr>st_phase := Sending\<rparr>]\<rparr>)" for c
    using limits_inv_task [OF limits_inv_correlation [OF inv], where i = i and t' = "t\<lparr>st_phase := Sending\<rparr>"] i by simp
  moreover have "limits_inv cfg (s\<lparr>dp_tasks := (dp_tasks s)[i := t\<lparr>st_phase := Sending\<rparr>]\<rparr>)"
    by (rule limits_inv_task [OF inv]) (use i in simp_all)
  moreover have "limits_inv cfg (attempt_failed now i t e (s\<lparr>dp_correlation := c\<rparr>))" for e c
    by (rule limits_inv_attempt_failed [OF limits_inv_correlation [OF inv]]) (use i in simp_all)
  ultimately show ?thesis
    using limits_inv_give_up [OF inv i] limits_inv_attempt_failed [OF inv i]
    by (simp add: attempt_def Let_def split: sum.splits prod.splits)
qed

lemma dstep_limits_inv: "dstep cfg s s' \<Longrightarrow> limits_inv cfg s \<Longrightarrow> limits_inv cfg s'"
proof (induction rule: dstep.induct)
  case (dstep_start s)
  then show ?case by (auto simp: start_def intro: limits_inv_same)
next
  case (dstep_try s r now)
  then show ?case
    by (auto simp: worker_try_def intro: limits_inv_idle limits_inv_finish_expired limits_inv_launch)
next
  case (dstep_success i s t now data)
  then show ?case
    unfolding attempt_succeeded_def Let_def
    by (auto intro!: limits_inv_end_task limits_inv_complete_request limits_inv_attempt_failed
        simp: frame_simps split: sum.splits)
next
  case (dstep_begin i s t now)
  then show ?case unfolding begin_task_def by (intro limits_inv_task) simp_all
next
  case (dstep_wake i s t)
  then show ?case unfolding next_attempt_def by (intro limits_inv_task) simp_all
qed (simp_all add: limits_inv_enqueue limits_inv_worker_expire limits_inv_worker_get limits_inv_attempt_failed
    limits_inv_idle limits_inv_attempt)

text \<open>C6: While a dispatcher is not stopped, the send tasks alive at any moment are at most
  \<^verbatim>\<open>total_limit\<close>, and those for one node at most \<^verbatim>\<open>per_device_limit\<close>, in every interleaving of the
  worker, the tasks and the callers, and whatever the sends return or raise.\<close>

theorem limits_respected:
  assumes "reachable cfg False s"
  shows "int (length (dp_tasks s)) \<le> max 0 (cf_total_limit cfg)
    \<and> int (length (filter (\<lambda>t. cr_target_node (st_request t) = node) (dp_tasks s)))
        \<le> max 0 (cf_per_device_limit cfg)"
proof -
  have inv: "limits_inv cfg s"
    using assms
  proof (induction rule: reachable.induct)
    case reachable_init
    show ?case
      by (auto simp: limits_inv_def sending_ok_def make_dispatcher_def live_requests_def node_count_def)
  qed (auto intro: dstep_limits_inv)
  let ?rs = "map st_request (dp_tasks s)"
  have ok: "dict_ok (dp_in_flight s)" "fst ` set (dp_in_flight s) = cr_request_id ` set ?rs"
    "int (length (dp_in_flight s)) \<le> max 0 (cf_total_limit cfg)"
    "node_count node (dp_in_flight_per_device s) = int (length (filter (\<lambda>r. cr_target_node r = node) ?rs))"
    "node_count node (dp_in_flight_per_device s) \<le> max 0 (cf_per_device_limit cfg)"
    using inv unfolding limits_inv_def sending_ok_def by blast+
  have "distinct (map cr_request_id ?rs)" using inv by (simp add: limits_inv_def live_requests_def)
  then have "length (dp_in_flight s) = length (dp_tasks s)"
    using distinct_card [OF ok(1)] distinct_card [of "map cr_request_id ?rs"] ok(2)
    by (simp add: image_image)
  with ok show ?thesis by (simp add: filter_map comp_def)
qed

text \<open>A run: one request is taken from the queue and its task has started.\<close>

definition demo_config :: config where
  "demo_config = \<lparr>cf_per_device_limit = 1, cf_total_limit = 32, cf_coalesce_window_ms = 50\<rparr>"

definition sent_one :: "command_request \<Rightarrow> dispatcher \<Rightarrow> dispatcher" where
  "sent_one r s = worker_try demo_config 0 r (worker_get 0 False r
     (worker_expire 0 (snd (enqueue demo_config 0 False r (start s)))))"

lemma reachable_sent_one:
  assumes "reachable demo_config stops s"
    and "cr_request_id r \<notin> cr_request_id ` set (live_requests (start s))"
    and "dp_worker (snd (enqueue demo_config 0 False r (start s))) = Idle"
    and "dp_worker (worker_expire 0 (snd (enqueue demo_config 0 False r (start s)))) = Polling"
    and "least_entry r (worker_expire 0 (snd (enqueue demo_config 0 False r (start s))))"
    and "dp_worker (worker_get 0 False r (worker_expire 0 (snd (enqueue demo_config 0 False r (start s))))) = Holding r"
  shows "reachable demo_config stops (sent_one r s)"
  unfolding sent_one_def
  using assms by (intro reachable_step [OF reachable_step [OF reachable_step [OF reachable_step [OF reachable_step
    [OF assms(1) dstep_start] dstep_enqueue] dstep_expire] dstep_get] dstep_try]) simp_all

theorem limits_respected_witness:
  "\<exists>s. reachable demo_config False s \<and> length (dp_tasks s) = 1
     \<and> int (length (filter (\<lambda>t. cr_target_node (st_request t) = 5) (dp_tasks s))) \<le> 1"
proof -
  let ?s = "sent_one (demo_request 1 None) make_dispatcher"
  have r: "reachable demo_config False ?s"
    by (rule reachable_sent_one [OF reachable_init]) code_simp+
  have "length (dp_tasks ?s) = 1" by code_simp
  with r limits_respected [OF r, of 5] show ?thesis by (auto simp: demo_config_def)
qed

definition send_now :: "nat \<Rightarrow> int \<Rightarrow> dispatcher \<Rightarrow> dispatcher" where
  "send_now i q s = (let s1 = begin_task 0 i (dp_tasks s ! i) s in attempt 0 (Inr q) i (dp_tasks s1 ! i) s1)"

lemma reachable_send_now:
  assumes "reachable cfg stops s" and "i < length (dp_tasks s)" and "st_phase (dp_tasks s ! i) = Created"
  shows "reachable cfg stops (send_now i q s)"
proof -
  have "reachable cfg stops (begin_task 0 i (dp_tasks s ! i) s)"
    by (rule reachable_step [OF assms(1)]) (rule dstep_begin [OF assms(2) refl assms(3)])
  then show ?thesis
    unfolding send_now_def Let_def
    by (rule reachable_step) (rule dstep_attempt, use assms(2) in \<open>simp_all add: begin_task_def\<close>)
qed

text \<open>After \<^verbatim>\<open>stop\<close> and \<^verbatim>\<open>start\<close> the limits no longer hold: \<^verbatim>\<open>stop\<close> clears the counters but lets the
  send tasks run, so with a limit of one command per device two can be in flight to one node.\<close>

theorem restart_exceeds_limit:
  "\<exists>s. reachable demo_config True s \<and> cf_per_device_limit demo_config = 1
     \<and> length (filter (\<lambda>t. cr_target_node (st_request t) = 5 \<and> st_phase t = Sending) (dp_tasks s)) = 2"
proof -
  let ?a = "sent_one (demo_request 1 None) make_dispatcher"
  let ?b = "send_now 0 1 ?a"
  let ?c = "stop_end (stop_begin ?b)"
  let ?d = "sent_one (demo_request 2 None) ?c"
  let ?e = "send_now 1 2 ?d"
  have a: "reachable demo_config True ?a" by (rule reachable_sent_one [OF reachable_init]) code_simp+
  have b: "reachable demo_config True ?b" by (rule reachable_send_now [OF a]) code_simp+
  have "reachable demo_config True (stop_begin ?b)" by (rule reachable_stop [OF b TrueI dstop_begin])
  then have c: "reachable demo_config True ?c" by (rule reachable_stop) (simp, rule dstop_end, code_simp)
  have d: "reachable demo_config True ?d" by (rule reachable_sent_one [OF c]) code_simp+
  have "reachable demo_config True ?e" by (rule reachable_send_now [OF d]) code_simp+
  moreover have "length (filter (\<lambda>t. cr_target_node (st_request t) = 5 \<and> st_phase t = Sending) (dp_tasks ?e)) = 2"
    by code_simp
  ultimately show ?thesis by (auto simp: demo_config_def)
qed

subsection \<open>Futures\<close>

definition futures_kept :: "dispatcher \<Rightarrow> dispatcher \<Rightarrow> bool" where
  "futures_kept s s' \<longleftrightarrow> (\<forall>f r. f < length (dp_futures s) \<and> dp_futures s ! f = Some r \<longrightarrow>
     f < length (dp_futures s') \<and> dp_futures s' ! f = Some r)"

lemma futures_kept_refl: "dp_futures s' = dp_futures s \<Longrightarrow> futures_kept s s'"
  by (simp add: futures_kept_def)

lemma futures_kept_trans: "futures_kept s s1 \<Longrightarrow> dp_futures s' = dp_futures s1 \<Longrightarrow> futures_kept s s'"
  by (simp add: futures_kept_def)

lemma futures_kept_comp: "futures_kept s s1 \<Longrightarrow> futures_kept s1 s2 \<Longrightarrow> futures_kept s s2"
  unfolding futures_kept_def by blast

lemma futures_kept_set: "dp_futures s1 = dp_futures s \<Longrightarrow> \<not> future_done s1 f \<Longrightarrow> futures_kept s (set_result f r s1)"
  by (auto simp: futures_kept_def set_result_def future_done_def) (metis nth_list_update_neq option.distinct(1))

lemma futures_kept_complete_request: "futures_kept s (complete_request r res s)"
proof (cases "dict_get (dp_result_futures s) (cr_request_id r)")
  case None
  then show ?thesis by (intro futures_kept_refl) (simp add: complete_request_def Let_def)
next
  case (Some f)
  then show ?thesis
    by (auto simp: complete_request_def Let_def intro: futures_kept_refl futures_kept_set)
qed

lemma futures_kept_complete_timeout: "futures_kept s (snd (complete_timeout now r s))"
  by (auto simp: complete_timeout_def intro: futures_kept_refl futures_kept_complete_request split: sum.splits)

lemma futures_kept_complete_timeouts: "futures_kept s (snd (complete_timeouts now rs s))"
proof (induction now rs s rule: complete_timeouts.induct)
  case (2 now r rs s)
  obtain x s1 where x: "complete_timeout now r s = (x, s1)" by fastforce
  then have "futures_kept s s1" using futures_kept_complete_timeout [of s now r] by simp
  with 2 x show ?case by (cases x) (auto intro: futures_kept_comp)
qed (simp add: futures_kept_refl)

lemma futures_kept_cancel: "futures_kept s (cancel_futures items s)"
proof (induction items s rule: cancel_futures.induct)
  case (2 rid f items s)
  have "futures_kept s (if \<not> future_done s f then set_result f (cancelled_result rid) s else s)"
    by (auto intro: futures_kept_refl futures_kept_set)
  with 2 show ?case by (auto intro: futures_kept_comp)
qed (simp add: futures_kept_refl)

lemma end_task_futures [frame_simps]: "dp_futures (end_task i r s) = dp_futures s"
  by (simp add: end_task_def Let_def)

lemma futures_kept_give_up: "futures_kept s (give_up now i t s)"
  unfolding give_up_def Let_def
  by (auto intro: futures_kept_refl futures_kept_trans [OF futures_kept_complete_request] simp: frame_simps split: sum.splits)

lemma futures_kept_attempt_failed: "futures_kept s (attempt_failed now i t e s)"
  unfolding attempt_failed_def Let_def by (auto intro: futures_kept_refl futures_kept_give_up simp: frame_simps)

lemma futures_kept_attempt: "futures_kept s (attempt now q i t s)"
proof -
  have "futures_kept s (attempt_failed now i t e (s\<lparr>dp_correlation := c\<rparr>))" for e c
    using futures_kept_comp [OF futures_kept_refl futures_kept_attempt_failed, of "s\<lparr>dp_correlation := c\<rparr>" s] by simp
  then show ?thesis
    by (auto simp: attempt_def Let_def intro: futures_kept_refl futures_kept_give_up futures_kept_attempt_failed
        split: sum.splits prod.splits)
qed

lemma futures_kept_finish_expired: "futures_kept s (finish_expired now r s)"
  using futures_kept_complete_timeout [of s now r]
  by (auto simp: finish_expired_def split: sum.splits prod.splits elim: futures_kept_trans)

lemma futures_kept_worker_expire: "futures_kept s (worker_expire now s)"
proof -
  have kept: "futures_kept s (snd (complete_timeouts now rs (s\<lparr>dp_correlation := c\<rparr>)))" for rs c
    using futures_kept_comp [OF futures_kept_refl futures_kept_complete_timeouts, of "s\<lparr>dp_correlation := c\<rparr>" s] by simp
  have "complete_timeouts now rs (s\<lparr>dp_correlation := c\<rparr>) = (x, s1) \<Longrightarrow>
      futures_kept s (s1\<lparr>dp_worker := w\<rparr>)" for rs c x s1 w
  proof -
    assume "complete_timeouts now rs (s\<lparr>dp_correlation := c\<rparr>) = (x, s1)"
    with kept [of rs c] have "futures_kept s s1" by simp
    then show ?thesis by (rule futures_kept_trans) simp
  qed
  then show ?thesis
    by (auto simp: worker_expire_def intro: futures_kept_refl futures_kept_trans split: sum.splits prod.splits)
qed

lemma futures_kept_enqueue: "futures_kept s (snd (enqueue cfg now compares r s))"
  by (auto simp: enqueue_def new_future_def Let_def futures_kept_def nth_append split: sum.splits option.splits)

lemma futures_kept_worker_get: "futures_kept s (worker_get now compares r s)"
  using futures_kept_comp [OF futures_kept_refl futures_kept_finish_expired, of "s\<lparr>dp_queue := remove1 r (dp_queue s)\<rparr>" s now r]
  by (auto simp: worker_get_def Let_def intro: futures_kept_refl)

lemma dstep_futures_kept: "dstep cfg s s' \<Longrightarrow> futures_kept s s'"
proof (induction rule: dstep.induct)
  case (dstep_success i s t now data)
  show ?case
    unfolding attempt_succeeded_def Let_def
    by (auto intro: futures_kept_refl futures_kept_attempt_failed futures_kept_trans [OF futures_kept_complete_request]
        simp: frame_simps split: sum.splits)
next
  case (dstep_start s)
  show ?case by (auto simp: start_def intro: futures_kept_refl)
next
  case (dstep_try s r now)
  show ?case
    by (auto simp: worker_try_def launch_def Let_def intro: futures_kept_refl futures_kept_finish_expired)
next
  case (dstep_begin i s t now)
  show ?case by (simp add: begin_task_def futures_kept_refl)
next
  case (dstep_wake i s t)
  show ?case by (simp add: next_attempt_def futures_kept_refl)
qed (auto intro: futures_kept_enqueue futures_kept_worker_expire futures_kept_worker_get futures_kept_attempt_failed
    futures_kept_attempt futures_kept_refl)

lemma dstop_futures_kept: "dstop s s' \<Longrightarrow> futures_kept s s'"
  by (erule dstopE) (auto simp: stop_begin_def stop_end_def Let_def
      intro: futures_kept_refl futures_kept_trans [OF futures_kept_cancel] split: worker.splits)

definition any_step :: "config \<Rightarrow> dispatcher \<Rightarrow> dispatcher \<Rightarrow> bool" where
  "any_step cfg s s' \<longleftrightarrow> dstep cfg s s' \<or> dstop s s'"

text \<open>C30: A future is resolved at most once: whatever steps follow, including stops, restarts, late
  answers and expiries, a future keeps the first result it was given.\<close>

theorem futures_resolved_once:
  assumes "(any_step cfg)\<^sup>*\<^sup>* s s'" and "f < length (dp_futures s)" and "dp_futures s ! f = Some r"
  shows "f < length (dp_futures s') \<and> dp_futures s' ! f = Some r"
proof -
  have "futures_kept s s'"
    using assms(1)
  proof (induction rule: rtranclp_induct)
    case (step t u)
    then show ?case
      unfolding any_step_def by (blast intro: futures_kept_comp dstep_futures_kept dstop_futures_kept)
  qed (simp add: futures_kept_refl)
  with assms(2,3) show ?thesis by (simp add: futures_kept_def)
qed

theorem futures_resolved_once_witness:
  "\<exists>s'. (any_step demo_config)\<^sup>*\<^sup>* (snd (enqueue demo_config 100 False (demo_request 1 None) make_dispatcher)) s'
     \<and> dp_running s' \<and> 0 < length (dp_futures s')
     \<and> dp_futures s' ! 0 = Some \<lparr>cs_request_id = 1, cs_status = Timeout, cs_response_data = None,
         cs_latency_ms = 100000, cs_retries_used = 0, cs_error = None\<rparr>"
proof -
  let ?s = "snd (enqueue demo_config 100 False (demo_request 1 None) make_dispatcher)"
  have r: "(any_step demo_config)\<^sup>*\<^sup>* ?s (start ?s)"
    by (rule r_into_rtranclp) (simp add: any_step_def dstep_start)
  have f: "0 < length (dp_futures ?s)" "dp_futures ?s ! 0 = Some \<lparr>cs_request_id = 1, cs_status = Timeout,
      cs_response_data = None, cs_latency_ms = 100000, cs_retries_used = 0, cs_error = None\<rparr>" "dp_running (start ?s)"
    by code_simp+
  show ?thesis using futures_resolved_once [OF r f(1,2)] r f(3) by blast
qed

subsection \<open>The result of a command\<close>

text \<open>
  A send task run to its end, alone: \<open>xs ! k\<close> is how the k-th call of the send callback ends, if it
  is made, and the k-th sequence number is \<open>q + k\<close>.
\<close>

fun drive :: "seconds \<Rightarrow> int \<Rightarrow> bytes res list \<Rightarrow> dispatcher \<Rightarrow> dispatcher" where
  "drive now q [] s = s"
| "drive now q (x # xs) s =
     (case dp_tasks s of [] \<Rightarrow> s
      | t # ts \<Rightarrow>
         (let s1 = attempt now (Inr q) 0 t s in
          case dp_tasks s1 of [] \<Rightarrow> s1
          | t1 # ts1 \<Rightarrow>
             (let s2 = (if st_phase t1 = Sending then
                  (case x of Inr d \<Rightarrow> attempt_succeeded now 0 t1 d s1 | Inl e \<Rightarrow> attempt_failed now 0 t1 e s1) else s1)
              in case dp_tasks s2 of [] \<Rightarrow> s2 | t2 # ts2 \<Rightarrow> drive now (q + 1) xs (next_attempt 0 t2 s2))))"

text \<open>What the attempts are meant to give: the first success, or the last error.\<close>

fun outcome :: "nat \<Rightarrow> bytes res list \<Rightarrow> py_error option \<Rightarrow> status \<times> bytes option \<times> int \<times> py_error option" where
  "outcome k [] err = (Error, None, int k, err)"
| "outcome k (Inr d # xs) err = (Success, Some d, int k, None)"
| "outcome k (Inl e # xs) err = outcome (Suc k) xs (Some e)"

definition result_is :: "future \<Rightarrow> status \<times> bytes option \<times> int \<times> py_error option \<Rightarrow> dispatcher \<Rightarrow> bool" where
  "result_is f out s \<longleftrightarrow> (\<exists>r. f < length (dp_futures s) \<and> dp_futures s ! f = Some r
     \<and> out = (cs_status r, cs_response_data r, cs_retries_used r, cs_error r))"

text \<open>A task that is about to make its k-th attempt of \<open>n + 1\<close>, and the future of its request.\<close>

definition task_ready :: "seconds \<Rightarrow> nat \<Rightarrow> nat \<Rightarrow> future \<Rightarrow> dispatcher \<Rightarrow> send_task \<Rightarrow> bool" where
  "task_ready now n k f s t \<longleftrightarrow> dp_tasks s = [t] \<and> st_attempt t = k \<and> st_retries_used t = k
     \<and> st_start_time t \<le> now \<and> rp_max_retries (cr_retry_policy (st_request t)) = int n
     \<and> dp_running s \<and> \<not> is_expired now (st_request t)
     \<and> dict_get (dp_result_futures s) (cr_request_id (st_request t)) = Some f
     \<and> f < length (dp_futures s) \<and> dp_futures s ! f = None"

lemma complete_request_sets:
  assumes "dict_get (dp_result_futures s) (cr_request_id r) = Some f" "f < length (dp_futures s)" "dp_futures s ! f = None"
  shows "dp_futures (complete_request r res s) = (dp_futures s)[f := Some res]"
  using assms by (simp add: complete_request_def Let_def future_done_def set_result_def)

lemma give_up_result:
  assumes "dict_get (dp_result_futures s) (cr_request_id (st_request t)) = Some f" "f < length (dp_futures s)"
    "dp_futures s ! f = None" "st_start_time t \<le> now" "st_last_error t = Some e"
  shows "result_is f (Error, None, int (st_retries_used t), Some e) (give_up now i t s)"
  using assms complete_request_sets [OF assms(1-3)]
  by (simp add: give_up_def Let_def make_command_result_def result_is_def frame_simps)

lemma attempt_failed_absorbed:
  assumes r: "task_ready now n k f s t0" and t: "st_request t = st_request t0" "st_attempt t = k" "st_retries_used t = k"
      "st_start_time t = st_start_time t0"
    and e: "absorbed e" and s1: "dp_tasks s1 = [t]" "dp_running s1 = dp_running s" "dp_result_futures s1 = dp_result_futures s"
      "dp_futures s1 = dp_futures s" and kn: "k \<le> n"
  shows "if k = n then dp_tasks (attempt_failed now 0 t e s1) = [] \<and>
        result_is f (Error, None, int (Suc k), Some e) (attempt_failed now 0 t e s1)
      else \<exists>t2. dp_tasks (attempt_failed now 0 t e s1) = [t2] \<and> st_phase t2 = Backing_off
        \<and> task_ready now n (Suc k) f (next_attempt 0 t2 (attempt_failed now 0 t e s1)) (t2\<lparr>st_attempt := Suc k, st_phase := Attempting\<rparr>)
        \<and> st_request t2 = st_request t0 \<and> st_last_error t2 = Some e
        \<and> dp_correlation (attempt_failed now 0 t e s1) = dp_correlation s1"
proof (cases "k = n")
  case True
  have "dp_tasks (give_up now 0 u s1) = []" if "st_request u = st_request t" for u
    using s1 that by (auto simp: give_up_def Let_def end_task_def remove_at_def frame_simps split: sum.splits)
  moreover have "result_is f (Error, None, int (Suc k), Some e)
      (give_up now 0 (t\<lparr>st_last_error := Some e, st_retries_used := Suc k\<rparr>) s1)"
    using give_up_result [of s1 "t\<lparr>st_last_error := Some e, st_retries_used := Suc k\<rparr>" f now e 0] r t s1
    by (simp add: task_ready_def)
  ultimately show ?thesis
    using True r t e by (simp add: attempt_failed_def Let_def task_ready_def)
next
  case False
  with r t e s1 kn show ?thesis
    by (simp add: attempt_failed_def Let_def task_ready_def next_attempt_def)
qed

lemma drive_fire_and_forget:
  assumes "task_ready now n k f s t" and "cr_expected_response_opcode (st_request t) = None"
    and "st_phase t = Attempting" and "length xs = n + 1 - k" and "k \<le> n" and "\<forall>e. Inl e \<in> set xs \<longrightarrow> absorbed e"
  shows "dp_tasks (drive now q xs s) = [] \<and> result_is f (outcome k xs (st_last_error t)) (drive now q xs s)"
  using assms
proof (induction xs arbitrary: k s t q)
  case (Cons x xs)
  let ?t1 = "t\<lparr>st_phase := Sending\<rparr>" let ?s1 = "s\<lparr>dp_tasks := [?t1]\<rparr>"
  have a: "attempt now (Inr q) 0 t s = ?s1"
    using Cons.prems(1,2,5) by (simp add: attempt_def Let_def task_ready_def)
  have ts: "dp_tasks s = [t]" using Cons.prems(1) by (simp add: task_ready_def)
  show ?case
  proof (cases x)
    case (Inr d)
    then show ?thesis
      using Cons.prems(1) a ts complete_request_sets [of ?s1 "st_request t" f]
      by (simp add: attempt_succeeded_def Let_def make_command_result_def task_ready_def result_is_def frame_simps)
        (simp add: end_task_def Let_def remove_at_def frame_simps)
  next
    case (Inl e)
    then have e: "absorbed e" using Cons.prems(6) by simp
    let ?s2 = "attempt_failed now 0 ?t1 e ?s1"
    have "if k = n then dp_tasks ?s2 = [] \<and> result_is f (Error, None, int (Suc k), Some e) ?s2
      else \<exists>t2. dp_tasks ?s2 = [t2] \<and> st_phase t2 = Backing_off
        \<and> task_ready now n (Suc k) f (next_attempt 0 t2 ?s2) (t2\<lparr>st_attempt := Suc k, st_phase := Attempting\<rparr>)
        \<and> st_request t2 = st_request t \<and> st_last_error t2 = Some e \<and> dp_correlation ?s2 = dp_correlation ?s1"
      by (rule attempt_failed_absorbed [OF Cons.prems(1) _ _ _ _ e])
        (use Cons.prems(1,5) in \<open>simp_all add: task_ready_def\<close>)
    then consider "k = n" "dp_tasks ?s2 = []" "result_is f (Error, None, int (Suc k), Some e) ?s2"
      | t2 where "k \<noteq> n" "dp_tasks ?s2 = [t2]" "task_ready now n (Suc k) f (next_attempt 0 t2 ?s2)
          (t2\<lparr>st_attempt := Suc k, st_phase := Attempting\<rparr>)" "st_request t2 = st_request t" "st_last_error t2 = Some e"
      by (cases "k = n") auto
    then show ?thesis
    proof cases
      case 1
      then have "xs = []" using Cons.prems(4) by simp
      with 1 Inl a ts show ?thesis by simp
    next
      case 2
      have d: "drive now q (x # xs) s = drive now (q + 1) xs (next_attempt 0 t2 ?s2)"
        using Inl a ts 2(2) by simp
      have "dp_tasks (drive now (q + 1) xs (next_attempt 0 t2 ?s2)) = []
        \<and> result_is f (outcome (Suc k) xs (st_last_error (t2\<lparr>st_attempt := Suc k, st_phase := Attempting\<rparr>)))
            (drive now (q + 1) xs (next_attempt 0 t2 ?s2))"
        by (rule Cons.IH [OF 2(3)]) (use 2 Cons.prems in auto)
      then show ?thesis unfolding d using Inl 2(5) by simp
    qed
  qed
qed simp

lemma drive_conflict:
  assumes "task_ready now n k f s t" and "cr_expected_response_opcode (st_request t) \<noteq> None"
    and "st_phase t = Attempting" and "length xs = n + 1 - k" and "k \<le> n"
    and "dict_get (ce_by_request_id (dp_correlation s)) (cr_request_id (st_request t)) \<noteq> None"
  shows "dp_tasks (drive now q xs s) = []
    \<and> result_is f (Error, None, int (n + 1), Some CorrelationConflictError) (drive now q xs s)"
  using assms
proof (induction xs arbitrary: k s t q)
  case (Cons x xs)
  have e: "absorbed CorrelationConflictError" by code_simp
  have ts: "dp_tasks s = [t]" using Cons.prems(1) by (simp add: task_ready_def)
  let ?s2 = "attempt_failed now 0 t CorrelationConflictError s"
  have a: "attempt now (Inr q) 0 t s = ?s2"
    using Cons.prems(1,2,5,6) by (simp add: attempt_def Let_def task_ready_def register_def)
  have "if k = n then dp_tasks ?s2 = [] \<and> result_is f (Error, None, int (Suc k), Some CorrelationConflictError) ?s2
    else \<exists>t2. dp_tasks ?s2 = [t2] \<and> st_phase t2 = Backing_off
      \<and> task_ready now n (Suc k) f (next_attempt 0 t2 ?s2) (t2\<lparr>st_attempt := Suc k, st_phase := Attempting\<rparr>)
      \<and> st_request t2 = st_request t \<and> st_last_error t2 = Some CorrelationConflictError
      \<and> dp_correlation ?s2 = dp_correlation s"
    by (rule attempt_failed_absorbed [OF Cons.prems(1) _ _ _ _ e])
      (use Cons.prems(1,5) in \<open>simp_all add: task_ready_def\<close>)
  then consider "k = n" "dp_tasks ?s2 = []" "result_is f (Error, None, int (Suc k), Some CorrelationConflictError) ?s2"
    | t2 where "k \<noteq> n" "dp_tasks ?s2 = [t2]" "st_phase t2 = Backing_off" "task_ready now n (Suc k) f (next_attempt 0 t2 ?s2)
        (t2\<lparr>st_attempt := Suc k, st_phase := Attempting\<rparr>)" "st_request t2 = st_request t"
        "dp_correlation ?s2 = dp_correlation s"
    by (cases "k = n") auto
  then show ?case
  proof cases
    case 1
    then show ?thesis using a ts by simp
  next
    case 2
    have d: "drive now q (x # xs) s = drive now (q + 1) xs (next_attempt 0 t2 ?s2)"
      using a ts 2(2,3) by simp
    have "dp_tasks (drive now (q + 1) xs (next_attempt 0 t2 ?s2)) = []
      \<and> result_is f (Error, None, int (n + 1), Some CorrelationConflictError) (drive now (q + 1) xs (next_attempt 0 t2 ?s2))"
      by (rule Cons.IH [OF 2(4)]) (use 2 Cons.prems in \<open>auto simp: next_attempt_def\<close>)
    then show ?thesis unfolding d .
  qed
qed simp

lemma attempt_failed_tasks:
  "dp_tasks s = [t0] \<Longrightarrow> dp_tasks (attempt_failed now 0 t e s) = []
    \<or> (\<exists>t2. dp_tasks (attempt_failed now 0 t e s) = [t2] \<and> st_phase t2 = Backing_off)"
  by (auto simp: attempt_failed_def give_up_def Let_def end_task_def remove_at_def frame_simps split: sum.splits)

lemma attempt_tasks:
  "dp_tasks s = [t] \<Longrightarrow> dp_tasks (attempt now q 0 t s) = []
    \<or> (\<exists>t2. dp_tasks (attempt now q 0 t s) = [t2] \<and> st_phase t2 \<in> {Backing_off, Sending})"
proof -
  assume s: "dp_tasks s = [t]"
  have give: "dp_tasks (give_up now 0 t s) = []"
    using s by (auto simp: give_up_def Let_def end_task_def remove_at_def frame_simps split: sum.splits)
  have fail: "dp_tasks (attempt_failed now 0 t e u) = []
      \<or> (\<exists>t2. dp_tasks (attempt_failed now 0 t e u) = [t2] \<and> st_phase t2 \<in> {Backing_off, Sending})"
    if "dp_tasks u = [t]" for e u using attempt_failed_tasks [OF that, of now t e] by blast
  show ?thesis
  proof (cases q)
    case (Inl e)
    then show ?thesis using give fail [OF s] by (simp add: attempt_def Let_def)
  next
    case (Inr k)
    obtain x c where x: "(if cr_expected_response_opcode (st_request t) \<noteq> None then register (st_request t) k (dp_correlation s)
        else (Inr (make_key (st_request t) k), dp_correlation s)) = (x, c)" by fastforce
    show ?thesis
      using Inr x give fail [of "s\<lparr>dp_correlation := c\<rparr>"] s
      by (cases x) (simp_all add: attempt_def Let_def)
  qed
qed

lemma drive_steps:
  "dp_tasks s = [t] \<Longrightarrow> st_phase t = Attempting \<Longrightarrow> (dstep cfg)\<^sup>*\<^sup>* s (drive now q xs s)"
proof (induction xs arbitrary: s t q)
  case (Cons x xs)
  let ?s1 = "attempt now (Inr q) 0 t s"
  have 1: "dstep cfg s ?s1" by (rule dstep_attempt) (use Cons.prems in simp_all)
  have wake: "(dstep cfg)\<^sup>*\<^sup>* u (case dp_tasks u of [] \<Rightarrow> u | t2 # ts2 \<Rightarrow> drive now (q + 1) xs (next_attempt 0 t2 u))"
    if "dp_tasks u = [] \<or> (\<exists>t2. dp_tasks u = [t2] \<and> st_phase t2 = Backing_off)" for u
    using that
  proof
    assume "\<exists>t2. dp_tasks u = [t2] \<and> st_phase t2 = Backing_off"
    then obtain t2 where t2: "dp_tasks u = [t2]" "st_phase t2 = Backing_off" by blast
    have "dstep cfg u (next_attempt 0 t2 u)" by (rule dstep_wake) (use t2 in simp_all)
    moreover have "(dstep cfg)\<^sup>*\<^sup>* (next_attempt 0 t2 u) (drive now (q + 1) xs (next_attempt 0 t2 u))"
      by (rule Cons.IH) (use t2 in \<open>auto simp: next_attempt_def\<close>)
    ultimately show ?thesis using t2(1) by simp
  qed simp
  consider "dp_tasks ?s1 = []" | t1 where "dp_tasks ?s1 = [t1]" "st_phase t1 = Backing_off"
    | t1 where "dp_tasks ?s1 = [t1]" "st_phase t1 = Sending"
    using attempt_tasks [OF Cons.prems(1), of now "Inr q"] by auto
  then show ?case
  proof cases
    case 1
    with \<open>dstep cfg s ?s1\<close> Cons.prems show ?thesis by auto
  next
    case (2 t1)
    with 1 wake [of ?s1] Cons.prems show ?thesis by (auto intro: converse_rtranclp_into_rtranclp)
  next
    case (3 t1)
    define s2 where "s2 = (case x of Inr d \<Rightarrow> attempt_succeeded now 0 t1 d ?s1 | Inl e \<Rightarrow> attempt_failed now 0 t1 e ?s1)"
    have "dstep cfg ?s1 s2"
    proof (cases x)
      case (Inl e)
      then show ?thesis unfolding s2_def using 3 by (auto intro: dstep_failure)
    next
      case (Inr d)
      then show ?thesis unfolding s2_def using 3 by (auto intro: dstep_success)
    qed
    moreover have "dp_tasks s2 = [] \<or> (\<exists>t2. dp_tasks s2 = [t2] \<and> st_phase t2 = Backing_off)"
      using attempt_failed_tasks [OF 3(1)] unfolding s2_def
      by (auto simp: attempt_succeeded_def Let_def end_task_def remove_at_def frame_simps 3 split: sum.splits)
    ultimately have "(dstep cfg)\<^sup>*\<^sup>* s (case dp_tasks s2 of [] \<Rightarrow> s2 | t2 # ts2 \<Rightarrow> drive now (q + 1) xs (next_attempt 0 t2 s2))"
      using 1 wake [of s2] by (meson converse_rtranclp_into_rtranclp)
    moreover have "drive now q (x # xs) s = (case dp_tasks s2 of [] \<Rightarrow> s2 | t2 # ts2 \<Rightarrow> drive now (q + 1) xs (next_attempt 0 t2 s2))"
      using 3 Cons.prems(1) unfolding s2_def by (simp add: Let_def)
    ultimately show ?thesis by simp
  qed
qed simp



text \<open>A command that expects a response is never sent twice: after a first attempt that fails, every
  retry ends in the engine's conflict, since the identifier is still registered, so its future
  gets that error whatever the send callback would have returned.\<close>

theorem expected_response_never_retried:
  assumes "task_ready now n 0 f s t" and "cr_expected_response_opcode (st_request t) \<noteq> None"
    and "st_phase t = Attempting" and "1 \<le> n" and "length xs = n" and "absorbed e"
    and "dict_get (ce_by_request_id (dp_correlation s)) (cr_request_id (st_request t)) = None"
  shows "result_is f (Error, None, int (n + 1), Some CorrelationConflictError) (drive now q (Inl e # xs) s)"
proof -
  obtain c where c: "register (st_request t) q (dp_correlation s) = (Inr (make_key (st_request t) q), c)"
    "dict_get (ce_by_request_id c) (cr_request_id (st_request t)) \<noteq> None"
    using assms(7) by (simp add: register_def Let_def dict_get_set)
  let ?t1 = "t\<lparr>st_phase := Sending\<rparr>" let ?s1 = "s\<lparr>dp_correlation := c, dp_tasks := [?t1]\<rparr>"
  let ?s2 = "attempt_failed now 0 ?t1 e ?s1"
  have ts: "dp_tasks s = [t]" using assms(1) by (simp add: task_ready_def)
  have a: "attempt now (Inr q) 0 t s = ?s1"
    using assms(1,2) c(1) by (simp add: attempt_def Let_def task_ready_def)
  have "if 0 = n then dp_tasks ?s2 = [] \<and> result_is f (Error, None, int (Suc 0), Some e) ?s2
    else \<exists>t2. dp_tasks ?s2 = [t2] \<and> st_phase t2 = Backing_off
      \<and> task_ready now n (Suc 0) f (next_attempt 0 t2 ?s2) (t2\<lparr>st_attempt := Suc 0, st_phase := Attempting\<rparr>)
      \<and> st_request t2 = st_request t \<and> st_last_error t2 = Some e \<and> dp_correlation ?s2 = dp_correlation ?s1"
    by (rule attempt_failed_absorbed [OF assms(1) _ _ _ _ assms(6)]) (use assms(1) in \<open>simp_all add: task_ready_def\<close>)
  then obtain t2 where t2: "dp_tasks ?s2 = [t2]" "task_ready now n (Suc 0) f (next_attempt 0 t2 ?s2)
      (t2\<lparr>st_attempt := Suc 0, st_phase := Attempting\<rparr>)" "st_request t2 = st_request t"
      "dp_correlation ?s2 = c"
    using assms(4) by auto
  have d: "drive now q (Inl e # xs) s = drive now (q + 1) xs (next_attempt 0 t2 ?s2)"
    using a ts t2(1) by simp
  have "dp_tasks (drive now (q + 1) xs (next_attempt 0 t2 ?s2)) = []
    \<and> result_is f (Error, None, int (n + 1), Some CorrelationConflictError) (drive now (q + 1) xs (next_attempt 0 t2 ?s2))"
    by (rule drive_conflict [OF t2(2)]) (use assms t2 c(2) in \<open>auto simp: next_attempt_def\<close>)
  then show ?thesis unfolding d by blast
qed

theorem expected_response_never_retried_witness:
  "let s = sent_one (demo_request 1 (Some 0xDB)) make_dispatcher; s = begin_task 0 0 (dp_tasks s ! 0) s in
   result_is 0 (Error, None, 4, Some CorrelationConflictError) (drive 0 5 [Inl OSError, Inr [7], Inr [7], Inr [7]] s)"
proof -
  define s where "s = (let s = sent_one (demo_request 1 (Some 0xDB)) make_dispatcher in begin_task 0 0 (dp_tasks s ! 0) s)"
  have r: "task_ready 0 3 0 0 s (dp_tasks s ! 0)" unfolding s_def by code_simp
  have p: "cr_expected_response_opcode (st_request (dp_tasks s ! 0)) \<noteq> None" "st_phase (dp_tasks s ! 0) = Attempting"
    "dict_get (ce_by_request_id (dp_correlation s)) (cr_request_id (st_request (dp_tasks s ! 0))) = None"
    unfolding s_def by code_simp+
  have "absorbed OSError" by code_simp
  from expected_response_never_retried [OF r p(1,2) _ _ this p(3), of "[Inr [7], Inr [7], Inr [7]]" 5]
  show ?thesis by (simp add: s_def Let_def)
qed

end
