(* ===== verification/Connection_Manager.thy ===== *)
theory Connection_Manager
  imports Prelude
begin

text \<open>
  \<^verbatim>\<open>connection_manager.py\<close> and \<^verbatim>\<open>error_classifier.py\<close>: reconnecting with exponential backoff, the
  classification of errors and the repair issues they raise, the adaptive interval of the RSSI polling
  and the retry of commands.  The reconnect task is a state machine that moves at the end of each of
  its sleeps; what an attempt to connect gives, and the clock, come with the step.
\<close>

subsection \<open>Errors and their classes\<close>

text \<open>
  An exception: its class among the modelled ones, \<^verbatim>\<open>type(err).__name__.lower()\<close> and
  \<^verbatim>\<open>str(err).lower()\<close>.
\<close>

record exn =
  ex_class :: py_error
  ex_type :: string
  ex_text :: string

datatype error_class = BRIDGE_DOWN | DEVICE_OFFLINE | MESH_AUTH | PROTOCOL | PERMANENT | TRANSIENT | UNKNOWN

text \<open>Python's \<^verbatim>\<open>keyword in text\<close>.\<close>

fun contains :: "string \<Rightarrow> string \<Rightarrow> bool" where
  "contains keyword [] = (keyword = [])"
| "contains keyword (c # cs) = (take (length keyword) (c # cs) = keyword \<or> contains keyword cs)"

definition any_in :: "string list \<Rightarrow> string \<Rightarrow> bool" where
  "any_in keywords txt = list_ex (\<lambda>k. contains k txt) keywords"

definition classify_lib :: "exn \<Rightarrow> error_class option" where
  "classify_lib err =
     (let e = ex_class err in
      if isinstance e AuthenticationError \<or> isinstance e CryptoError \<or> isinstance e SIGMeshKeyError then Some MESH_AUTH
      else if isinstance e MeshTimeoutError then Some TRANSIENT
      else if isinstance e ProtocolError then Some PROTOCOL
      else if isinstance e DeviceNotFoundError then Some DEVICE_OFFLINE
      else if isinstance e MeshConnectionError then
        Some (if any_in [''refused'', ''unreachable'', ''no route''] (ex_text err) then BRIDGE_DOWN else TRANSIENT)
      else None)"

definition classify_text :: "exn \<Rightarrow> error_class" where
  "classify_text err =
     (let msg = ex_text err in
      if isinstance (ex_class err) TimeoutError \<or> contains ''timeout'' msg then TRANSIENT
      else if any_in [''auth'', ''password'', ''credential''] (ex_type err)
           \<or> any_in [''auth'', ''password'', ''credential''] msg then MESH_AUTH
      else if any_in [''protocol'', ''version''] msg then PROTOCOL
      else if any_in [''connection refused'', ''unreachable'', ''no route''] msg then BRIDGE_DOWN
      else if contains ''not found'' msg then DEVICE_OFFLINE
      else if any_in [''vendor'', ''unsupported''] msg then PERMANENT
      else UNKNOWN)"

text \<open>\<open>lib_available\<close>: the exceptions of the library can be imported.\<close>

definition classify_error :: "bool \<Rightarrow> exn \<Rightarrow> error_class" where
  "classify_error lib_available err =
     (case if lib_available then classify_lib err else None of
        Some cl \<Rightarrow> cl
      | None \<Rightarrow> classify_text err)"

subsection \<open>State\<close>

definition CM_INITIAL_BACKOFF :: seconds where "CM_INITIAL_BACKOFF = 5"
definition CM_MAX_BACKOFF :: seconds where "CM_MAX_BACKOFF = 300"
definition CM_BACKOFF_MULTIPLIER :: seconds where "CM_BACKOFF_MULTIPLIER = 2"
definition BRIDGE_INITIAL_BACKOFF :: seconds where "BRIDGE_INITIAL_BACKOFF = 3"
definition BRIDGE_MAX_BACKOFF :: seconds where "BRIDGE_MAX_BACKOFF = 120"
definition STORM_WINDOW_SECONDS :: seconds where "STORM_WINDOW_SECONDS = 300"
definition STORM_DEFAULT_THRESHOLD :: int where "STORM_DEFAULT_THRESHOLD = 10"
definition DEFAULT_MAX_RECONNECT_FAILURES :: int where "DEFAULT_MAX_RECONNECT_FAILURES = 0"
definition RSSI_MIN_INTERVAL :: seconds where "RSSI_MIN_INTERVAL = 30"
definition RSSI_MAX_INTERVAL :: seconds where "RSSI_MAX_INTERVAL = 300"
definition RSSI_DEFAULT_INTERVAL :: seconds where "RSSI_DEFAULT_INTERVAL = 60"
definition RSSI_STABILITY_THRESHOLD :: nat where "RSSI_STABILITY_THRESHOLD = 3"
definition RECONNECT_TIMELINE_MAX :: nat where "RECONNECT_TIMELINE_MAX = 20"

text \<open>A \<^verbatim>\<open>deque(maxlen=n)\<close> drops its oldest elements.\<close>

definition push_bounded :: "nat \<Rightarrow> 'a \<Rightarrow> 'a list \<Rightarrow> 'a list" where
  "push_bounded n x xs = (let ys = xs @ [x] in drop (length ys - n) ys)"

record reconnect_event =
  ev_timestamp :: seconds
  ev_error_class :: error_class
  ev_backoff :: seconds
  ev_attempt :: nat

record connection_statistics =
  cs_connect_time :: "seconds option"
  cs_total_reconnects :: nat
  cs_total_errors :: nat
  cs_connection_errors :: nat
  cs_command_errors :: nat
  cs_response_times :: "seconds list"
  cs_last_error :: "exn option"
  cs_last_error_time :: "seconds option"
  cs_last_error_class :: error_class
  cs_connection_uptime :: seconds
  cs_last_disconnect_time :: "seconds option"
  cs_avg_response_time :: seconds
  cs_reconnect_times :: "seconds list"
  cs_storm_detected :: bool
  cs_reconnect_timeline :: "reconnect_event list"
  cs_rssi_history :: "(seconds \<times> int) list"

datatype issue = ISSUE_BRIDGE_UNREACHABLE | ISSUE_AUTH_OR_MESH_MISMATCH | ISSUE_DEVICE_NOT_FOUND
  | ISSUE_TIMEOUT | ISSUE_RECONNECT_STORM

text \<open>The reconnect task: in its first sleep, in the sleep before an attempt, returned, or ended by an exception.\<close>

datatype reconnect_task = No_Reconnect | Debouncing | Backing_Off | Reconnect_Returned | Reconnect_Raised exn

text \<open>
  \<open>cm_created\<close> (the issues created since the last recovery), \<open>cm_delays\<close> (the sleeps before the attempts)
  and \<open>cm_updates\<close> (the calls of \<^verbatim>\<open>on_state_update\<close>) are not in the code.
\<close>

record conn_manager =
  cm_running :: bool
  cm_backoff :: seconds
  cm_reconnect_task :: reconnect_task
  cm_rssi_task :: bool
  cm_stats :: connection_statistics
  cm_storm_threshold :: int
  cm_max_reconnect_failures :: int
  cm_consecutive_failures :: nat
  cm_raised_repair_issues :: "issue list"
  cm_rssi_interval :: seconds
  cm_state_change_counter :: nat
  cm_stable_cycles :: nat
  cm_latest_rssi :: "int option"
  cm_created :: "issue list"
  cm_delays :: "seconds list"
  cm_updates :: nat

text \<open>\<open>me_has_hass\<close>: there are a Home Assistant instance and an entry; the two flags after it are the callbacks.\<close>

record manager_env =
  me_is_bridge :: bool
  me_has_hass :: bool
  me_on_connected :: bool
  me_on_state_update :: bool
  me_lib_available :: bool

definition make_statistics :: connection_statistics where
  "make_statistics = \<lparr>cs_connect_time = None, cs_total_reconnects = 0, cs_total_errors = 0,
     cs_connection_errors = 0, cs_command_errors = 0, cs_response_times = [], cs_last_error = None,
     cs_last_error_time = None, cs_last_error_class = UNKNOWN, cs_connection_uptime = 0,
     cs_last_disconnect_time = None, cs_avg_response_time = 0, cs_reconnect_times = [],
     cs_storm_detected = False, cs_reconnect_timeline = [], cs_rssi_history = []\<rparr>"

definition make_conn_manager :: conn_manager where
  "make_conn_manager = \<lparr>cm_running = False, cm_backoff = CM_INITIAL_BACKOFF, cm_reconnect_task = No_Reconnect,
     cm_rssi_task = False, cm_stats = make_statistics, cm_storm_threshold = STORM_DEFAULT_THRESHOLD,
     cm_max_reconnect_failures = DEFAULT_MAX_RECONNECT_FAILURES, cm_consecutive_failures = 0,
     cm_raised_repair_issues = [], cm_rssi_interval = RSSI_DEFAULT_INTERVAL, cm_state_change_counter = 0,
     cm_stable_cycles = 0, cm_latest_rssi = None, cm_created = [], cm_delays = [], cm_updates = 0\<rparr>"

definition mean :: "seconds list \<Rightarrow> seconds" where
  "mean xs = sum_list xs / of_nat (length xs)"

definition avg_response_time_ms :: "conn_manager \<Rightarrow> seconds option" where
  "avg_response_time_ms cm =
     (if cs_response_times (cm_stats cm) = [] then None else Some (mean (cs_response_times (cm_stats cm)) * 1000))"

definition state_update :: "manager_env \<Rightarrow> conn_manager \<Rightarrow> conn_manager" where
  "state_update env cm = (if me_on_state_update env then cm\<lparr>cm_updates := cm_updates cm + 1\<rparr> else cm)"

subsection \<open>RSSI polling\<close>

definition stop_rssi_polling :: "conn_manager \<Rightarrow> conn_manager" where
  "stop_rssi_polling cm = cm\<lparr>cm_rssi_task := False\<rparr>"

definition start_rssi_polling :: "manager_env \<Rightarrow> conn_manager \<Rightarrow> conn_manager" where
  "start_rssi_polling env cm = (if me_is_bridge env then cm else (stop_rssi_polling cm)\<lparr>cm_rssi_task := True\<rparr>)"

definition adjust_polling_interval :: "conn_manager \<Rightarrow> conn_manager" where
  "adjust_polling_interval cm =
     (let cm1 =
        (if cm_state_change_counter cm \<ge> 2 then
           cm\<lparr>cm_rssi_interval := max RSSI_MIN_INTERVAL (cm_rssi_interval cm * (3 / 4))\<rparr>
         else if cm_stable_cycles cm \<ge> RSSI_STABILITY_THRESHOLD then
           cm\<lparr>cm_rssi_interval := min RSSI_MAX_INTERVAL (cm_rssi_interval cm * (3 / 2))\<rparr>
         else cm)
      in cm1\<lparr>cm_state_change_counter := 0\<rparr>)"

definition record_state_change :: "conn_manager \<Rightarrow> conn_manager" where
  "record_state_change cm =
     adjust_polling_interval (cm\<lparr>cm_state_change_counter := cm_state_change_counter cm + 1, cm_stable_cycles := 0\<rparr>)"

definition add_rssi :: "seconds \<Rightarrow> int \<Rightarrow> conn_manager \<Rightarrow> conn_manager" where
  "add_rssi now rssi cm =
     cm\<lparr>cm_stats := (cm_stats cm)\<lparr>cs_rssi_history := push_bounded 50 (now, rssi) (cs_rssi_history (cm_stats cm))\<rparr>\<rparr>"

text \<open>One round of \<^verbatim>\<open>_rssi_loop\<close> after its sleep, with what the scan finds.\<close>

definition rssi_round :: "manager_env \<Rightarrow> seconds \<Rightarrow> int option \<Rightarrow> conn_manager \<Rightarrow> conn_manager" where
  "rssi_round env now found cm =
     (if \<not> cm_rssi_task cm then cm
      else if \<not> cm_running cm then cm\<lparr>cm_rssi_task := False\<rparr>
      else case found of None \<Rightarrow> cm
      | Some rssi \<Rightarrow>
          let cm1 = add_rssi now rssi cm;
              cm2 = (if me_on_state_update env then state_update env (cm1\<lparr>cm_latest_rssi := Some rssi\<rparr>) else cm1);
              history = cs_rssi_history (cm_stats cm2)
          in if length history \<ge> 2 then
               if \<bar>rssi - snd (history ! (length history - 2))\<bar> \<le> 2 then
                 let cm3 = cm2\<lparr>cm_stable_cycles := cm_stable_cycles cm2 + 1\<rparr>
                 in if cm_stable_cycles cm3 \<ge> RSSI_STABILITY_THRESHOLD then adjust_polling_interval cm3 else cm3
               else cm2\<lparr>cm_stable_cycles := 0\<rparr>
             else cm2)"

subsection \<open>Repair issues\<close>

fun class_to_issue :: "error_class \<Rightarrow> issue option" where
  "class_to_issue BRIDGE_DOWN = Some ISSUE_BRIDGE_UNREACHABLE"
| "class_to_issue MESH_AUTH = Some ISSUE_AUTH_OR_MESH_MISMATCH"
| "class_to_issue DEVICE_OFFLINE = Some ISSUE_DEVICE_NOT_FOUND"
| "class_to_issue TRANSIENT = Some ISSUE_TIMEOUT"
| "class_to_issue _ = None"

definition maybe_create_repair_issue :: "manager_env \<Rightarrow> error_class \<Rightarrow> conn_manager \<Rightarrow> conn_manager" where
  "maybe_create_repair_issue env cl cm =
     (if \<not> me_has_hass env then cm
      else case class_to_issue cl of None \<Rightarrow> cm
      | Some issue \<Rightarrow>
          if issue \<in> set (cm_raised_repair_issues cm) then cm
          else cm\<lparr>cm_raised_repair_issues := cm_raised_repair_issues cm @ [issue],
                  cm_created := cm_created cm @ [issue]\<rparr>)"

definition clear_repair_issues_on_recovery :: "manager_env \<Rightarrow> conn_manager \<Rightarrow> conn_manager" where
  "clear_repair_issues_on_recovery env cm =
     (if \<not> me_has_hass env then cm else cm\<lparr>cm_raised_repair_issues := [], cm_created := []\<rparr>)"

definition check_reconnect_storm :: "seconds \<Rightarrow> conn_manager \<Rightarrow> bool \<times> conn_manager" where
  "check_reconnect_storm now cm =
     (let times = dropWhile (\<lambda>t. t < now - STORM_WINDOW_SECONDS) (cs_reconnect_times (cm_stats cm))
      in (int (length times) \<ge> cm_storm_threshold cm,
          cm\<lparr>cm_stats := (cm_stats cm)\<lparr>cs_reconnect_times := times\<rparr>\<rparr>))"

definition detect_storm :: "manager_env \<Rightarrow> seconds \<Rightarrow> conn_manager \<Rightarrow> conn_manager" where
  "detect_storm env now cm =
     (if \<not> me_has_hass env then cm
      else let (storm, cm1) = check_reconnect_storm now cm
        in if storm \<and> \<not> cs_storm_detected (cm_stats cm1) then
             cm1\<lparr>cm_stats := (cm_stats cm1)\<lparr>cs_storm_detected := True\<rparr>,
                 cm_created := cm_created cm1 @ [ISSUE_RECONNECT_STORM]\<rparr>
           else cm1)"


subsection \<open>Connecting and disconnecting\<close>

text \<open>How an attempt to connect ends: the response time and the RSSI of the client, or an exception.\<close>

datatype connect_outcome = Connects seconds "int option" | Fails exn

definition initial_backoff :: "manager_env \<Rightarrow> seconds" where
  "initial_backoff env = (if me_is_bridge env then BRIDGE_INITIAL_BACKOFF else CM_INITIAL_BACKOFF)"

definition max_backoff :: "manager_env \<Rightarrow> seconds" where
  "max_backoff env = (if me_is_bridge env then BRIDGE_MAX_BACKOFF else CM_MAX_BACKOFF)"

definition note_rssi :: "seconds \<Rightarrow> int option \<Rightarrow> conn_manager \<Rightarrow> conn_manager" where
  "note_rssi now rssi cm = (case rssi of None \<Rightarrow> cm | Some r \<Rightarrow> add_rssi now r (cm\<lparr>cm_latest_rssi := Some r\<rparr>))"

definition async_connect ::
  "manager_env \<Rightarrow> connect_outcome \<Rightarrow> seconds \<Rightarrow> conn_manager \<Rightarrow> (exn + seconds) \<times> conn_manager" where
  "async_connect env outcome now cm =
     (case outcome of
        Fails e \<Rightarrow> (Inl e, cm)
      | Connects response_time rssi \<Rightarrow>
          let st = cm_stats cm;
              cm1 = cm\<lparr>cm_stats := st\<lparr>cs_response_times := push_bounded 100 response_time (cs_response_times st),
                                    cs_connect_time := Some now\<rparr>,
                      cm_backoff := initial_backoff env\<rparr>
          in (Inr response_time, start_rssi_polling env (note_rssi now rssi cm1)))"

definition schedule_reconnect :: "conn_manager \<Rightarrow> conn_manager" where
  "schedule_reconnect cm = (if \<not> cm_running cm then cm else cm\<lparr>cm_reconnect_task := Debouncing\<rparr>)"

definition cm_handle_disconnect :: "manager_env \<Rightarrow> seconds \<Rightarrow> conn_manager \<Rightarrow> conn_manager" where
  "cm_handle_disconnect env now cm =
     (let st = cm_stats cm;
          st1 = (case cs_connect_time st of None \<Rightarrow> st
                 | Some t \<Rightarrow> st\<lparr>cs_connection_uptime := cs_connection_uptime st + (now - t)\<rparr>);
          st2 = st1\<lparr>cs_last_disconnect_time := Some now\<rparr>;
          st3 = (if cs_response_times st2 = [] then st2
                 else st2\<lparr>cs_avg_response_time := mean (cs_response_times st2)\<rparr>);
          cm1 = stop_rssi_polling (cm\<lparr>cm_stats := st3\<rparr>);
          cm2 = (if me_is_bridge env then cm1\<lparr>cm_backoff := BRIDGE_INITIAL_BACKOFF\<rparr> else cm1)
      in schedule_reconnect cm2)"

definition count_connection_error :: "exn \<Rightarrow> seconds \<Rightarrow> connection_statistics \<Rightarrow> connection_statistics" where
  "count_connection_error e now st = st\<lparr>cs_total_errors := cs_total_errors st + 1,
     cs_connection_errors := cs_connection_errors st + 1, cs_last_error := Some e, cs_last_error_time := Some now\<rparr>"

definition record_connection_error :: "exn \<Rightarrow> seconds \<Rightarrow> conn_manager \<Rightarrow> conn_manager" where
  "record_connection_error e now cm = cm\<lparr>cm_stats := count_connection_error e now (cm_stats cm)\<rparr>"

subsection \<open>The reconnect task\<close>

definition programming_error :: "exn \<Rightarrow> bool" where
  "programming_error e \<longleftrightarrow> isinstance (ex_class e) AttributeError \<or> isinstance (ex_class e) TypeError
     \<or> isinstance (ex_class e) NameError"

text \<open>The head of the loop, up to the sleep before an attempt.\<close>

definition loop_check :: "manager_env \<Rightarrow> conn_manager \<Rightarrow> conn_manager" where
  "loop_check env cm =
     (if \<not> cm_running cm then cm\<lparr>cm_reconnect_task := Reconnect_Returned\<rparr>
      else if 0 < cm_max_reconnect_failures cm \<and> cm_max_reconnect_failures cm \<le> int (cm_consecutive_failures cm)
      then (state_update env cm)\<lparr>cm_reconnect_task := Reconnect_Returned\<rparr>
      else cm\<lparr>cm_reconnect_task := Backing_Off, cm_delays := cm_delays cm @ [cm_backoff cm]\<rparr>)"

definition wake_debounce :: "manager_env \<Rightarrow> conn_manager \<Rightarrow> conn_manager" where
  "wake_debounce env cm =
     (if cm_reconnect_task cm \<noteq> Debouncing then cm
      else if \<not> cm_running cm then cm\<lparr>cm_reconnect_task := Reconnect_Returned\<rparr>
      else loop_check env cm)"

definition count_failure :: "manager_env \<Rightarrow> seconds \<Rightarrow> exn \<Rightarrow> conn_manager \<Rightarrow> conn_manager" where
  "count_failure env now e cm =
     (let st = count_connection_error e now (cm_stats cm)
      in cm\<lparr>cm_consecutive_failures := cm_consecutive_failures cm + 1,
            cm_stats := st\<lparr>cs_last_error_class := classify_error (me_lib_available env) e,
                           cs_reconnect_times := push_bounded 50 now (cs_reconnect_times st)\<rparr>\<rparr>)"

definition add_timeline :: "seconds \<Rightarrow> error_class \<Rightarrow> conn_manager \<Rightarrow> conn_manager" where
  "add_timeline now cl cm =
     cm\<lparr>cm_stats := (cm_stats cm)\<lparr>cs_reconnect_timeline := push_bounded RECONNECT_TIMELINE_MAX
        \<lparr>ev_timestamp = now, ev_error_class = cl, ev_backoff = cm_backoff cm, ev_attempt = cm_consecutive_failures cm\<rparr>
        (cs_reconnect_timeline (cm_stats cm))\<rparr>\<rparr>"

text \<open>The \<^verbatim>\<open>except\<close> clause of an attempt, and the head of the loop again.\<close>

definition reconnect_failed :: "manager_env \<Rightarrow> seconds \<Rightarrow> exn \<Rightarrow> conn_manager \<Rightarrow> conn_manager" where
  "reconnect_failed env now e cm =
     (if \<not> isinstance (ex_class e) PyException \<or> programming_error e
      then cm\<lparr>cm_reconnect_task := Reconnect_Raised e\<rparr>
      else
        let cl = classify_error (me_lib_available env) e; cm1 = count_failure env now e cm in
        if cl = PERMANENT then (state_update env cm1)\<lparr>cm_reconnect_task := Reconnect_Returned\<rparr>
        else let cm2 = add_timeline now cl (detect_storm env now (maybe_create_repair_issue env cl cm1));
                 cm3 = cm2\<lparr>cm_backoff := min (cm_backoff cm2 * CM_BACKOFF_MULTIPLIER) (max_backoff env)\<rparr>
          in loop_check env (state_update env cm3))"

text \<open>\<open>raised\<close> is what the callback \<^verbatim>\<open>on_connected\<close> raises, inside the \<^verbatim>\<open>try\<close>.\<close>

definition reconnect_succeeded ::
  "manager_env \<Rightarrow> seconds \<Rightarrow> seconds \<Rightarrow> int option \<Rightarrow> exn option \<Rightarrow> conn_manager \<Rightarrow> conn_manager" where
  "reconnect_succeeded env now response_time rssi raised cm =
     (let st = cm_stats cm;
          cm1 = cm\<lparr>cm_stats := st\<lparr>cs_response_times := push_bounded 100 response_time (cs_response_times st),
                     cs_connect_time := Some now, cs_total_reconnects := cs_total_reconnects st + 1,
                     cs_reconnect_times := push_bounded 50 now (cs_reconnect_times st), cs_storm_detected := False\<rparr>,
                  cm_backoff := initial_backoff env, cm_consecutive_failures := 0\<rparr>;
          cm2 = clear_repair_issues_on_recovery env (note_rssi now rssi cm1)
      in if me_on_connected env then
           (case raised of None \<Rightarrow> cm2\<lparr>cm_reconnect_task := Reconnect_Returned\<rparr>
            | Some e \<Rightarrow> reconnect_failed env now e cm2)
         else (start_rssi_polling env cm2)\<lparr>cm_reconnect_task := Reconnect_Returned\<rparr>)"

definition wake_backoff ::
  "manager_env \<Rightarrow> seconds \<Rightarrow> connect_outcome \<Rightarrow> exn option \<Rightarrow> conn_manager \<Rightarrow> conn_manager" where
  "wake_backoff env now outcome raised cm =
     (if cm_reconnect_task cm \<noteq> Backing_Off then cm
      else if \<not> cm_running cm then cm\<lparr>cm_reconnect_task := Reconnect_Returned\<rparr>
      else case outcome of
        Connects response_time rssi \<Rightarrow> reconnect_succeeded env now response_time rssi raised cm
      | Fails e \<Rightarrow> reconnect_failed env now e cm)"

definition cancel_tasks :: "conn_manager \<Rightarrow> conn_manager" where
  "cancel_tasks cm = cm\<lparr>cm_rssi_task := False, cm_reconnect_task := No_Reconnect\<rparr>"

subsection \<open>Retrying a command\<close>

definition count_command_error :: "conn_manager \<Rightarrow> conn_manager" where
  "count_command_error cm =
     (let st = cm_stats cm
      in cm\<lparr>cm_stats := st\<lparr>cs_command_errors := cs_command_errors st + 1, cs_total_errors := cs_total_errors st + 1\<rparr>\<rparr>)"

text \<open>
  \<open>run k\<close> is what attempt \<open>k\<close> of the command raises; \<open>left\<close> attempts remain, the first of them is \<open>k\<close>.
  The third component of the result are the waits.
\<close>

fun command_attempts ::
  "(nat \<Rightarrow> exn option) \<Rightarrow> seconds \<Rightarrow> nat \<Rightarrow> nat \<Rightarrow> exn option \<Rightarrow> conn_manager
    \<Rightarrow> (exn + unit) \<times> conn_manager \<times> seconds list" where
  "command_attempts run delay 0 k last_exc cm =
     ((case last_exc of Some e \<Rightarrow> Inl e | None \<Rightarrow> Inr ()), cm, [])"
| "command_attempts run delay (Suc left) k last_exc cm =
     (case run k of
        None \<Rightarrow> (Inr (), cm, [])
      | Some e \<Rightarrow>
          if \<not> isinstance (ex_class e) PyException \<or> programming_error e then (Inl e, cm, [])
          else let wait = (if left > 0 then [delay * 2 ^ (k - 1)] else []);
                   (r, cm1, waits) = command_attempts run delay left (k + 1) (Some e) (count_command_error cm)
            in (r, cm1, wait @ waits))"

definition send_command_with_retry ::
  "(nat \<Rightarrow> exn option) \<Rightarrow> nat \<Rightarrow> seconds \<Rightarrow> conn_manager \<Rightarrow> (exn + unit) \<times> conn_manager \<times> seconds list" where
  "send_command_with_retry run max_retries base_delay cm = command_attempts run base_delay max_retries 1 None cm"

subsection \<open>Runs\<close>

datatype mgr_op = Async_Connect connect_outcome seconds | Handle_Disconnect seconds | Wake_Debounce
  | Wake_Backoff seconds connect_outcome "exn option" | Rssi_Round seconds "int option" | State_Change
  | Send_With_Retry "nat \<Rightarrow> exn option" nat seconds | Set_Running bool | Set_Backoff seconds | Cancel_Tasks
  | Record_Error exn seconds

definition mgr_step :: "manager_env \<Rightarrow> mgr_op \<Rightarrow> conn_manager \<Rightarrow> conn_manager" where
  "mgr_step env op cm = (case op of
       Async_Connect outcome now \<Rightarrow> snd (async_connect env outcome now cm)
     | Handle_Disconnect now \<Rightarrow> cm_handle_disconnect env now cm
     | Wake_Debounce \<Rightarrow> wake_debounce env cm
     | Wake_Backoff now outcome raised \<Rightarrow> wake_backoff env now outcome raised cm
     | Rssi_Round now found \<Rightarrow> rssi_round env now found cm
     | State_Change \<Rightarrow> record_state_change cm
     | Send_With_Retry run max_retries delay \<Rightarrow> fst (snd (send_command_with_retry run max_retries delay cm))
     | Set_Running b \<Rightarrow> cm\<lparr>cm_running := b\<rparr>
     | Set_Backoff b \<Rightarrow> cm\<lparr>cm_backoff := b\<rparr>
     | Cancel_Tasks \<Rightarrow> cancel_tasks cm
     | Record_Error e now \<Rightarrow> record_connection_error e now cm)"

definition mgr_run :: "manager_env \<Rightarrow> mgr_op list \<Rightarrow> conn_manager \<Rightarrow> conn_manager" where
  "mgr_run env ops cm = fold (mgr_step env) ops cm"


subsection \<open>Facts on the classes\<close>

lemma contains_iff: "contains keyword t \<longleftrightarrow> (\<exists>u v. t = u @ keyword @ v)"
proof (induction t)
  case (Cons c cs)
  have "take (length keyword) (c # cs) = keyword \<longleftrightarrow> (\<exists>v. c # cs = keyword @ v)"
    by (metis append_eq_conv_conj append_take_drop_id)
  moreover have "(\<exists>u v. c # cs = u @ keyword @ v) \<longleftrightarrow> (\<exists>v. c # cs = keyword @ v) \<or> (\<exists>u v. cs = u @ keyword @ v)"
    by (metis append_Cons append_Nil append_eq_Cons_conv)
  ultimately show ?case using Cons.IH by simp
qed simp

lemma classify_lib_not_permanent: "classify_lib e = Some cl \<Longrightarrow> cl \<noteq> PERMANENT"
  by (auto simp: classify_lib_def Let_def split: if_splits)

subsection \<open>The polling interval\<close>

definition polling :: "conn_manager \<Rightarrow> seconds \<times> nat" where
  "polling cm = (cm_rssi_interval cm, cm_state_change_counter cm)"

named_theorems polling_frame

lemma polling_update [polling_frame]:
  "polling (cm\<lparr>cm_running := b\<rparr>) = polling cm" "polling (cm\<lparr>cm_backoff := x\<rparr>) = polling cm"
  "polling (cm\<lparr>cm_reconnect_task := t\<rparr>) = polling cm" "polling (cm\<lparr>cm_rssi_task := b\<rparr>) = polling cm"
  "polling (cm\<lparr>cm_stats := st\<rparr>) = polling cm" "polling (cm\<lparr>cm_consecutive_failures := n\<rparr>) = polling cm"
  "polling (cm\<lparr>cm_raised_repair_issues := i\<rparr>) = polling cm" "polling (cm\<lparr>cm_stable_cycles := n\<rparr>) = polling cm"
  "polling (cm\<lparr>cm_latest_rssi := r\<rparr>) = polling cm" "polling (cm\<lparr>cm_created := i\<rparr>) = polling cm"
  "polling (cm\<lparr>cm_delays := ds\<rparr>) = polling cm" "polling (cm\<lparr>cm_updates := n\<rparr>) = polling cm"
  by (simp_all add: polling_def)

lemma polling_simple [polling_frame]:
  "polling (state_update env cm) = polling cm" "polling (start_rssi_polling env cm) = polling cm"
  "polling (stop_rssi_polling cm) = polling cm" "polling (add_rssi now r cm) = polling cm"
  "polling (maybe_create_repair_issue env cl cm) = polling cm"
  "polling (clear_repair_issues_on_recovery env cm) = polling cm" "polling (detect_storm env now cm) = polling cm"
  "polling (schedule_reconnect cm) = polling cm" "polling (add_timeline now cl cm) = polling cm"
  "polling (count_failure env now e cm) = polling cm" "polling (note_rssi now rssi cm) = polling cm"
  by (auto simp: polling_def state_update_def start_rssi_polling_def stop_rssi_polling_def add_rssi_def
      maybe_create_repair_issue_def clear_repair_issues_on_recovery_def detect_storm_def check_reconnect_storm_def
      schedule_reconnect_def add_timeline_def count_failure_def note_rssi_def Let_def split: option.splits)

lemma polling_loop_check [polling_frame]: "polling (loop_check env cm) = polling cm"
  by (simp add: loop_check_def polling_frame)

lemma polling_attempts [polling_frame]:
  "polling (reconnect_failed env now e cm) = polling cm"
  "polling (reconnect_succeeded env now rt rssi raised cm) = polling cm"
  by (simp_all add: reconnect_failed_def reconnect_succeeded_def polling_frame Let_def split: option.splits)

lemma polling_command: "polling (fst (snd (command_attempts run delay left k last_exc cm))) = polling cm"
proof (induction left arbitrary: k last_exc cm)
  case (Suc left)
  have cnt: "polling (count_command_error cm) = polling cm" by (simp add: count_command_error_def Let_def polling_frame)
  show ?case
  proof (cases "run k")
    case (Some e)
    obtain r cm1 w where rec: "command_attempts run delay left (k + 1) (Some e) (count_command_error cm) = (r, cm1, w)"
      by (metis prod_cases3)
    with Suc.IH [of "k + 1" "Some e" "count_command_error cm"] cnt have "polling cm1 = polling cm" by simp
    with Some rec show ?thesis by simp
  qed simp
qed simp

definition interval_ok :: "conn_manager \<Rightarrow> bool" where
  "interval_ok cm \<longleftrightarrow> cm_state_change_counter cm = 0 \<and> RSSI_DEFAULT_INTERVAL \<le> cm_rssi_interval cm
     \<and> cm_rssi_interval cm \<le> RSSI_MAX_INTERVAL"

lemma interval_ok_polling: "polling cm2 = polling cm1 \<Longrightarrow> interval_ok cm2 = interval_ok cm1 \<and> cm_rssi_interval cm2 = cm_rssi_interval cm1"
  by (simp add: polling_def interval_ok_def)

definition grows :: "conn_manager \<Rightarrow> conn_manager \<Rightarrow> bool" where
  "grows cm1 cm2 \<longleftrightarrow> interval_ok cm2 \<and> cm_rssi_interval cm1 \<le> cm_rssi_interval cm2"

lemma grows_frame: "interval_ok cm1 \<Longrightarrow> polling cm2 = polling cm1 \<Longrightarrow> grows cm1 cm2"
  using interval_ok_polling [of cm2 cm1] by (simp add: grows_def)

lemma adjust_grows:
  assumes "RSSI_DEFAULT_INTERVAL \<le> cm_rssi_interval cm" "cm_rssi_interval cm \<le> RSSI_MAX_INTERVAL"
    and "cm_state_change_counter cm \<le> 1"
  shows "grows cm (adjust_polling_interval cm)"
proof -
  let ?x = "cm_rssi_interval cm"
  have "0 \<le> ?x" using assms(1) by (simp add: RSSI_DEFAULT_INTERVAL_def)
  then have longer: "?x \<le> min RSSI_MAX_INTERVAL (?x * (3 / 2))" using assms(2) by simp
  have "adjust_polling_interval cm = cm\<lparr>cm_rssi_interval :=
      (if cm_stable_cycles cm \<ge> RSSI_STABILITY_THRESHOLD then min RSSI_MAX_INTERVAL (?x * (3 / 2)) else ?x),
      cm_state_change_counter := 0\<rparr>"
    using assms(3) by (simp add: adjust_polling_interval_def)
  with longer assms(1,2) order.trans [OF assms(1) longer] show ?thesis
    by (simp add: grows_def interval_ok_def)
qed

lemma rssi_round_grows:
  assumes "interval_ok cm" shows "grows cm (rssi_round env now found cm)"
proof -
  have same: "grows cm cm2" if "polling cm2 = polling cm" for cm2 using assms that by (rule grows_frame)
  have adj: "grows cm (adjust_polling_interval cm2)" if "polling cm2 = polling cm" for cm2
  proof -
    have "interval_ok cm2" "cm_rssi_interval cm2 = cm_rssi_interval cm"
      using interval_ok_polling [OF that] assms by simp_all
    with adjust_grows [of cm2] show ?thesis by (simp add: grows_def interval_ok_def)
  qed
  show ?thesis
    by (auto simp: rssi_round_def Let_def polling_frame intro!: same adj split: option.splits)
qed

lemma mgr_step_grows:
  assumes "interval_ok cm" shows "grows cm (mgr_step env op cm)"
proof (cases op)
  case State_Change
  have "grows (cm\<lparr>cm_state_change_counter := 1, cm_stable_cycles := 0\<rparr>) (record_state_change cm)"
    using assms adjust_grows [of "cm\<lparr>cm_state_change_counter := 1, cm_stable_cycles := 0\<rparr>"]
    by (simp add: record_state_change_def interval_ok_def)
  with State_Change show ?thesis by (simp add: mgr_step_def grows_def)
next
  case (Rssi_Round now found)
  with rssi_round_grows [OF assms] show ?thesis by (simp add: mgr_step_def)
next
  case (Send_With_Retry run n d)
  with assms polling_command show ?thesis
    by (simp add: mgr_step_def send_command_with_retry_def grows_frame)
next
  case (Async_Connect outcome now)
  with assms show ?thesis
    by (intro grows_frame) (simp_all add: mgr_step_def async_connect_def Let_def polling_frame split: connect_outcome.splits)
next
  case (Handle_Disconnect now)
  with assms show ?thesis
    by (intro grows_frame) (simp_all add: mgr_step_def cm_handle_disconnect_def Let_def polling_frame)
next
  case (Wake_Backoff now outcome raised)
  with assms show ?thesis
    by (intro grows_frame) (simp_all add: mgr_step_def wake_backoff_def polling_frame split: connect_outcome.splits)
qed (use assms in \<open>simp_all add: mgr_step_def grows_frame wake_debounce_def cancel_tasks_def
    record_connection_error_def polling_frame\<close>)

lemma mgr_run_grows: "interval_ok cm \<Longrightarrow> grows cm (mgr_run env ops cm)"
proof (induction ops arbitrary: cm)
  case Nil
  then show ?case by (simp add: mgr_run_def grows_def)
next
  case (Cons op ops)
  from mgr_step_grows [OF Cons.prems] have "interval_ok (mgr_step env op cm)"
    "cm_rssi_interval cm \<le> cm_rssi_interval (mgr_step env op cm)" by (simp_all add: grows_def)
  with Cons.IH [of "mgr_step env op cm"] show ?case by (simp add: mgr_run_def grows_def)
qed

lemma make_interval_ok: "interval_ok make_conn_manager"
  by (simp add: interval_ok_def make_conn_manager_def RSSI_DEFAULT_INTERVAL_def RSSI_MAX_INTERVAL_def)

subsection \<open>The reconnect task\<close>

text \<open>The task after the attempts \<open>f 0, ..., f (n - 1)\<close>, with their times.\<close>

fun attempts :: "manager_env \<Rightarrow> (nat \<Rightarrow> seconds \<times> connect_outcome) \<Rightarrow> nat \<Rightarrow> conn_manager \<Rightarrow> conn_manager" where
  "attempts env f 0 cm = cm"
| "attempts env f (Suc n) cm = wake_backoff env (fst (f n)) (snd (f n)) None (attempts env f n cm)"

text \<open>What a failed attempt leaves of the fields that steer the loop.\<close>

definition steering :: "conn_manager \<Rightarrow> bool \<times> int \<times> nat \<times> seconds \<times> seconds list" where
  "steering cm = (cm_running cm, cm_max_reconnect_failures cm, cm_consecutive_failures cm, cm_backoff cm, cm_delays cm)"

named_theorems steering_frame

lemma steering_simple [steering_frame]:
  "steering (state_update env cm) = steering cm" "steering (maybe_create_repair_issue env cl cm) = steering cm"
  "steering (detect_storm env now cm) = steering cm" "steering (add_timeline now cl cm) = steering cm"
  by (auto simp: steering_def state_update_def maybe_create_repair_issue_def detect_storm_def
      check_reconnect_storm_def add_timeline_def Let_def split: option.splits)

text \<open>What the loop does after a failure that is worth another attempt.\<close>

definition retryable :: "manager_env \<Rightarrow> exn \<Rightarrow> bool" where
  "retryable env e \<longleftrightarrow> isinstance (ex_class e) PyException \<and> \<not> programming_error e
     \<and> classify_error (me_lib_available env) e \<noteq> PERMANENT"

lemma reconnect_failed_loop:
  assumes "retryable env e"
  obtains cm3 where "reconnect_failed env now e cm = loop_check env cm3"
    "steering cm3 = (cm_running cm, cm_max_reconnect_failures cm, cm_consecutive_failures cm + 1,
       min (cm_backoff cm * CM_BACKOFF_MULTIPLIER) (max_backoff env), cm_delays cm)"
proof -
  let ?cl = "classify_error (me_lib_available env) e"
  let ?cm2 = "add_timeline now ?cl (detect_storm env now (maybe_create_repair_issue env ?cl (count_failure env now e cm)))"
  let ?b = "min (cm_backoff cm * CM_BACKOFF_MULTIPLIER) (max_backoff env)"
  let ?cm3 = "state_update env (?cm2\<lparr>cm_backoff := ?b\<rparr>)"
  have st2: "steering ?cm2 =
      (cm_running cm, cm_max_reconnect_failures cm, cm_consecutive_failures cm + 1, cm_backoff cm, cm_delays cm)"
    unfolding steering_frame by (simp add: count_failure_def steering_def Let_def)
  then have same: "cm_backoff ?cm2 = cm_backoff cm" by (simp add: steering_def)
  have st3: "steering ?cm3 = (cm_running cm, cm_max_reconnect_failures cm, cm_consecutive_failures cm + 1, ?b, cm_delays cm)"
    unfolding steering_frame using st2 by (simp add: steering_def)
  have "reconnect_failed env now e cm = loop_check env ?cm3"
    using assms same unfolding reconnect_failed_def retryable_def Let_def by simp
  from that [OF this st3] show thesis .
qed

lemma reconnect_failed_retry:
  assumes "retryable env e" "cm_running cm"
    and "cm_max_reconnect_failures cm \<le> 0 \<or> int (cm_consecutive_failures cm) + 1 < cm_max_reconnect_failures cm"
  shows "steering (reconnect_failed env now e cm) = (True, cm_max_reconnect_failures cm, cm_consecutive_failures cm + 1,
      min (cm_backoff cm * CM_BACKOFF_MULTIPLIER) (max_backoff env),
      cm_delays cm @ [min (cm_backoff cm * CM_BACKOFF_MULTIPLIER) (max_backoff env)])
    \<and> cm_reconnect_task (reconnect_failed env now e cm) = Backing_Off"
proof -
  obtain cm3 where cm3: "reconnect_failed env now e cm = loop_check env cm3"
    "steering cm3 = (cm_running cm, cm_max_reconnect_failures cm, cm_consecutive_failures cm + 1,
       min (cm_backoff cm * CM_BACKOFF_MULTIPLIER) (max_backoff env), cm_delays cm)"
    using assms(1) by (rule reconnect_failed_loop)
  from cm3(2) assms(2,3) show ?thesis unfolding cm3(1) by (auto simp: steering_def loop_check_def)
qed

lemma reconnect_failed_goes_on:
  assumes "cm_reconnect_task (reconnect_failed env now e cm) = Backing_Off" "0 < cm_max_reconnect_failures cm"
  shows "retryable env e \<and> cm_running cm \<and> int (cm_consecutive_failures cm) + 1 < cm_max_reconnect_failures cm"
proof (cases "retryable env e")
  case True
  then obtain cm3 where cm3: "reconnect_failed env now e cm = loop_check env cm3"
    "steering cm3 = (cm_running cm, cm_max_reconnect_failures cm, cm_consecutive_failures cm + 1,
       min (cm_backoff cm * CM_BACKOFF_MULTIPLIER) (max_backoff env), cm_delays cm)"
    by (rule reconnect_failed_loop)
  with True assms show ?thesis by (auto simp: steering_def loop_check_def split: if_splits)
next
  case False
  with assms(1) show ?thesis by (auto simp: reconnect_failed_def retryable_def Let_def split: if_splits)
qed

lemma attempts_backoff:
  assumes "cm_max_reconnect_failures cm \<le> 0" "cm_running cm" "cm_reconnect_task cm = Backing_Off"
    and "\<And>i. \<exists>e. snd (f i) = Fails e \<and> retryable env e"
    and "0 \<le> cm_backoff cm" "cm_backoff cm \<le> max_backoff env"
  shows "steering (attempts env f n cm) = (True, cm_max_reconnect_failures cm, cm_consecutive_failures cm + n,
      min (cm_backoff cm * 2 ^ n) (max_backoff env),
      cm_delays cm @ map (\<lambda>i. min (cm_backoff cm * 2 ^ (i + 1)) (max_backoff env)) [0..<n])
    \<and> cm_reconnect_task (attempts env f n cm) = Backing_Off"
proof (induction n)
  case 0
  with assms show ?case by (simp add: steering_def)
next
  case (Suc n)
  let ?c = "attempts env f n cm"
  obtain e where e: "snd (f n) = Fails e" "retryable env e" using assms(4) by blast
  have c: "cm_running ?c" "cm_max_reconnect_failures ?c = cm_max_reconnect_failures cm"
    "cm_consecutive_failures ?c = cm_consecutive_failures cm + n"
    "cm_backoff ?c = min (cm_backoff cm * 2 ^ n) (max_backoff env)"
    "cm_delays ?c = cm_delays cm @ map (\<lambda>i. min (cm_backoff cm * 2 ^ (i + 1)) (max_backoff env)) [0..<n]"
    "cm_reconnect_task ?c = Backing_Off"
    using Suc.IH by (simp_all add: steering_def)
  have step: "attempts env f (Suc n) cm = reconnect_failed env (fst (f n)) e ?c"
    using c e by (simp add: wake_backoff_def)
  have "0 \<le> max_backoff env" using assms(5,6) by linarith
  then have "min (min (cm_backoff cm * 2 ^ n) (max_backoff env) * CM_BACKOFF_MULTIPLIER) (max_backoff env) =
      min (cm_backoff cm * 2 ^ Suc n) (max_backoff env)"
    by (simp add: CM_BACKOFF_MULTIPLIER_def min_def)
  then show ?case
    using reconnect_failed_retry [OF e(2) c(1), of "fst (f n)"] assms(1) c unfolding step by simp
qed

lemma attempts_count:
  assumes "0 < cm_max_reconnect_failures cm" "cm_reconnect_task (attempts env f n cm) = Backing_Off"
  shows "cm_max_reconnect_failures (attempts env f n cm) = cm_max_reconnect_failures cm
    \<and> cm_consecutive_failures (attempts env f n cm) = cm_consecutive_failures cm + n
    \<and> (0 < n \<longrightarrow> int (cm_consecutive_failures (attempts env f n cm)) < cm_max_reconnect_failures cm)"
  using assms(2)
proof (induction n)
  case (Suc n)
  let ?c = "attempts env f n cm"
  from Suc.prems have off: "cm_reconnect_task ?c = Backing_Off"
    by (cases "cm_reconnect_task ?c = Backing_Off") (simp_all add: wake_backoff_def)
  note c = Suc.IH [OF off]
  from Suc.prems off have run: "cm_running ?c" by (auto simp: wake_backoff_def split: if_splits)
  show ?case
  proof (cases "snd (f n)")
    case (Connects rt rssi)
    with Suc.prems off run show ?thesis
      by (auto simp: wake_backoff_def reconnect_succeeded_def Let_def split: if_splits)
  next
    case (Fails e)
    with off run have step: "attempts env f (Suc n) cm = reconnect_failed env (fst (f n)) e ?c"
      by (simp add: wake_backoff_def)
    with Suc.prems c assms(1) have on: "retryable env e" "int (cm_consecutive_failures ?c) + 1 < cm_max_reconnect_failures ?c"
      using reconnect_failed_goes_on [of env "fst (f n)" e ?c] by simp_all
    from reconnect_failed_retry [OF on(1) run, of "fst (f n)"] on(2) c show ?thesis
      unfolding step by (simp add: steering_def)
  qed
qed simp

subsection \<open>A concrete manager\<close>

definition demo_manager_env :: manager_env where
  "demo_manager_env = \<lparr>me_is_bridge = False, me_has_hass = True, me_on_connected = True,
     me_on_state_update = True, me_lib_available = True\<rparr>"

definition demo_failures :: "nat \<Rightarrow> seconds \<times> connect_outcome" where
  "demo_failures i = (of_nat i, Fails \<lparr>ex_class = OSError, ex_type = ''oserror'', ex_text = ''gone''\<rparr>)"

definition demo_manager :: "int \<Rightarrow> conn_manager" where
  "demo_manager failures = make_conn_manager
     \<lparr>cm_running := True, cm_max_reconnect_failures := failures, cm_reconnect_task := Debouncing\<rparr>"

subsection \<open>Properties\<close>



text \<open>C32: Without a limit on the failures, and as long as the attempts fail with errors that are worth another
  attempt, the task goes on, and the sleep before attempt \<open>i\<close> is the backoff it started with, doubled \<open>i\<close>
  times, but at most the maximal backoff.\<close>

theorem reconnect_backoff:
  assumes "cm_max_reconnect_failures cm \<le> 0" "cm_running cm" "cm_reconnect_task cm = Debouncing"
    and "\<And>i. \<exists>e. snd (f i) = Fails e \<and> retryable env e"
    and "0 \<le> cm_backoff cm" "cm_backoff cm \<le> max_backoff env"
  shows "let c = attempts env f n (wake_debounce env cm) in
    cm_reconnect_task c = Backing_Off \<and> cm_consecutive_failures c = cm_consecutive_failures cm + n
    \<and> cm_delays c = cm_delays cm @ map (\<lambda>i. min (cm_backoff cm * 2 ^ i) (max_backoff env)) [0..<Suc n]"
proof -
  let ?c = "cm\<lparr>cm_reconnect_task := Backing_Off, cm_delays := cm_delays cm @ [cm_backoff cm]\<rparr>"
  have wake: "wake_debounce env cm = ?c"
    using assms(1-3) by (simp add: wake_debounce_def loop_check_def)
  have "map (\<lambda>i. min (cm_backoff cm * 2 ^ i) (max_backoff env)) [0..<Suc n] =
      cm_backoff cm # map (\<lambda>i. min (cm_backoff cm * 2 ^ (i + 1)) (max_backoff env)) [0..<n]"
    using assms(6) by (simp only: upt_conv_Cons map_Suc_upt [symmetric]) (simp add: comp_def)
  with attempts_backoff [of ?c f env n] assms show ?thesis
    unfolding wake by (simp add: steering_def)
qed

theorem reconnect_backoff_witness:
  "let c = attempts demo_manager_env demo_failures 7 (wake_debounce demo_manager_env (demo_manager 0)) in
    cm_reconnect_task c = Backing_Off \<and> cm_delays c = [5, 10, 20, 40, 80, 160, 300, 300]"
proof -
  have start: "cm_max_reconnect_failures (demo_manager 0) \<le> 0" "cm_running (demo_manager 0)"
    "cm_reconnect_task (demo_manager 0) = Debouncing" "cm_backoff (demo_manager 0) = 5"
    "max_backoff demo_manager_env = 300" "cm_delays (demo_manager 0) = []"
    by (simp_all add: demo_manager_def make_conn_manager_def CM_INITIAL_BACKOFF_def max_backoff_def
        demo_manager_env_def CM_MAX_BACKOFF_def)
  have retry: "retryable demo_manager_env \<lparr>ex_class = OSError, ex_type = ''oserror'', ex_text = ''gone''\<rparr>" by code_simp
  have fails: "\<exists>e. snd (demo_failures i) = Fails e \<and> retryable demo_manager_env e" for i
    using retry by (simp add: demo_failures_def)
  have "map (\<lambda>i. min ((5::rat) * 2 ^ i) 300) [0..<Suc 7] = [5, 10, 20, 40, 80, 160, 300, 300]" by code_simp
  with reconnect_backoff [of "demo_manager 0" demo_failures demo_manager_env 7] fails start show ?thesis by (simp add: Let_def)
qed

text \<open>Whatever happens to a new connection manager, the interval of the RSSI polling stays between its default
  and its maximum and never gets shorter: every change of state resets the counter of changes that would
  shorten it, before it can reach two.\<close>

theorem rssi_interval_never_shortened:
  "RSSI_DEFAULT_INTERVAL \<le> cm_rssi_interval (mgr_run env ops make_conn_manager)
   \<and> cm_rssi_interval (mgr_run env ops make_conn_manager) \<le> cm_rssi_interval (mgr_run env (ops @ later) make_conn_manager)
   \<and> cm_rssi_interval (mgr_run env (ops @ later) make_conn_manager) \<le> RSSI_MAX_INTERVAL"
proof -
  have one: "interval_ok (mgr_run env ops make_conn_manager)"
    using mgr_run_grows [OF make_interval_ok] by (simp add: grows_def)
  from mgr_run_grows [OF this, of env later] one show ?thesis
    by (simp add: grows_def interval_ok_def mgr_run_def)
qed

text \<open>
  \<^verbatim>\<open>handle_disconnect\<close> leaves \<^verbatim>\<open>connect_time\<close> as it is: a second disconnect without a connection in between
  adds the time since the same connect again.
\<close>

theorem uptime_counted_twice:
  assumes "cs_connect_time (cm_stats cm) = Some t"
  shows "cs_connection_uptime (cm_stats (cm_handle_disconnect env now2 (cm_handle_disconnect env now1 cm))) =
    cs_connection_uptime (cm_stats cm) + (now1 - t) + (now2 - t)"
  using assms by (simp add: cm_handle_disconnect_def schedule_reconnect_def stop_rssi_polling_def Let_def)

text \<open>An attempt that fails with an error of the library never makes the task give up as permanent.\<close>

theorem library_errors_retried:
  assumes "me_lib_available env" "isinstance (ex_class e) CryptoError \<or> isinstance (ex_class e) SIGMeshKeyError
      \<or> isinstance (ex_class e) MeshTimeoutError \<or> isinstance (ex_class e) ProtocolError
      \<or> isinstance (ex_class e) DeviceNotFoundError \<or> isinstance (ex_class e) MeshConnectionError"
  shows "classify_error (me_lib_available env) e \<noteq> PERMANENT"
proof -
  have "classify_lib e \<noteq> None" using assms(2) by (auto simp: classify_lib_def Let_def)
  then obtain cl where "classify_lib e = Some cl" by blast
  with classify_lib_not_permanent [OF this] assms(1) show ?thesis by (simp add: classify_error_def)
qed

end
