(* ===== verification/Coordinator.thy ===== *)
theory Coordinator
  imports Connection_Manager Telink_Protocol Sig_Codec
begin

text \<open>
  \<^verbatim>\<open>TuyaBLEMeshCoordinator\<close> of \<^verbatim>\<open>coordinator.py\<close>: the state of a device as Home Assistant sees it, the
  callbacks that update it, the watchdog and the composition with the connection manager.  Saving the
  sequence number is in \<open>Sequence\<close>.  A call is atomic; time and the results of the device come with it.
\<close>

subsection \<open>State\<close>

datatype update_source = NOTIFY | POLL | COMMAND_ECHO | ASSUMED

datatype availability = UNKNOWN_AVAILABILITY | AVAILABLE | STALE | ASSUMED_ONLINE | UNREACHABLE | REPROVISION_REQUIRED

text \<open>The reason of a degraded state, without its formatting.\<close>

datatype degraded_reason = Permanent_Error error_class | Connection_Error error_class "exn option" | No_Updates

datatype state_value = VBool bool | VInt int | VRat rat

type_synonym state_dict = "string \<rightharpoonup> state_value"

record device_state =
  ds_is_on :: bool
  ds_brightness :: int
  ds_color_temp :: int
  ds_mode :: int
  ds_red :: int
  ds_green :: int
  ds_blue :: int
  ds_color_brightness :: int
  ds_rssi :: "int option"
  ds_firmware_version :: "string option"
  ds_power_w :: "rat option"
  ds_energy_kwh :: "rat option"
  ds_available :: bool
  ds_scene_id :: int
  ds_last_seen :: "seconds option"
  ds_desired_state :: state_dict
  ds_last_sent_state :: state_dict
  ds_last_confirmed_state :: state_dict
  ds_state_confidence :: rat
  ds_last_update_source :: update_source
  ds_last_update_time :: "seconds option"
  ds_device_availability :: availability
  ds_consecutive_write_failures :: nat
  ds_degraded_reason :: "degraded_reason option"

definition make_device_state :: device_state where
  "make_device_state = \<lparr>ds_is_on = False, ds_brightness = 0, ds_color_temp = 0, ds_mode = 0, ds_red = 0,
     ds_green = 0, ds_blue = 0, ds_color_brightness = 0, ds_rssi = None, ds_firmware_version = None,
     ds_power_w = None, ds_energy_kwh = None, ds_available = False, ds_scene_id = 0, ds_last_seen = None,
     ds_desired_state = Map.empty, ds_last_sent_state = Map.empty, ds_last_confirmed_state = Map.empty,
     ds_state_confidence = 0, ds_last_update_source = ASSUMED, ds_last_update_time = None,
     ds_device_availability = UNKNOWN_AVAILABILITY, ds_consecutive_write_failures = 0, ds_degraded_reason = None\<rparr>"

definition STALENESS_THRESHOLD_SECONDS :: seconds where "STALENESS_THRESHOLD_SECONDS = 300"
definition TUYA_VENDOR_OPCODE :: int where "TUYA_VENDOR_OPCODE = 0xCDD007"
definition DP_ID_POWER_W :: int where "DP_ID_POWER_W = 18"
definition DP_ID_ENERGY_KWH :: int where "DP_ID_ENERGY_KWH = 17"
definition MAX_CALLBACK_ERRORS :: nat where "MAX_CALLBACK_ERRORS = 3"

text \<open>
  \<open>co_dispatched\<close> counts the calls of \<^verbatim>\<open>_dispatch_update\<close>, \<open>co_status_count\<close> those of \<^verbatim>\<open>_maybe_persist_seq\<close>, and
  \<open>co_timestamp_responses\<close> the scheduled answers to a time request.
\<close>

record coordinator =
  co_state :: device_state
  co_mgr :: conn_manager
  co_watchdog :: bool
  co_dispatched :: nat
  co_status_count :: nat
  co_timestamp_responses :: nat

definition make_coordinator :: coordinator where
  "make_coordinator = \<lparr>co_state = make_device_state, co_mgr = make_conn_manager, co_watchdog = False,
     co_dispatched = 0, co_status_count = 0, co_timestamp_responses = 0\<rparr>"

definition coordinator_env :: "bool \<Rightarrow> bool \<Rightarrow> bool \<Rightarrow> manager_env" where
  "coordinator_env is_bridge has_hass lib_available =
     \<lparr>me_is_bridge = is_bridge, me_has_hass = has_hass, me_on_connected = True, me_on_state_update = True,
      me_lib_available = lib_available\<rparr>"

definition dispatch_update :: "coordinator \<Rightarrow> coordinator" where
  "dispatch_update co = co\<lparr>co_dispatched := co_dispatched co + 1\<rparr>"

subsection \<open>Listeners\<close>

text \<open>Listeners outside Home Assistant, with the count of their consecutive errors.\<close>

record listeners =
  ls_listeners :: "nat list"
  ls_errors :: "nat \<Rightarrow> nat"
  ls_called :: "nat list"

definition add_listener :: "nat \<Rightarrow> listeners \<Rightarrow> listeners" where
  "add_listener l ls = ls\<lparr>ls_listeners := ls_listeners ls @ [l]\<rparr>"

definition remove_listener :: "nat \<Rightarrow> listeners \<Rightarrow> listeners" where
  "remove_listener l ls = ls\<lparr>ls_listeners := remove1 l (ls_listeners ls), ls_errors := (ls_errors ls)(l := 0)\<rparr>"

definition call_listener :: "(nat \<Rightarrow> bool) \<Rightarrow> nat \<Rightarrow> listeners \<Rightarrow> listeners" where
  "call_listener raises l ls =
     (let ls1 = ls\<lparr>ls_called := ls_called ls @ [l]\<rparr> in
      if \<not> raises l then ls1\<lparr>ls_errors := (ls_errors ls1)(l := 0)\<rparr>
      else let count = ls_errors ls1 l + 1; ls2 = ls1\<lparr>ls_errors := (ls_errors ls1)(l := count)\<rparr> in
        if count \<ge> MAX_CALLBACK_ERRORS
        then ls2\<lparr>ls_listeners := remove1 l (ls_listeners ls2), ls_errors := (ls_errors ls2)(l := 0)\<rparr>
        else ls2)"

definition notify_listeners :: "(nat \<Rightarrow> bool) \<Rightarrow> listeners \<Rightarrow> listeners" where
  "notify_listeners raises ls = fold (call_listener raises) (ls_listeners ls) ls"

subsection \<open>Callbacks of the connection manager\<close>

definition handle_reconnected :: "manager_env \<Rightarrow> string option \<Rightarrow> coordinator \<Rightarrow> coordinator" where
  "handle_reconnected env firmware_version co =
     dispatch_update (co\<lparr>co_state := (co_state co)\<lparr>ds_available := True, ds_firmware_version := firmware_version\<rparr>,
                        co_mgr := start_rssi_polling env (co_mgr co)\<rparr>)"

definition handle_conn_state_update :: "coordinator \<Rightarrow> coordinator" where
  "handle_conn_state_update co =
     (let mgr = co_mgr co; st = co_state co; ec = cs_last_error_class (cm_stats mgr);
          st1 = (if ec = PERMANENT then
                   st\<lparr>ds_available := False, ds_device_availability := REPROVISION_REQUIRED,
                      ds_degraded_reason := Some (Permanent_Error ec)\<rparr>
                 else if \<not> ds_available st \<and> cm_consecutive_failures mgr > 0 then
                   st\<lparr>ds_available := False,
                      ds_device_availability := (if ec = MESH_AUTH then REPROVISION_REQUIRED else UNREACHABLE),
                      ds_degraded_reason := Some (Connection_Error ec (cs_last_error (cm_stats mgr)))\<rparr>
                 else st);
          st2 = (case cm_latest_rssi mgr of None \<Rightarrow> st1
                 | Some r \<Rightarrow> if Some r \<noteq> ds_rssi st1 then st1\<lparr>ds_rssi := Some r\<rparr> else st1)
      in dispatch_update (co\<lparr>co_state := st2\<rparr>))"

subsection \<open>Notifications of the device\<close>

definition notify_state :: "seconds \<Rightarrow> state_dict \<Rightarrow> device_state \<Rightarrow> device_state" where
  "notify_state now confirmed st =
     st\<lparr>ds_available := True, ds_last_seen := Some now, ds_state_confidence := 1, ds_last_update_source := NOTIFY,
        ds_last_update_time := Some now, ds_device_availability := AVAILABLE, ds_consecutive_write_failures := 0,
        ds_degraded_reason := None, ds_last_confirmed_state := confirmed\<rparr>"

text \<open>What the three status callbacks do with the new state and whether it \<open>changed\<close>.\<close>

definition apply_status :: "bool \<Rightarrow> device_state \<Rightarrow> coordinator \<Rightarrow> coordinator" where
  "apply_status changed st co =
     (let was_available = ds_available (co_state co);
          mgr = (co_mgr co)\<lparr>cm_backoff := CM_INITIAL_BACKOFF\<rparr>;
          co1 = co\<lparr>co_state := st, co_mgr := (if changed then record_state_change mgr else mgr)\<rparr>
      in if changed \<or> \<not> was_available then dispatch_update co1 else co1)"

definition count_status :: "coordinator \<Rightarrow> coordinator" where
  "count_status co = co\<lparr>co_status_count := co_status_count co + 1\<rparr>"

definition level_to_brightness :: "int \<Rightarrow> int" where
  "level_to_brightness level = py_round (of_int ((level + 32768) * 255) / 65535)"

definition on_level_update :: "seconds \<Rightarrow> int \<Rightarrow> coordinator \<Rightarrow> coordinator" where
  "on_level_update now level co =
     (let brightness = level_to_brightness level; is_on = brightness > 0; st = co_state co;
          changed = (ds_brightness st \<noteq> brightness \<or> ds_is_on st \<noteq> is_on);
          confirmed = [''is_on'' \<mapsto> VBool is_on, ''brightness'' \<mapsto> VInt brightness]
      in count_status (apply_status changed
           (notify_state now confirmed (st\<lparr>ds_brightness := brightness, ds_is_on := is_on\<rparr>)) co))"

definition on_onoff_update :: "seconds \<Rightarrow> bool \<Rightarrow> coordinator \<Rightarrow> coordinator" where
  "on_onoff_update now on co =
     (let st = co_state co
      in count_status (apply_status (ds_is_on st \<noteq> on)
           (notify_state now [''is_on'' \<mapsto> VBool on] (st\<lparr>ds_is_on := on\<rparr>)) co))"

definition status_changed :: "status_response \<Rightarrow> device_state \<Rightarrow> bool" where
  "status_changed s st \<longleftrightarrow> ds_mode st \<noteq> sr_mode s \<or> ds_brightness st \<noteq> sr_white_brightness s
     \<or> ds_color_temp st \<noteq> sr_white_temp s \<or> ds_red st \<noteq> sr_red s \<or> ds_green st \<noteq> sr_green s
     \<or> ds_blue st \<noteq> sr_blue s \<or> ds_color_brightness st \<noteq> sr_color_brightness s"

definition on_status_update :: "seconds \<Rightarrow> status_response \<Rightarrow> coordinator \<Rightarrow> coordinator" where
  "on_status_update now s co =
     (let st = co_state co; is_on = (sr_white_brightness s > 0 \<or> sr_color_brightness s > 0);
          confirmed = [''is_on'' \<mapsto> VBool is_on, ''mode'' \<mapsto> VInt (sr_mode s), ''brightness'' \<mapsto> VInt (sr_white_brightness s),
            ''color_temp'' \<mapsto> VInt (sr_white_temp s), ''red'' \<mapsto> VInt (sr_red s), ''green'' \<mapsto> VInt (sr_green s),
            ''blue'' \<mapsto> VInt (sr_blue s), ''color_brightness'' \<mapsto> VInt (sr_color_brightness s)];
          st1 = st\<lparr>ds_mode := sr_mode s, ds_brightness := sr_white_brightness s, ds_color_temp := sr_white_temp s,
            ds_red := sr_red s, ds_green := sr_green s, ds_blue := sr_blue s,
            ds_color_brightness := sr_color_brightness s, ds_is_on := is_on\<rparr>
      in apply_status (status_changed s st) (notify_state now confirmed st1) co)"

fun vendor_dps :: "tuya_vendor_dp list \<Rightarrow> rat option \<times> rat option \<times> bool \<Rightarrow> rat option \<times> rat option \<times> bool" where
  "vendor_dps [] acc = acc"
| "vendor_dps (dp # dps) (watts, energy, updated) =
     vendor_dps dps
       (if vd_id dp = DP_ID_POWER_W \<and> length (vd_value dp) \<ge> 1
        then (Some (of_int (be_int (vd_value dp)) / 10), energy, True)
        else if vd_id dp = DP_ID_ENERGY_KWH \<and> length (vd_value dp) \<ge> 1
        then (watts, Some (of_int (be_int (vd_value dp)) / 100), True)
        else (watts, energy, updated))"

definition put_rat :: "string \<Rightarrow> rat option \<Rightarrow> state_dict \<Rightarrow> state_dict" where
  "put_rat key v d = (case v of None \<Rightarrow> d | Some x \<Rightarrow> d(key \<mapsto> VRat x))"

definition on_vendor_update :: "seconds \<Rightarrow> int \<Rightarrow> bytes \<Rightarrow> coordinator \<Rightarrow> coordinator" where
  "on_vendor_update now opcode params co =
     (if opcode \<noteq> TUYA_VENDOR_OPCODE then co
      else let frame = parse_tuya_vendor_frame params in
        if vf_command frame = TUYA_CMD_TIMESTAMP_SYNC
        then co\<lparr>co_timestamp_responses := co_timestamp_responses co + 1\<rparr>
        else let st = co_state co;
            (watts, energy, updated) = vendor_dps (vf_dps frame) (ds_power_w st, ds_energy_kwh st, False)
          in if updated then
               dispatch_update (co\<lparr>co_state := st\<lparr>ds_power_w := watts, ds_energy_kwh := energy, ds_available := True,
                 ds_last_confirmed_state := put_rat ''energy_kwh'' energy (put_rat ''power_w'' watts (ds_last_confirmed_state st)),
                 ds_state_confidence := 1, ds_last_update_source := NOTIFY, ds_last_update_time := Some now\<rparr>\<rparr>)
             else co)"

definition on_composition_update :: "string option \<Rightarrow> coordinator \<Rightarrow> coordinator" where
  "on_composition_update firmware_version co =
     dispatch_update (co\<lparr>co_state := (co_state co)\<lparr>ds_firmware_version := firmware_version\<rparr>\<rparr>)"

definition on_device_disconnect :: "manager_env \<Rightarrow> seconds \<Rightarrow> coordinator \<Rightarrow> coordinator" where
  "on_device_disconnect env now co =
     dispatch_update (co\<lparr>co_state := (co_state co)\<lparr>ds_available := False\<rparr>, co_mgr := cm_handle_disconnect env now (co_mgr co)\<rparr>)"


subsection \<open>The watchdog\<close>

text \<open>What \<^verbatim>\<open>_probe_device\<close> finds: an RSSI, a live connection, or nothing.\<close>

datatype probe_result = Probe_Rssi int | Probe_Connected | Probe_Failed

definition probe_device :: "seconds \<Rightarrow> probe_result \<Rightarrow> coordinator \<Rightarrow> bool \<times> coordinator" where
  "probe_device now found co = (case found of
       Probe_Rssi r \<Rightarrow> (True, co\<lparr>co_state := (co_state co)\<lparr>ds_last_seen := Some now, ds_rssi := Some r\<rparr>\<rparr>)
     | Probe_Connected \<Rightarrow> (True, co\<lparr>co_state := (co_state co)\<lparr>ds_last_seen := Some now\<rparr>\<rparr>)
     | Probe_Failed \<Rightarrow> (False, co))"

text \<open>One round of \<^verbatim>\<open>_staleness_watchdog_loop\<close>, after its sleep.\<close>

definition watchdog_round :: "seconds \<Rightarrow> probe_result \<Rightarrow> coordinator \<Rightarrow> coordinator" where
  "watchdog_round now found co =
     (if \<not> co_watchdog co then co
      else if \<not> ds_available (co_state co) then co
      else case ds_last_seen (co_state co) of None \<Rightarrow> co
      | Some last_update \<Rightarrow>
          if now - last_update > STALENESS_THRESHOLD_SECONDS then
            let (success, co1) = probe_device now found co in
            if \<not> success then
              dispatch_update (co1\<lparr>co_state := (co_state co1)\<lparr>ds_available := False, ds_device_availability := STALE,
                ds_degraded_reason := Some No_Updates\<rparr>\<rparr>)
            else co1
          else co)"

subsection \<open>Connecting\<close>

definition initial_connect ::
  "manager_env \<Rightarrow> connect_outcome \<Rightarrow> seconds \<Rightarrow> string option \<Rightarrow> coordinator \<Rightarrow> (exn + unit) \<times> coordinator" where
  "initial_connect env outcome now firmware_version co =
     (let (r, mgr) = async_connect env outcome now ((co_mgr co)\<lparr>cm_running := True\<rparr>); co1 = co\<lparr>co_mgr := mgr\<rparr>
      in case r of
           Inl e \<Rightarrow> (Inl e, co1)
         | Inr response_time \<Rightarrow>
             (Inr (), dispatch_update (co1\<lparr>co_state := (co_state co1)\<lparr>ds_available := True,
                ds_firmware_version := firmware_version, ds_last_seen := Some now\<rparr>, co_watchdog := True\<rparr>)))"

definition stop_coordinator :: "coordinator \<Rightarrow> coordinator" where
  "stop_coordinator co = co\<lparr>co_mgr := cancel_tasks ((co_mgr co)\<lparr>cm_running := False\<rparr>), co_watchdog := False,
     co_state := (co_state co)\<lparr>ds_available := False\<rparr>\<rparr>"

text \<open>
  The ends of the sleeps of the reconnect task: the connection manager calls \<^verbatim>\<open>_handle_reconnected\<close> when an
  attempt succeeds and \<^verbatim>\<open>_handle_conn_state_update\<close> for each of its state updates.
\<close>

definition state_updates :: "conn_manager \<Rightarrow> coordinator \<Rightarrow> coordinator" where
  "state_updates mgr co =
     (handle_conn_state_update ^^ (cm_updates mgr - cm_updates (co_mgr co))) (co\<lparr>co_mgr := mgr\<rparr>)"

definition co_wake_debounce :: "manager_env \<Rightarrow> coordinator \<Rightarrow> coordinator" where
  "co_wake_debounce env co = state_updates (wake_debounce env (co_mgr co)) co"

definition co_wake_backoff ::
  "manager_env \<Rightarrow> seconds \<Rightarrow> connect_outcome \<Rightarrow> string option \<Rightarrow> coordinator \<Rightarrow> coordinator" where
  "co_wake_backoff env now outcome firmware_version co =
     (let mgr = wake_backoff env now outcome None (co_mgr co);
          attempted = (cm_reconnect_task (co_mgr co) = Backing_Off \<and> cm_running (co_mgr co))
      in case outcome of
           Connects response_time rssi \<Rightarrow>
             if attempted then handle_reconnected env firmware_version (co\<lparr>co_mgr := mgr\<rparr>) else co\<lparr>co_mgr := mgr\<rparr>
         | Fails e \<Rightarrow> state_updates mgr co)"

subsection \<open>Commands of the entities\<close>

definition set_scene_id :: "int \<Rightarrow> coordinator \<Rightarrow> coordinator" where
  "set_scene_id scene_id co = dispatch_update (co\<lparr>co_state := (co_state co)\<lparr>ds_scene_id := scene_id\<rparr>\<rparr>)"

definition sent_int :: "state_dict \<Rightarrow> string \<Rightarrow> int \<Rightarrow> int" where
  "sent_int sent key old = (case sent key of Some (VInt v) \<Rightarrow> v | _ \<Rightarrow> old)"

definition sent_bool :: "state_dict \<Rightarrow> string \<Rightarrow> bool \<Rightarrow> bool" where
  "sent_bool sent key old = (case sent key of Some (VBool v) \<Rightarrow> v | _ \<Rightarrow> old)"

definition assume_state :: "seconds \<Rightarrow> state_dict \<Rightarrow> state_dict \<Rightarrow> coordinator \<Rightarrow> coordinator" where
  "assume_state now desired sent co =
     (let st = co_state co
      in dispatch_update (co\<lparr>co_state := st\<lparr>ds_desired_state := desired, ds_last_sent_state := sent,
           ds_state_confidence := 3 / 10, ds_last_update_source := ASSUMED, ds_last_update_time := Some now,
           ds_device_availability := ASSUMED_ONLINE,
           ds_is_on := sent_bool sent ''is_on'' (ds_is_on st),
           ds_brightness := sent_int sent ''brightness'' (ds_brightness st),
           ds_color_temp := sent_int sent ''color_temp'' (ds_color_temp st),
           ds_red := sent_int sent ''red'' (ds_red st), ds_green := sent_int sent ''green'' (ds_green st),
           ds_blue := sent_int sent ''blue'' (ds_blue st),
           ds_color_brightness := sent_int sent ''color_brightness'' (ds_color_brightness st),
           ds_mode := sent_int sent ''mode'' (ds_mode st)\<rparr>\<rparr>))"


subsection \<open>What the listeners see\<close>

text \<open>The fields that the entities show; while a status is coherent, \<open>is_on\<close> follows from the brightness.\<close>

definition shown :: "device_state \<Rightarrow> bool \<times> bool \<times> int \<times> int \<times> int \<times> int \<times> int \<times> int \<times> int" where
  "shown st = (ds_available st, ds_is_on st, ds_mode st, ds_brightness st, ds_color_temp st, ds_red st, ds_green st,
     ds_blue st, ds_color_brightness st)"

definition coherent :: "device_state \<Rightarrow> bool" where
  "coherent st \<longleftrightarrow> (ds_is_on st \<longleftrightarrow> ds_brightness st > 0 \<or> ds_color_brightness st > 0)"

lemma apply_status_fields [simp]:
  "co_state (apply_status changed st co) = st"
  "co_dispatched (apply_status changed st co) =
     co_dispatched co + (if changed \<or> \<not> ds_available (co_state co) then 1 else 0)"
  by (simp_all add: apply_status_def dispatch_update_def Let_def)

lemma count_status_fields [simp]:
  "co_state (count_status co) = co_state co" "co_dispatched (count_status co) = co_dispatched co"
  by (simp_all add: count_status_def)


text \<open>
  The full status does not compare \<open>is_on\<close>: after an on-off status that says off, a status with the
  stored brightness turns the light on again in the state, and no entity hears of it.
\<close>

theorem status_update_missed:
  assumes "\<not> status_changed s (co_state co)" "sr_white_brightness s > 0"
  shows "let co1 = on_onoff_update t1 False co; co2 = on_status_update t2 s co1 in
    \<not> ds_is_on (co_state co1) \<and> ds_is_on (co_state co2) \<and> co_dispatched co2 = co_dispatched co1"
  using assms by (auto simp: on_onoff_update_def on_status_update_def notify_state_def status_changed_def Let_def)

subsection \<open>Losing and regaining the connection\<close>

lemma state_updates_mgr [simp]: "co_mgr (state_updates mgr co) = mgr"
proof -
  have "co_mgr ((handle_conn_state_update ^^ k) co) = co_mgr co" for k and co :: coordinator
    by (induction k) (simp_all add: handle_conn_state_update_def dispatch_update_def Let_def)
  then show ?thesis by (simp add: state_updates_def)
qed

text \<open>Not available, with a reason that only a notification removes.\<close>

definition degraded :: "coordinator \<Rightarrow> bool" where
  "degraded co \<longleftrightarrow> \<not> ds_available (co_state co) \<and> ds_degraded_reason (co_state co) \<noteq> None
     \<and> ds_device_availability (co_state co) \<in> {UNREACHABLE, REPROVISION_REQUIRED}"

definition offline_since :: "seconds option \<Rightarrow> coordinator \<Rightarrow> bool" where
  "offline_since t co \<longleftrightarrow> \<not> ds_available (co_state co) \<and> ds_last_seen (co_state co) = t"

lemma conn_update_offline: "offline_since t co \<Longrightarrow> offline_since t (handle_conn_state_update co)"
  by (auto simp: offline_since_def handle_conn_state_update_def dispatch_update_def Let_def split: option.splits)

lemma conn_update_degraded:
  assumes "\<not> ds_available (co_state co)" "cm_consecutive_failures (co_mgr co) > 0"
  shows "degraded (handle_conn_state_update co)"
  using assms by (auto simp: degraded_def handle_conn_state_update_def dispatch_update_def Let_def split: option.splits)

lemma state_updates_offline:
  assumes "offline_since t co" shows "offline_since t (state_updates mgr co)"
proof -
  have "offline_since t ((handle_conn_state_update ^^ k) (co\<lparr>co_mgr := mgr\<rparr>))" for k
    by (induction k) (use assms in \<open>simp_all add: conn_update_offline, simp add: offline_since_def\<close>)
  then show ?thesis by (simp add: state_updates_def)
qed

lemma state_updates_degraded:
  assumes "\<not> ds_available (co_state co)" "cm_consecutive_failures mgr > 0" "cm_updates (co_mgr co) < cm_updates mgr"
  shows "degraded (state_updates mgr co)"
proof -
  let ?co = "co\<lparr>co_mgr := mgr\<rparr>"
  have mgr: "co_mgr ((handle_conn_state_update ^^ k) ?co) = mgr" for k
    by (induction k) (simp_all add: handle_conn_state_update_def dispatch_update_def Let_def)
  have off: "\<not> ds_available (co_state ((handle_conn_state_update ^^ k) ?co))" for k
    by (induction k) (use assms(1) in \<open>auto simp: handle_conn_state_update_def dispatch_update_def Let_def split: option.splits\<close>)
  obtain k where "cm_updates mgr - cm_updates (co_mgr co) = Suc k" using assms(3) by (metis Suc_diff_Suc)
  with conn_update_degraded [OF off, of k] mgr [of k] assms(2) show ?thesis by (simp add: state_updates_def)
qed

text \<open>The attempts \<open>f 0, ..., f (n - 1)\<close> with their times, as the coordinator sees them.\<close>

fun co_attempts :: "manager_env \<Rightarrow> (nat \<Rightarrow> seconds \<times> connect_outcome) \<Rightarrow> nat \<Rightarrow> coordinator \<Rightarrow> coordinator" where
  "co_attempts env f 0 co = co"
| "co_attempts env f (Suc n) co = co_wake_backoff env (fst (f n)) (snd (f n)) None (co_attempts env f n co)"

lemma co_attempts_mgr:
  assumes "\<And>i. \<exists>e. snd (f i) = Fails e \<and> retryable env e"
  shows "co_mgr (co_attempts env f n co) = attempts env f n (co_mgr co)"
proof (induction n)
  case (Suc n)
  obtain e where "snd (f n) = Fails e" using assms by blast
  with Suc.IH show ?case by (simp add: co_wake_backoff_def)
qed simp

lemma reconnect_failed_updates:
  assumes "retryable env e" "me_on_state_update env"
  shows "cm_updates cm < cm_updates (reconnect_failed env now e cm)"
proof -
  have keep: "cm_updates (maybe_create_repair_issue env cl c) = cm_updates c" "cm_updates (detect_storm env now c) = cm_updates c"
    "cm_updates (add_timeline now cl c) = cm_updates c" "cm_updates (count_failure env now e c) = cm_updates c" for cl c
    by (auto simp: maybe_create_repair_issue_def detect_storm_def check_reconnect_storm_def add_timeline_def
        count_failure_def Let_def split: option.splits)
  have le: "k \<le> cm_updates (loop_check env c)" if "cm_updates c = k" for c k
    using that by (simp add: loop_check_def state_update_def)
  from assms keep show ?thesis
    by (simp add: reconnect_failed_def retryable_def state_update_def Let_def Suc_le_eq [symmetric] le)
qed

lemma co_attempts_offline:
  assumes "\<And>i. \<exists>e. snd (f i) = Fails e \<and> retryable env e" "offline_since t co"
  shows "offline_since t (co_attempts env f n co)"
proof (induction n)
  case (Suc n)
  obtain e where "snd (f n) = Fails e" using assms(1) by blast
  with state_updates_offline [OF Suc.IH] show ?case by (simp add: co_wake_backoff_def)
qed (simp add: assms(2))

text \<open>A coordinator whose connection is up and whose reconnecting is not limited.\<close>

definition up :: "manager_env \<Rightarrow> coordinator \<Rightarrow> bool" where
  "up env co \<longleftrightarrow> cm_running (co_mgr co) \<and> cm_max_reconnect_failures (co_mgr co) \<le> 0
     \<and> 0 \<le> cm_backoff (co_mgr co) \<and> cm_backoff (co_mgr co) \<le> max_backoff env"

definition lost :: "manager_env \<Rightarrow> seconds \<Rightarrow> coordinator \<Rightarrow> coordinator" where
  "lost env now co = co_wake_debounce env (on_device_disconnect env now co)"

lemma lost_mgr:
  assumes "up env co"
  shows "let cm = co_mgr (lost env now co) in cm_running cm \<and> cm_reconnect_task cm = Backing_Off
    \<and> cm_max_reconnect_failures cm \<le> 0 \<and> 0 \<le> cm_backoff cm \<and> cm_backoff cm \<le> max_backoff env"
  using assms
  by (auto simp: up_def lost_def co_wake_debounce_def on_device_disconnect_def dispatch_update_def cm_handle_disconnect_def
      schedule_reconnect_def stop_rssi_polling_def wake_debounce_def loop_check_def Let_def max_backoff_def
      BRIDGE_INITIAL_BACKOFF_def BRIDGE_MAX_BACKOFF_def)

lemma lost_offline: "offline_since (ds_last_seen (co_state co)) (lost env now co)"
  unfolding lost_def co_wake_debounce_def
  by (rule state_updates_offline) (simp add: offline_since_def on_device_disconnect_def dispatch_update_def)

text \<open>Between the loss and the success the device is degraded, and the reconnect task sleeps.\<close>

lemma lost_attempts:
  assumes "up env co" "me_on_state_update env" "\<And>i. \<exists>e. snd (f i) = Fails e \<and> retryable env e"
  shows "let co1 = co_attempts env f (Suc n) (lost env now co) in degraded co1
    \<and> ds_last_seen (co_state co1) = ds_last_seen (co_state co)
    \<and> cm_reconnect_task (co_mgr co1) = Backing_Off \<and> cm_running (co_mgr co1)"
proof -
  let ?l = "lost env now co" and ?a = "\<lambda>n. co_attempts env f n (lost env now co)"
  have mgr: "co_mgr (?a n) = attempts env f n (co_mgr ?l)" for n using assms(3) by (rule co_attempts_mgr)
  have task: "cm_reconnect_task (co_mgr (?a n)) = Backing_Off" "cm_running (co_mgr (?a n))"
    "cm_max_reconnect_failures (co_mgr (?a n)) \<le> 0"
    "cm_consecutive_failures (co_mgr (?a n)) = cm_consecutive_failures (co_mgr ?l) + n" for n
    using attempts_backoff [of "co_mgr ?l" f env n] lost_mgr [OF assms(1), of now] assms(3)
    unfolding mgr by (auto simp: steering_def Let_def)
  have off: "offline_since (ds_last_seen (co_state co)) (?a n)" for n
    using assms(3) lost_offline by (rule co_attempts_offline)
  obtain e where e: "snd (f n) = Fails e" "retryable env e" using assms(3) by blast
  have wake: "wake_backoff env (fst (f n)) (Fails e) None (co_mgr (?a n)) = reconnect_failed env (fst (f n)) e (co_mgr (?a n))"
    using task [of n] by (simp add: wake_backoff_def)
  have "?a (Suc n) = state_updates (reconnect_failed env (fst (f n)) e (co_mgr (?a n))) (?a n)"
    using e(1) wake by (simp add: co_wake_backoff_def)
  moreover have "cm_consecutive_failures (reconnect_failed env (fst (f n)) e (co_mgr (?a n))) > 0"
    using reconnect_failed_retry [OF e(2) task(2), of n "fst (f n)"] task(3) [of n] by (simp add: steering_def)
  ultimately have "degraded (?a (Suc n))"
    using reconnect_failed_updates [OF e(2) assms(2)] off [of n] by (simp add: state_updates_degraded offline_since_def)
  with task [of "Suc n"] off [of "Suc n"] show ?thesis by (simp only: Let_def offline_since_def simp_thms)
qed

lemma reconnect_succeeded_fields:
  assumes "me_on_connected env"
  shows "cm_reconnect_task (reconnect_succeeded env now rt rssi None cm) = Reconnect_Returned"
    "cm_consecutive_failures (reconnect_succeeded env now rt rssi None cm) = 0"
    "cm_backoff (reconnect_succeeded env now rt rssi None cm) = initial_backoff env"
    "me_has_hass env \<Longrightarrow> cm_raised_repair_issues (reconnect_succeeded env now rt rssi None cm) = []"
  using assms by (auto simp: reconnect_succeeded_def note_rssi_def add_rssi_def clear_repair_issues_on_recovery_def Let_def
      split: option.splits)


subsection \<open>Listeners\<close>

lemma call_listener_effect:
  assumes "distinct (ls_listeners ls)"
  shows "ls_called (call_listener raises l ls) = ls_called ls @ [l]"
    "ls_listeners (call_listener raises l ls) =
      filter (\<lambda>k. \<not> (k = l \<and> raises k \<and> MAX_CALLBACK_ERRORS \<le> ls_errors ls k + 1)) (ls_listeners ls)"
    "k \<noteq> l \<Longrightarrow> ls_errors (call_listener raises l ls) k = ls_errors ls k"
  using assms by (auto simp: call_listener_def Let_def distinct_remove1_removeAll removeAll_filter_not_eq intro!: filter_cong)

lemma notify_fold:
  assumes "distinct (ls_listeners ls)" "distinct xs"
  shows "ls_called (fold (call_listener raises) xs ls) = ls_called ls @ xs
    \<and> ls_listeners (fold (call_listener raises) xs ls) =
      filter (\<lambda>k. \<not> (k \<in> set xs \<and> raises k \<and> MAX_CALLBACK_ERRORS \<le> ls_errors ls k + 1)) (ls_listeners ls)"
  using assms
proof (induction xs arbitrary: ls)
  case (Cons x xs)
  let ?l = "call_listener raises x ls"
  note eff = call_listener_effect [OF Cons.prems(1), where raises = raises and l = x]
  have "distinct (ls_listeners ?l)" using Cons.prems(1) eff(2) by simp
  with Cons.IH [of ?l] Cons.prems(2) eff(1) have ih: "ls_called (fold (call_listener raises) xs ?l) = ls_called ls @ x # xs"
    "ls_listeners (fold (call_listener raises) xs ?l) =
      filter (\<lambda>k. \<not> (k \<in> set xs \<and> raises k \<and> MAX_CALLBACK_ERRORS \<le> ls_errors ?l k + 1)) (ls_listeners ?l)"
    by simp_all
  have "ls_errors ?l k = ls_errors ls k" if "k \<in> set xs" for k
    using that Cons.prems(2) by (intro eff(3)) auto
  then show ?case
    unfolding fold.simps comp_apply ih eff(2) filter_filter
    by (intro conjI refl filter_cong) auto
qed simp

text \<open>A notification calls every listener once, in their order, whatever the others raise; afterwards exactly
  those are gone that raised and had already raised at the two notifications before.\<close>

theorem listeners_isolated:
  assumes "distinct (ls_listeners ls)"
  shows "ls_called (notify_listeners raises ls) = ls_called ls @ ls_listeners ls
    \<and> ls_listeners (notify_listeners raises ls) =
      filter (\<lambda>l. \<not> (raises l \<and> 3 \<le> ls_errors ls l + 1)) (ls_listeners ls)"
  using notify_fold [OF assms assms, of raises]
  by (auto simp: notify_listeners_def MAX_CALLBACK_ERRORS_def intro: filter_cong)

text \<open>
  The watchdog reads \<^verbatim>\<open>last_seen\<close>, which vendor messages do not refresh: a plug that reports its power all
  the time is taken for stale.
\<close>

theorem vendor_updates_do_not_refresh:
  assumes "co_watchdog co" "ds_last_seen (co_state co) = Some t" "now - t > STALENESS_THRESHOLD_SECONDS"
    and "ds_available (co_state (on_vendor_update now opcode params co))"
  shows "\<not> ds_available (co_state (watchdog_round now Probe_Failed (on_vendor_update now opcode params co)))"
proof -
  have "ds_last_seen (co_state (on_vendor_update now opcode params co)) = Some t"
    "co_watchdog (on_vendor_update now opcode params co)"
    using assms(1,2) by (auto simp: on_vendor_update_def dispatch_update_def Let_def split: prod.splits)
  with assms(3,4) show ?thesis by (simp add: watchdog_round_def probe_device_def dispatch_update_def Let_def)
qed

subsection \<open>Witnesses\<close>

definition demo_coordinator :: coordinator where
  "demo_coordinator = make_coordinator\<lparr>co_mgr := demo_manager 0\<rparr>"



theorem listeners_isolated_witness:
  "ls_listeners (notify_listeners (\<lambda>l. l = 2) (notify_listeners (\<lambda>l. l = 2) (notify_listeners (\<lambda>l. l = 2)
     \<lparr>ls_listeners = [1, 2, 3], ls_errors = (\<lambda>_. 0), ls_called = []\<rparr>))) = [1, 3]"
proof -
  let ?ls = "notify_listeners (\<lambda>l. l = 2) (notify_listeners (\<lambda>l. l = 2)
      \<lparr>ls_listeners = [1, 2, 3], ls_errors = (\<lambda>_. 0), ls_called = []\<rparr>)"
  have "ls_listeners ?ls = [1, 2, 3]" "ls_errors ?ls 2 = 2" by code_simp+
  with listeners_isolated [of ?ls "\<lambda>l. l = 2"] show ?thesis by simp
qed

end
