(* ===== verification/Telink_Connection.thy ===== *)
theory Telink_Connection
  imports Telink_Protocol Sequence
begin

text \<open>
  The Telink side of a BLE connection: the pairing handshake of \<^verbatim>\<open>lib/tuya_ble_mesh/provisioner.py\<close> and
  the life cycle of \<^verbatim>\<open>BLEConnection\<close> in \<^verbatim>\<open>lib/tuya_ble_mesh/connection.py\<close>.  The client is an oracle
  \<open>gatt\<close>: how its n-th operation ends, an exception or the bytes it reads, a timeout of \<^verbatim>\<open>wait_for\<close>
  being the TimeoutError.  The operations of a connection run one at a time.
\<close>

subsection \<open>GATT operations\<close>

datatype characteristic = CHAR_STATUS | CHAR_COMMAND | CHAR_PAIRING | DIS_FIRMWARE_REVISION

datatype gatt_op = Gatt_Write characteristic bytes | Gatt_Read characteristic | Start_Notify characteristic
  | Client_Disconnect

type_synonym gatt_oracle = "nat \<Rightarrow> gatt_op \<Rightarrow> bytes res"

record world =
  w_count :: nat
  w_trace :: "gatt_op list"
  w_attempts :: nat
  w_sleeps :: "seconds list"
  w_called :: "nat list"

definition gatt_do :: "gatt_oracle \<Rightarrow> gatt_op \<Rightarrow> (world, bytes) action" where
  "gatt_do gatt op w = (gatt (w_count w) op, w\<lparr>w_count := w_count w + 1, w_trace := w_trace w @ [op]\<rparr>)"

subsection \<open>Pairing\<close>

definition PAIR_OPCODE_SET_NAME :: byte where "PAIR_OPCODE_SET_NAME = 0x04"
definition PAIR_OPCODE_SET_PASS :: byte where "PAIR_OPCODE_SET_PASS = 0x05"

text \<open>\<open>client_random\<close> is what \<^verbatim>\<open>generate_session_random\<close> returns.\<close>

definition pair ::
  "(bytes \<Rightarrow> bytes \<Rightarrow> bytes) \<Rightarrow> gatt_oracle \<Rightarrow> bytes \<Rightarrow> bytes \<Rightarrow> bytes \<Rightarrow> (world, bytes \<times> bytes) action" where
  "pair aes gatt client_random mesh_name mesh_password =
     bindS (liftS (make_pair_packet aes mesh_name mesh_password client_random)) (\<lambda>pair_packet.
     bindS (gatt_do gatt (Gatt_Write CHAR_PAIRING pair_packet)) (\<lambda>_.
     bindS (gatt_do gatt (Gatt_Write CHAR_STATUS [0x01])) (\<lambda>_.
     bindS (gatt_do gatt (Gatt_Read CHAR_PAIRING)) (\<lambda>response_data.
     bindS (liftS (parse_pair_response response_data)) (\<lambda>response.
       if pr_opcode response = PAIR_OPCODE_FAILURE then liftS (Inl ProvisioningError)
       else if pr_opcode response \<noteq> PAIR_OPCODE_SUCCESS then liftS (Inl ProvisioningError)
       else bindS (liftS (make_session_key aes mesh_name mesh_password client_random (pr_device_random response)))
         (\<lambda>session_key. liftS (Inr (session_key, client_random))))))))"

definition set_mesh_credentials ::
  "(bytes \<Rightarrow> bytes \<Rightarrow> bytes) \<Rightarrow> gatt_oracle \<Rightarrow> bytes \<Rightarrow> bytes \<Rightarrow> bytes \<Rightarrow> (world, unit) action" where
  "set_mesh_credentials aes gatt session_key new_name new_password =
     bindS (liftS (encrypt_mesh_credential aes session_key new_name)) (\<lambda>enc_name.
     bindS (gatt_do gatt (Gatt_Write CHAR_PAIRING (PAIR_OPCODE_SET_NAME # enc_name))) (\<lambda>_.
     bindS (liftS (encrypt_mesh_credential aes session_key new_password)) (\<lambda>enc_pass.
     bindS (gatt_do gatt (Gatt_Write CHAR_PAIRING (PAIR_OPCODE_SET_PASS # enc_pass))) (\<lambda>_.
     bindS (gatt_do gatt (Gatt_Read CHAR_PAIRING)) (\<lambda>confirm_data.
     bindS (liftS (parse_pair_response confirm_data)) (\<lambda>confirm.
       liftS (if pr_opcode confirm \<noteq> PAIR_OPCODE_SET_OK then Inl ProvisioningError else Inr ())))))))"

definition enable_notifications :: "gatt_oracle \<Rightarrow> (world, unit) action" where
  "enable_notifications gatt = bindS (gatt_do gatt (Gatt_Write CHAR_STATUS [0x01])) (\<lambda>_. liftS (Inr ()))"

definition provision ::
  "(bytes \<Rightarrow> bytes \<Rightarrow> bytes) \<Rightarrow> gatt_oracle \<Rightarrow> bytes \<Rightarrow> bytes \<Rightarrow> bytes \<Rightarrow> bytes option \<Rightarrow> bytes option
    \<Rightarrow> (world, bytes) action" where
  "provision aes gatt client_random current_name current_password new_name new_password =
     bindS (pair aes gatt client_random current_name current_password) (\<lambda>(session_key, _).
     bindS (if new_name \<noteq> None \<or> new_password \<noteq> None then
              set_mesh_credentials aes gatt session_key
                (case new_name of Some n \<Rightarrow> n | None \<Rightarrow> current_name)
                (case new_password of Some p \<Rightarrow> p | None \<Rightarrow> current_password)
            else liftS (Inr ())) (\<lambda>_. liftS (Inr session_key)))"

subsection \<open>The connection\<close>

definition INITIAL_BACKOFF :: seconds where "INITIAL_BACKOFF = 5"
definition MAX_BACKOFF :: seconds where "MAX_BACKOFF = 300"
definition BACKOFF_MULTIPLIER :: seconds where "BACKOFF_MULTIPLIER = 2"
definition JITTER_FACTOR :: rat where "JITTER_FACTOR = 2 / 10"
definition KEEP_ALIVE_INTERVAL :: seconds where "KEEP_ALIVE_INTERVAL = 30"
definition CONNECT_RETRY_BACKOFF_MULTIPLIER :: seconds where "CONNECT_RETRY_BACKOFF_MULTIPLIER = 2"
definition CONNECT_RETRY_MAX_BACKOFF :: seconds where "CONNECT_RETRY_MAX_BACKOFF = 8"
definition TELINK_CMD_STATUS_QUERY :: int where "TELINK_CMD_STATUS_QUERY = 0xDA"
definition STATUS_QUERY_PARAM :: bytes where "STATUS_QUERY_PARAM = [0x10]"

datatype connection_state =
  DISCONNECTED | CONNECTING | PAIRING | READY | DISCONNECTING | DEGRADED | RECOVERING

text \<open>The keep-alive task: \<open>Ended\<close> and \<open>Failed\<close> are finished tasks that are still referenced.\<close>

datatype keep_alive = No_Task | Running | Ended | Failed py_error

text \<open>
  \<open>bc_dropped\<close> is not in the code: it holds the contents of every key buffer at the moment its
  reference is dropped.  The firmware version is kept as the bytes that are read.
\<close>

record ble_connection =
  bc_state :: connection_state
  bc_client :: bool
  bc_session_key :: "bytes option"
  bc_firmware_version :: "bytes option"
  bc_sequence :: int
  bc_keep_alive :: keep_alive
  bc_notify_active :: bool
  bc_notification_handler :: bool
  bc_disconnect_callbacks :: "nat list"
  bc_dropped :: "bytes list"
  bc_world :: world

definition make_ble_connection :: ble_connection where
  "make_ble_connection = \<lparr>bc_state = DISCONNECTED, bc_client = False, bc_session_key = None,
     bc_firmware_version = None, bc_sequence = 0, bc_keep_alive = No_Task, bc_notify_active = False,
     bc_notification_handler = False, bc_disconnect_callbacks = [], bc_dropped = [],
     bc_world = \<lparr>w_count = 0, w_trace = [], w_attempts = 0, w_sleeps = [], w_called = []\<rparr>\<rparr>"

datatype attempt_outcome = Not_Found | Connected | Raised py_error

text \<open>
  The environment of a connection: how the n-th attempt to find and connect the device ends, the
  random bytes of the pairing that starts after n client operations, and what a disconnect callback
  raises when it is the n-th to be called.
\<close>

record conn_env =
  ce_aes :: "bytes \<Rightarrow> bytes \<Rightarrow> bytes"
  ce_gatt :: gatt_oracle
  ce_attempt :: "nat \<Rightarrow> attempt_outcome"
  ce_random :: "nat \<Rightarrow> bytes"
  ce_mesh_name :: bytes
  ce_mesh_password :: bytes
  ce_mac_bytes :: bytes
  ce_vendor_id :: bytes
  ce_callback :: "nat \<Rightarrow> nat \<Rightarrow> py_error option"

definition on_world :: "(world, 'a) action \<Rightarrow> (ble_connection, 'a) action" where
  "on_world act c = (let (r, w) = act (bc_world c) in (r, c\<lparr>bc_world := w\<rparr>))"

definition conn_gatt :: "conn_env \<Rightarrow> gatt_op \<Rightarrow> (ble_connection, bytes) action" where
  "conn_gatt env op = on_world (gatt_do (ce_gatt env) op)"

definition modifyS :: "(ble_connection \<Rightarrow> ble_connection) \<Rightarrow> (ble_connection, unit) action" where
  "modifyS f c = (Inr (), f c)"

subsection \<open>Callbacks and the notification handler\<close>

definition register_disconnect_callback :: "nat \<Rightarrow> ble_connection \<Rightarrow> ble_connection" where
  "register_disconnect_callback cb c = c\<lparr>bc_disconnect_callbacks := bc_disconnect_callbacks c @ [cb]\<rparr>"

definition unregister_disconnect_callback :: "nat \<Rightarrow> (ble_connection, unit) action" where
  "unregister_disconnect_callback cb c =
     (if cb \<in> set (bc_disconnect_callbacks c)
      then (Inr (), c\<lparr>bc_disconnect_callbacks := remove1 cb (bc_disconnect_callbacks c)\<rparr>)
      else (Inl ValueError, c))"

definition set_notification_handler :: "bool \<Rightarrow> ble_connection \<Rightarrow> ble_connection" where
  "set_notification_handler handler c = c\<lparr>bc_notification_handler := handler\<rparr>"

subsection \<open>Keep-alive\<close>

text \<open>Awaiting a task that has failed raises its exception again, and the reference stays.\<close>

definition stop_keep_alive :: "(ble_connection, unit) action" where
  "stop_keep_alive c = (case bc_keep_alive c of
       Failed e \<Rightarrow> if isinstance e CancelledError then (Inr (), c\<lparr>bc_keep_alive := No_Task\<rparr>) else (Inl e, c)
     | _ \<Rightarrow> (Inr (), c\<lparr>bc_keep_alive := No_Task\<rparr>))"

definition start_keep_alive :: "(ble_connection, unit) action" where
  "start_keep_alive = bindS stop_keep_alive (\<lambda>_. modifyS (\<lambda>c. c\<lparr>bc_keep_alive := Running\<rparr>))"

definition restart_keep_alive :: "(ble_connection, unit) action" where
  "restart_keep_alive c = (if bc_state c = READY then start_keep_alive c else (Inr (), c))"

subsection \<open>Disconnecting\<close>

text \<open>The buffer is filled with zeros and then released.\<close>

definition zero_session_key :: "ble_connection \<Rightarrow> ble_connection" where
  "zero_session_key c = (case bc_session_key c of None \<Rightarrow> c
     | Some k \<Rightarrow> c\<lparr>bc_session_key := None, bc_dropped := bc_dropped c @ [replicate (length k) 0]\<rparr>)"

definition drop_client :: "conn_env \<Rightarrow> (ble_connection, unit) action" where
  "drop_client env c =
     (if \<not> bc_client c then (Inr (), c)
      else case conn_gatt env Client_Disconnect c of
        (Inl e, c1) \<Rightarrow> if isinstance e OSError then (Inr (), c1\<lparr>bc_client := False\<rparr>) else (Inl e, c1)
      | (Inr u, c1) \<Rightarrow> (Inr (), c1\<lparr>bc_client := False\<rparr>))"

definition cleanup :: "conn_env \<Rightarrow> (ble_connection, unit) action" where
  "cleanup env =
     bindS stop_keep_alive (\<lambda>_.
     bindS (modifyS (\<lambda>c. zero_session_key (c\<lparr>bc_notify_active := False\<rparr>))) (\<lambda>_.
     bindS (drop_client env) (\<lambda>_. modifyS (\<lambda>c. c\<lparr>bc_state := DISCONNECTED\<rparr>))))"

definition disconnect :: "conn_env \<Rightarrow> (ble_connection, unit) action" where
  "disconnect env c =
     (if bc_state c = DISCONNECTED then (Inr (), c) else cleanup env (c\<lparr>bc_state := DISCONNECTING\<rparr>))"

text \<open>The callbacks in order; an exception that is not an \<^verbatim>\<open>Exception\<close> stops them.\<close>

fun call_disconnect_callbacks :: "conn_env \<Rightarrow> nat list \<Rightarrow> (ble_connection, unit) action" where
  "call_disconnect_callbacks env [] c = (Inr (), c)"
| "call_disconnect_callbacks env (cb # cbs) c =
     (let c1 = c\<lparr>bc_world := (bc_world c)\<lparr>w_called := w_called (bc_world c) @ [cb]\<rparr>\<rparr> in
      case ce_callback env (length (w_called (bc_world c))) cb of
        None \<Rightarrow> call_disconnect_callbacks env cbs c1
      | Some e \<Rightarrow> if isinstance e CancelledError then (Inl e, c1)
          else if isinstance e PyException then call_disconnect_callbacks env cbs c1 else (Inl e, c1))"

definition handle_disconnect :: "conn_env \<Rightarrow> (ble_connection, unit) action" where
  "handle_disconnect env c =
     (if bc_state c = DISCONNECTING then (Inr (), c)
      else bindS (cleanup env) (\<lambda>_ c1. call_disconnect_callbacks env (bc_disconnect_callbacks c1) c1) c)"

subsection \<open>Connecting\<close>

definition sleepS :: "seconds \<Rightarrow> (ble_connection, unit) action" where
  "sleepS t c = (Inr (), c\<lparr>bc_world := (bc_world c)\<lparr>w_sleeps := w_sleeps (bc_world c) @ [t]\<rparr>\<rparr>)"

text \<open>The attempts \<open>k, k + 1, ...\<close>: \<open>left\<close> of them remain.  A cancellation counts as a failed attempt.\<close>

fun connect_with_retry :: "conn_env \<Rightarrow> nat \<Rightarrow> nat \<Rightarrow> (ble_connection, unit) action" where
  "connect_with_retry env 0 k c = (Inl MeshConnectionError, c)"
| "connect_with_retry env (Suc left) k c =
     (let n = w_attempts (bc_world c); c1 = c\<lparr>bc_world := (bc_world c)\<lparr>w_attempts := n + 1\<rparr>\<rparr> in
      case ce_attempt env n of
        Connected \<Rightarrow> (Inr (), c1\<lparr>bc_client := True\<rparr>)
      | Not_Found \<Rightarrow> (Inl MeshConnectionError, c1\<lparr>bc_client := False\<rparr>)
      | Raised e \<Rightarrow>
          if isinstance e MeshConnectionError then (Inl e, c1\<lparr>bc_client := False\<rparr>)
          else if isinstance e OSError \<or> isinstance e TimeoutError \<or> isinstance e BleakError
                 \<or> isinstance e CancelledError then
            bindS (sleepS (min (CONNECT_RETRY_BACKOFF_MULTIPLIER * of_nat k) CONNECT_RETRY_MAX_BACKOFF))
              (\<lambda>_. connect_with_retry env left (Suc k)) (c1\<lparr>bc_client := False\<rparr>)
          else (Inl e, c1))"

definition read_firmware_version :: "conn_env \<Rightarrow> (ble_connection, unit) action" where
  "read_firmware_version env c =
     (if \<not> bc_client c then (Inr (), c)
      else case conn_gatt env (Gatt_Read DIS_FIRMWARE_REVISION) c of
        (Inl e, c1) \<Rightarrow> if isinstance e OSError then (Inr (), c1) else (Inl e, c1)
      | (Inr raw, c1) \<Rightarrow> (Inr (), c1\<lparr>bc_firmware_version := Some raw\<rparr>))"

definition start_notify_safe :: "conn_env \<Rightarrow> (ble_connection, bool) action" where
  "start_notify_safe env c =
     (if \<not> bc_client c \<or> \<not> bc_notification_handler c then (Inr False, c)
      else case conn_gatt env (Start_Notify CHAR_STATUS) c of
        (Inl e, c1) \<Rightarrow>
          if isinstance e BleakError \<or> isinstance e OSError \<or> isinstance e EOFError
          then (Inr False, c1\<lparr>bc_notify_active := False\<rparr>) else (Inl e, c1)
      | (Inr u, c1) \<Rightarrow> (Inr True, c1\<lparr>bc_notify_active := True\<rparr>))"

text \<open>Storing a new key drops the reference to an old one, as it is.\<close>

definition store_session_key :: "bytes \<Rightarrow> ble_connection \<Rightarrow> ble_connection" where
  "store_session_key key c = c\<lparr>bc_session_key := Some key,
     bc_dropped := bc_dropped c @ (case bc_session_key c of None \<Rightarrow> [] | Some k \<Rightarrow> [k])\<rparr>"

definition provision_connection :: "conn_env \<Rightarrow> (ble_connection, unit) action" where
  "provision_connection env c =
     (case on_world (provision (ce_aes env) (ce_gatt env) (ce_random env (w_count (bc_world c)))
             (ce_mesh_name env) (ce_mesh_password env) (Some (ce_mesh_name env)) (Some (ce_mesh_password env))) c of
        (Inr key, c1) \<Rightarrow> (Inr (), store_session_key key c1)
      | (Inl e, c1) \<Rightarrow>
          if isinstance e PyException then bindS (cleanup env) (\<lambda>_. liftS (Inl MeshConnectionError)) c1
          else (Inl e, c1))"

definition connect :: "conn_env \<Rightarrow> nat \<Rightarrow> (ble_connection, unit) action" where
  "connect env max_retries c =
     (if bc_state c = READY then (Inr (), c)
      else case connect_with_retry env max_retries 1 (c\<lparr>bc_state := CONNECTING\<rparr>) of
        (Inl e, c1) \<Rightarrow>
          (Inl e, if isinstance e TimeoutError \<or> isinstance e OSError \<or> isinstance e MeshConnectionError
                  then c1\<lparr>bc_state := DISCONNECTED\<rparr> else c1)
      | (Inr u, c1) \<Rightarrow>
          if \<not> bc_client c1 then (Inl MeshConnectionError, c1\<lparr>bc_state := DISCONNECTED\<rparr>)
          else bindS (provision_connection env) (\<lambda>_.
               bindS (read_firmware_version env) (\<lambda>_.
               bindS (modifyS (\<lambda>c. c\<lparr>bc_state := READY\<rparr>)) (\<lambda>_.
               bindS start_keep_alive (\<lambda>_.
               bindS (start_notify_safe env) (\<lambda>_. liftS (Inr ())))))) (c1\<lparr>bc_state := PAIRING\<rparr>))"

subsection \<open>Commands\<close>

definition write_command :: "conn_env \<Rightarrow> bytes \<Rightarrow> (ble_connection, unit) action" where
  "write_command env packet c =
     (if bc_state c \<noteq> READY \<or> \<not> bc_client c then (Inl DisconnectedError, c)
      else case conn_gatt env (Gatt_Write CHAR_COMMAND packet) c of
        (Inl e, c1) \<Rightarrow>
          if isinstance e OSError then bindS (handle_disconnect env) (\<lambda>_. liftS (Inl MeshConnectionError)) c1
          else (Inl e, c1)
      | (Inr u, c1) \<Rightarrow> restart_keep_alive c1)"

definition send_keep_alive :: "conn_env \<Rightarrow> (ble_connection, unit) action" where
  "send_keep_alive env c =
     (case bc_session_key c of
        Some key \<Rightarrow>
          if bc_state c \<noteq> READY \<or> \<not> bc_client c then (Inr (), c)
          else
           (let (seq, next) = next_sequence (bc_sequence c); c1 = c\<lparr>bc_sequence := next\<rparr>;
                (r, c2) = bindS (liftS (encode_command_packet (ce_aes env) key (ce_mac_bytes env) seq 0xFFFF
                    TELINK_CMD_STATUS_QUERY STATUS_QUERY_PARAM (ce_vendor_id env)))
                  (\<lambda>packet. conn_gatt env (Gatt_Write CHAR_COMMAND packet)) c1
            in case r of Inr u \<Rightarrow> (Inr (), c2)
               | Inl e \<Rightarrow> if isinstance e OSError then handle_disconnect env c2 else (Inl e, c2))
      | None \<Rightarrow> (Inr (), c))"

text \<open>One round of \<^verbatim>\<open>_keep_alive_loop\<close> in the running task, after its sleep.  The disconnection it may
  detect drops the reference to the task itself.\<close>

definition keep_alive_round :: "conn_env \<Rightarrow> ble_connection \<Rightarrow> ble_connection" where
  "keep_alive_round env c =
     (if bc_keep_alive c \<noteq> Running then c
      else if bc_state c \<noteq> READY then c\<lparr>bc_keep_alive := Ended\<rparr>
      else case send_keep_alive env c of
        (Inl e, c1) \<Rightarrow>
          if bc_keep_alive c1 = Running then
            c1\<lparr>bc_keep_alive := (if isinstance e CancelledError then Ended else Failed e)\<rparr> else c1
      | (Inr u, c1) \<Rightarrow> if bc_keep_alive c1 = Running \<and> bc_state c1 \<noteq> READY then c1\<lparr>bc_keep_alive := Ended\<rparr> else c1)"

definition calculate_backoff :: "seconds \<Rightarrow> rat \<Rightarrow> seconds" where
  "calculate_backoff current_backoff random =
     (let next_val = min (current_backoff * BACKOFF_MULTIPLIER) MAX_BACKOFF
      in next_val + next_val * JITTER_FACTOR * random)"

subsection \<open>Runs\<close>

datatype conn_op = Connect nat | Disconnect | Write_Command bytes | Keep_Alive_Round
  | Set_Handler bool | Register_Callback nat | Unregister_Callback nat | Lost

definition conn_step :: "conn_env \<Rightarrow> conn_op \<Rightarrow> (ble_connection, unit) action" where
  "conn_step env op c = (case op of
       Connect max_retries \<Rightarrow> connect env max_retries c
     | Disconnect \<Rightarrow> disconnect env c
     | Write_Command packet \<Rightarrow> write_command env packet c
     | Keep_Alive_Round \<Rightarrow> (Inr (), keep_alive_round env c)
     | Set_Handler b \<Rightarrow> (Inr (), set_notification_handler b c)
     | Register_Callback cb \<Rightarrow> (Inr (), register_disconnect_callback cb c)
     | Unregister_Callback cb \<Rightarrow> unregister_disconnect_callback cb c
     | Lost \<Rightarrow> handle_disconnect env c)"

fun conn_run :: "conn_env \<Rightarrow> conn_op list \<Rightarrow> ble_connection \<Rightarrow> ble_connection" where
  "conn_run env [] c = c"
| "conn_run env (op # ops) c = conn_run env ops (snd (conn_step env op c))"


subsection \<open>Errors of the pairing\<close>

text \<open>An action that raises only what \<^verbatim>\<open>except Exception\<close> catches.\<close>

definition only_exceptions :: "('s, 'a) action \<Rightarrow> bool" where
  "only_exceptions act \<longleftrightarrow> (\<forall>s e t. act s = (Inl e, t) \<longrightarrow> isinstance e PyException)"

named_theorems exception_rules

lemma only_exceptions_bindS [exception_rules]:
  "only_exceptions m \<Longrightarrow> (\<And>x. only_exceptions (f x)) \<Longrightarrow> only_exceptions (bindS m f)"
  by (fastforce simp: only_exceptions_def bindS_def split: prod.splits sum.splits)

lemma only_exceptions_liftS [exception_rules]:
  "(\<And>e. r = Inl e \<Longrightarrow> isinstance e PyException) \<Longrightarrow> only_exceptions (liftS r)"
  by (auto simp: only_exceptions_def liftS_def)

lemma only_exceptions_if [exception_rules]:
  "only_exceptions m \<Longrightarrow> only_exceptions n \<Longrightarrow> only_exceptions (if b then m else n)"
  by simp

lemma only_exceptions_pairs [exception_rules]:
  "(\<And>a b. only_exceptions (f a b)) \<Longrightarrow> only_exceptions (case x of (a, b) \<Rightarrow> f a b)"
  by (cases x) simp

lemma bindR_eq_Inl: "bindR m f = Inl e \<longleftrightarrow> m = Inl e \<or> (\<exists>x. m = Inr x \<and> f x = Inl e)"
  by (cases m) auto

lemma exception_cases:
  "isinstance ProvisioningError PyException" "isinstance CryptoError PyException"
  "isinstance MalformedPacketError PyException"
  by code_simp+

lemma pairing_errors:
  "make_pair_packet aes n p r = Inl e \<Longrightarrow> isinstance e PyException"
  "make_session_key aes n p r dr = Inl e \<Longrightarrow> isinstance e PyException"
  "encrypt_mesh_credential aes k d = Inl e \<Longrightarrow> isinstance e PyException"
  "parse_pair_response d = Inl e \<Longrightarrow> isinstance e PyException"
  by (auto simp: make_pair_packet_def make_session_key_def encrypt_mesh_credential_def
      parse_pair_response_def bindR_eq_Inl xor_name_password_ok telink_aes_encrypt_def validate_key_def
      exception_cases Let_def split: if_splits)

definition gatt_exceptions :: "gatt_oracle \<Rightarrow> gatt_op \<Rightarrow> bool" where
  "gatt_exceptions gatt op \<longleftrightarrow> (\<forall>n e. gatt n op = Inl e \<longrightarrow> isinstance e PyException)"

lemma only_exceptions_gatt [exception_rules]:
  "gatt_exceptions gatt op \<Longrightarrow> only_exceptions (gatt_do gatt op)"
  by (auto simp: only_exceptions_def gatt_do_def gatt_exceptions_def)

lemma only_exceptions_pair:
  assumes "\<And>d. gatt_exceptions gatt (Gatt_Write CHAR_PAIRING d)" "\<And>d. gatt_exceptions gatt (Gatt_Write CHAR_STATUS d)"
    and "gatt_exceptions gatt (Gatt_Read CHAR_PAIRING)"
  shows "only_exceptions (pair aes gatt r n p)"
  unfolding pair_def Let_def
  by (intro exception_rules assms) (auto simp: pairing_errors exception_cases)

lemma only_exceptions_set_credentials:
  assumes "\<And>d. gatt_exceptions gatt (Gatt_Write CHAR_PAIRING d)" "gatt_exceptions gatt (Gatt_Read CHAR_PAIRING)"
  shows "only_exceptions (set_mesh_credentials aes gatt k n p)"
  unfolding set_mesh_credentials_def
  by (intro exception_rules assms) (auto simp: pairing_errors exception_cases split: if_splits)

lemma only_exceptions_provision:
  assumes "\<And>d. gatt_exceptions gatt (Gatt_Write CHAR_PAIRING d)" "\<And>d. gatt_exceptions gatt (Gatt_Write CHAR_STATUS d)"
    and "gatt_exceptions gatt (Gatt_Read CHAR_PAIRING)"
  shows "only_exceptions (provision aes gatt r n p nn np)"
  unfolding provision_def
  by (intro exception_rules only_exceptions_pair only_exceptions_set_credentials assms) auto

lemma provision_key_length:
  assumes "block_cipher aes" "provision aes gatt r n p nn np w = (Inr k, v)"
  shows "length k = 16"
proof -
  have "make_session_key aes n p r d = Inr k' \<Longrightarrow> length k' = 16" for d k'
    using assms(1) by (auto simp: make_session_key_def crypto_consts xor_name_password_ok res_simps block_cipherD
        split: if_splits)
  with assms(2) show ?thesis
    by (auto simp: provision_def pair_def bindS_eq_Inr liftS_def split: if_splits)
qed


subsection \<open>The invariant of a connection\<close>

text \<open>The errors that the code that runs an operation of the client expects of it.\<close>

fun expected_error :: "gatt_op \<Rightarrow> py_error \<Rightarrow> bool" where
  "expected_error (Gatt_Write ch data) e =
     (if ch = CHAR_COMMAND then isinstance e OSError else isinstance e PyException)"
| "expected_error (Gatt_Read ch) e =
     (if ch = DIS_FIRMWARE_REVISION then isinstance e OSError else isinstance e PyException)"
| "expected_error (Start_Notify ch) e = (isinstance e BleakError \<or> isinstance e OSError \<or> isinstance e EOFError)"
| "expected_error Client_Disconnect e = isinstance e OSError"

definition expected_failure :: "py_error \<Rightarrow> bool" where
  "expected_failure e \<longleftrightarrow> isinstance e OSError \<or> isinstance e BleakError \<or> isinstance e CancelledError
     \<or> isinstance e MeshConnectionError"

definition well_behaved :: "conn_env \<Rightarrow> bool" where
  "well_behaved env \<longleftrightarrow> block_cipher (ce_aes env) \<and> length (ce_mac_bytes env) = 6 \<and> length (ce_vendor_id env) = 2
     \<and> (\<forall>n op e. ce_gatt env n op = Inl e \<longrightarrow> expected_error op e)
     \<and> (\<forall>n e. ce_attempt env n = Raised e \<longrightarrow> expected_failure e)"

text \<open>\<open>clean\<close>: every key buffer that was released was zero, and the sequence number is in range.\<close>

definition clean :: "ble_connection \<Rightarrow> bool" where
  "clean c \<longleftrightarrow> (\<forall>k \<in> set (bc_dropped c). set k \<subseteq> {0}) \<and> 0 \<le> bc_sequence c \<and> bc_sequence c \<le> MAX_SEQUENCE"

definition no_session :: "ble_connection \<Rightarrow> bool" where
  "no_session c \<longleftrightarrow> clean c \<and> bc_session_key c = None \<and> bc_keep_alive c = No_Task \<and> \<not> bc_notify_active c"

definition is_disconnected :: "ble_connection \<Rightarrow> bool" where
  "is_disconnected c \<longleftrightarrow> bc_state c = DISCONNECTED \<and> no_session c \<and> \<not> bc_client c"

definition is_ready :: "ble_connection \<Rightarrow> bool" where
  "is_ready c \<longleftrightarrow> bc_state c = READY \<and> clean c \<and> bc_client c \<and> bc_keep_alive c = Running
     \<and> (\<exists>k. bc_session_key c = Some k \<and> length k = 16)"

definition connection_ok :: "ble_connection \<Rightarrow> bool" where
  "connection_ok c \<longleftrightarrow> is_disconnected c \<or> is_ready c"

lemmas conn_defs = clean_def no_session_def is_disconnected_def is_ready_def

lemma clean_update [simp]:
  "clean (c\<lparr>bc_state := s\<rparr>) = clean c" "clean (c\<lparr>bc_world := w\<rparr>) = clean c" "clean (c\<lparr>bc_client := b\<rparr>) = clean c"
  "clean (c\<lparr>bc_keep_alive := ka\<rparr>) = clean c" "clean (c\<lparr>bc_notify_active := b\<rparr>) = clean c"
  "clean (c\<lparr>bc_firmware_version := v\<rparr>) = clean c" "clean (c\<lparr>bc_session_key := key\<rparr>) = clean c"
  "clean (c\<lparr>bc_notification_handler := b\<rparr>) = clean c" "clean (c\<lparr>bc_disconnect_callbacks := cbs\<rparr>) = clean c"
  by (simp_all add: clean_def)

lemma conn_gatt_apply:
  "conn_gatt env op c = (ce_gatt env (w_count (bc_world c)) op,
     c\<lparr>bc_world := snd (gatt_do (ce_gatt env) op (bc_world c))\<rparr>)"
  by (simp add: conn_gatt_def on_world_def gatt_do_def)

lemma gatt_expected: "well_behaved env \<Longrightarrow> ce_gatt env n op = Inl e \<Longrightarrow> expected_error op e"
  by (auto simp: well_behaved_def)

lemma zero_session_key_props [simp]:
  "bc_session_key (zero_session_key c) = None" "bc_client (zero_session_key c) = bc_client c"
  "bc_keep_alive (zero_session_key c) = bc_keep_alive c" "bc_notify_active (zero_session_key c) = bc_notify_active c"
  "bc_world (zero_session_key c) = bc_world c" "clean (zero_session_key c) = clean c"
  "bc_disconnect_callbacks (zero_session_key c) = bc_disconnect_callbacks c"
  by (auto simp: zero_session_key_def clean_def split: option.splits)

lemma world_update [simp]:
  "no_session (c\<lparr>bc_world := w\<rparr>) = no_session c" "is_disconnected (c\<lparr>bc_world := w\<rparr>) = is_disconnected c"
  "is_ready (c\<lparr>bc_world := w\<rparr>) = is_ready c"
  by (simp_all add: no_session_def is_disconnected_def is_ready_def)

lemma drop_client_ok:
  assumes "well_behaved env" "no_session c"
  shows "\<exists>u. drop_client env c = (Inr (), u) \<and> no_session u \<and> \<not> bc_client u"
proof (cases "bc_client c")
  case False
  with assms show ?thesis by (simp add: drop_client_def)
next
  case True
  show ?thesis
  proof (cases "ce_gatt env (w_count (bc_world c)) Client_Disconnect")
    case (Inl e)
    then have "isinstance e OSError" using gatt_expected [OF assms(1)] by fastforce
    with Inl True assms(2) show ?thesis by (simp add: drop_client_def conn_gatt_apply no_session_def)
  next
    case (Inr r)
    with True assms(2) show ?thesis by (simp add: drop_client_def conn_gatt_apply no_session_def)
  qed
qed

lemma cleanup_ok:
  assumes "well_behaved env" "clean c" "\<And>e. bc_keep_alive c \<noteq> Failed e"
  obtains t where "cleanup env c = (Inr (), t)" "is_disconnected t"
proof -
  have stop: "stop_keep_alive c = (Inr (), c\<lparr>bc_keep_alive := No_Task\<rparr>)"
    using assms(3) by (simp add: stop_keep_alive_def split: keep_alive.splits)
  let ?c = "zero_session_key (c\<lparr>bc_keep_alive := No_Task, bc_notify_active := False\<rparr>)"
  obtain u where u: "drop_client env ?c = (Inr (), u)" "no_session u" "\<not> bc_client u"
    using drop_client_ok [OF assms(1), of ?c] assms(2) by (auto simp: no_session_def)
  have "cleanup env c = (Inr (), u\<lparr>bc_state := DISCONNECTED\<rparr>)"
    by (simp add: cleanup_def stop modifyS_def bindS_def u)
  with u that show thesis
    by (auto simp: conn_defs)
qed

lemma call_disconnect_callbacks_ok:
  "is_disconnected c \<Longrightarrow> is_disconnected (snd (call_disconnect_callbacks env cbs c))"
  by (induction cbs arbitrary: c) (auto simp: Let_def split: option.splits)

lemma handle_disconnect_ok:
  assumes "well_behaved env" "connection_ok c"
  shows "is_disconnected (snd (handle_disconnect env c))"
proof -
  have "clean c" "\<And>e. bc_keep_alive c \<noteq> Failed e" "bc_state c \<noteq> DISCONNECTING"
    using assms(2) by (auto simp: connection_ok_def conn_defs)
  then obtain t where "cleanup env c = (Inr (), t)" "is_disconnected t"
    using cleanup_ok [OF assms(1)] by blast
  with \<open>bc_state c \<noteq> DISCONNECTING\<close> show ?thesis
    by (simp add: handle_disconnect_def call_disconnect_callbacks_ok)
qed

lemma disconnect_ok:
  assumes "well_behaved env" "connection_ok c"
  shows "is_disconnected (snd (disconnect env c))"
proof (cases "bc_state c = DISCONNECTED")
  case True
  with assms(2) show ?thesis by (auto simp: disconnect_def connection_ok_def conn_defs)
next
  case False
  have "clean (c\<lparr>bc_state := DISCONNECTING\<rparr>)" "\<And>e. bc_keep_alive (c\<lparr>bc_state := DISCONNECTING\<rparr>) \<noteq> Failed e"
    using assms(2) by (auto simp: connection_ok_def conn_defs)
  from cleanup_ok [OF assms(1) this] False show ?thesis
    by (metis disconnect_def snd_conv)
qed

lemma start_keep_alive_ok:
  "(\<And>e. bc_keep_alive c \<noteq> Failed e) \<Longrightarrow> start_keep_alive c = (Inr (), c\<lparr>bc_keep_alive := Running\<rparr>)"
  by (simp add: start_keep_alive_def stop_keep_alive_def bindS_def modifyS_def split: keep_alive.splits)

lemma write_command_ok:
  assumes env: "well_behaved env" and ok: "connection_ok c"
  shows "connection_ok (snd (write_command env packet c))"
proof (cases "is_ready c")
  case False
  then show ?thesis using ok by (auto simp: write_command_def connection_ok_def conn_defs)
next
  case True
  let ?c = "c\<lparr>bc_world := snd (gatt_do (ce_gatt env) (Gatt_Write CHAR_COMMAND packet) (bc_world c))\<rparr>"
  have ready: "is_ready ?c" using True by (simp add: is_ready_def)
  then have ok': "connection_ok ?c" by (simp add: connection_ok_def)
  have gone: "connection_ok (snd (bindS (handle_disconnect env) f ?c))" if "\<And>x t. snd (f x t) = t" for f :: "unit \<Rightarrow> (_, unit) action"
    using handle_disconnect_ok [OF env ok'] that
    by (auto simp: bindS_def connection_ok_def split: prod.splits sum.splits)
  have "start_keep_alive ?c = (Inr (), ?c\<lparr>bc_keep_alive := Running\<rparr>)"
    using True by (intro start_keep_alive_ok) (simp add: is_ready_def)
  with True have run: "restart_keep_alive ?c = (Inr (), ?c\<lparr>bc_keep_alive := Running\<rparr>)"
    by (simp add: restart_keep_alive_def is_ready_def)
  have cond: "bc_state c = READY" "bc_client c" using True by (auto simp: is_ready_def)
  show ?thesis
  proof (cases "ce_gatt env (w_count (bc_world c)) (Gatt_Write CHAR_COMMAND packet)")
    case (Inl e)
    then have "isinstance e OSError" using gatt_expected [OF env] by fastforce
    with Inl cond gone show ?thesis
      by (simp add: write_command_def conn_gatt_apply liftS_def)
  next
    case (Inr r)
    with run cond ready show ?thesis
      by (simp add: write_command_def conn_gatt_apply connection_ok_def is_ready_def)
  qed
qed

lemma encode_keep_alive_ok:
  assumes "block_cipher aes" "length key = 16" "length mac = 6" "length v = 2" "0 \<le> seq" "seq \<le> MAX_SEQUENCE"
  shows "\<exists>packet. encode_command_packet aes key mac seq 0xFFFF TELINK_CMD_STATUS_QUERY STATUS_QUERY_PARAM v = Inr packet"
proof -
  have args: "payload_args_ok 0xFFFF TELINK_CMD_STATUS_QUERY STATUS_QUERY_PARAM v"
    using assms(4) by (simp add: payload_args_ok_def TELINK_CMD_STATUS_QUERY_def STATUS_QUERY_PARAM_def)
  then obtain p where p: "encode_command_payload 0xFFFF TELINK_CMD_STATUS_QUERY STATUS_QUERY_PARAM v = Inr p"
    by (simp add: encode_command_payload_eq)
  then have len: "length p = 15" using parse_encoded_payload(1) [OF args] by blast
  have seq: "to_bytes_le seq 3 = Inr (le_bytes 3 seq)" "seq \<le> 0xFFFFFF"
    using assms(5,6) by (simp_all add: to_bytes_le_def seq_fits MAX_SEQUENCE_def)
  obtain nonce where nonce: "build_nonce mac seq = Inr nonce"
    using assms(3,5) seq by (auto simp: build_nonce_Inr_iff)
  have "\<exists>m. make_checksum aes key nonce p = Inr m" "\<exists>c. crypt_payload aes key nonce p = Inr c"
    using make_checksum_ok [OF assms(1,2), of p nonce] crypt_payload_ok [OF assms(1,2), of p nonce] len by auto
  with seq nonce p show ?thesis
    by (auto simp: encode_command_packet_def)
qed

lemma next_sequence_range: "0 \<le> s \<Longrightarrow> 0 \<le> (s + 1) AND MAX_SEQUENCE \<and> (s + 1) AND MAX_SEQUENCE \<le> MAX_SEQUENCE"
  by (simp add: MAX_SEQUENCE_def AND_upper2')

lemma keep_alive_round_ok:
  assumes env: "well_behaved env" and ok: "connection_ok c"
  shows "connection_ok (keep_alive_round env c)"
proof (cases "is_ready c")
  case False
  with ok have "is_disconnected c" by (simp add: connection_ok_def)
  then show ?thesis using ok by (simp add: keep_alive_round_def conn_defs)
next
  case True
  then obtain key where key: "bc_session_key c = Some key" "length key = 16"
    and c: "bc_state c = READY" "bc_client c" "bc_keep_alive c = Running"
    and seq: "0 \<le> bc_sequence c" "bc_sequence c \<le> MAX_SEQUENCE"
    by (auto simp: is_ready_def clean_def)
  obtain packet where packet: "encode_command_packet (ce_aes env) key (ce_mac_bytes env) (bc_sequence c) 0xFFFF
      TELINK_CMD_STATUS_QUERY STATUS_QUERY_PARAM (ce_vendor_id env) = Inr packet"
    using encode_keep_alive_ok [OF _ key(2) _ _ seq] env by (fastforce simp: well_behaved_def)
  let ?op = "Gatt_Write CHAR_COMMAND packet"
  let ?c = "c\<lparr>bc_sequence := (bc_sequence c + 1) AND MAX_SEQUENCE,
              bc_world := snd (gatt_do (ce_gatt env) ?op (bc_world c))\<rparr>"
  have ready: "is_ready ?c"
    using True next_sequence_range [OF seq(1)] by (simp add: is_ready_def clean_def)
  have "send_keep_alive env c = (case ce_gatt env (w_count (bc_world c)) ?op of
      Inr u \<Rightarrow> (Inr (), ?c) | Inl e \<Rightarrow> if isinstance e OSError then handle_disconnect env ?c else (Inl e, ?c))"
    using key c packet by (simp add: send_keep_alive_def next_sequence_def conn_gatt_apply split: sum.splits)
  moreover have "isinstance e OSError" if "ce_gatt env (w_count (bc_world c)) ?op = Inl e" for e
    using gatt_expected [OF env that] by simp
  moreover have "is_disconnected (snd (handle_disconnect env ?c))"
    using handle_disconnect_ok [OF env] ready by (simp add: connection_ok_def)
  ultimately have "send_keep_alive env c = (Inr (), ?c) \<or> is_disconnected (snd (send_keep_alive env c))"
    by (cases "ce_gatt env (w_count (bc_world c)) ?op") simp_all
  then show ?thesis
  proof
    assume "send_keep_alive env c = (Inr (), ?c)"
    with c ready show ?thesis by (simp add: keep_alive_round_def connection_ok_def)
  next
    assume gone: "is_disconnected (snd (send_keep_alive env c))"
    obtain x t where x: "send_keep_alive env c = (x, t)" by fastforce
    with gone have "is_disconnected t" "bc_keep_alive t \<noteq> Running" by (simp_all add: is_disconnected_def no_session_def)
    with x c show ?thesis by (cases x) (simp_all add: keep_alive_round_def connection_ok_def)
  qed
qed

lemma connect_with_retry_ok:
  assumes "well_behaved env" "no_session c" "\<not> bc_client c"
  shows "case connect_with_retry env left k c of
      (Inl e, t) \<Rightarrow> isinstance e MeshConnectionError \<and> no_session t \<and> \<not> bc_client t
    | (Inr u, t) \<Rightarrow> no_session t \<and> bc_client t"
  using assms(2,3)
proof (induction left arbitrary: k c)
  case (Suc left)
  show ?case
  proof (cases "ce_attempt env (w_attempts (bc_world c))")
    case (Raised e)
    then have "expected_failure e" using assms(1) by (auto simp: well_behaved_def)
    then consider (mesh) "isinstance e MeshConnectionError"
      | (other) "\<not> isinstance e MeshConnectionError"
        "isinstance e OSError \<or> isinstance e TimeoutError \<or> isinstance e BleakError \<or> isinstance e CancelledError"
      by (auto simp: expected_failure_def)
    then show ?thesis
    proof cases
      case mesh
      with Raised Suc.prems show ?thesis by (simp add: no_session_def Let_def)
    next
      case other
      let ?d = "min (CONNECT_RETRY_BACKOFF_MULTIPLIER * of_nat k) CONNECT_RETRY_MAX_BACKOFF"
      let ?c = "snd (sleepS ?d (c\<lparr>bc_world := (bc_world c)\<lparr>w_attempts := w_attempts (bc_world c) + 1\<rparr>,
                                  bc_client := False\<rparr>))"
      have "connect_with_retry env (Suc left) k c = connect_with_retry env left (Suc k) ?c"
        using Raised other by (simp add: Let_def sleepS_def bindS_def)
      moreover have "no_session ?c" "\<not> bc_client ?c" using Suc.prems by (simp_all add: sleepS_def no_session_def)
      ultimately show ?thesis using Suc.IH by simp
    qed
  qed (use Suc.prems in \<open>simp_all add: no_session_def Let_def\<close>)
qed simp

lemma provision_connection_ok:
  assumes env: "well_behaved env" and c: "no_session c" "bc_client c"
  shows "case provision_connection env c of
      (Inl e, t) \<Rightarrow> e = MeshConnectionError \<and> is_disconnected t
    | (Inr u, t) \<Rightarrow> no_session (t\<lparr>bc_session_key := None\<rparr>) \<and> bc_client t \<and>
        (\<exists>k. bc_session_key t = Some k \<and> length k = 16)"
proof -
  let ?act = "provision (ce_aes env) (ce_gatt env) (ce_random env (w_count (bc_world c)))
    (ce_mesh_name env) (ce_mesh_password env) (Some (ce_mesh_name env)) (Some (ce_mesh_password env))"
  have exc: "only_exceptions ?act"
    using gatt_expected [OF env]
    by (intro only_exceptions_provision) (auto simp: gatt_exceptions_def dest!: gatt_expected [OF env])
  obtain r w where r: "?act (bc_world c) = (r, w)" by (cases "?act (bc_world c)")
  show ?thesis
  proof (cases r)
    case (Inl e)
    then have "isinstance e PyException" using exc r by (auto simp: only_exceptions_def)
    moreover have "clean (c\<lparr>bc_world := w\<rparr>)" "bc_keep_alive (c\<lparr>bc_world := w\<rparr>) = No_Task"
      using c by (simp_all add: no_session_def)
    then obtain t where "cleanup env (c\<lparr>bc_world := w\<rparr>) = (Inr (), t)" "is_disconnected t"
      by (metis cleanup_ok [OF env] keep_alive.distinct(5))
    ultimately show ?thesis
      using r Inl by (simp add: provision_connection_def on_world_def bindS_def liftS_def)
  next
    case (Inr key)
    then have "length key = 16"
      using provision_key_length [of "ce_aes env"] env r by (simp add: well_behaved_def)
    then show ?thesis
      using r Inr c by (simp add: provision_connection_def on_world_def store_session_key_def no_session_def clean_def)
  qed
qed

lemma read_firmware_version_ok:
  assumes "well_behaved env"
  shows "\<exists>v w. read_firmware_version env c = (Inr (), c\<lparr>bc_firmware_version := v, bc_world := w\<rparr>)"
proof (cases "bc_client c")
  case False
  then show ?thesis
    by (intro exI [of _ "bc_firmware_version c"] exI [of _ "bc_world c"]) (simp add: read_firmware_version_def)
next
  case True
  let ?w = "snd (gatt_do (ce_gatt env) (Gatt_Read DIS_FIRMWARE_REVISION) (bc_world c))"
  show ?thesis
  proof (cases "ce_gatt env (w_count (bc_world c)) (Gatt_Read DIS_FIRMWARE_REVISION)")
    case (Inl e)
    have "isinstance e OSError" using gatt_expected [OF assms Inl] by simp
    with Inl True show ?thesis
      by (intro exI [of _ "bc_firmware_version c"] exI [of _ ?w]) (simp add: read_firmware_version_def conn_gatt_apply)
  next
    case (Inr raw)
    with True show ?thesis
      by (intro exI [of _ "Some raw"] exI [of _ ?w]) (simp add: read_firmware_version_def conn_gatt_apply)
  qed
qed

lemma start_notify_safe_ok:
  assumes "well_behaved env"
  shows "\<exists>b v w. start_notify_safe env c = (Inr b, c\<lparr>bc_notify_active := v, bc_world := w\<rparr>)"
proof (cases "bc_client c \<and> bc_notification_handler c")
  case False
  then show ?thesis
    by (intro exI [of _ False] exI [of _ "bc_notify_active c"] exI [of _ "bc_world c"])
       (simp add: start_notify_safe_def)
next
  case True
  let ?w = "snd (gatt_do (ce_gatt env) (Start_Notify CHAR_STATUS) (bc_world c))"
  show ?thesis
  proof (cases "ce_gatt env (w_count (bc_world c)) (Start_Notify CHAR_STATUS)")
    case (Inl e)
    have "isinstance e BleakError \<or> isinstance e OSError \<or> isinstance e EOFError"
      using gatt_expected [OF assms Inl] by simp
    with Inl True show ?thesis
      by (intro exI [of _ False] exI [of _ False] exI [of _ ?w]) (simp add: start_notify_safe_def conn_gatt_apply)
  next
    case (Inr raw)
    with True show ?thesis
      by (intro exI [of _ True] exI [of _ True] exI [of _ ?w]) (simp add: start_notify_safe_def conn_gatt_apply)
  qed
qed

lemma connect_ok:
  assumes env: "well_behaved env" and ok: "connection_ok c"
  shows "connection_ok (snd (connect env n c))
    \<and> (fst (connect env n c) = Inr () \<longleftrightarrow> is_ready (snd (connect env n c)))"
proof (cases "bc_state c = READY")
  case True
  with ok show ?thesis by (auto simp: connect_def connection_ok_def conn_defs)
next
  case False
  with ok have idle: "no_session (c\<lparr>bc_state := CONNECTING\<rparr>)" "\<not> bc_client (c\<lparr>bc_state := CONNECTING\<rparr>)"
    by (auto simp: connection_ok_def conn_defs)
  obtain r t where t: "connect_with_retry env n 1 (c\<lparr>bc_state := CONNECTING\<rparr>) = (r, t)" by fastforce
  note retry = connect_with_retry_ok [OF env idle, of n 1, unfolded t, simplified]
  show ?thesis
  proof (cases r)
    case (Inl e)
    with retry have "isinstance e MeshConnectionError" "is_disconnected (t\<lparr>bc_state := DISCONNECTED\<rparr>)"
      by (auto simp: conn_defs)
    with False t Inl show ?thesis
      by (auto simp: connect_def connection_ok_def is_ready_def)
  next
    case (Inr u)
    with retry have c1: "no_session (t\<lparr>bc_state := PAIRING\<rparr>)" "bc_client (t\<lparr>bc_state := PAIRING\<rparr>)" "bc_client t"
      by (simp_all add: no_session_def)
    let ?rest = "bindS (provision_connection env) (\<lambda>_. bindS (read_firmware_version env) (\<lambda>_.
       bindS (modifyS (\<lambda>c. c\<lparr>bc_state := READY\<rparr>)) (\<lambda>_. bindS start_keep_alive (\<lambda>_.
       bindS (start_notify_safe env) (\<lambda>_. liftS (Inr ()))))))"
    have eq: "connect env n c = ?rest (t\<lparr>bc_state := PAIRING\<rparr>)"
      using False t Inr c1 by (simp add: connect_def)
    obtain s v where v: "provision_connection env (t\<lparr>bc_state := PAIRING\<rparr>) = (s, v)" by fastforce
    note prov = provision_connection_ok [OF env c1(1,2), unfolded v, simplified]
    show ?thesis
    proof (cases s)
      case (Inl e)
      with prov have "is_disconnected v" by simp
      with eq v Inl show ?thesis by (auto simp: connection_ok_def is_ready_def is_disconnected_def)
    next
      case (Inr _)
      with prov have p: "clean v" "bc_keep_alive v = No_Task" "bc_client v"
        "\<exists>k. bc_session_key v = Some k \<and> length k = 16" by (auto simp: no_session_def)
      obtain fv fw where f: "read_firmware_version env v = (Inr (), v\<lparr>bc_firmware_version := fv, bc_world := fw\<rparr>)"
        using read_firmware_version_ok [OF env] by blast
      let ?v = "v\<lparr>bc_firmware_version := fv, bc_world := fw, bc_state := READY, bc_keep_alive := Running\<rparr>"
      obtain b na nw where na: "start_notify_safe env ?v = (Inr b, ?v\<lparr>bc_notify_active := na, bc_world := nw\<rparr>)"
        using start_notify_safe_ok [OF env] by blast
      have "start_keep_alive (v\<lparr>bc_firmware_version := fv, bc_world := fw, bc_state := READY\<rparr>) = (Inr (), ?v)"
        using p by (subst start_keep_alive_ok) simp_all
      with eq v Inr f na have "connect env n c = (Inr (), ?v\<lparr>bc_notify_active := na, bc_world := nw\<rparr>)"
        by (simp add: bindS_def modifyS_def liftS_def)
      with p show ?thesis by (simp add: connection_ok_def is_ready_def)
    qed
  qed
qed

lemma connection_ok_update [simp]:
  "connection_ok (c\<lparr>bc_notification_handler := b\<rparr>) = connection_ok c"
  "connection_ok (c\<lparr>bc_disconnect_callbacks := cbs\<rparr>) = connection_ok c"
  by (simp_all add: connection_ok_def is_disconnected_def is_ready_def no_session_def)

lemma conn_step_ok:
  assumes "well_behaved env" "connection_ok c"
  shows "connection_ok (snd (conn_step env op c))"
proof (cases op)
  case (Connect n)
  with connect_ok [OF assms] show ?thesis by (simp add: conn_step_def)
next
  case Disconnect
  with disconnect_ok [OF assms] show ?thesis by (simp add: conn_step_def connection_ok_def)
next
  case Lost
  with handle_disconnect_ok [OF assms] show ?thesis by (simp add: conn_step_def connection_ok_def)
qed (use assms in \<open>simp_all add: conn_step_def write_command_ok keep_alive_round_ok set_notification_handler_def
    register_disconnect_callback_def unregister_disconnect_callback_def\<close>)

lemma conn_run_ok: "well_behaved env \<Longrightarrow> connection_ok c \<Longrightarrow> connection_ok (conn_run env ops c)"
  by (induction ops arbitrary: c) (simp_all add: conn_step_ok)

lemma make_ble_connection_ok: "connection_ok make_ble_connection"
  by (simp add: make_ble_connection_def connection_ok_def conn_defs MAX_SEQUENCE_def)

subsection \<open>A keep-alive task that has failed\<close>

definition stuck :: "py_error \<Rightarrow> ble_connection \<Rightarrow> bool" where
  "stuck e c \<longleftrightarrow> \<not> isinstance e CancelledError \<and> bc_keep_alive c = Failed e \<and> bc_session_key c \<noteq> None"

lemma stop_keep_alive_stuck: "stuck e c \<Longrightarrow> stop_keep_alive c = (Inl e, c)"
  by (simp add: stop_keep_alive_def stuck_def)

lemma cleanup_stuck: "stuck e c \<Longrightarrow> cleanup env c = (Inl e, c)"
  by (simp add: cleanup_def stop_keep_alive_stuck)

lemma stuck_update [simp]:
  "stuck e (c\<lparr>bc_state := s\<rparr>) = stuck e c" "stuck e (c\<lparr>bc_world := w\<rparr>) = stuck e c" "stuck e (c\<lparr>bc_client := b\<rparr>) = stuck e c"
  "stuck e (c\<lparr>bc_notify_active := b\<rparr>) = stuck e c" "stuck e (c\<lparr>bc_firmware_version := v\<rparr>) = stuck e c"
  "stuck e (c\<lparr>bc_notification_handler := b\<rparr>) = stuck e c" "stuck e (c\<lparr>bc_disconnect_callbacks := cbs\<rparr>) = stuck e c"
  by (simp_all add: stuck_def)

text \<open>\<open>keeps P act\<close>: the action keeps \<open>P\<close>, whether it raises or not.\<close>

definition keeps :: "('s \<Rightarrow> bool) \<Rightarrow> ('s, 'a) action \<Rightarrow> bool" where
  "keeps P act \<longleftrightarrow> (\<forall>s. P s \<longrightarrow> P (snd (act s)))"

lemma keepsD: "keeps P act \<Longrightarrow> P s \<Longrightarrow> act s = (r, t) \<Longrightarrow> P t"
  by (force simp: keeps_def)

lemma keeps_bindS: "keeps P m \<Longrightarrow> (\<And>x. keeps P (f x)) \<Longrightarrow> keeps P (bindS m f)"
  by (fastforce simp: keeps_def bindS_def split: prod.splits sum.splits)

lemma keeps_liftS: "keeps P (liftS r)"
  by (simp add: keeps_def liftS_def)

lemma keeps_modifyS: "(\<And>c. P c \<Longrightarrow> P (f c)) \<Longrightarrow> keeps P (modifyS f)"
  by (simp add: keeps_def modifyS_def)

lemma stuck_stop: "keeps (stuck e) stop_keep_alive" "keeps (stuck e) (cleanup env)"
  by (simp_all add: keeps_def stop_keep_alive_stuck cleanup_stuck)

lemma stuck_start: "stuck e c \<Longrightarrow> start_keep_alive c = (Inl e, c)"
  by (simp add: start_keep_alive_def stop_keep_alive_stuck)

lemma stuck_start_keeps: "keeps (stuck e) start_keep_alive"
  by (simp add: keeps_def stuck_start)

lemma stuck_handle: "keeps (stuck e) (handle_disconnect env)"
  by (simp add: keeps_def handle_disconnect_def cleanup_stuck)

lemma stuck_retry: "keeps (stuck e) (connect_with_retry env left k)"
  unfolding keeps_def
  by (induction left arbitrary: k) (auto simp: Let_def sleepS_def bindS_def split: attempt_outcome.splits)

lemma stuck_provision: "keeps (stuck e) (provision_connection env)"
proof -
  have "keeps (stuck e) (bindS (cleanup env) (\<lambda>_. liftS (Inl MeshConnectionError)) :: (_, unit) action)"
    by (intro keeps_bindS stuck_stop keeps_liftS)
  moreover have "stuck e c \<Longrightarrow> stuck e (store_session_key key c)" for key c
    by (simp add: store_session_key_def stuck_def)
  ultimately show ?thesis
    by (auto simp: keeps_def provision_connection_def on_world_def split: prod.splits sum.splits)
qed

lemma stuck_gatt: "keeps (stuck e) (read_firmware_version env)" "keeps (stuck e) (start_notify_safe env)"
  by (auto simp: keeps_def read_firmware_version_def start_notify_safe_def conn_gatt_apply split: sum.splits)

lemma stuck_connect: "keeps (stuck e) (connect env n)"
proof -
  have rest: "keeps (stuck e) (bindS (provision_connection env) (\<lambda>_. bindS (read_firmware_version env) (\<lambda>_.
       bindS (modifyS (\<lambda>c. c\<lparr>bc_state := READY\<rparr>)) (\<lambda>_. bindS start_keep_alive (\<lambda>_.
       bindS (start_notify_safe env) (\<lambda>_. liftS (Inr ())))))))"
    by (intro keeps_bindS stuck_provision stuck_gatt stuck_start_keeps keeps_liftS keeps_modifyS) simp
  show ?thesis
    unfolding keeps_def
  proof (intro allI impI)
    fix c assume c: "stuck e c"
    obtain r t where t: "connect_with_retry env n 1 (c\<lparr>bc_state := CONNECTING\<rparr>) = (r, t)" by fastforce
    then have "stuck e t" using keepsD [OF stuck_retry _ t] c by simp
    with rest have "stuck e (snd (bindS (provision_connection env) (\<lambda>_. bindS (read_firmware_version env) (\<lambda>_.
       bindS (modifyS (\<lambda>c. c\<lparr>bc_state := READY\<rparr>)) (\<lambda>_. bindS start_keep_alive (\<lambda>_.
       bindS (start_notify_safe env) (\<lambda>_. liftS (Inr ())))))) (t\<lparr>bc_state := PAIRING\<rparr>)))"
      unfolding keeps_def by simp
    with c t \<open>stuck e t\<close> show "stuck e (snd (connect env n c))"
      by (simp add: connect_def split: sum.splits)
  qed
qed

lemma stuck_write: "keeps (stuck e) (write_command env packet)"
proof -
  have lost: "keeps (stuck e) (bindS (handle_disconnect env) (\<lambda>_. liftS (Inl MeshConnectionError)) :: (_, unit) action)"
    by (intro keeps_bindS stuck_handle keeps_liftS)
  have restart: "keeps (stuck e) restart_keep_alive"
    by (simp add: keeps_def restart_keep_alive_def stuck_start)
  show ?thesis
    using lost restart
    by (simp add: keeps_def write_command_def conn_gatt_apply split: sum.splits)
qed

lemma stuck_step: "stuck e c \<Longrightarrow> stuck e (snd (conn_step env op c))"
proof (cases op)
  case (Connect n)
  assume "stuck e c"
  with stuck_connect [of e env n] Connect show ?thesis by (simp add: keeps_def conn_step_def)
next
  case (Write_Command packet)
  assume "stuck e c"
  with stuck_write [of e env packet] Write_Command show ?thesis by (simp add: keeps_def conn_step_def)
next
  case Lost
  assume "stuck e c"
  with stuck_handle [of e env] Lost show ?thesis by (simp add: keeps_def conn_step_def)
next
  case Disconnect
  assume "stuck e c"
  with Disconnect show ?thesis by (simp add: conn_step_def disconnect_def cleanup_stuck)
next
  case Keep_Alive_Round
  assume "stuck e c"
  with Keep_Alive_Round show ?thesis by (auto simp: conn_step_def keep_alive_round_def stuck_def)
qed (simp_all add: conn_step_def set_notification_handler_def
    register_disconnect_callback_def unregister_disconnect_callback_def)

lemma stuck_run: "stuck e c \<Longrightarrow> stuck e (conn_run env ops c)"
  by (induction ops arbitrary: c) (simp_all add: stuck_step)

lemma stuck_disconnect: "stuck e c \<Longrightarrow> bc_state c \<noteq> DISCONNECTED \<Longrightarrow> fst (disconnect env c) = Inl e"
  by (simp add: disconnect_def cleanup_stuck)

lemma keep_alive_round_fails:
  assumes "block_cipher (ce_aes env)" "length (ce_mac_bytes env) = 6" "length (ce_vendor_id env) = 2"
    and "is_ready c" "\<not> isinstance e OSError" "\<not> isinstance e CancelledError"
    and fails: "\<And>packet. ce_gatt env (w_count (bc_world c)) (Gatt_Write CHAR_COMMAND packet) = Inl e"
  shows "stuck e (keep_alive_round env c)"
proof -
  obtain key where key: "bc_session_key c = Some key" "length key = 16"
    and c: "bc_state c = READY" "bc_client c" "bc_keep_alive c = Running"
    and seq: "0 \<le> bc_sequence c" "bc_sequence c \<le> MAX_SEQUENCE"
    using assms(4) by (auto simp: is_ready_def clean_def)
  obtain packet where "encode_command_packet (ce_aes env) key (ce_mac_bytes env) (bc_sequence c) 0xFFFF
      TELINK_CMD_STATUS_QUERY STATUS_QUERY_PARAM (ce_vendor_id env) = Inr packet"
    using encode_keep_alive_ok [OF assms(1) key(2) assms(2,3) seq] by blast
  with key c fails assms(5,6) show ?thesis
    by (simp add: keep_alive_round_def send_keep_alive_def next_sequence_def conn_gatt_apply stuck_def)
qed

subsection \<open>A concrete environment\<close>

text \<open>A device that answers the pairing of its first connection.\<close>

definition demo_gatt :: gatt_oracle where
  "demo_gatt n op = (case op of
       Gatt_Read CHAR_PAIRING \<Rightarrow> Inr (if n < 3 then 0x0d # replicate 8 7 else [0x07])
     | _ \<Rightarrow> Inr [])"

definition demo_conn_env :: conn_env where
  "demo_conn_env = \<lparr>ce_aes = demo_aes, ce_gatt = demo_gatt,
     ce_attempt = (\<lambda>n. if n = 0 then Raised TimeoutError else Connected), ce_random = (\<lambda>_. replicate 8 5),
     ce_mesh_name = replicate 3 1, ce_mesh_password = replicate 4 2, ce_mac_bytes = replicate 6 9,
     ce_vendor_id = [0x60, 0x01], ce_callback = (\<lambda>_ _. None)\<rparr>"

text \<open>The same device after it has gone: the keep-alive probe raises a \<^verbatim>\<open>BleakError\<close>.\<close>

definition demo_lost_conn_env :: conn_env where
  "demo_lost_conn_env = demo_conn_env\<lparr>ce_gatt := (\<lambda>n op. case op of
       Gatt_Write CHAR_COMMAND d \<Rightarrow> Inl BleakError | _ \<Rightarrow> demo_gatt n op)\<rparr>"

lemma demo_conn_env_well_behaved: "well_behaved demo_conn_env"
  by (auto simp: well_behaved_def demo_conn_env_def demo_aes_block_cipher demo_gatt_def expected_failure_def
      isinstance_def eval_nat_numeral split: gatt_op.splits characteristic.splits if_splits)

lemma demo_connected: "is_ready (conn_run demo_lost_conn_env [Connect 2] make_ble_connection)"
proof -
  have "let c = conn_run demo_lost_conn_env [Connect 2] make_ble_connection
        in bc_state c = READY \<and> bc_client c \<and> bc_keep_alive c = Running \<and> bc_dropped c = [] \<and> bc_sequence c = 0
           \<and> (case bc_session_key c of Some k \<Rightarrow> length k = 16 | None \<Rightarrow> False)"
    by code_simp
  then show ?thesis
    by (auto simp: is_ready_def clean_def Let_def MAX_SEQUENCE_def split: option.splits)
qed

subsection \<open>Properties\<close>

text \<open>C10: As long as the client raises only the errors the code expects, whatever operations run on a new
  \<^verbatim>\<open>BLEConnection\<close>, it is either disconnected (no client, no session key, no keep-alive task, notifications
  off) or ready (a client, a 16-byte session key and a running keep-alive task), and every key buffer it let go
  of was filled with zeros; \<^verbatim>\<open>connect\<close> returns exactly when it leaves the connection ready, and both
  \<^verbatim>\<open>disconnect\<close> and a detected loss leave it disconnected.\<close>

theorem connection_invariant:
  assumes "well_behaved env"
  shows "let c = conn_run env ops make_ble_connection in
    (is_disconnected c \<or> is_ready c)
    \<and> (fst (connect env n c) = Inr () \<longleftrightarrow> is_ready (snd (connect env n c)))
    \<and> is_disconnected (snd (disconnect env c)) \<and> is_disconnected (snd (handle_disconnect env c))"
proof -
  have ok: "connection_ok (conn_run env ops make_ble_connection)"
    using assms make_ble_connection_ok by (rule conn_run_ok)
  with connect_ok [OF assms ok, of n] disconnect_ok [OF assms ok] handle_disconnect_ok [OF assms ok] show ?thesis
    by (simp add: connection_ok_def)
qed

theorem connection_invariant_witness:
  "let c = conn_run demo_conn_env [Connect 2, Write_Command [1, 2], Keep_Alive_Round] make_ble_connection in
     is_ready c \<and> bc_sequence c = 1 \<and> w_sleeps (bc_world c) = [2] \<and> is_disconnected (snd (disconnect demo_conn_env c))"
proof -
  have "let c = conn_run demo_conn_env [Connect 2, Write_Command [1, 2], Keep_Alive_Round] make_ble_connection in
     bc_state c = READY \<and> bc_sequence c = 1 \<and> w_sleeps (bc_world c) = [2]" by code_simp
  with connection_invariant [OF demo_conn_env_well_behaved, of "[Connect 2, Write_Command [1, 2], Keep_Alive_Round]" 1]
  show ?thesis by (auto simp: Let_def is_disconnected_def)
qed

text \<open>When a keep-alive probe raises an error that is not an \<^verbatim>\<open>OSError\<close> (a \<^verbatim>\<open>BleakError\<close>, say), its
  task ends with that error, and every later \<^verbatim>\<open>_stop_keep_alive\<close> raises it again: through any later operations
  the task is never replaced and a session key stays in memory, and \<^verbatim>\<open>disconnect\<close> of a connection that is not
  disconnected raises the error, leaving the key and the client as they are.\<close>

theorem keep_alive_failure_sticks:
  assumes "block_cipher (ce_aes env)" "length (ce_mac_bytes env) = 6" "length (ce_vendor_id env) = 2"
    and "is_ready c" "\<not> isinstance e OSError" "\<not> isinstance e CancelledError"
    and "\<And>packet. ce_gatt env (w_count (bc_world c)) (Gatt_Write CHAR_COMMAND packet) = Inl e"
  shows "let d = conn_run env ops (keep_alive_round env c) in
    bc_keep_alive d = Failed e \<and> bc_session_key d \<noteq> None
    \<and> (bc_state d \<noteq> DISCONNECTED \<longrightarrow>
        disconnect env d = (Inl e, d\<lparr>bc_state := DISCONNECTING\<rparr>))"
proof -
  have "stuck e (conn_run env ops (keep_alive_round env c))"
    using keep_alive_round_fails [OF assms] by (rule stuck_run)
  then show ?thesis
    by (simp add: disconnect_def cleanup_stuck Let_def) (simp add: stuck_def)
qed

theorem keep_alive_failure_sticks_witness:
  "let c = conn_run demo_lost_conn_env [Connect 2] make_ble_connection;
       d = conn_run demo_lost_conn_env [Disconnect, Lost] (keep_alive_round demo_lost_conn_env c) in
     bc_keep_alive d = Failed BleakError \<and> bc_session_key d \<noteq> None"
proof -
  have env: "block_cipher (ce_aes demo_lost_conn_env)" "length (ce_mac_bytes demo_lost_conn_env) = 6"
    "length (ce_vendor_id demo_lost_conn_env) = 2"
    "\<And>n packet. ce_gatt demo_lost_conn_env n (Gatt_Write CHAR_COMMAND packet) = Inl BleakError"
    by (simp_all add: demo_lost_conn_env_def demo_conn_env_def demo_aes_block_cipher)
  have "\<not> isinstance BleakError OSError" "\<not> isinstance BleakError CancelledError" by code_simp+
  from keep_alive_failure_sticks [OF env(1-3) demo_connected this env(4), of "[Disconnect, Lost]"] show ?thesis
    by (simp add: Let_def)
qed

end
