(* ===== verification/Telink_Device.thy ===== *)
theory Telink_Device
  imports Telink_Connection
begin

text \<open>
  \<^verbatim>\<open>MeshDevice\<close> of \<^verbatim>\<open>lib/tuya_ble_mesh/device.py\<close> with its command queue (\<^verbatim>\<open>device_dispatcher.py\<close>) and the
  high-level commands (\<^verbatim>\<open>device_commands.py\<close>) over the connection of \<open>Telink_Connection\<close>.  Between two
  awaits the worker of the queue is one step, \<open>worker_step\<close>; an operation of the connection is atomic.
  Callbacks are numbers, and an oracle says what the n-th call of a callback raises.
\<close>

subsection \<open>Callbacks\<close>

text \<open>The callbacks in order; the log gets an entry per call.  An \<^verbatim>\<open>Exception\<close> is logged and ignored.\<close>

type_synonym callback_oracle = "nat \<Rightarrow> nat \<Rightarrow> py_error option"

fun call_each :: "callback_oracle \<Rightarrow> 'a \<Rightarrow> nat list \<Rightarrow> (nat \<times> 'a) list \<Rightarrow> unit res \<times> (nat \<times> 'a) list" where
  "call_each f x [] calls = (Inr (), calls)"
| "call_each f x (cb # cbs) calls =
     (case f (length calls) cb of
        None \<Rightarrow> call_each f x cbs (calls @ [(cb, x)])
      | Some e \<Rightarrow> if isinstance e CancelledError then (Inl e, calls @ [(cb, x)])
          else if isinstance e PyException then call_each f x cbs (calls @ [(cb, x)])
          else (Inl e, calls @ [(cb, x)]))"

subsection \<open>State\<close>

definition QUEUE_MAX_SIZE :: int where "QUEUE_MAX_SIZE = 32"
definition COMMAND_TTL :: seconds where "COMMAND_TTL = 60"
definition MESH_ADDRESS_DEFAULT :: int where "MESH_ADDRESS_DEFAULT = 0"
definition COMMAND_RETRY_INITIAL_BACKOFF :: seconds where "COMMAND_RETRY_INITIAL_BACKOFF = 1 / 2"
definition COMMAND_RETRY_BACKOFF_MULTIPLIER :: seconds where "COMMAND_RETRY_BACKOFF_MULTIPLIER = 2"
definition DEFAULT_COMMAND_MAX_RETRIES :: nat where "DEFAULT_COMMAND_MAX_RETRIES = 3"

record queued_command =
  qc_opcode :: int
  qc_params :: bytes
  qc_dest_id :: int
  qc_created_at :: seconds

text \<open>
  Where the worker task is: at \<^verbatim>\<open>queue.get\<close>, waiting for the connection with a command in hand, asleep
  before an attempt of a command (its number and the next backoff), or in the pause after an error.
\<close>

datatype worker = No_Worker | Polling | Waiting_Connection queued_command
  | Retrying queued_command nat seconds | Error_Pause | Worker_Ended py_error

datatype fate = Sent | Send_Failed py_error | Expired | Discarded

text \<open>\<open>td_accepted\<close>, \<open>td_done\<close> and the two logs are not in the code: they record what happened.\<close>

record telink_device =
  td_mesh_id :: int
  td_conn :: ble_connection
  td_status_callbacks :: "nat list"
  td_disconnect_callbacks :: "nat list"
  td_connected_event :: bool
  td_queue :: "queued_command list"
  td_running :: bool
  td_worker :: worker
  td_accepted :: "queued_command list"
  td_done :: "(queued_command \<times> fate) list"
  td_status_log :: "(nat \<times> status_response) list"
  td_disconnect_log :: "(nat \<times> unit) list"

record dev_env =
  de_conn :: conn_env
  de_max_size :: int
  de_ttl :: seconds
  de_status_callback :: callback_oracle
  de_disconnect_callback :: callback_oracle

definition make_telink_device :: "int \<Rightarrow> telink_device" where
  "make_telink_device mesh_id = \<lparr>td_mesh_id = mesh_id,
     td_conn = register_disconnect_callback 0 (set_notification_handler True make_ble_connection),
     td_status_callbacks = [], td_disconnect_callbacks = [], td_connected_event = False, td_queue = [],
     td_running = False, td_worker = No_Worker, td_accepted = [], td_done = [], td_status_log = [],
     td_disconnect_log = []\<rparr>"

definition set_mesh_id :: "int \<Rightarrow> (telink_device, unit) action" where
  "set_mesh_id v d = (if \<not> (0 \<le> v \<and> v \<le> 0xFFFF) then (Inl ProtocolError, d) else (Inr (), d\<lparr>td_mesh_id := v\<rparr>))"

definition is_connected :: "telink_device \<Rightarrow> bool" where
  "is_connected d \<longleftrightarrow> bc_state (td_conn d) = READY"

definition register_status_callback :: "nat \<Rightarrow> telink_device \<Rightarrow> telink_device" where
  "register_status_callback cb d = d\<lparr>td_status_callbacks := td_status_callbacks d @ [cb]\<rparr>"

definition unregister_status_callback :: "nat \<Rightarrow> (telink_device, unit) action" where
  "unregister_status_callback cb d =
     (if cb \<in> set (td_status_callbacks d)
      then (Inr (), d\<lparr>td_status_callbacks := remove1 cb (td_status_callbacks d)\<rparr>) else (Inl ValueError, d))"

definition register_device_callback :: "nat \<Rightarrow> telink_device \<Rightarrow> telink_device" where
  "register_device_callback cb d = d\<lparr>td_disconnect_callbacks := td_disconnect_callbacks d @ [cb]\<rparr>"

definition unregister_device_callback :: "nat \<Rightarrow> (telink_device, unit) action" where
  "unregister_device_callback cb d =
     (if cb \<in> set (td_disconnect_callbacks d)
      then (Inr (), d\<lparr>td_disconnect_callbacks := remove1 cb (td_disconnect_callbacks d)\<rparr>) else (Inl ValueError, d))"

subsection \<open>Operations of the connection\<close>

definition on_disconnect :: "dev_env \<Rightarrow> (telink_device, unit) action" where
  "on_disconnect env d =
     (let (r, calls) = call_each (de_disconnect_callback env) () (td_disconnect_callbacks d) (td_disconnect_log d)
      in (r, d\<lparr>td_connected_event := False, td_disconnect_log := calls\<rparr>))"

text \<open>The connection calls \<open>on_disconnect\<close>, its only callback, when it detects a loss.\<close>

definition conn_env_of :: "dev_env \<Rightarrow> telink_device \<Rightarrow> conn_env" where
  "conn_env_of env d = (de_conn env)\<lparr>ce_callback := (\<lambda>_ _.
     case fst (on_disconnect env d) of Inl e \<Rightarrow> Some e | Inr _ \<Rightarrow> None)\<rparr>"

definition on_conn :: "dev_env \<Rightarrow> (conn_env \<Rightarrow> (ble_connection, 'a) action) \<Rightarrow> (telink_device, 'a) action" where
  "on_conn env act d =
     (let (r, c) = act (conn_env_of env d) (td_conn d); d1 = d\<lparr>td_conn := c\<rparr>
      in (r, if w_called (bc_world c) \<noteq> w_called (bc_world (td_conn d)) then snd (on_disconnect env d1) else d1))"

subsection \<open>Notifications\<close>

definition handle_notification :: "dev_env \<Rightarrow> bytes \<Rightarrow> (telink_device, unit) action" where
  "handle_notification env data d =
     (case bc_session_key (td_conn d) of None \<Rightarrow> (Inr (), d)
      | Some key \<Rightarrow>
        (case bindR (decrypt_notification (ce_aes (de_conn env)) key (ce_mac_bytes (de_conn env)) data) decode_status of
           Inl e \<Rightarrow> (if isinstance e CryptoError \<or> isinstance e MalformedPacketError then Inr () else Inl e, d)
         | Inr st \<Rightarrow>
            (let (r, calls) = call_each (de_status_callback env) st (td_status_callbacks d) (td_status_log d)
             in (r, d\<lparr>td_status_log := calls\<rparr>))))"

text \<open>
  \<open>notes\<close> are the notifications that arrive while \<^verbatim>\<open>wait_for_status\<close> waits; \<open>cb\<close> is its own callback.
\<close>

definition wait_for_status :: "dev_env \<Rightarrow> nat \<Rightarrow> bytes list \<Rightarrow> (telink_device, status_response) action" where
  "wait_for_status env cb notes d =
     (let d1 = register_status_callback cb d;
          d2 = fold (\<lambda>data d. snd (handle_notification env data d)) notes d1;
          got = [st. (c, st) \<leftarrow> drop (length (td_status_log d)) (td_status_log d2), c = cb]
      in bindS (unregister_status_callback cb)
           (\<lambda>_. liftS (case got of [] \<Rightarrow> Inl MeshTimeoutError | st # _ \<Rightarrow> Inr st)) d2)"

subsection \<open>The queue\<close>

definition queue_full :: "dev_env \<Rightarrow> telink_device \<Rightarrow> bool" where
  "queue_full env d \<longleftrightarrow> 0 < de_max_size env \<and> de_max_size env \<le> int (length (td_queue d))"

definition enqueue_command :: "dev_env \<Rightarrow> seconds \<Rightarrow> int \<Rightarrow> bytes \<Rightarrow> int \<Rightarrow> (telink_device, unit) action" where
  "enqueue_command env now opcode params dest_id d =
     (if queue_full env d then (Inl CommandQueueFullError, d)
      else let cmd = \<lparr>qc_opcode = opcode, qc_params = params, qc_dest_id = dest_id, qc_created_at = now\<rparr>
        in (Inr (), d\<lparr>td_accepted := td_accepted d @ [cmd], td_queue := td_queue d @ [cmd]\<rparr>))"

definition send_command :: "dev_env \<Rightarrow> seconds \<Rightarrow> int \<Rightarrow> bytes \<Rightarrow> int option \<Rightarrow> (telink_device, unit) action" where
  "send_command env now opcode params dest_id d =
     enqueue_command env now opcode params (case dest_id of Some t \<Rightarrow> t | None \<Rightarrow> td_mesh_id d) d"

definition start_worker :: "telink_device \<Rightarrow> telink_device" where
  "start_worker d = (if td_running d then d else d\<lparr>td_running := True, td_worker := Polling\<rparr>)"

fun in_hand :: "worker \<Rightarrow> queued_command list" where
  "in_hand (Waiting_Connection cmd) = [cmd]"
| "in_hand (Retrying cmd k b) = [cmd]"
| "in_hand _ = []"

definition discard :: "queued_command list \<Rightarrow> telink_device \<Rightarrow> telink_device" where
  "discard cmds d = d\<lparr>td_done := td_done d @ map (\<lambda>cmd. (cmd, Discarded)) cmds\<rparr>"

text \<open>
  The worker is cancelled, with the command it has in hand; a worker that has ended with an exception
  raises it again, unless it is a CancelledError, and then the queue is not drained.
\<close>

definition stop_worker :: "(telink_device, unit) action" where
  "stop_worker d =
     (if \<not> td_running d then (Inr (), d)
      else let d1 = (discard (in_hand (td_worker d)) d)\<lparr>td_running := False\<rparr>;
               drained = (discard (td_queue d1) d1)\<lparr>td_queue := [], td_worker := No_Worker\<rparr>
        in case td_worker d of
             Worker_Ended e \<Rightarrow> if isinstance e CancelledError then (Inr (), drained) else (Inl e, d1)
           | _ \<Rightarrow> (Inr (), drained))"

subsection \<open>Sending\<close>

text \<open>One round of the loop of \<^verbatim>\<open>_send_now\<close>, up to its \<^verbatim>\<open>except\<close> clauses.\<close>

definition send_once :: "queued_command \<Rightarrow> conn_env \<Rightarrow> (ble_connection, unit) action" where
  "send_once cmd env c =
     (case bc_session_key c of
        None \<Rightarrow> (Inl DisconnectedError, c)
      | Some key \<Rightarrow>
          let (seq, next) = next_sequence (bc_sequence c)
          in bindS (liftS (encode_command_packet (ce_aes env) key (ce_mac_bytes env) seq (qc_dest_id cmd)
                 (qc_opcode cmd) (qc_params cmd) (ce_vendor_id env)))
               (\<lambda>packet. write_command env packet) (c\<lparr>bc_sequence := next\<rparr>))"

definition finish_command :: "queued_command \<Rightarrow> fate \<Rightarrow> worker \<Rightarrow> telink_device \<Rightarrow> telink_device" where
  "finish_command cmd f w d = d\<lparr>td_done := td_done d @ [(cmd, f)], td_worker := w\<rparr>"

text \<open>
  Attempt \<open>k\<close> and what \<^verbatim>\<open>_send_now\<close> and the worker do with its error: it is retried after the backoff, the
  command is dropped, the worker pauses, or it ends.
\<close>

definition attempt_command :: "dev_env \<Rightarrow> queued_command \<Rightarrow> nat \<Rightarrow> seconds \<Rightarrow> telink_device \<Rightarrow> telink_device" where
  "attempt_command env cmd k backoff d =
     (case on_conn env (send_once cmd) d of
        (Inr u, d1) \<Rightarrow> finish_command cmd Sent Polling d1
      | (Inl e, d1) \<Rightarrow>
          if isinstance e DisconnectedError then finish_command cmd (Send_Failed e) Polling d1
          else if isinstance e MeshConnectionError \<or> isinstance e OSError then
            if k \<ge> DEFAULT_COMMAND_MAX_RETRIES then
              finish_command cmd (Send_Failed e) (if isinstance e MeshConnectionError then Polling else Error_Pause) d1
            else d1\<lparr>td_worker := Retrying cmd (k + 1) (backoff * COMMAND_RETRY_BACKOFF_MULTIPLIER)\<rparr>
          else finish_command cmd (Send_Failed e) (if isinstance e PyException then Error_Pause else Worker_Ended e) d1)"

definition worker_step :: "dev_env \<Rightarrow> seconds \<Rightarrow> telink_device \<Rightarrow> telink_device" where
  "worker_step env now d =
     (case td_worker d of
        Polling \<Rightarrow>
          (case td_queue d of
             [] \<Rightarrow> d
           | cmd # q \<Rightarrow>
              let d1 = d\<lparr>td_queue := q\<rparr> in
              if now - qc_created_at cmd > de_ttl env then finish_command cmd Expired Polling d1
              else if is_connected d1 then attempt_command env cmd 1 COMMAND_RETRY_INITIAL_BACKOFF d1
              else d1\<lparr>td_worker := Waiting_Connection cmd\<rparr>)
      | Waiting_Connection cmd \<Rightarrow>
          if is_connected d then attempt_command env cmd 1 COMMAND_RETRY_INITIAL_BACKOFF d else d
      | Retrying cmd k backoff \<Rightarrow> attempt_command env cmd k backoff d
      | Error_Pause \<Rightarrow> d\<lparr>td_worker := Polling\<rparr>
      | _ \<Rightarrow> d)"

definition connect_device :: "dev_env \<Rightarrow> nat \<Rightarrow> (telink_device, unit) action" where
  "connect_device env max_retries =
     bindS (on_conn env (\<lambda>e. connect e max_retries))
       (\<lambda>_ d. (Inr (), start_worker (d\<lparr>td_connected_event := True\<rparr>)))"

definition disconnect_device :: "dev_env \<Rightarrow> (telink_device, unit) action" where
  "disconnect_device env = bindS stop_worker (\<lambda>_. on_conn env disconnect)"

subsection \<open>Commands\<close>

definition COMPACT_DP_POWER :: int where "COMPACT_DP_POWER = 121"
definition COMPACT_DP_BRIGHTNESS :: int where "COMPACT_DP_BRIGHTNESS = 122"
definition TELINK_CMD_DP_WRITE :: int where "TELINK_CMD_DP_WRITE = 0xD2"
definition TELINK_CMD_WHITE_TEMP :: int where "TELINK_CMD_WHITE_TEMP = 0xF0"
definition TELINK_CMD_COLOR :: int where "TELINK_CMD_COLOR = 0xE2"
definition TELINK_CMD_COLOR_BRIGHTNESS :: int where "TELINK_CMD_COLOR_BRIGHTNESS = 0xF2"
definition TELINK_CMD_LIGHT_MODE :: int where "TELINK_CMD_LIGHT_MODE = 0x33"
definition TELINK_CMD_MESH_ADDRESS :: int where "TELINK_CMD_MESH_ADDRESS = 0xE0"
definition TELINK_CMD_MESH_RESET :: int where "TELINK_CMD_MESH_RESET = 0xE3"

definition is_octet :: "int \<Rightarrow> bool" where
  "is_octet v \<longleftrightarrow> 0 \<le> v \<and> v \<le> 0xFF"

definition td_send_power :: "dev_env \<Rightarrow> seconds \<Rightarrow> bool \<Rightarrow> (telink_device, unit) action" where
  "td_send_power env now on =
     bindS (liftS (encode_compact_dp COMPACT_DP_POWER DP_TYPE_VALUE (if on then 1 else 0)))
       (\<lambda>params. send_command env now TELINK_CMD_DP_WRITE params None)"

definition td_send_brightness :: "dev_env \<Rightarrow> seconds \<Rightarrow> int \<Rightarrow> (telink_device, unit) action" where
  "td_send_brightness env now level =
     (if \<not> (1 \<le> level \<and> level \<le> 100) then liftS (Inl ProtocolError)
      else bindS (liftS (encode_compact_dp COMPACT_DP_BRIGHTNESS DP_TYPE_VALUE level))
        (\<lambda>params. send_command env now TELINK_CMD_DP_WRITE params None))"

definition td_send_color_temp :: "dev_env \<Rightarrow> seconds \<Rightarrow> int \<Rightarrow> (telink_device, unit) action" where
  "td_send_color_temp env now temp =
     (if \<not> is_octet temp then liftS (Inl ProtocolError)
      else send_command env now TELINK_CMD_WHITE_TEMP [word_of_int temp] None)"

definition td_send_color :: "dev_env \<Rightarrow> seconds \<Rightarrow> int \<Rightarrow> int \<Rightarrow> int \<Rightarrow> (telink_device, unit) action" where
  "td_send_color env now red green blue =
     (if \<not> (is_octet red \<and> is_octet green \<and> is_octet blue) then liftS (Inl ProtocolError)
      else send_command env now TELINK_CMD_COLOR [word_of_int red, word_of_int green, word_of_int blue] None)"

definition td_send_color_brightness :: "dev_env \<Rightarrow> seconds \<Rightarrow> int \<Rightarrow> (telink_device, unit) action" where
  "td_send_color_brightness env now level =
     (if \<not> is_octet level then liftS (Inl ProtocolError)
      else send_command env now TELINK_CMD_COLOR_BRIGHTNESS [word_of_int level] None)"

definition td_send_light_mode :: "dev_env \<Rightarrow> seconds \<Rightarrow> int \<Rightarrow> (telink_device, unit) action" where
  "td_send_light_mode env now mode =
     (if \<not> is_octet mode then liftS (Inl ProtocolError)
      else send_command env now TELINK_CMD_LIGHT_MODE [word_of_int mode] None)"

definition td_send_mesh_address :: "dev_env \<Rightarrow> seconds \<Rightarrow> int \<Rightarrow> (telink_device, unit) action" where
  "td_send_mesh_address env now new_address =
     (if \<not> (1 \<le> new_address \<and> new_address \<le> 0x7FFF) then liftS (Inl ProtocolError)
      else bindS (liftS (to_bytes_le new_address 2))
        (\<lambda>params. send_command env now TELINK_CMD_MESH_ADDRESS params None))"

definition td_send_mesh_reset :: "dev_env \<Rightarrow> seconds \<Rightarrow> (telink_device, unit) action" where
  "td_send_mesh_reset env now = send_command env now TELINK_CMD_MESH_RESET [] None"

subsection \<open>Runs\<close>

datatype dev_op = Connect_Device nat | Disconnect_Device | Send_Command seconds int bytes "int option"
  | Worker_Step seconds | Keep_Alive | Notification bytes

definition dev_step :: "dev_env \<Rightarrow> dev_op \<Rightarrow> (telink_device, unit) action" where
  "dev_step env op = (case op of
       Connect_Device n \<Rightarrow> connect_device env n
     | Disconnect_Device \<Rightarrow> disconnect_device env
     | Send_Command now opcode params dest \<Rightarrow> send_command env now opcode params dest
     | Worker_Step now \<Rightarrow> (\<lambda>d. (Inr (), worker_step env now d))
     | Keep_Alive \<Rightarrow> on_conn env (\<lambda>e c. (Inr (), keep_alive_round e c))
     | Notification data \<Rightarrow> handle_notification env data)"

fun dev_run :: "dev_env \<Rightarrow> dev_op list \<Rightarrow> telink_device \<Rightarrow> telink_device" where
  "dev_run env [] d = d"
| "dev_run env (op # ops) d = dev_run env ops (snd (dev_step env op d))"


subsection \<open>What happens to a command\<close>

fun no_task :: "worker \<Rightarrow> bool" where
  "no_task No_Worker = True"
| "no_task (Worker_Ended e) = True"
| "no_task _ = False"

text \<open>Every accepted command is finished, in the hand of the worker or queued, in this order.\<close>

definition accounted :: "dev_env \<Rightarrow> telink_device \<Rightarrow> bool" where
  "accounted env d \<longleftrightarrow> td_accepted d = map fst (td_done d) @ in_hand (td_worker d) @ td_queue d
     \<and> (\<not> td_running d \<longrightarrow> no_task (td_worker d))
     \<and> (0 < de_max_size env \<longrightarrow> int (length (td_queue d)) \<le> de_max_size env)"

lemma in_hand_no_task [simp]: "no_task w \<Longrightarrow> in_hand w = []"
  by (cases w) simp_all

lemma in_hand_cases: "in_hand w = [] \<or> (\<exists>cmd. in_hand w = [cmd])"
  by (cases w) simp_all

text \<open>The operations of the connection leave the queue and the worker alone.\<close>

lemma on_conn_fields:
  assumes "on_conn env act d = (r, d1)"
  shows "td_queue d1 = td_queue d" "td_worker d1 = td_worker d" "td_running d1 = td_running d"
    "td_accepted d1 = td_accepted d" "td_done d1 = td_done d" "td_mesh_id d1 = td_mesh_id d"
  using assms by (auto simp: on_conn_def on_disconnect_def Let_def split: prod.splits if_splits)

lemma accounted_on_conn: "on_conn env act d = (r, d1) \<Longrightarrow> accounted env d1 = accounted env d"
  using on_conn_fields [of env act d r d1] by (simp add: accounted_def)

lemma accounted_keeps_on_conn: "keeps (accounted env) (on_conn env act)"
  unfolding keeps_def using accounted_on_conn by (metis prod.collapse)

lemma accounted_notification: "keeps (accounted env) (handle_notification env data)"
  by (auto simp: keeps_def handle_notification_def accounted_def split: option.splits sum.splits prod.splits)

lemma accounted_attempt:
  assumes "td_accepted d = map fst (td_done d) @ [cmd] @ td_queue d" "td_running d"
    "0 < de_max_size env \<longrightarrow> int (length (td_queue d)) \<le> de_max_size env"
  shows "accounted env (attempt_command env cmd k b d)"
proof -
  obtain r d1 where d1: "on_conn env (send_once cmd) d = (r, d1)" by fastforce
  note same = on_conn_fields [OF d1]
  have "accounted env (finish_command cmd f w d1)" if "in_hand w = []" for f w
    using assms same that by (simp add: accounted_def finish_command_def)
  moreover have "accounted env (d1\<lparr>td_worker := Retrying cmd k' b'\<rparr>)" for k' b'
    using assms same by (simp add: accounted_def)
  ultimately show ?thesis
    using d1 by (cases r) (simp_all add: attempt_command_def)
qed

lemma accounted_polling:
  assumes "accounted env d" "td_worker d = Polling" "td_queue d = cmd # q"
  shows "accounted env (worker_step env now d)"
proof -
  let ?d = "d\<lparr>td_queue := q\<rparr>"
  have run: "td_running ?d" using assms by (auto simp: accounted_def)
  have acc: "td_accepted ?d = map fst (td_done ?d) @ [cmd] @ td_queue ?d"
    "0 < de_max_size env \<longrightarrow> int (length (td_queue ?d)) \<le> de_max_size env"
    using assms by (auto simp: accounted_def)
  have "accounted env (finish_command cmd Expired Polling ?d)"
    "accounted env (?d\<lparr>td_worker := Waiting_Connection cmd\<rparr>)"
    using acc run by (simp_all add: accounted_def finish_command_def)
  with accounted_attempt [OF acc(1) run acc(2)] assms(2,3) show ?thesis
    by (simp add: worker_step_def Let_def)
qed

lemma accounted_holding:
  assumes "accounted env d" "in_hand (td_worker d) = [cmd]"
  shows "accounted env (attempt_command env cmd k b d)"
proof (rule accounted_attempt)
  show "td_running d" using assms in_hand_no_task [of "td_worker d"] by (auto simp: accounted_def)
qed (use assms in \<open>simp_all add: accounted_def\<close>)

lemma accounted_worker_step:
  assumes "accounted env d" shows "accounted env (worker_step env now d)"
proof (cases "td_worker d")
  case Polling
  with assms accounted_polling [OF assms] show ?thesis
    by (cases "td_queue d") (simp_all add: worker_step_def)
next
  case (Waiting_Connection cmd)
  with assms accounted_holding [OF assms] show ?thesis by (simp add: worker_step_def)
next
  case (Retrying cmd k b)
  with assms accounted_holding [OF assms] show ?thesis by (simp add: worker_step_def)
next
  case Error_Pause
  with assms show ?thesis by (simp add: worker_step_def accounted_def)
qed (use assms in \<open>simp_all add: worker_step_def\<close>)

lemma accounted_stop: "keeps (accounted env) stop_worker"
  unfolding keeps_def
proof (intro allI impI)
  fix d assume "accounted env d"
  then show "accounted env (snd (stop_worker d))"
    by (cases "td_worker d") (auto simp: stop_worker_def discard_def accounted_def Let_def comp_def)
qed

lemma accounted_send: "keeps (accounted env) (send_command env now opcode params dest)"
  by (auto simp: keeps_def send_command_def enqueue_command_def accounted_def queue_full_def Let_def)

lemma accounted_start: "accounted env d \<Longrightarrow> accounted env (start_worker d)"
  by (auto simp: start_worker_def accounted_def)

lemma accounted_event [simp]: "accounted env (d\<lparr>td_connected_event := b\<rparr>) = accounted env d"
  by (simp add: accounted_def)

lemma accounted_step: "accounted env d \<Longrightarrow> accounted env (snd (dev_step env op d))"
proof (cases op)
  case (Connect_Device n)
  assume acc: "accounted env d"
  have "keeps (accounted env) (\<lambda>d. (Inr (), start_worker (d\<lparr>td_connected_event := True\<rparr>)))"
    by (simp add: keeps_def accounted_start)
  then have "keeps (accounted env) (connect_device env n)"
    unfolding connect_device_def by (intro keeps_bindS accounted_keeps_on_conn)
  with acc Connect_Device show ?thesis by (simp add: keeps_def dev_step_def)
next
  case Disconnect_Device
  assume acc: "accounted env d"
  have "keeps (accounted env) (disconnect_device env)"
    unfolding disconnect_device_def by (intro keeps_bindS accounted_stop accounted_keeps_on_conn)
  with acc Disconnect_Device show ?thesis by (simp add: keeps_def dev_step_def)
next
  case (Send_Command now opcode params dest)
  assume "accounted env d"
  with accounted_send Send_Command show ?thesis by (simp add: keeps_def dev_step_def)
next
  case Keep_Alive
  assume "accounted env d"
  with accounted_keeps_on_conn [of env "\<lambda>e c. (Inr (), keep_alive_round e c)"] Keep_Alive show ?thesis by (simp add: keeps_def dev_step_def)
next
  case (Notification data)
  assume "accounted env d"
  with accounted_notification Notification show ?thesis by (simp add: keeps_def dev_step_def)
qed (simp add: dev_step_def accounted_worker_step)

lemma accounted_run: "accounted env d \<Longrightarrow> accounted env (dev_run env ops d)"
  by (induction ops arbitrary: d) (simp_all add: accounted_step)

lemma accounted_make: "accounted env (make_telink_device m)"
  by (simp add: accounted_def make_telink_device_def)

subsection \<open>The event and the connection\<close>

text \<open>The operations of a connection that call no callback and register none.\<close>

definition quiet :: "nat list \<Rightarrow> nat list \<Rightarrow> ble_connection \<Rightarrow> bool" where
  "quiet cbs calls c \<longleftrightarrow> bc_disconnect_callbacks c = cbs \<and> w_called (bc_world c) = calls"

named_theorems keeps_rules

declare keeps_bindS [keeps_rules] keeps_liftS [keeps_rules] keeps_modifyS [keeps_rules]

lemma keeps_if [keeps_rules]: "keeps P m \<Longrightarrow> keeps P n \<Longrightarrow> keeps P (if b then m else n)"
  by simp

lemma keeps_pairs [keeps_rules]: "(\<And>a b. keeps P (f a b)) \<Longrightarrow> keeps P (case x of (a, b) \<Rightarrow> f a b)"
  by (cases x) simp

lemma keeps_gatt [keeps_rules]: "keeps (\<lambda>w. w_called w = calls) (gatt_do gatt op)"
  by (simp add: keeps_def gatt_do_def)

lemma provision_quiet: "keeps (\<lambda>w. w_called w = calls) (provision aes gatt r n p nn np)"
  unfolding provision_def pair_def set_mesh_credentials_def Let_def
  by (intro keeps_rules)

lemma quiet_update [simp]:
  "quiet cbs calls (c\<lparr>bc_state := s\<rparr>) = quiet cbs calls c" "quiet cbs calls (c\<lparr>bc_client := b\<rparr>) = quiet cbs calls c"
  "quiet cbs calls (c\<lparr>bc_keep_alive := ka\<rparr>) = quiet cbs calls c"
  "quiet cbs calls (c\<lparr>bc_notify_active := b\<rparr>) = quiet cbs calls c"
  "quiet cbs calls (c\<lparr>bc_firmware_version := v\<rparr>) = quiet cbs calls c"
  "quiet cbs calls (c\<lparr>bc_sequence := n\<rparr>) = quiet cbs calls c"
  "quiet cbs calls (c\<lparr>bc_world := snd (gatt_do gatt op (bc_world c))\<rparr>) = quiet cbs calls c"
  "quiet cbs calls (zero_session_key c) = quiet cbs calls c" "quiet cbs calls (store_session_key k c) = quiet cbs calls c"
  by (simp_all add: quiet_def gatt_do_def store_session_key_def)

lemma quiet_stop [keeps_rules]: "keeps (quiet cbs calls) stop_keep_alive"
  by (auto simp: keeps_def stop_keep_alive_def split: keep_alive.splits)

lemma quiet_start [keeps_rules]: "keeps (quiet cbs calls) start_keep_alive"
  unfolding start_keep_alive_def by (intro keeps_rules) simp

lemma quiet_drop_client [keeps_rules]: "keeps (quiet cbs calls) (drop_client env)"
  by (auto simp: keeps_def drop_client_def conn_gatt_apply split: sum.splits)

lemma quiet_cleanup [keeps_rules]: "keeps (quiet cbs calls) (cleanup env)"
  unfolding cleanup_def by (intro keeps_rules) simp_all

lemma quiet_retry [keeps_rules]: "keeps (quiet cbs calls) (connect_with_retry env left k)"
  unfolding keeps_def
  by (induction left arbitrary: k) (auto simp: Let_def sleepS_def bindS_def quiet_def split: attempt_outcome.splits)

lemma quiet_provision [keeps_rules]: "keeps (quiet cbs calls) (provision_connection env)"
  unfolding keeps_def
proof (intro allI impI)
  fix c assume c: "quiet cbs calls c"
  let ?act = "provision (ce_aes env) (ce_gatt env) (ce_random env (w_count (bc_world c)))
    (ce_mesh_name env) (ce_mesh_password env) (Some (ce_mesh_name env)) (Some (ce_mesh_password env))"
  obtain r w where w: "?act (bc_world c) = (r, w)" by fastforce
  then have "w_called w = w_called (bc_world c)" using keepsD [OF provision_quiet _ w] by simp
  with c have q: "quiet cbs calls (c\<lparr>bc_world := w\<rparr>)" by (simp add: quiet_def)
  have fail: "keeps (quiet cbs calls) (bindS (cleanup env) (\<lambda>_. liftS (Inl MeshConnectionError)) :: (_, unit) action)"
    by (intro keeps_rules)
  show "quiet cbs calls (snd (provision_connection env c))"
    using q w fail by (cases r) (simp_all add: provision_connection_def on_world_def keeps_def)
qed

lemma quiet_gatt [keeps_rules]:
  "keeps (quiet cbs calls) (read_firmware_version env)" "keeps (quiet cbs calls) (start_notify_safe env)"
  by (auto simp: keeps_def read_firmware_version_def start_notify_safe_def conn_gatt_apply split: sum.splits)

lemma quiet_connect: "keeps (quiet cbs calls) (connect env n)"
  unfolding keeps_def
proof (intro allI impI)
  fix c assume c: "quiet cbs calls c"
  have rest: "keeps (quiet cbs calls) (bindS (provision_connection env) (\<lambda>_. bindS (read_firmware_version env) (\<lambda>_.
       bindS (modifyS (\<lambda>c. c\<lparr>bc_state := READY\<rparr>)) (\<lambda>_. bindS start_keep_alive (\<lambda>_.
       bindS (start_notify_safe env) (\<lambda>_. liftS (Inr ())))))))"
    by (intro keeps_rules) simp
  obtain r t where t: "connect_with_retry env n 1 (c\<lparr>bc_state := CONNECTING\<rparr>) = (r, t)" by fastforce
  then have "quiet cbs calls t" using keepsD [OF quiet_retry _ t] c by simp
  with rest have "quiet cbs calls (snd (bindS (provision_connection env) (\<lambda>_. bindS (read_firmware_version env) (\<lambda>_.
     bindS (modifyS (\<lambda>c. c\<lparr>bc_state := READY\<rparr>)) (\<lambda>_. bindS start_keep_alive (\<lambda>_.
     bindS (start_notify_safe env) (\<lambda>_. liftS (Inr ())))))) (t\<lparr>bc_state := PAIRING\<rparr>)))"
    unfolding keeps_def by simp
  with c t \<open>quiet cbs calls t\<close> show "quiet cbs calls (snd (connect env n c))"
    by (simp add: connect_def split: sum.splits)
qed

lemma quiet_disconnect: "keeps (quiet cbs calls) (disconnect env)"
  using quiet_cleanup [of cbs calls env] by (simp add: keeps_def disconnect_def)

text \<open>Either no callback ran and the connection is as ready as before, or it was lost and \<open>on_disconnect\<close> ran.\<close>

definition tracks :: "ble_connection \<Rightarrow> ble_connection \<Rightarrow> bool" where
  "tracks c t \<longleftrightarrow> bc_disconnect_callbacks t = [0] \<and> connection_ok t
     \<and> (if w_called (bc_world t) = w_called (bc_world c) then is_ready t = is_ready c else is_disconnected t)"

lemma not_both: "is_disconnected c \<Longrightarrow> \<not> is_ready c"
  by (simp add: is_disconnected_def is_ready_def)

lemma one_callback:
  "bc_disconnect_callbacks c = [0] \<Longrightarrow>
     w_called (bc_world (snd (call_disconnect_callbacks env [0] c))) = w_called (bc_world c) @ [0]
     \<and> bc_disconnect_callbacks (snd (call_disconnect_callbacks env [0] c)) = [0]"
  by (auto simp: Let_def split: option.splits)

lemma handle_disconnect_tracks:
  assumes env: "well_behaved env" and c: "connection_ok c" "bc_disconnect_callbacks c = [0]"
  shows "tracks c (snd (handle_disconnect env c))
    \<and> w_called (bc_world (snd (handle_disconnect env c))) \<noteq> w_called (bc_world c)"
proof -
  have "clean c" "\<And>e. bc_keep_alive c \<noteq> Failed e" "bc_state c \<noteq> DISCONNECTING"
    using c(1) by (auto simp: connection_ok_def conn_defs)
  then obtain t where t: "cleanup env c = (Inr (), t)" "is_disconnected t"
    using cleanup_ok [OF env] by blast
  have "quiet [0] (w_called (bc_world c)) t"
    using keepsD [OF quiet_cleanup _ t(1)] c(2) by (simp add: quiet_def)
  with t \<open>bc_state c \<noteq> DISCONNECTING\<close> one_callback [of t env] handle_disconnect_ok [OF env c(1)]
  show ?thesis
    by (simp add: handle_disconnect_def tracks_def quiet_def connection_ok_def)
qed

lemma write_command_tracks:
  assumes env: "well_behaved env" and c: "connection_ok c" "bc_disconnect_callbacks c = [0]"
  shows "tracks c (snd (write_command env packet c))"
proof (cases "is_ready c")
  case False
  then show ?thesis using c by (auto simp: write_command_def tracks_def connection_ok_def conn_defs)
next
  case True
  let ?c = "c\<lparr>bc_world := snd (gatt_do (ce_gatt env) (Gatt_Write CHAR_COMMAND packet) (bc_world c))\<rparr>"
  have c': "connection_ok ?c" "bc_disconnect_callbacks ?c = [0]" "w_called (bc_world ?c) = w_called (bc_world c)"
    using True c(2) by (simp_all add: connection_ok_def gatt_do_def)
  have ready: "bc_state c = READY" "bc_client c" "\<And>e. bc_keep_alive c \<noteq> Failed e"
    using True by (auto simp: is_ready_def)
  show ?thesis
  proof (cases "ce_gatt env (w_count (bc_world c)) (Gatt_Write CHAR_COMMAND packet)")
    case (Inl e)
    then have "isinstance e OSError" using gatt_expected [OF env] by fastforce
    with Inl ready have "snd (write_command env packet c) = snd (handle_disconnect env ?c)"
      by (simp add: write_command_def conn_gatt_apply liftS_def bindS_def split: prod.splits sum.splits)
    moreover have "tracks c (snd (handle_disconnect env ?c))"
      using handle_disconnect_tracks [OF env c'(1,2)] c'(3) by (simp add: tracks_def)
    ultimately show ?thesis by simp
  next
    case (Inr r)
    have "write_command env packet c = (Inr (), ?c\<lparr>bc_keep_alive := Running\<rparr>)"
      using Inr ready by (simp add: write_command_def conn_gatt_apply restart_keep_alive_def start_keep_alive_ok)
    with True c' ready show ?thesis
      by (simp add: tracks_def connection_ok_def is_ready_def)
  qed
qed

lemma ready_sequence:
  "is_ready c \<Longrightarrow> is_ready (c\<lparr>bc_sequence := (bc_sequence c + 1) AND MAX_SEQUENCE\<rparr>)"
  using next_sequence_range [of "bc_sequence c"] by (auto simp: is_ready_def clean_def)

lemma tracks_ready_trans:
  "is_ready c \<Longrightarrow> is_ready d \<Longrightarrow> w_called (bc_world d) = w_called (bc_world c) \<Longrightarrow> tracks d t \<Longrightarrow> tracks c t"
  by (simp add: tracks_def)

lemma tracks_refl: "connection_ok c \<Longrightarrow> bc_disconnect_callbacks c = [0] \<Longrightarrow> tracks c c"
  by (simp add: tracks_def)

lemma send_once_tracks:
  assumes env: "well_behaved env" and c: "connection_ok c" "bc_disconnect_callbacks c = [0]"
  shows "tracks c (snd (send_once cmd env c))"
proof (cases "is_ready c")
  case False
  with c show ?thesis by (auto simp: send_once_def connection_ok_def is_disconnected_def no_session_def intro: tracks_refl)
next
  case True
  let ?c = "c\<lparr>bc_sequence := (bc_sequence c + 1) AND MAX_SEQUENCE\<rparr>"
  obtain key where key: "bc_session_key c = Some key" using True by (auto simp: is_ready_def)
  have ready: "is_ready ?c" using True by (rule ready_sequence)
  with c have ok: "connection_ok ?c" "bc_disconnect_callbacks ?c = [0]" by (simp_all add: connection_ok_def)
  have up: "tracks c t" if "tracks ?c t" for t
    using tracks_ready_trans [OF True ready _ that] by simp
  show ?thesis
  proof (cases "encode_command_packet (ce_aes env) key (ce_mac_bytes env) (bc_sequence c) (qc_dest_id cmd)
                 (qc_opcode cmd) (qc_params cmd) (ce_vendor_id env)")
    case (Inl e)
    with key up [OF tracks_refl [OF ok]] show ?thesis by (simp add: send_once_def next_sequence_def)
  next
    case (Inr packet)
    with key up [OF write_command_tracks [OF env ok]] show ?thesis by (simp add: send_once_def next_sequence_def)
  qed
qed

lemma keep_alive_tracks:
  assumes env: "well_behaved env" and c: "connection_ok c" "bc_disconnect_callbacks c = [0]"
  shows "tracks c (keep_alive_round env c)"
proof (cases "is_ready c")
  case False
  with c show ?thesis by (auto simp: keep_alive_round_def connection_ok_def conn_defs intro!: tracks_refl)
next
  case True
  then obtain key where key: "bc_session_key c = Some key" "length key = 16"
    and r: "bc_state c = READY" "bc_client c" "bc_keep_alive c = Running"
    and seq: "0 \<le> bc_sequence c" "bc_sequence c \<le> MAX_SEQUENCE"
    by (auto simp: is_ready_def clean_def)
  obtain packet where packet: "encode_command_packet (ce_aes env) key (ce_mac_bytes env) (bc_sequence c) 0xFFFF
      TELINK_CMD_STATUS_QUERY STATUS_QUERY_PARAM (ce_vendor_id env) = Inr packet"
    using encode_keep_alive_ok [OF _ key(2) _ _ seq] env by (fastforce simp: well_behaved_def)
  let ?op = "Gatt_Write CHAR_COMMAND packet"
  let ?c = "c\<lparr>bc_sequence := (bc_sequence c + 1) AND MAX_SEQUENCE,
              bc_world := snd (gatt_do (ce_gatt env) ?op (bc_world c))\<rparr>"
  have ready: "is_ready ?c" using ready_sequence [OF True] by simp
  with c have ok: "connection_ok ?c" "bc_disconnect_callbacks ?c = [0]" "w_called (bc_world ?c) = w_called (bc_world c)"
    by (simp_all add: connection_ok_def gatt_do_def)
  show ?thesis
  proof (cases "ce_gatt env (w_count (bc_world c)) ?op")
    case (Inl e)
    then have "isinstance e OSError" using gatt_expected [OF env] by fastforce
    with Inl key r packet have send: "send_keep_alive env c = handle_disconnect env ?c"
      by (simp add: send_keep_alive_def next_sequence_def conn_gatt_apply)
    note lost = handle_disconnect_tracks [OF env ok(1,2)]
    obtain x t where t: "handle_disconnect env ?c = (x, t)" by fastforce
    with lost ok(3) have "is_disconnected t" "tracks c t" by (simp_all add: tracks_def)
    then show ?thesis
      using send t r by (cases x) (simp_all add: keep_alive_round_def is_disconnected_def no_session_def)
  next
    case (Inr u)
    with key r packet have "send_keep_alive env c = (Inr (), ?c)"
      by (simp add: send_keep_alive_def next_sequence_def conn_gatt_apply)
    with r ready True ok show ?thesis by (simp add: keep_alive_round_def tracks_def connection_ok_def)
  qed
qed

lemma connect_tracks:
  assumes env: "well_behaved env" and c: "connection_ok c" "bc_disconnect_callbacks c = [0]"
  shows "connection_ok (snd (connect env n c)) \<and> bc_disconnect_callbacks (snd (connect env n c)) = [0]
    \<and> w_called (bc_world (snd (connect env n c))) = w_called (bc_world c)"
  using connect_ok [OF env c(1)] quiet_connect [of "[0]" "w_called (bc_world c)" env n] c(2)
  by (simp add: keeps_def quiet_def)

lemma disconnect_tracks:
  assumes env: "well_behaved env" and c: "connection_ok c" "bc_disconnect_callbacks c = [0]"
  shows "connection_ok (snd (disconnect env c)) \<and> bc_disconnect_callbacks (snd (disconnect env c)) = [0]"
  using disconnect_ok [OF env c(1)] quiet_disconnect [of "[0]" "w_called (bc_world c)" env] c(2)
  by (simp add: keeps_def quiet_def connection_ok_def)

lemma well_behaved_conn_env [simp]: "well_behaved (conn_env_of env d) = well_behaved (de_conn env)"
  by (simp add: well_behaved_def conn_env_of_def)

definition event_ok :: "telink_device \<Rightarrow> bool" where
  "event_ok d \<longleftrightarrow> connection_ok (td_conn d) \<and> bc_disconnect_callbacks (td_conn d) = [0]
     \<and> (td_running d \<longrightarrow> td_connected_event d = is_ready (td_conn d))"

lemma event_on_conn:
  assumes "event_ok d" "tracks (td_conn d) (snd (act (conn_env_of env d) (td_conn d)))"
  shows "event_ok (snd (on_conn env act d))"
  using assms
  by (auto simp: on_conn_def event_ok_def tracks_def on_disconnect_def not_both Let_def
      split: prod.splits if_splits)

lemma event_attempt:
  assumes env: "well_behaved (de_conn env)" and d: "event_ok d"
  shows "event_ok (attempt_command env cmd k b d)"
proof -
  obtain r d1 where d1: "on_conn env (send_once cmd) d = (r, d1)" by fastforce
  have "tracks (td_conn d) (snd (send_once cmd (conn_env_of env d) (td_conn d)))"
    using env d by (intro send_once_tracks) (simp_all add: event_ok_def)
  then have "event_ok d1" using event_on_conn [OF d, of "send_once cmd" env] d1 by simp
  then have "event_ok (finish_command cmd f w d1)" "event_ok (d1\<lparr>td_worker := w\<rparr>)" for f w
    by (simp_all add: event_ok_def finish_command_def)
  with d1 show ?thesis by (cases r) (simp_all add: attempt_command_def)
qed

lemma event_update [simp]:
  "event_ok (d\<lparr>td_queue := q\<rparr>) = event_ok d" "event_ok (d\<lparr>td_worker := w\<rparr>) = event_ok d"
  "event_ok (finish_command cmd f w d) = event_ok d" "event_ok (d\<lparr>td_status_log := l\<rparr>) = event_ok d"
  "event_ok (discard cmds d) = event_ok d"
  by (simp_all add: event_ok_def finish_command_def discard_def)

lemma event_worker_step:
  assumes "well_behaved (de_conn env)" "event_ok d"
  shows "event_ok (worker_step env now d)"
  using assms event_attempt [OF assms(1)]
  by (simp add: worker_step_def Let_def split: worker.splits list.splits)

lemma event_notification: "event_ok d \<Longrightarrow> event_ok (snd (handle_notification env data d))"
  by (simp add: handle_notification_def split: option.splits sum.splits prod.splits)

lemma event_stop: "event_ok d \<Longrightarrow> event_ok (snd (stop_worker d)) \<and> (fst (stop_worker d) = Inr () \<longrightarrow> \<not> td_running (snd (stop_worker d)))"
  by (auto simp: stop_worker_def Let_def event_ok_def discard_def split: worker.splits)

lemma event_connect:
  assumes env: "well_behaved (de_conn env)" and d: "event_ok d"
  shows "event_ok (snd (connect_device env n d))"
proof -
  let ?e = "conn_env_of env d"
  obtain r c where rc: "connect ?e n (td_conn d) = (r, c)" by fastforce
  have ok: "connection_ok (td_conn d)" "bc_disconnect_callbacks (td_conn d) = [0]" using d by (simp_all add: event_ok_def)
  have c: "connection_ok c" "bc_disconnect_callbacks c = [0]" "w_called (bc_world c) = w_called (bc_world (td_conn d))"
    "r = Inr () \<longleftrightarrow> is_ready c"
    using connect_tracks [OF _ ok, of ?e n] connect_ok [OF _ ok(1), of ?e n] env rc by simp_all
  have conn: "on_conn env (\<lambda>e. connect e n) d = (r, d\<lparr>td_conn := c\<rparr>)"
    using rc c(3) by (simp add: on_conn_def)
  show ?thesis
  proof (cases r)
    case (Inl e)
    then have "\<not> is_ready (td_conn d)"
      using rc by (auto simp: connect_def is_ready_def)
    with conn c Inl d show ?thesis by (simp add: connect_device_def event_ok_def)
  next
    case (Inr u)
    with conn c show ?thesis by (simp add: connect_device_def event_ok_def start_worker_def)
  qed
qed

lemma event_disconnect:
  assumes env: "well_behaved (de_conn env)" and d: "event_ok d"
  shows "event_ok (snd (disconnect_device env d))"
proof -
  obtain r d1 where s: "stop_worker d = (r, d1)" by fastforce
  with event_stop [OF d] have d1: "event_ok d1" "r = Inr () \<longrightarrow> \<not> td_running d1" by simp_all
  then have "connection_ok (td_conn d1)" "bc_disconnect_callbacks (td_conn d1) = [0]" by (simp_all add: event_ok_def)
  from disconnect_tracks [OF _ this, of "conn_env_of env d1"] env d1 s show ?thesis
    by (cases r) (auto simp: disconnect_device_def on_conn_def event_ok_def on_disconnect_def Let_def split: prod.splits)
qed

lemma event_step:
  assumes "well_behaved (de_conn env)" "event_ok d"
  shows "event_ok (snd (dev_step env op d))"
proof (cases op)
  case (Send_Command now opcode params dest)
  with assms show ?thesis
    by (simp add: dev_step_def send_command_def enqueue_command_def event_ok_def Let_def)
next
  case Keep_Alive
  have "tracks (td_conn d) (keep_alive_round (conn_env_of env d) (td_conn d))"
    using assms by (intro keep_alive_tracks) (simp_all add: event_ok_def)
  with event_on_conn [OF assms(2), of "\<lambda>e c. (Inr (), keep_alive_round e c)"] Keep_Alive show ?thesis
    by (simp add: dev_step_def)
qed (simp_all add: dev_step_def event_connect event_disconnect event_worker_step event_notification assms)

lemma event_run: "well_behaved (de_conn env) \<Longrightarrow> event_ok d \<Longrightarrow> event_ok (dev_run env ops d)"
  by (induction ops arbitrary: d) (simp_all add: event_step)

lemma event_make: "event_ok (make_telink_device m)"
proof -
  have "connection_ok (td_conn (make_telink_device m))"
    using make_ble_connection_ok by (simp add: make_telink_device_def register_disconnect_callback_def set_notification_handler_def)
  then show ?thesis
    by (simp add: event_ok_def make_telink_device_def register_disconnect_callback_def set_notification_handler_def
        make_ble_connection_def is_ready_def)
qed


subsection \<open>Sending over a ready connection\<close>

definition command_decodes :: "dev_env \<Rightarrow> telink_device \<Rightarrow> queued_command \<Rightarrow> bytes \<Rightarrow> bool" where
  "command_decodes env d cmd packet \<longleftrightarrow> (case bc_session_key (td_conn d) of None \<Rightarrow> False | Some key \<Rightarrow>
     decode_command_packet (ce_aes (de_conn env)) key (ce_mac_bytes (de_conn env)) packet =
       Inr \<lparr>cp_sequence = bc_sequence (td_conn d), cp_dest_id = qc_dest_id cmd, cp_opcode = qc_opcode cmd,
            cp_vendor_id = ce_vendor_id (de_conn env), cp_params = rstrip0 (qc_params cmd)\<rparr>)"

lemma command_decodes_cong:
  "td_conn d1 = td_conn d2 \<Longrightarrow> command_decodes env d1 cmd packet = command_decodes env d2 cmd packet"
  by (simp add: command_decodes_def split: option.splits)

lemma fst_on_disconnect:
  "fst (on_disconnect env d) =
     fst (call_each (de_disconnect_callback env) () (td_disconnect_callbacks d) (td_disconnect_log d))"
  by (simp add: on_disconnect_def split: prod.splits)

definition writes_succeed :: "gatt_oracle \<Rightarrow> bool" where
  "writes_succeed gatt \<longleftrightarrow> (\<forall>n data. \<exists>r. gatt n (Gatt_Write CHAR_COMMAND data) = Inr r)"

definition command_ok :: "dev_env \<Rightarrow> queued_command \<Rightarrow> bool" where
  "command_ok env cmd \<longleftrightarrow> payload_args_ok (qc_dest_id cmd) (qc_opcode cmd) (qc_params cmd) (ce_vendor_id (de_conn env))"

lemma conn_env_fields [simp]:
  "ce_aes (conn_env_of env d) = ce_aes (de_conn env)" "ce_gatt (conn_env_of env d) = ce_gatt (de_conn env)"
  "ce_mac_bytes (conn_env_of env d) = ce_mac_bytes (de_conn env)"
  "ce_vendor_id (conn_env_of env d) = ce_vendor_id (de_conn env)"
  by (simp_all add: conn_env_of_def)

lemma attempt_sends:
  assumes env: "well_behaved (de_conn env)" "writes_succeed (ce_gatt (de_conn env))"
    and d: "is_ready (td_conn d)" and cmd: "command_ok env cmd"
  shows "\<exists>packet c. attempt_command env cmd k b d = finish_command cmd Sent Polling (d\<lparr>td_conn := c\<rparr>)
    \<and> w_trace (bc_world c) = w_trace (bc_world (td_conn d)) @ [Gatt_Write CHAR_COMMAND packet]
    \<and> command_decodes env d cmd packet \<and> is_ready c"
proof -
  let ?c = "td_conn d"
  obtain key where key: "bc_session_key ?c = Some key" "length key = 16"
    and r: "bc_state ?c = READY" "bc_client ?c" "bc_keep_alive ?c = Running"
    and seq: "0 \<le> bc_sequence ?c" "bc_sequence ?c \<le> MAX_SEQUENCE"
    using d by (auto simp: is_ready_def clean_def)
  obtain packet where packet: "encode_command_packet (ce_aes (de_conn env)) key (ce_mac_bytes (de_conn env))
      (bc_sequence ?c) (qc_dest_id cmd) (qc_opcode cmd) (qc_params cmd) (ce_vendor_id (de_conn env)) = Inr packet"
    and dec: "command_decodes env d cmd packet"
    using encode_decode_packet [of "ce_aes (de_conn env)" key "bc_sequence ?c" "ce_mac_bytes (de_conn env)"
        "qc_dest_id cmd" "qc_opcode cmd" "qc_params cmd" "ce_vendor_id (de_conn env)"] env(1) key seq cmd
    by (auto simp: well_behaved_def command_ok_def MAX_SEQUENCE_def command_decodes_def)
  let ?op = "Gatt_Write CHAR_COMMAND packet"
  let ?t = "?c\<lparr>bc_sequence := (bc_sequence ?c + 1) AND MAX_SEQUENCE,
               bc_world := snd (gatt_do (ce_gatt (de_conn env)) ?op (bc_world ?c)), bc_keep_alive := Running\<rparr>"
  obtain u where u: "ce_gatt (de_conn env) (w_count (bc_world ?c)) ?op = Inr u"
    using env(2) by (auto simp: writes_succeed_def)
  have "send_once cmd (conn_env_of env d) ?c = (Inr (), ?t)"
    using key r packet u
    by (simp add: send_once_def next_sequence_def write_command_def conn_gatt_apply restart_keep_alive_def
        start_keep_alive_ok)
  then have "on_conn env (send_once cmd) d = (Inr (), d\<lparr>td_conn := ?t\<rparr>)"
    by (simp add: on_conn_def gatt_do_def)
  moreover have "is_ready ?t" using ready_sequence [OF d] by (simp add: is_ready_def)
  moreover have "w_trace (bc_world ?t) = w_trace (bc_world ?c) @ [?op]" by (simp add: gatt_do_def)
  ultimately show ?thesis
    using dec by (intro exI [of _ packet] exI [of _ ?t]) (simp add: attempt_command_def)
qed

text \<open>A worker at the queue that takes the only command.\<close>

definition new_command :: "seconds \<Rightarrow> int \<Rightarrow> bytes \<Rightarrow> int \<Rightarrow> queued_command" where
  "new_command now opcode params dest_id =
     \<lparr>qc_opcode = opcode, qc_params = params, qc_dest_id = dest_id, qc_created_at = now\<rparr>"

lemma enqueue_run:
  assumes "\<not> queue_full env d"
  shows "dev_run env (Send_Command now opcode params None # ops) d =
    dev_run env ops (d\<lparr>td_accepted := td_accepted d @ [new_command now opcode params (td_mesh_id d)],
      td_queue := td_queue d @ [new_command now opcode params (td_mesh_id d)]\<rparr>)"
  using assms by (simp add: dev_step_def send_command_def enqueue_command_def new_command_def Let_def)

definition idle_worker :: "dev_env \<Rightarrow> telink_device \<Rightarrow> bool" where
  "idle_worker env d \<longleftrightarrow> td_running d \<and> td_worker d = Polling \<and> td_queue d = []"

lemma idle_not_full: "idle_worker env d \<Longrightarrow> \<not> queue_full env d"
  by (simp add: idle_worker_def queue_full_def)

lemma worker_takes:
  assumes "td_worker d = Polling" "td_queue d = cmd # q" "now - qc_created_at cmd \<le> de_ttl env"
  shows "worker_step env now d =
    (let d1 = d\<lparr>td_queue := q\<rparr> in
     if is_connected d1 then attempt_command env cmd 1 COMMAND_RETRY_INITIAL_BACKOFF d1
     else d1\<lparr>td_worker := Waiting_Connection cmd\<rparr>)"
  using assms by (simp add: worker_step_def Let_def not_less)

subsection \<open>Properties\<close>

text \<open>C8: Whatever operations run on a new device, the commands that were accepted are, in their order, those
  whose fate is recorded (sent, failed, expired or discarded), at most one in the hand of the worker, and the
  queue: none is lost, ends twice or overtakes another; the queue never exceeds its maximal size.\<close>

theorem every_command_has_one_fate:
  assumes "0 < de_max_size env"
  shows "let d = dev_run env ops (make_telink_device m) in
    td_accepted d = map fst (td_done d) @ in_hand (td_worker d) @ td_queue d
    \<and> length (in_hand (td_worker d)) \<le> 1 \<and> int (length (td_queue d)) \<le> de_max_size env"
  using accounted_run [OF accounted_make [of env m], of ops] assms
    in_hand_cases [of "td_worker (dev_run env ops (make_telink_device m))"]
  by (auto simp: accounted_def Let_def)


lemma command_written:
  assumes "well_behaved (de_conn env)" "writes_succeed (ce_gatt (de_conn env))"
    and "idle_worker env d" "is_ready (td_conn d)"
    and "command_ok env (new_command t0 opcode params (td_mesh_id d))" and "t1 - t0 \<le> de_ttl env"
  shows "let d1 = dev_run env [Send_Command t0 opcode params None, Worker_Step t1] d in
    \<exists>packet. w_trace (bc_world (td_conn d1)) = w_trace (bc_world (td_conn d)) @ [Gatt_Write CHAR_COMMAND packet]
      \<and> command_decodes env d (new_command t0 opcode params (td_mesh_id d)) packet
      \<and> td_done d1 = td_done d @ [(new_command t0 opcode params (td_mesh_id d), Sent)] \<and> idle_worker env d1"
proof -
  let ?cmd = "new_command t0 opcode params (td_mesh_id d)"
  let ?d = "d\<lparr>td_accepted := td_accepted d @ [?cmd], td_queue := []\<rparr>"
  have idle: "td_running d" "td_worker d = Polling" "td_queue d = []" using assms(3) by (simp_all add: idle_worker_def)
  have step: "dev_run env [Send_Command t0 opcode params None, Worker_Step t1] d =
      attempt_command env ?cmd 1 COMMAND_RETRY_INITIAL_BACKOFF ?d"
    using assms(4,6) idle enqueue_run [OF idle_not_full [OF assms(3)], of t0 opcode params "[Worker_Step t1]"]
    by (simp add: dev_step_def worker_takes new_command_def is_connected_def is_ready_def)
  obtain packet c where sent: "attempt_command env ?cmd 1 COMMAND_RETRY_INITIAL_BACKOFF ?d =
      finish_command ?cmd Sent Polling (?d\<lparr>td_conn := c\<rparr>)"
    "w_trace (bc_world c) = w_trace (bc_world (td_conn d)) @ [Gatt_Write CHAR_COMMAND packet]"
    "command_decodes env ?d ?cmd packet"
    using attempt_sends [OF assms(1,2) _ assms(5), of ?d 1 COMMAND_RETRY_INITIAL_BACKOFF] assms(4) by auto
  then have "command_decodes env d ?cmd packet" using command_decodes_cong [of ?d d] by simp
  with step sent idle show ?thesis
    by (auto simp: finish_command_def idle_worker_def)
qed


text \<open>The time to live is checked only when a command leaves the queue: a command that is taken in time
  while the device is disconnected is sent when the connection comes back, however late that is.\<close>

theorem expired_command_sent:
  assumes "well_behaved (de_conn env)" "writes_succeed (ce_gatt (de_conn env))"
    and "idle_worker env d" "event_ok d" "\<not> is_connected d"
    and "command_ok env (new_command t0 opcode params (td_mesh_id d))" and "t1 - t0 \<le> de_ttl env"
    and "fst (connect (conn_env_of env d) n (td_conn d)) = Inr ()"
  shows "td_done (dev_run env [Send_Command t0 opcode params None, Worker_Step t1, Connect_Device n, Worker_Step t2] d)
    = td_done d @ [(new_command t0 opcode params (td_mesh_id d), Sent)]"
proof -
  let ?cmd = "new_command t0 opcode params (td_mesh_id d)"
  let ?d2 = "d\<lparr>td_accepted := td_accepted d @ [?cmd], td_queue := [], td_worker := Waiting_Connection ?cmd\<rparr>"
  have idle: "td_running d" "td_worker d = Polling" "td_queue d = []" using assms(3) by (simp_all add: idle_worker_def)
  have s12: "dev_run env [Send_Command t0 opcode params None, Worker_Step t1] d = ?d2"
    using assms(5,7) idle enqueue_run [OF idle_not_full [OF assms(3)], of t0 opcode params "[Worker_Step t1]"]
    by (simp add: dev_step_def worker_takes new_command_def is_connected_def)
  obtain c where c: "connect (conn_env_of env d) n (td_conn d) = (Inr (), c)"
    using assms(8) by (metis prod.collapse)
  have ok: "connection_ok (td_conn d)" "bc_disconnect_callbacks (td_conn d) = [0]"
    using assms(4) by (simp_all add: event_ok_def)
  have ready: "is_ready c" and quiet: "w_called (bc_world c) = w_called (bc_world (td_conn d))"
    using connect_ok [OF _ ok(1), of "conn_env_of env d" n] connect_tracks [OF _ ok, of "conn_env_of env d" n] assms(1) c
    by simp_all
  have "conn_env_of env ?d2 = conn_env_of env d" by (simp add: conn_env_of_def fst_on_disconnect)
  then have "on_conn env (\<lambda>e. connect e n) ?d2 = (Inr (), ?d2\<lparr>td_conn := c\<rparr>)"
    using c quiet by (simp add: on_conn_def)
  then have s3: "snd (dev_step env (Connect_Device n) ?d2) = ?d2\<lparr>td_conn := c, td_connected_event := True\<rparr>"
    using idle by (simp add: dev_step_def connect_device_def start_worker_def)
  let ?d3 = "?d2\<lparr>td_conn := c, td_connected_event := True\<rparr>"
  obtain c4 where "attempt_command env ?cmd 1 COMMAND_RETRY_INITIAL_BACKOFF ?d3 =
      finish_command ?cmd Sent Polling (?d3\<lparr>td_conn := c4\<rparr>)"
    using attempt_sends [OF assms(1,2) _ assms(6), of ?d3 1 COMMAND_RETRY_INITIAL_BACKOFF] ready by auto
  then have s4: "td_done (worker_step env t2 ?d3) = td_done d @ [(?cmd, Sent)]"
    using ready by (simp add: worker_step_def is_connected_def is_ready_def finish_command_def)
  have "dev_run env [Send_Command t0 opcode params None, Worker_Step t1, Connect_Device n, Worker_Step t2] d =
      dev_run env [Connect_Device n, Worker_Step t2] (dev_run env [Send_Command t0 opcode params None, Worker_Step t1] d)"
    by simp
  also have "\<dots> = worker_step env t2 ?d3"
    unfolding s12 by (simp add: s3) (simp add: dev_step_def)
  finally show ?thesis using s4 by simp
qed

subsection \<open>Witnesses\<close>

definition demo_dev_env :: dev_env where
  "demo_dev_env = \<lparr>de_conn = demo_conn_env, de_max_size = QUEUE_MAX_SIZE, de_ttl = COMMAND_TTL,
     de_status_callback = (\<lambda>_ _. None), de_disconnect_callback = (\<lambda>_ _. None)\<rparr>"

definition demo_device :: telink_device where
  "demo_device = dev_run demo_dev_env [Connect_Device 2] (make_telink_device 1)"

lemma demo_writes: "writes_succeed (ce_gatt (de_conn demo_dev_env))" "well_behaved (de_conn demo_dev_env)"
  by (simp_all add: writes_succeed_def demo_dev_env_def demo_conn_env_well_behaved)
     (simp add: demo_conn_env_def demo_gatt_def)

lemma demo_device_ready:
  "is_ready (td_conn demo_device)" "idle_worker demo_dev_env demo_device" "td_mesh_id demo_device = 1"
proof -
  have "td_running demo_device \<and> is_connected demo_device \<and> td_worker demo_device = Polling
     \<and> td_queue demo_device = [] \<and> td_mesh_id demo_device = 1" by code_simp
  moreover have "event_ok demo_device"
    unfolding demo_device_def by (rule event_run [OF demo_writes(2) event_make])
  ultimately show "is_ready (td_conn demo_device)" "idle_worker demo_dev_env demo_device" "td_mesh_id demo_device = 1"
    by (auto simp: idle_worker_def event_ok_def is_connected_def connection_ok_def is_disconnected_def)
qed

theorem every_command_has_one_fate_witness:
  "let d = dev_run demo_dev_env [Send_Command 0 0xD2 [1] None, Send_Command 1 0xD0 [] None, Connect_Device 2,
      Worker_Step 2, Disconnect_Device] (make_telink_device 1) in
    td_accepted d = map fst (td_done d) @ in_hand (td_worker d) @ td_queue d \<and> map snd (td_done d) = [Sent, Discarded]"
proof -
  let ?ops = "[Send_Command 0 0xD2 [1] None, Send_Command 1 0xD0 [] None, Connect_Device 2,
      Worker_Step 2, Disconnect_Device]"
  have "map snd (td_done (dev_run demo_dev_env ?ops (make_telink_device 1))) = [Sent, Discarded]" by code_simp
  moreover have "0 < de_max_size demo_dev_env" by code_simp
  ultimately show ?thesis
    using every_command_has_one_fate [of demo_dev_env ?ops 1] by (simp add: Let_def del: dev_run.simps)
qed



definition demo_waiting_device :: telink_device where
  "demo_waiting_device = start_worker (make_telink_device 1)"

theorem expired_command_sent_witness:
  "td_done (dev_run demo_dev_env [Send_Command 0 0xD2 [1] None, Worker_Step 60, Connect_Device 2, Worker_Step 100000]
     demo_waiting_device) = [(new_command 0 0xD2 [1] 1, Sent)]"
proof -
  let ?d = demo_waiting_device
  have idle: "idle_worker demo_dev_env ?d" "\<not> is_connected ?d" "td_mesh_id ?d = 1" "td_done ?d = []"
    "case fst (connect (conn_env_of demo_dev_env ?d) 2 (td_conn ?d)) of Inr u \<Rightarrow> True | Inl e \<Rightarrow> False"
    "command_ok demo_dev_env (new_command 0 0xD2 [1] 1)" "(60::rat) - 0 \<le> de_ttl demo_dev_env"
    by code_simp+
  then have connects: "fst (connect (conn_env_of demo_dev_env ?d) 2 (td_conn ?d)) = Inr ()"
    by (simp split: sum.splits)
  have "event_ok ?d"
    using event_make [of 1]
    by (simp add: demo_waiting_device_def start_worker_def event_ok_def make_telink_device_def is_ready_def
        register_disconnect_callback_def set_notification_handler_def make_ble_connection_def)
  from expired_command_sent [OF demo_writes(2,1) idle(1) this idle(2) _ _ connects, of 0 "0xD2" "[1]" 60 100000] idle
  show ?thesis by simp
qed

end
