(* ===== verification/Light.thy ===== *)
theory Light
  imports Coordinator Telink_Device
begin

text \<open>
  The light entities of \<^verbatim>\<open>light.py\<close> over the coordinator and the Telink device: the scales of the values,
  the commands of a call, the debouncing of calls and the transitions.  A task moves at the end of each of
  its sleeps.  Sending a command to a Telink device only enqueues it and does not suspend, so a wake-up is
  atomic and the lock of the entity is never contended.  Floats are exact rationals.
\<close>

subsection \<open>Scales\<close>

definition DEVICE_BRIGHTNESS_MIN :: int where "DEVICE_BRIGHTNESS_MIN = 1"
definition DEVICE_BRIGHTNESS_MAX :: int where "DEVICE_BRIGHTNESS_MAX = 100"
definition HA_BRIGHTNESS_MIN :: int where "HA_BRIGHTNESS_MIN = 1"
definition HA_BRIGHTNESS_MAX :: int where "HA_BRIGHTNESS_MAX = 255"
definition DEVICE_COLOR_TEMP_MIN :: int where "DEVICE_COLOR_TEMP_MIN = 0"
definition DEVICE_COLOR_TEMP_MAX :: int where "DEVICE_COLOR_TEMP_MAX = 127"
definition HA_MIRED_MIN :: int where "HA_MIRED_MIN = 153"
definition HA_MIRED_MAX :: int where "HA_MIRED_MAX = 370"

lemmas light_scales = DEVICE_BRIGHTNESS_MIN_def DEVICE_BRIGHTNESS_MAX_def HA_BRIGHTNESS_MIN_def
  HA_BRIGHTNESS_MAX_def DEVICE_COLOR_TEMP_MIN_def DEVICE_COLOR_TEMP_MAX_def HA_MIRED_MIN_def HA_MIRED_MAX_def

text \<open>The code's \<^verbatim>\<open>max(low, min(v, high))\<close>.\<close>

definition clamp :: "int \<Rightarrow> int \<Rightarrow> int \<Rightarrow> int" where
  "clamp low high v = max low (min v high)"

definition brightness_to_ha :: "int \<Rightarrow> int" where
  "brightness_to_ha device_value =
     (let clamped = clamp DEVICE_BRIGHTNESS_MIN DEVICE_BRIGHTNESS_MAX device_value
      in py_round (of_int HA_BRIGHTNESS_MIN
           + of_int ((clamped - DEVICE_BRIGHTNESS_MIN) * (HA_BRIGHTNESS_MAX - HA_BRIGHTNESS_MIN))
             / of_int (DEVICE_BRIGHTNESS_MAX - DEVICE_BRIGHTNESS_MIN)))"

definition brightness_to_device :: "int \<Rightarrow> int" where
  "brightness_to_device ha_value =
     (let clamped = clamp HA_BRIGHTNESS_MIN HA_BRIGHTNESS_MAX ha_value
      in py_round (of_int DEVICE_BRIGHTNESS_MIN
           + of_int ((clamped - HA_BRIGHTNESS_MIN) * (DEVICE_BRIGHTNESS_MAX - DEVICE_BRIGHTNESS_MIN))
             / of_int (HA_BRIGHTNESS_MAX - HA_BRIGHTNESS_MIN)))"

definition color_temp_to_ha :: "int \<Rightarrow> int" where
  "color_temp_to_ha device_value =
     (let clamped = clamp DEVICE_COLOR_TEMP_MIN DEVICE_COLOR_TEMP_MAX device_value
      in py_round (of_int HA_MIRED_MAX
           - of_int ((clamped - DEVICE_COLOR_TEMP_MIN) * (HA_MIRED_MAX - HA_MIRED_MIN))
             / of_int (DEVICE_COLOR_TEMP_MAX - DEVICE_COLOR_TEMP_MIN)))"

definition color_temp_to_device :: "int \<Rightarrow> int" where
  "color_temp_to_device mired_value =
     (let clamped = clamp HA_MIRED_MIN HA_MIRED_MAX mired_value
      in py_round (of_int DEVICE_COLOR_TEMP_MAX
           - of_int ((clamped - HA_MIRED_MIN) * (DEVICE_COLOR_TEMP_MAX - DEVICE_COLOR_TEMP_MIN))
             / of_int (HA_MIRED_MAX - HA_MIRED_MIN)))"

definition color_brightness_to_ha :: "int \<Rightarrow> int" where "color_brightness_to_ha device_value = clamp 0 255 device_value"
definition color_brightness_to_device :: "int \<Rightarrow> int" where "color_brightness_to_device ha_value = clamp 0 255 ha_value"

text \<open>\<^verbatim>\<open>round(1_000_000 / v)\<close>, from kelvin to mireds and back.\<close>

definition reciprocal :: "int \<Rightarrow> int" where
  "reciprocal v = py_round (1000000 / of_int v)"

subsection \<open>The structured command\<close>

type_synonym rgb = "int \<times> int \<times> int"

record turn_on_command =
  tc_power_on :: bool
  tc_brightness :: "int option"
  tc_color_temp :: "int option"
  tc_rgb :: "rgb option"
  tc_use_color_brightness :: bool

definition build_turn_on_command ::
  "int option \<Rightarrow> int option \<Rightarrow> rgb option \<Rightarrow> bool \<Rightarrow> int \<Rightarrow> turn_on_command" where
  "build_turn_on_command brightness color_temp rgb_color has_target current_mode =
     (if \<not> has_target then
        \<lparr>tc_power_on = True, tc_brightness = None, tc_color_temp = None, tc_rgb = None, tc_use_color_brightness = False\<rparr>
      else
        let use_color = (if color_temp \<noteq> None then False else if rgb_color \<noteq> None then True else current_mode = 1)
        in \<lparr>tc_power_on = False,
            tc_brightness = map_option (\<lambda>b. if use_color then b else brightness_to_device b) brightness,
            tc_color_temp = map_option color_temp_to_device color_temp,
            tc_rgb = rgb_color, tc_use_color_brightness = use_color\<rparr>)"

subsection \<open>The SIG Mesh light\<close>

definition sig_light_brightness :: "device_state \<Rightarrow> int option" where
  "sig_light_brightness st =
     (if \<not> ds_is_on st \<or> ds_brightness st \<le> 0 then None else Some (min (ds_brightness st) 255))"

datatype sig_command = Sig_Send_Level int | Sig_Send_Power bool

definition sig_turn_on_command :: "int option \<Rightarrow> sig_command" where
  "sig_turn_on_command brightness = (case brightness of
       Some b \<Rightarrow> Sig_Send_Level (clamp 0 255 b * 257 - 32768)
     | None \<Rightarrow> Sig_Send_Power True)"

text \<open>
  The \<^verbatim>\<open>except\<close> clause of the two operations: \<open>OSError\<close> has Python's \<^verbatim>\<open>ConnectionError\<close> and \<^verbatim>\<open>TimeoutError\<close> as
  subclasses.  \<open>run cmd k\<close> is what attempt \<open>k\<close> of a command raises.
\<close>

datatype entity_error = Home_Assistant_Error string | Raised exn

definition sig_operation ::
  "string \<Rightarrow> (sig_command \<Rightarrow> nat \<Rightarrow> exn option) \<Rightarrow> sig_command \<Rightarrow> nat \<Rightarrow> seconds \<Rightarrow> conn_manager
    \<Rightarrow> (entity_error + unit) \<times> conn_manager" where
  "sig_operation translation_key run cmd max_retries base_delay cm =
     (let (r, cm1, waits) = send_command_with_retry (run cmd) max_retries base_delay cm
      in (case r of
            Inr u \<Rightarrow> Inr ()
          | Inl e \<Rightarrow> Inl (if isinstance (ex_class e) OSError \<or> isinstance (ex_class e) TimeoutError
                        then Home_Assistant_Error translation_key else Raised e), cm1))"

definition sig_turn_on where
  "sig_turn_on run brightness = sig_operation ''switch_on_failed'' run (sig_turn_on_command brightness)"

definition sig_turn_off where
  "sig_turn_off run = sig_operation ''switch_off_failed'' run (Sig_Send_Power False)"

subsection \<open>The Telink light\<close>

datatype light_command = Cmd_Color int int int | Cmd_Mode int | Cmd_Color_Brightness int | Cmd_Color_Temp int
  | Cmd_Brightness int | Cmd_Power bool | Cmd_Scene int

text \<open>The arguments of \<^verbatim>\<open>async_turn_on\<close>, and those of the debounced task.\<close>

record turn_on_call =
  ca_effect :: "string option"
  ca_transition :: "seconds option"
  ca_brightness :: "int option"
  ca_color_temp_kelvin :: "int option"
  ca_rgb_color :: "rgb option"

record turn_on_args =
  ta_brightness :: "int option"
  ta_color_temp :: "int option"
  ta_rgb_color :: "rgb option"

definition has_target :: "turn_on_args \<Rightarrow> bool" where
  "has_target a \<longleftrightarrow> ta_brightness a \<noteq> None \<or> ta_color_temp a \<noteq> None \<or> ta_rgb_color a \<noteq> None"

record transition_args =
  tr_target_brightness :: "int option"
  tr_target_color_temp :: "int option"
  tr_target_rgb :: "rgb option"
  tr_duration :: seconds
  tr_power_off_after :: bool

text \<open>The values a transition starts with.\<close>

record transition_start =
  ts_brightness :: int
  ts_color_temp :: int
  ts_rgb :: rgb

text \<open>A transition before its first run, and in the sleep after step \<open>i\<close>.\<close>

datatype transition = Not_Started transition_args | After_Step transition_args transition_start nat

record 'd light =
  lt_coordinator :: coordinator
  lt_device :: 'd
  lt_pending_command :: "turn_on_args option"
  lt_transition :: "transition option"

type_synonym 'd sender = "light_command \<Rightarrow> ('d, unit) action"

definition send_cmd :: "'d sender \<Rightarrow> light_command \<Rightarrow> ('d light, unit) action" where
  "send_cmd send cmd l = (let (r, d) = send cmd (lt_device l) in (r, l\<lparr>lt_device := d\<rparr>))"

fun send_all :: "'d sender \<Rightarrow> light_command list \<Rightarrow> ('d light, unit) action" where
  "send_all send [] l = (Inr (), l)"
| "send_all send (c # cs) l = bindS (send_cmd send c) (\<lambda>_. send_all send cs) l"

subsubsection \<open>Properties of the entity\<close>

definition light_state :: "'d light \<Rightarrow> device_state" where
  "light_state l = co_state (lt_coordinator l)"

definition light_brightness :: "device_state \<Rightarrow> int option" where
  "light_brightness st =
     (if \<not> ds_is_on st then None
      else if ds_mode st = 1 then Some (ds_color_brightness st)
      else Some (brightness_to_ha (ds_brightness st)))"

definition light_color_temp_kelvin :: "device_state \<Rightarrow> int option" where
  "light_color_temp_kelvin st =
     (if \<not> ds_is_on st then None else Some (reciprocal (color_temp_to_ha (ds_color_temp st))))"

definition light_rgb_color :: "device_state \<Rightarrow> rgb option" where
  "light_rgb_color st =
     (if \<not> ds_is_on st then None else if ds_mode st \<noteq> 1 then None else Some (ds_red st, ds_green st, ds_blue st))"

datatype color_mode = RGB | COLOR_TEMP

definition light_color_mode :: "device_state \<Rightarrow> color_mode" where
  "light_color_mode st = (if ds_mode st = 1 then RGB else COLOR_TEMP)"

definition MESH_SCENES :: "(int \<times> string) list" where
  "MESH_SCENES = [(1, ''Warm Candlelight''), (2, ''Ocean Breeze''), (3, ''Forest Dawn''), (4, ''Sunset Glow''),
     (5, ''Arctic Aurora'')]"

definition light_effect :: "device_state \<Rightarrow> string option" where
  "light_effect st = (if ds_scene_id st = 0 then None else map_of MESH_SCENES (ds_scene_id st))"

definition scene_by_name :: "string \<Rightarrow> int option" where
  "scene_by_name name = map_of (map (\<lambda>(k, v). (v, k)) MESH_SCENES) name"

subsubsection \<open>Calls\<close>

definition cancel_transition :: "'d light \<Rightarrow> 'd light" where
  "cancel_transition l = l\<lparr>lt_transition := None\<rparr>"

definition cancel_pending_command :: "'d light \<Rightarrow> 'd light" where
  "cancel_pending_command l = l\<lparr>lt_pending_command := None\<rparr>"

definition kelvin_to_mired :: "int option \<Rightarrow> int option" where
  "kelvin_to_mired kelvin = (case kelvin of None \<Rightarrow> None | Some k \<Rightarrow> if k = 0 then None else Some (reciprocal k))"

definition args_of_call :: "turn_on_call \<Rightarrow> turn_on_args" where
  "args_of_call c = \<lparr>ta_brightness = ca_brightness c, ta_color_temp = kelvin_to_mired (ca_color_temp_kelvin c),
     ta_rgb_color = ca_rgb_color c\<rparr>"

definition wants_transition :: "seconds option \<Rightarrow> bool" where
  "wants_transition transition = (case transition of None \<Rightarrow> False | Some t \<Rightarrow> 0 < t)"

definition light_turn_on :: "'d sender \<Rightarrow> turn_on_call \<Rightarrow> ('d light, unit) action" where
  "light_turn_on send c l =
     (let l1 = cancel_pending_command (cancel_transition l); a = args_of_call c in
      case ca_effect c of
        Some effect \<Rightarrow>
          (case scene_by_name effect of
             None \<Rightarrow> (Inr (), l1)
           | Some scene_id \<Rightarrow>
               bindS (send_cmd send (Cmd_Scene scene_id))
                 (\<lambda>_ l2. (Inr (), l2\<lparr>lt_coordinator := set_scene_id scene_id (lt_coordinator l2)\<rparr>)) l1)
      | None \<Rightarrow>
          if wants_transition (ca_transition c) \<and> has_target a then
            (Inr (), l1\<lparr>lt_transition := Some (Not_Started
               \<lparr>tr_target_brightness = map_option brightness_to_device (ta_brightness a),
                tr_target_color_temp = map_option color_temp_to_device (ta_color_temp a),
                tr_target_rgb = ta_rgb_color a, tr_duration = the (ca_transition c), tr_power_off_after = False\<rparr>)\<rparr>)
          else (Inr (), l1\<lparr>lt_pending_command := Some a\<rparr>))"

definition turn_on_commands :: "int \<Rightarrow> turn_on_args \<Rightarrow> light_command list" where
  "turn_on_commands mode a = (case ta_rgb_color a of
       Some (r, g, b) \<Rightarrow>
         [Cmd_Color r g b, Cmd_Mode 1] @ (case ta_brightness a of None \<Rightarrow> [] | Some v \<Rightarrow> [Cmd_Color_Brightness v])
     | None \<Rightarrow>
         (case ta_color_temp a of None \<Rightarrow> []
          | Some t \<Rightarrow> (if mode = 1 then [Cmd_Mode 0] else []) @ [Cmd_Color_Temp (color_temp_to_device t)])
         @ (case ta_brightness a of None \<Rightarrow> []
            | Some v \<Rightarrow> if mode = 1 then [Cmd_Color_Brightness v] else [Cmd_Brightness (brightness_to_device v)])
         @ (if \<not> has_target a then [Cmd_Power True] else []))"

text \<open>The end of the sleep of \<^verbatim>\<open>_debounced_send_turn_on\<close>.\<close>

definition debounced_send :: "'d sender \<Rightarrow> ('d light, unit) action" where
  "debounced_send send l = (case lt_pending_command l of
       None \<Rightarrow> (Inr (), l)
     | Some a \<Rightarrow> send_all send (turn_on_commands (ds_mode (light_state l)) a) (l\<lparr>lt_pending_command := None\<rparr>))"

definition light_turn_off :: "'d sender \<Rightarrow> seconds option \<Rightarrow> ('d light, unit) action" where
  "light_turn_off send transition l =
     (let l1 = cancel_pending_command (cancel_transition l) in
      if wants_transition transition then
        (Inr (), l1\<lparr>lt_transition := Some (Not_Started \<lparr>tr_target_brightness = Some DEVICE_BRIGHTNESS_MIN,
           tr_target_color_temp = None, tr_target_rgb = None, tr_duration = the transition, tr_power_off_after = True\<rparr>)\<rparr>)
      else send_cmd send (Cmd_Power False) l1)"

definition will_remove_from_hass :: "'d light \<Rightarrow> 'd light" where
  "will_remove_from_hass l = cancel_pending_command (cancel_transition l)"

subsubsection \<open>Transitions\<close>

definition interpolate :: "rat \<Rightarrow> int \<Rightarrow> int \<Rightarrow> int" where
  "interpolate fraction start target = py_round (of_int start + of_int (target - start) * fraction)"

text \<open>The commands of \<^verbatim>\<open>_apply_transition_step\<close>.\<close>

definition step_commands :: "rat \<Rightarrow> transition_args \<Rightarrow> transition_start \<Rightarrow> light_command list" where
  "step_commands fraction a start =
     (case tr_target_brightness a of None \<Rightarrow> []
      | Some t \<Rightarrow> [Cmd_Brightness (clamp DEVICE_BRIGHTNESS_MIN DEVICE_BRIGHTNESS_MAX (interpolate fraction (ts_brightness start) t))])
     @ (case tr_target_color_temp a of None \<Rightarrow> []
        | Some t \<Rightarrow> [Cmd_Color_Temp (clamp DEVICE_COLOR_TEMP_MIN DEVICE_COLOR_TEMP_MAX (interpolate fraction (ts_color_temp start) t))])
     @ (case tr_target_rgb a of None \<Rightarrow> []
        | Some (r, g, b) \<Rightarrow> let (r0, g0, b0) = ts_rgb start in
            [Cmd_Color (clamp 0 255 (interpolate fraction r0 r)) (clamp 0 255 (interpolate fraction g0 g))
               (clamp 0 255 (interpolate fraction b0 b))])"

definition transition_steps :: "seconds \<Rightarrow> nat" where
  "transition_steps duration = max 2 (min (nat \<lfloor>duration * 10\<rfloor>) 50)"

definition end_transition :: "'d light \<Rightarrow> 'd light" where
  "end_transition l = l\<lparr>lt_transition := None\<rparr>"

text \<open>Step \<open>i\<close>, and what follows it up to the next sleep or the end of the task.\<close>

definition transition_step :: "'d sender \<Rightarrow> transition_args \<Rightarrow> transition_start \<Rightarrow> nat \<Rightarrow> ('d light, unit) action" where
  "transition_step send a start i l =
     (let n = transition_steps (tr_duration a) in
      case send_all send (step_commands (of_nat i / of_nat n) a start) l of
        (Inl e, l1) \<Rightarrow> (Inl e, end_transition l1)
      | (Inr u, l1) \<Rightarrow>
          if i < n then (Inr (), l1\<lparr>lt_transition := Some (After_Step a start i)\<rparr>)
          else send_all send (if tr_power_off_after a then [Cmd_Power False] else []) (end_transition l1))"

definition start_of :: "device_state \<Rightarrow> transition_start" where
  "start_of st = \<lparr>ts_brightness = ds_brightness st, ts_color_temp = ds_color_temp st,
     ts_rgb = (ds_red st, ds_green st, ds_blue st)\<rparr>"

definition transition_wake :: "'d sender \<Rightarrow> ('d light, unit) action" where
  "transition_wake send l = (case lt_transition l of
       None \<Rightarrow> (Inr (), l)
     | Some (Not_Started a) \<Rightarrow> transition_step send a (start_of (light_state l)) 1 l
     | Some (After_Step a start i) \<Rightarrow> transition_step send a start (i + 1) l)"

subsection \<open>The Telink device\<close>

text \<open>No device class has \<^verbatim>\<open>send_scene\<close>.\<close>

fun telink_send :: "dev_env \<Rightarrow> seconds \<Rightarrow> telink_device sender" where
  "telink_send env now (Cmd_Color r g b) = td_send_color env now r g b"
| "telink_send env now (Cmd_Mode m) = td_send_light_mode env now m"
| "telink_send env now (Cmd_Color_Brightness v) = td_send_color_brightness env now v"
| "telink_send env now (Cmd_Color_Temp t) = td_send_color_temp env now t"
| "telink_send env now (Cmd_Brightness v) = td_send_brightness env now v"
| "telink_send env now (Cmd_Power on) = td_send_power env now on"
| "telink_send env now (Cmd_Scene s) = liftS (Inl AttributeError)"


subsection \<open>The interface of the device\<close>

text \<open>
  What the light relies on: a command is accepted as one packet or refused, and then nothing has changed;
  the packet of a command stays the same.
\<close>

locale command_sink =
  fixes send :: "light_command \<Rightarrow> 'd \<Rightarrow> unit res \<times> 'd"
    and accepted :: "'d \<Rightarrow> 'q list"
    and packet :: "'d \<Rightarrow> light_command \<Rightarrow> 'q"
  assumes accepts: "send c d = (Inr (), d1) \<Longrightarrow> accepted d1 = accepted d @ [packet d c]"
    and refuses: "send c d = (Inl e, d1) \<Longrightarrow> accepted d1 = accepted d"
    and same_packet: "send c d = (r, d1) \<Longrightarrow> packet d1 = packet d"
begin

lemma send_all_accepted:
  assumes "send_all send cs l = (r, l1)"
  shows "lt_coordinator l1 = lt_coordinator l \<and> lt_pending_command l1 = lt_pending_command l
    \<and> lt_transition l1 = lt_transition l \<and> packet (lt_device l1) = packet (lt_device l)
    \<and> (\<exists>k \<le> length cs. accepted (lt_device l1) = accepted (lt_device l) @ map (packet (lt_device l)) (take k cs)
        \<and> (r = Inr () \<longrightarrow> k = length cs))"
  using assms
proof (induction cs arbitrary: l)
  case (Cons c cs)
  obtain r0 d0 where send: "send c (lt_device l) = (r0, d0)" by fastforce
  note same = same_packet [OF send]
  show ?case
  proof (cases r0)
    case (Inl e)
    with Cons.prems send have "r = Inl e" "l1 = l\<lparr>lt_device := d0\<rparr>" by (auto simp: bindS_def send_cmd_def)
    with refuses send Inl same show ?thesis by (auto intro: exI [of _ 0])
  next
    case (Inr u)
    let ?l = "l\<lparr>lt_device := d0\<rparr>"
    from Inr Cons.prems send have "send_all send cs ?l = (r, l1)" by (simp add: bindS_def send_cmd_def)
    note ih = Cons.IH [OF this]
    then obtain k where k: "k \<le> length cs" "r = Inr () \<longrightarrow> k = length cs"
      "accepted (lt_device l1) = accepted d0 @ map (packet d0) (take k cs)" by auto
    moreover have "accepted d0 = accepted (lt_device l) @ [packet (lt_device l) c]"
      using accepts send Inr by simp
    ultimately show ?thesis using ih same by (auto intro!: exI [of _ "Suc k"])
  qed
qed auto

lemma debounced_send_accepted:
  assumes "lt_pending_command l = Some a" "debounced_send send l = (r, l1)"
  shows "lt_pending_command l1 = None
    \<and> (\<exists>k \<le> length (turn_on_commands (ds_mode (light_state l)) a).
        accepted (lt_device l1) = accepted (lt_device l)
          @ map (packet (lt_device l)) (take k (turn_on_commands (ds_mode (light_state l)) a))
        \<and> (r = Inr () \<longrightarrow> k = length (turn_on_commands (ds_mode (light_state l)) a)))"
  using send_all_accepted [of "turn_on_commands (ds_mode (light_state l)) a" "l\<lparr>lt_pending_command := None\<rparr>" r l1] assms
  by (simp add: debounced_send_def)

end

text \<open>The packets of the Telink device: the accepted commands of its queue.\<close>

fun command_data :: "light_command \<Rightarrow> int \<times> bytes" where
  "command_data (Cmd_Color r g b) = (TELINK_CMD_COLOR, [word_of_int r, word_of_int g, word_of_int b])"
| "command_data (Cmd_Mode m) = (TELINK_CMD_LIGHT_MODE, [word_of_int m])"
| "command_data (Cmd_Color_Brightness v) = (TELINK_CMD_COLOR_BRIGHTNESS, [word_of_int v])"
| "command_data (Cmd_Color_Temp t) = (TELINK_CMD_WHITE_TEMP, [word_of_int t])"
| "command_data (Cmd_Brightness v) =
     (TELINK_CMD_DP_WRITE, case encode_compact_dp COMPACT_DP_BRIGHTNESS DP_TYPE_VALUE v of Inr bs \<Rightarrow> bs | Inl e \<Rightarrow> [])"
| "command_data (Cmd_Power on) =
     (TELINK_CMD_DP_WRITE,
      case encode_compact_dp COMPACT_DP_POWER DP_TYPE_VALUE (if on then 1 else 0) of Inr bs \<Rightarrow> bs | Inl e \<Rightarrow> [])"
| "command_data (Cmd_Scene s) = (0, [])"

definition telink_packet :: "seconds \<Rightarrow> telink_device \<Rightarrow> light_command \<Rightarrow> queued_command" where
  "telink_packet now d c = new_command now (fst (command_data c)) (snd (command_data c)) (td_mesh_id d)"

lemma send_command_cases:
  assumes "send_command env now opcode params None d = (r, d1)"
  shows "(r = Inr () \<and> \<not> queue_full env d
      \<and> d1 = d\<lparr>td_accepted := td_accepted d @ [new_command now opcode params (td_mesh_id d)],
              td_queue := td_queue d @ [new_command now opcode params (td_mesh_id d)]\<rparr>)
    \<or> (r = Inl CommandQueueFullError \<and> queue_full env d \<and> d1 = d)"
  using assms by (auto simp: send_command_def enqueue_command_def new_command_def Let_def split: if_splits)

lemmas telink_sends = td_send_color_def td_send_light_mode_def td_send_color_brightness_def td_send_color_temp_def
  td_send_brightness_def td_send_power_def

lemma telink_send_cases:
  assumes "telink_send env now c d = (r, d1)"
  shows "(r = Inr () \<and> \<not> queue_full env d
      \<and> d1 = d\<lparr>td_accepted := td_accepted d @ [telink_packet now d c], td_queue := td_queue d @ [telink_packet now d c]\<rparr>)
    \<or> (r \<noteq> Inr () \<and> d1 = d)"
  using assms
  by (cases c)
    (auto simp: telink_sends telink_packet_def liftS_def bindS_def split: if_splits sum.splits
      dest!: send_command_cases)

interpretation telink: command_sink "telink_send env now" td_accepted "telink_packet now" for env now
proof
  fix c d d1 assume "telink_send env now c d = (Inr (), d1)"
  from telink_send_cases [OF this] show "td_accepted d1 = td_accepted d @ [telink_packet now d c]" by auto
next
  fix c d d1 e assume "telink_send env now c d = (Inl e, d1)"
  from telink_send_cases [OF this] show "td_accepted d1 = td_accepted d" by auto
next
  fix c d d1 r assume "telink_send env now c d = (r, d1)"
  from telink_send_cases [OF this] show "telink_packet now d1 = telink_packet now d"
    by (auto simp: telink_packet_def fun_eq_iff)
qed

subsection \<open>Debounced calls\<close>

definition immediate :: "turn_on_call \<Rightarrow> bool" where
  "immediate c \<longleftrightarrow> ca_effect c = None \<and> \<not> (wants_transition (ca_transition c) \<and> has_target (args_of_call c))"

definition call_all_on :: "'d sender \<Rightarrow> turn_on_call list \<Rightarrow> 'd light \<Rightarrow> 'd light" where
  "call_all_on send cs l = fold (\<lambda>c l. snd (light_turn_on send c l)) cs l"

lemma turn_on_pending:
  "immediate c \<Longrightarrow> light_turn_on send c l =
     (Inr (), l\<lparr>lt_transition := None, lt_pending_command := Some (args_of_call c)\<rparr>)"
  by (auto simp: light_turn_on_def immediate_def cancel_transition_def cancel_pending_command_def Let_def)

lemma call_all_on_pending:
  assumes "\<forall>c \<in> set (cs @ [c]). immediate c"
  shows "call_all_on send (cs @ [c]) l = l\<lparr>lt_transition := None, lt_pending_command := Some (args_of_call c)\<rparr>"
proof -
  have "(call_all_on send cs l)\<lparr>lt_transition := None, lt_pending_command := p\<rparr> =
      l\<lparr>lt_transition := None, lt_pending_command := p\<rparr>" for p
    using assms by (induction cs arbitrary: l) (simp_all add: call_all_on_def turn_on_pending)
  then show ?thesis using assms by (auto simp: call_all_on_def turn_on_pending)
qed



subsection \<open>Values shown and values sent\<close>

lemma py_round_eq:
  assumes "\<bar>x - of_int n\<bar> < 1 / 2" shows "py_round x = n"
proof -
  have "\<bar>of_int (py_round x) - x\<bar> \<le> 1 / 2" by (rule py_round_near)
  with assms have "\<bar>(of_int (py_round x) :: rat) - of_int n\<bar> < 1" by linarith
  then have "\<bar>(of_int (py_round x - n) :: rat)\<bar> < 1" by simp
  then have "\<bar>py_round x - n\<bar> < 1" by (simp only: of_int_abs [symmetric] of_int_less_1_iff)
  then show ?thesis by simp
qed

lemma clamp_id [simp]: "low \<le> v \<Longrightarrow> v \<le> high \<Longrightarrow> clamp low high v = v"
  by (simp add: clamp_def)

lemma clamp_bounds: "low \<le> high \<Longrightarrow> low \<le> clamp low high v \<and> clamp low high v \<le> high"
  by (simp add: clamp_def)

lemma brightness_roundtrip:
  assumes "1 \<le> b" "b \<le> 100" shows "brightness_to_device (brightness_to_ha b) = b"
proof -
  let ?x = "1 + of_int ((b - 1) * 254) / 99 :: rat"
  have h: "brightness_to_ha b = py_round ?x" using assms by (simp add: brightness_to_ha_def light_scales Let_def)
  have "of_int 1 \<le> ?x" "?x \<le> of_int 255" using assms by (simp_all add: field_simps)
  then have range: "1 \<le> py_round ?x \<and> py_round ?x \<le> 255" by (rule py_round_int_between)
  have "\<bar>1 + (h - 1) * 99 / 254 - c\<bar> < 1 / 2" if "\<bar>h - (1 + (c - 1) * 254 / 99)\<bar> \<le> 1 / 2" for h c :: rat
    using that unfolding abs_le_iff abs_less_iff by (simp add: field_simps)
  from this [of "of_int (py_round ?x)" "of_int b"] py_round_near [of ?x]
  have "\<bar>1 + of_int ((py_round ?x - 1) * 99) / 254 - of_int b\<bar> < (1 / 2 :: rat)" by simp
  then have "py_round (1 + of_int ((py_round ?x - 1) * 99) / 254) = b" by (rule py_round_eq)
  with range show ?thesis unfolding h by (simp add: brightness_to_device_def light_scales Let_def)
qed

lemma kelvin_roundtrip:
  assumes "153 \<le> m" "m \<le> 370" shows "reciprocal (reciprocal m) = m \<and> reciprocal m \<noteq> 0"
proof -
  let ?x = "1000000 / of_int m :: rat"
  have m: "0 < (of_int m :: rat)" "(of_int m :: rat) \<le> 370" using assms by simp_all
  have "of_int 2702 \<le> ?x" "?x \<le> of_int 6536" using assms m by (simp_all add: field_simps)
  then have k: "2702 \<le> py_round ?x \<and> py_round ?x \<le> 6536" by (rule py_round_int_between)
  let ?k = "of_int (py_round ?x) :: rat"
  have "of_int 2702 \<le> ?k" using k by (simp only: of_int_le_iff)
  then have k0: "2702 \<le> ?k" by simp
  have "\<bar>?k - ?x\<bar> \<le> 1 / 2" by (rule py_round_near)
  then have "\<bar>?k * of_int m - 1000000\<bar> \<le> of_int m / 2"
    using m(1) by (simp add: abs_le_iff field_simps)
  also have "\<dots> \<le> 185" using m(2) by simp
  finally have "\<bar>?k * of_int m - 1000000\<bar> \<le> 185" .
  then have "\<bar>1000000 - ?k * of_int m\<bar> < ?k / 2" using k0 by linarith
  then have "\<bar>1000000 / ?k - of_int m\<bar> < 1 / 2"
    using k0 by (simp add: abs_less_iff field_simps)
  then have "py_round (1000000 / ?k) = m" by (rule py_round_eq)
  with k show ?thesis by (auto simp: reciprocal_def)
qed

lemma color_temp_roundtrip:
  assumes "0 \<le> t" "t \<le> 127"
  shows "color_temp_to_device (color_temp_to_ha t) = t \<and> 153 \<le> color_temp_to_ha t \<and> color_temp_to_ha t \<le> 370"
proof -
  let ?x = "370 - of_int (t * 217) / 127 :: rat"
  have h: "color_temp_to_ha t = py_round ?x" using assms by (simp add: color_temp_to_ha_def light_scales Let_def)
  have "of_int 153 \<le> ?x" "?x \<le> of_int 370" using assms by (simp_all add: field_simps)
  then have range: "153 \<le> py_round ?x \<and> py_round ?x \<le> 370" by (rule py_round_int_between)
  have "\<bar>127 - (h - 153) * 127 / 217 - c\<bar> < 1 / 2" if "\<bar>h - (370 - c * 217 / 127)\<bar> \<le> 1 / 2" for h c :: rat
    using that unfolding abs_le_iff abs_less_iff by (simp add: field_simps)
  from this [of "of_int (py_round ?x)" "of_int t"] py_round_near [of ?x]
  have "\<bar>127 - of_int ((py_round ?x - 153) * 127) / 217 - of_int t\<bar> < (1 / 2 :: rat)" by simp
  then have "py_round (127 - of_int ((py_round ?x - 153) * 127) / 217) = t" by (rule py_round_eq)
  with range show ?thesis unfolding h by (simp add: color_temp_to_device_def light_scales Let_def)
qed

text \<open>The call that sets what the entity shows.\<close>

definition shown_call :: "device_state \<Rightarrow> turn_on_call" where
  "shown_call st = \<lparr>ca_effect = None, ca_transition = None, ca_brightness = light_brightness st,
     ca_color_temp_kelvin = (if ds_mode st = 1 then None else light_color_temp_kelvin st),
     ca_rgb_color = light_rgb_color st\<rparr>"

text \<open>C22: Setting a light to the values it shows sends it its own values: the scales of brightness and colour
  temperature, with their roundings (mireds and kelvin too), lose nothing.\<close>

theorem shown_values_roundtrip:
  assumes "ds_is_on st" "1 \<le> ds_brightness st" "ds_brightness st \<le> 100" "0 \<le> ds_color_temp st" "ds_color_temp st \<le> 127"
  shows "turn_on_commands (ds_mode st) (args_of_call (shown_call st)) =
    (if ds_mode st = 1 then [Cmd_Color (ds_red st) (ds_green st) (ds_blue st), Cmd_Mode 1, Cmd_Color_Brightness (ds_color_brightness st)]
     else [Cmd_Color_Temp (ds_color_temp st), Cmd_Brightness (ds_brightness st)])"
proof -
  let ?m = "color_temp_to_ha (ds_color_temp st)"
  have "color_temp_to_device ?m = ds_color_temp st" "153 \<le> ?m" "?m \<le> 370"
    using color_temp_roundtrip assms by simp_all
  moreover from this have "reciprocal (reciprocal ?m) = ?m" "reciprocal ?m \<noteq> 0" using kelvin_roundtrip by simp_all
  ultimately show ?thesis
    using assms(1) brightness_roundtrip [OF assms(2,3)]
    by (simp add: turn_on_commands_def args_of_call_def shown_call_def light_brightness_def light_color_temp_kelvin_def
        light_rgb_color_def kelvin_to_mired_def has_target_def)
qed

text \<open>The level that a SIG Mesh light sends for a brightness fits 16 bits, and when the device reports this
  level, the entity shows that brightness (and zero as off).\<close>

theorem sig_level_roundtrip:
  assumes "0 \<le> b" "b \<le> 255"
  shows "\<exists>level. sig_turn_on_command (Some b) = Sig_Send_Level level \<and> - 32768 \<le> level \<and> level \<le> 32767
    \<and> sig_light_brightness (co_state (on_level_update now level co)) = (if b = 0 then None else Some b)"
proof -
  have "level_to_brightness (b * 257 - 32768) = py_round (of_int b)"
    by (simp add: level_to_brightness_def)
  then have "level_to_brightness (b * 257 - 32768) = b" by simp
  with assms show ?thesis
    by (auto simp: sig_turn_on_command_def on_level_update_def notify_state_def sig_light_brightness_def Let_def)
qed

subsection \<open>Transitions\<close>

definition sent_data :: "telink_device light \<Rightarrow> (int \<times> bytes) list" where
  "sent_data l = map (\<lambda>q. (qc_opcode q, qc_params q)) (td_accepted (lt_device l))"

lemma telink_send_all:
  assumes "send_all (telink_send env now) cs l = (r, l1)"
  shows "lt_transition l1 = lt_transition l \<and> light_state l1 = light_state l
    \<and> (r = Inr () \<longrightarrow> sent_data l1 = sent_data l @ map command_data cs)"
proof -
  have data: "map (\<lambda>q. (qc_opcode q, qc_params q)) (map (telink_packet now d) xs) = map command_data xs" for d xs
    by (simp add: telink_packet_def new_command_def)
  from telink.send_all_accepted [OF assms] show ?thesis
    by (auto simp: sent_data_def light_state_def data simp del: map_map)
qed

text \<open>The wake-ups of a transition at \<open>ts\<close>, as long as none of them fails.\<close>

fun transition_run :: "dev_env \<Rightarrow> seconds list \<Rightarrow> (telink_device light, unit) action" where
  "transition_run env [] l = (Inr (), l)"
| "transition_run env (t # ts) l = bindS (transition_wake (telink_send env t)) (\<lambda>_. transition_run env ts) l"

definition final_commands :: "transition_args \<Rightarrow> light_command list" where
  "final_commands a = (if tr_power_off_after a then [Cmd_Power False] else [])"

lemma transition_run_idle [simp]: "lt_transition l = None \<Longrightarrow> transition_run env ts l = (Inr (), l)"
  by (induction ts) (simp_all add: transition_wake_def)

lemma transition_step_result:
  assumes "transition_step (telink_send env t) a start i l = (r, l1)" "i \<le> transition_steps (tr_duration a)"
  shows "lt_transition l1 = (if r = Inr () \<and> i < transition_steps (tr_duration a) then Some (After_Step a start i) else None)
    \<and> (r = Inr () \<longrightarrow> sent_data l1 = sent_data l
        @ map command_data (step_commands (of_nat i / of_nat (transition_steps (tr_duration a))) a start
            @ (if i < transition_steps (tr_duration a) then [] else final_commands a)))"
proof -
  let ?n = "transition_steps (tr_duration a)"
  obtain r2 l2 where one: "send_all (telink_send env t) (step_commands (of_nat i / of_nat ?n) a start) l = (r2, l2)"
    by fastforce
  obtain r3 l3 where two: "send_all (telink_send env t) (final_commands a) (end_transition l2) = (r3, l3)" by fastforce
  have same: "sent_data (end_transition l2) = sent_data l2" "lt_transition (end_transition l2) = None"
    "sent_data (l2\<lparr>lt_transition := x\<rparr>) = sent_data l2" for x
    by (simp_all add: end_transition_def sent_data_def)
  show ?thesis
  proof (cases r2)
    case (Inl e)
    with assms(1) one same show ?thesis by (auto simp: transition_step_def Let_def)
  next
    case (Inr u)
    with telink_send_all [OF one] have data: "sent_data l2 = sent_data l @ map command_data (step_commands (of_nat i / of_nat ?n) a start)"
      by simp
    show ?thesis
    proof (cases "i < ?n")
      case True
      with assms(1) one Inr have "r = Inr ()" "l1 = l2\<lparr>lt_transition := Some (After_Step a start i)\<rparr>"
        by (auto simp: transition_step_def Let_def)
      with True data same show ?thesis by simp
    next
      case False
      with assms(1) one two Inr have "r = r3" "l1 = l3"
        by (auto simp: transition_step_def Let_def final_commands_def)
      with False data same telink_send_all [OF two] show ?thesis by simp
    qed
  qed
qed

lemma transition_steps_run:
  assumes "i + Suc (length ts) = transition_steps (tr_duration a)"
    and "bindS (transition_step (telink_send env t) a start (Suc i)) (\<lambda>_. transition_run env ts) l = (r, l1)"
  shows "lt_transition l1 = None
    \<and> (r = Inr () \<longrightarrow> sent_data l1 = sent_data l
        @ map command_data (concat (map (\<lambda>i. step_commands (of_nat i / of_nat (transition_steps (tr_duration a))) a start)
            [Suc i..<Suc (transition_steps (tr_duration a))]) @ final_commands a))"
  using assms
proof (induction ts arbitrary: i t l)
  case Nil
  then have last_step: "Suc i = transition_steps (tr_duration a)" by simp
  obtain r2 l2 where step: "transition_step (telink_send env t) a start (Suc i) l = (r2, l2)" by fastforce
  with Nil.prems(2) have "r = r2" "l1 = l2" by (auto simp: bindS_def split: sum.splits)
  moreover have "[Suc i..<Suc (transition_steps (tr_duration a))] = [Suc i]" using last_step by simp
  ultimately show ?case using transition_step_result [OF step] last_step by simp
next
  case (Cons t2 ts)
  let ?n = "transition_steps (tr_duration a)"
  have less: "Suc i < ?n" using Cons.prems(1) by simp
  obtain r2 l2 where step: "transition_step (telink_send env t) a start (Suc i) l = (r2, l2)" by fastforce
  note result = transition_step_result [OF step]
  show ?case
  proof (cases r2)
    case (Inl e)
    with Cons.prems(2) step have "r = Inl e" "l1 = l2" by (simp_all add: bindS_def)
    with Inl result less show ?thesis by simp
  next
    case (Inr u)
    with result less have l2: "lt_transition l2 = Some (After_Step a start (Suc i))" by simp
    with Cons.prems(2) step Inr
    have rest: "bindS (transition_step (telink_send env t2) a start (Suc (Suc i))) (\<lambda>_. transition_run env ts) l2 = (r, l1)"
      by (simp add: bindS_def transition_wake_def)
    have "[Suc i..<Suc ?n] = Suc i # [Suc (Suc i)..<Suc ?n]" using less by (simp add: upt_conv_Cons del: upt_Suc)
    with Cons.IH [OF _ rest] Cons.prems(1) result Inr less show ?thesis by (simp del: upt_Suc)
  qed
qed

lemma interpolate_ends [simp]: "interpolate 1 start target = target" "interpolate 0 start target = start"
  by (simp_all add: interpolate_def flip: of_int_add)

text \<open>C31: A transition ends after its steps, 2 to 50 of them, or earlier with the error of a send.  If none fails,
  the commands of all steps were enqueued in their order and then power off if it was asked for, and the last
  step carries the targets.\<close>

theorem transition_ends_at_target:
  assumes "lt_transition l = Some (Not_Started a)" "length instants = transition_steps (tr_duration a)"
    and "transition_run env instants l = (r, l1)"
  shows "2 \<le> length instants \<and> length instants \<le> 50 \<and> lt_transition l1 = None
    \<and> (r = Inr () \<longrightarrow> sent_data l1 = sent_data l
        @ map command_data (concat (map (\<lambda>i. step_commands (of_nat i / of_nat (length instants)) a (start_of (light_state l)))
            [1..<Suc (length instants)]) @ final_commands a))
    \<and> step_commands 1 a (start_of (light_state l)) =
        (case tr_target_brightness a of None \<Rightarrow> [] | Some t \<Rightarrow> [Cmd_Brightness (clamp 1 100 t)])
        @ (case tr_target_color_temp a of None \<Rightarrow> [] | Some t \<Rightarrow> [Cmd_Color_Temp (clamp 0 127 t)])
        @ (case tr_target_rgb a of None \<Rightarrow> [] | Some (x, y, z) \<Rightarrow> [Cmd_Color (clamp 0 255 x) (clamp 0 255 y) (clamp 0 255 z)])"
proof -
  have steps: "2 \<le> length instants" "length instants \<le> 50" unfolding assms(2) by (simp_all add: transition_steps_def)
  then obtain t ts where instants: "instants = t # ts" by (cases instants) simp_all
  have "bindS (transition_step (telink_send env t) a (start_of (light_state l)) (Suc 0)) (\<lambda>_. transition_run env ts) l = (r, l1)"
    using assms(1,3) unfolding instants by (simp add: bindS_def transition_wake_def)
  from transition_steps_run [OF _ this] assms(2) steps show ?thesis
    unfolding instants by (auto simp: step_commands_def light_scales split: option.splits prod.splits)
qed


subsection \<open>The structured command again\<close>

text \<open>What the structured command of \<^verbatim>\<open>_build_turn_on_command\<close> asks for, on a light in the mode \<open>mode\<close>.\<close>

definition planned_commands :: "int \<Rightarrow> turn_on_command \<Rightarrow> light_command list" where
  "planned_commands mode tc =
     (case tc_rgb tc of None \<Rightarrow> [] | Some (r, g, b) \<Rightarrow> [Cmd_Color r g b, Cmd_Mode 1])
     @ (case tc_color_temp tc of None \<Rightarrow> []
        | Some t \<Rightarrow> (if mode = 1 then [Cmd_Mode 0] else []) @ [Cmd_Color_Temp t])
     @ (case tc_brightness tc of None \<Rightarrow> []
        | Some v \<Rightarrow> if tc_use_color_brightness tc then [Cmd_Color_Brightness v] else [Cmd_Brightness v])
     @ (if tc_power_on tc then [Cmd_Power True] else [])"

text \<open>The commands that the debounced task sends are those of the structured command, which the code builds
  nowhere, except when a colour temperature comes with a colour, or with a brightness while the light shows a
  colour: then the task switches the light to white and sends the brightness of the colour mode.\<close>

theorem turn_on_follows_plan:
  "let tc = build_turn_on_command (ta_brightness a) (ta_color_temp a) (ta_rgb_color a) (has_target a) mode in
    (ta_color_temp a = None \<or> ta_rgb_color a = None \<and> (ta_brightness a = None \<or> mode \<noteq> 1)
      \<longrightarrow> turn_on_commands mode a = planned_commands mode tc)
    \<and> (ta_color_temp a = Some t \<and> ta_rgb_color a = None \<and> ta_brightness a = Some v \<and> mode = 1
      \<longrightarrow> turn_on_commands mode a = [Cmd_Mode 0, Cmd_Color_Temp (color_temp_to_device t), Cmd_Color_Brightness v]
        \<and> planned_commands mode tc =
            [Cmd_Mode 0, Cmd_Color_Temp (color_temp_to_device t), Cmd_Brightness (brightness_to_device v)])"
  by (cases "ta_brightness a"; cases "ta_color_temp a"; cases "ta_rgb_color a")
    (auto simp: turn_on_commands_def planned_commands_def build_turn_on_command_def has_target_def Let_def)

text \<open>
  The \<^verbatim>\<open>except\<close> clause of the SIG Mesh light and the switch does not catch the errors of the library: what the
  last attempt raised escapes as it is.
\<close>

lemma command_attempts_all_fail:
  assumes "\<And>k. run k = Some e" "isinstance (ex_class e) PyException" "\<not> programming_error e" "0 < left"
  shows "fst (command_attempts run delay left k last_exc cm) = Inl e"
  using assms(4)
proof (induction left arbitrary: k last_exc cm)
  case (Suc left)
  obtain r cm1 w where rec: "command_attempts run delay left (k + 1) (Some e) (count_command_error cm) = (r, cm1, w)"
    by (metis prod_cases3)
  have "r = Inl e"
  proof (cases left)
    case 0
    with rec show ?thesis by simp
  next
    case (Suc m)
    with Suc.IH [of "k + 1" "Some e" "count_command_error cm"] rec show ?thesis by simp
  qed
  with assms(1) [of k] assms(2,3) rec show ?case by simp
qed simp

lemma library_connection_error:
  "isinstance e MeshConnectionError \<Longrightarrow> e = MeshConnectionError \<or> e = DisconnectedError"
  by (cases e) (simp_all add: isinstance_def eval_nat_numeral)

theorem library_errors_escape:
  assumes "\<And>k. run (sig_turn_on_command b) k = Some e" "isinstance (ex_class e) MeshConnectionError" "0 < n"
  shows "fst (sig_turn_on run b n delay cm) = Inl (Raised e)"
proof -
  have e: "isinstance (ex_class e) PyException" "\<not> programming_error e" "\<not> isinstance (ex_class e) OSError"
    "\<not> isinstance (ex_class e) TimeoutError"
    using library_connection_error [OF assms(2)] by (auto simp: programming_error_def isinstance_def eval_nat_numeral)
  obtain r cm1 w where run: "send_command_with_retry (run (sig_turn_on_command b)) n delay cm = (r, cm1, w)"
    by (metis prod_cases3)
  with command_attempts_all_fail [of "run (sig_turn_on_command b)" e n delay 1 None cm] assms(1,3) e(1,2)
  have "r = Inl e" by (simp add: send_command_with_retry_def)
  with run e(3,4) show ?thesis by (simp add: sig_turn_on_def sig_operation_def)
qed

subsection \<open>From the call to the packet\<close>

lemma brightness_to_device_range: "1 \<le> brightness_to_device b \<and> brightness_to_device b \<le> 100"
proof -
  let ?c = "clamp 1 255 b"
  have "1 \<le> ?c \<and> ?c \<le> 255" by (rule clamp_bounds) simp
  then have "of_int 1 \<le> (1 + of_int ((?c - 1) * 99) / 254 :: rat)" "(1 + of_int ((?c - 1) * 99) / 254 :: rat) \<le> of_int 100"
    by (simp_all add: field_simps)
  then have "1 \<le> py_round (1 + of_int ((?c - 1) * 99) / 254) \<and> py_round (1 + of_int ((?c - 1) * 99) / 254) \<le> 100"
    by (rule py_round_int_between)
  then show ?thesis by (simp add: brightness_to_device_def light_scales Let_def)
qed

lemma brightness_data:
  assumes "1 \<le> v" "v \<le> 100"
  shows "command_data (Cmd_Brightness v) = (TELINK_CMD_DP_WRITE, [122, 2, 4, 0, 0, 0, word_of_int v])"
  using assms by (simp add: encode_compact_dp_def COMPACT_DP_BRIGHTNESS_def dp_consts be_bytes_def numeral_eq_Suc)

text \<open>C7: A call that sets only the brightness of a white light whose device is ready and idle reaches the device:
  after the debounce interval the next step of the worker writes one packet, which the holder of the session
  key decodes to the write of data point 122 with the brightness on the scale of the device.\<close>

theorem brightness_reaches_device:
  assumes "well_behaved (de_conn env)" "writes_succeed (ce_gatt (de_conn env))"
    and "idle_worker env (lt_device l)" "is_ready (td_conn (lt_device l))"
    and "length (ce_vendor_id (de_conn env)) = 2" "0 \<le> td_mesh_id (lt_device l)" "td_mesh_id (lt_device l) \<le> 0xFFFF"
    and "t1 - t0 \<le> de_ttl env" "immediate c" "ca_brightness c = Some b" "ca_color_temp_kelvin c = None"
    and "ca_rgb_color c = None" "ds_mode (light_state l) \<noteq> 1"
  shows "let l1 = snd (debounced_send (telink_send env t0) (snd (light_turn_on (telink_send env t0) c l)));
      d = worker_step env t1 (lt_device l1) in
    \<exists>packet key. w_trace (bc_world (td_conn d)) = w_trace (bc_world (td_conn (lt_device l))) @ [Gatt_Write CHAR_COMMAND packet]
      \<and> bc_session_key (td_conn (lt_device l)) = Some key
      \<and> decode_command_packet (ce_aes (de_conn env)) key (ce_mac_bytes (de_conn env)) packet =
          Inr \<lparr>cp_sequence = bc_sequence (td_conn (lt_device l)), cp_dest_id = td_mesh_id (lt_device l),
            cp_opcode = TELINK_CMD_DP_WRITE, cp_vendor_id = ce_vendor_id (de_conn env),
            cp_params = [122, 2, 4, 0, 0, 0, word_of_int (brightness_to_device b)]\<rparr>"
proof -
  let ?d = "lt_device l" and ?v = "brightness_to_device b"
  let ?params = "[122, 2, 4, 0, 0, 0, word_of_int ?v] :: bytes"
  let ?cmd = "new_command t0 TELINK_CMD_DP_WRITE ?params (td_mesh_id ?d)"
  let ?l0 = "snd (light_turn_on (telink_send env t0) c l)"
  have v: "1 \<le> ?v" "?v \<le> 100" using brightness_to_device_range [of b] by simp_all
  have l0: "lt_device ?l0 = ?d" "lt_pending_command ?l0 = Some (args_of_call c)" "light_state ?l0 = light_state l"
    using assms(9) by (simp_all add: turn_on_pending light_state_def)
  have cmds: "turn_on_commands (ds_mode (light_state ?l0)) (args_of_call c) = [Cmd_Brightness ?v]"
    using assms(10-13) l0(3) by (simp add: turn_on_commands_def args_of_call_def kelvin_to_mired_def has_target_def)
  obtain r d0 where send: "telink_send env t0 (Cmd_Brightness ?v) ?d = (r, d0)" by fastforce
  have enc: "encode_compact_dp COMPACT_DP_BRIGHTNESS DP_TYPE_VALUE ?v = Inr ?params"
    using brightness_data [OF v] v by (auto simp: encode_compact_dp_def COMPACT_DP_BRIGHTNESS_def dp_consts)
  have d0: "d0 = snd (send_command env t0 TELINK_CMD_DP_WRITE ?params None ?d)"
    using send enc v by (simp add: td_send_brightness_def liftS_def bindS_def)
  have "lt_device (snd (debounced_send (telink_send env t0) ?l0)) = d0"
    using l0 cmds send by (simp add: debounced_send_def send_cmd_def bindS_def split: sum.splits)
  moreover have "worker_step env t1 d0 = dev_run env [Send_Command t0 TELINK_CMD_DP_WRITE ?params None, Worker_Step t1] ?d"
    unfolding d0 by (simp add: dev_step_def)
  moreover have "command_ok env ?cmd"
    using assms(5-7) by (simp add: command_ok_def payload_args_ok_def new_command_def TELINK_CMD_DP_WRITE_def)
  moreover obtain key where key: "bc_session_key (td_conn ?d) = Some key"
    using assms(4) by (auto simp: is_ready_def)
  moreover have "rstrip0 ?params = ?params"
  proof -
    have "uint (word_of_int ?v :: byte) = ?v" using v by (simp add: uint_word_of_int_eq take_bit_eq_mod)
    with v have "(word_of_int ?v :: byte) \<noteq> 0" by (metis uint_0_eq not_one_le_zero)
    then show ?thesis by (simp add: rstrip0_def)
  qed
  ultimately show ?thesis
    using command_written [OF assms(1-4) _ assms(8), of TELINK_CMD_DP_WRITE ?params] unfolding Let_def
    by (auto simp: command_decodes_def new_command_def)
qed


subsection \<open>Witnesses\<close>

definition demo_light :: "telink_device light" where
  "demo_light = \<lparr>lt_coordinator = make_coordinator, lt_device = demo_device, lt_pending_command = None,
     lt_transition = None\<rparr>"

definition brightness_call :: "int \<Rightarrow> turn_on_call" where
  "brightness_call b = \<lparr>ca_effect = None, ca_transition = None, ca_brightness = Some b, ca_color_temp_kelvin = None,
     ca_rgb_color = None\<rparr>"

lemma brightness_call_immediate: "immediate (brightness_call b)"
  by (simp add: immediate_def brightness_call_def wants_transition_def)

lemma demo_light_fields:
  "lt_device demo_light = demo_device" "ds_mode (light_state demo_light) = 0" "lt_transition demo_light = None"
  by (simp_all add: demo_light_def light_state_def make_coordinator_def make_device_state_def)


theorem shown_values_roundtrip_witness:
  "let st = make_device_state\<lparr>ds_is_on := True, ds_brightness := 42, ds_color_temp := 99\<rparr> in
    turn_on_commands 0 (args_of_call (shown_call st)) = [Cmd_Color_Temp 99, Cmd_Brightness 42]"
  using shown_values_roundtrip [of "make_device_state\<lparr>ds_is_on := True, ds_brightness := 42, ds_color_temp := 99\<rparr>"]
  by (simp add: make_device_state_def Let_def)

theorem sig_level_roundtrip_witness:
  "\<exists>level. sig_turn_on_command (Some 200) = Sig_Send_Level level
    \<and> sig_light_brightness (co_state (on_level_update 5 level make_coordinator)) = Some 200"
  using sig_level_roundtrip [of 200 5 make_coordinator] by auto

theorem turn_on_follows_plan_witness:
  "let a = \<lparr>ta_brightness = Some 128, ta_color_temp = Some 200, ta_rgb_color = None\<rparr> in
    turn_on_commands 1 a = [Cmd_Mode 0, Cmd_Color_Temp (color_temp_to_device 200), Cmd_Color_Brightness 128]
    \<and> turn_on_commands 0 a = planned_commands 0 (build_turn_on_command (Some 128) (Some 200) None True 0)"
  using turn_on_follows_plan [of "\<lparr>ta_brightness = Some 128, ta_color_temp = Some 200, ta_rgb_color = None\<rparr>" 1 200 128]
    turn_on_follows_plan [of "\<lparr>ta_brightness = Some 128, ta_color_temp = Some 200, ta_rgb_color = None\<rparr>" 0 200 128]
  by (simp add: has_target_def Let_def)

definition demo_transition :: transition_args where
  "demo_transition = \<lparr>tr_target_brightness = Some 80, tr_target_color_temp = None, tr_target_rgb = None,
     tr_duration = 3 / 10, tr_power_off_after = False\<rparr>"

theorem transition_ends_at_target_witness:
  "let l = demo_light\<lparr>lt_transition := Some (Not_Started demo_transition)\<rparr>;
     (r, l1) = transition_run demo_dev_env [0, 1, 2] l in
    r = Inr () \<and> lt_transition l1 = None
    \<and> sent_data l1 = sent_data l @ map command_data [Cmd_Brightness 27, Cmd_Brightness 53, Cmd_Brightness 80]"
proof -
  let ?l = "demo_light\<lparr>lt_transition := Some (Not_Started demo_transition)\<rparr>"
  obtain r l1 where run: "transition_run demo_dev_env [0, 1, 2] ?l = (r, l1)" by fastforce
  have "case fst (transition_run demo_dev_env [0, 1, 2] ?l) of Inl e \<Rightarrow> False | Inr u \<Rightarrow> True" by code_simp
  then have r: "r = Inr ()" unfolding run by (simp split: sum.splits)
  have steps: "length [0, 1, 2 :: seconds] = transition_steps (tr_duration demo_transition)" by code_simp
  have cmds: "concat (map (\<lambda>i. step_commands (of_nat i / of_nat (length [0, 1, 2 :: seconds])) demo_transition (start_of (light_state ?l)))
      [1..<Suc (length [0, 1, 2 :: seconds])]) @ final_commands demo_transition =
    [Cmd_Brightness 27, Cmd_Brightness 53, Cmd_Brightness 80]" by code_simp
  have "lt_transition ?l = Some (Not_Started demo_transition)" by simp
  from transition_ends_at_target [OF this steps run] r have
    "lt_transition l1 = None" "sent_data l1 = sent_data ?l @ map command_data [Cmd_Brightness 27, Cmd_Brightness 53, Cmd_Brightness 80]"
    unfolding cmds by blast+
  with r run show ?thesis by simp
qed

theorem brightness_reaches_device_witness:
  "let l1 = snd (debounced_send (telink_send demo_dev_env 0) (snd (light_turn_on (telink_send demo_dev_env 0) (brightness_call 128) demo_light)));
      d = worker_step demo_dev_env 3 (lt_device l1) in
    \<exists>packet. w_trace (bc_world (td_conn d)) = w_trace (bc_world (td_conn demo_device)) @ [Gatt_Write CHAR_COMMAND packet]"
proof -
  have "length (ce_vendor_id (de_conn demo_dev_env)) = 2" "0 \<le> td_mesh_id (lt_device demo_light)"
    "td_mesh_id (lt_device demo_light) \<le> 0xFFFF" "(3::rat) - 0 \<le> de_ttl demo_dev_env"
    by code_simp+
  from brightness_reaches_device [OF demo_writes(2,1) _ _ this brightness_call_immediate, of 128 128] show ?thesis
    unfolding demo_light_fields by (auto simp: brightness_call_def demo_device_ready Let_def)
qed

end
