(* ===== verification/Bridge.thy ===== *)
theory Bridge
  imports Coordinator Telink_Device
begin

text \<open>
  The devices behind the HTTP bridge, \<^verbatim>\<open>lib/tuya_ble_mesh/sig_mesh_bridge.py\<close>: the requests to the daemon, the
  polling for results, the retries, and the synthetic status of the Telink lights.  What the n-th request
  gives, a JSON value or an exception of the HTTP client, is the parameter \<open>be_http\<close>.  A call is atomic, as its
  lock makes it for the other calls.  Messages of exceptions are left out.
\<close>

subsection \<open>JSON\<close>

datatype json = JNull | JBool bool | JNum rat | JStr string | JList "json list" | JObj "(string \<times> json) list"

text \<open>\<^verbatim>\<open>value.get(key)\<close>, which only a dictionary has, and the truth of what it returns.\<close>

fun json_get :: "json \<Rightarrow> string \<Rightarrow> json option res" where
  "json_get (JObj kvs) key = Inr (map_of kvs key)"
| "json_get _ key = Inl AttributeError"

fun truthy :: "json option \<Rightarrow> bool" where
  "truthy (Some (JBool b)) = b"
| "truthy (Some (JNum x)) = (x \<noteq> 0)"
| "truthy (Some (JStr s)) = (s \<noteq> [])"
| "truthy (Some (JList xs)) = (xs \<noteq> [])"
| "truthy (Some (JObj kvs)) = (kvs \<noteq> [])"
| "truthy _ = False"

subsection \<open>State\<close>

definition MAX_POLL_ATTEMPTS :: nat where "MAX_POLL_ATTEMPTS = 30"
definition POLL_INTERVAL :: seconds where "POLL_INTERVAL = 2"
definition DEFAULT_MAX_RETRIES :: nat where "DEFAULT_MAX_RETRIES = 3"
definition RETRY_INITIAL_BACKOFF :: seconds where "RETRY_INITIAL_BACKOFF = 1"
definition RETRY_BACKOFF_MULTIPLIER :: seconds where "RETRY_BACKOFF_MULTIPLIER = 2"
definition BRIDGE_CONNECT_RETRY_DELAY :: seconds where "BRIDGE_CONNECT_RETRY_DELAY = 2"

datatype http_op = Http_Get string | Http_Post string json

datatype bridge_event = Request http_op | Sleep seconds

text \<open>What \<^verbatim>\<open>BridgeHTTPMixin\<close> and both devices share; \<open>br_trace\<close> is not in the code.\<close>

record bridge =
  br_address :: string
  br_connected :: bool
  br_firmware_version :: "string option"
  br_session :: bool
  br_disconnect_callbacks :: "nat list"
  br_disconnect_log :: "(nat \<times> unit) list"
  br_trace :: "bridge_event list"

record sig_bridge = bridge +
  sb_target_addr :: int
  sb_last_on_state :: bool
  sb_onoff_callbacks :: "nat list"
  sb_vendor_callbacks :: "nat list"
  sb_onoff_log :: "(nat \<times> bool) list"

record telink_bridge = bridge +
  tb_mesh_id :: int
  tb_mode :: int
  tb_brightness :: int
  tb_color_temp :: int
  tb_color_brightness :: int
  tb_red :: int
  tb_green :: int
  tb_blue :: int
  tb_is_on :: bool
  tb_status_callbacks :: "nat list"
  tb_status_log :: "(nat \<times> status_response) list"

record bridge_env =
  be_http :: "nat \<Rightarrow> http_op \<Rightarrow> json res"
  be_disconnect_callback :: callback_oracle
  be_onoff_callback :: callback_oracle
  be_status_callback :: callback_oracle

definition requests :: "bridge_event list \<Rightarrow> nat" where
  "requests es = length (filter (\<lambda>e. case e of Request op \<Rightarrow> True | Sleep t \<Rightarrow> False) es)"

text \<open>The check of \<^verbatim>\<open>__init__\<close>: 10 and 13 are the codes of the line breaks.\<close>

definition bad_host :: "string \<Rightarrow> bool" where
  "bad_host host \<longleftrightarrow> CHR 0x0D \<in> set host \<or> CHR 0x0A \<in> set host"

definition make_sig_bridge :: "string \<Rightarrow> int \<Rightarrow> string \<Rightarrow> sig_bridge res" where
  "make_sig_bridge upper_address target_addr host =
     (if bad_host host then Inl InvalidRequestError
      else Inr \<lparr>br_address = upper_address, br_connected = False, br_firmware_version = None, br_session = False,
        br_disconnect_callbacks = [], br_disconnect_log = [], br_trace = [], sb_target_addr = target_addr,
        sb_last_on_state = False, sb_onoff_callbacks = [], sb_vendor_callbacks = [], sb_onoff_log = []\<rparr>)"

definition make_telink_bridge :: "string \<Rightarrow> string \<Rightarrow> telink_bridge res" where
  "make_telink_bridge upper_address host =
     (if bad_host host then Inl InvalidRequestError
      else Inr \<lparr>br_address = upper_address, br_connected = False, br_firmware_version = None, br_session = False,
        br_disconnect_callbacks = [], br_disconnect_log = [], br_trace = [], tb_mesh_id = 0, tb_mode = 0,
        tb_brightness = 0, tb_color_temp = 0, tb_color_brightness = 0, tb_red = 0, tb_green = 0, tb_blue = 0,
        tb_is_on = False, tb_status_callbacks = [], tb_status_log = []\<rparr>)"

definition register_bridge_disconnect :: "nat \<Rightarrow> 'b bridge_scheme \<Rightarrow> 'b bridge_scheme" where
  "register_bridge_disconnect cb b = b\<lparr>br_disconnect_callbacks := br_disconnect_callbacks b @ [cb]\<rparr>"

definition unregister_bridge_disconnect :: "nat \<Rightarrow> ('b bridge_scheme, unit) action" where
  "unregister_bridge_disconnect cb b = (case list_remove cb (br_disconnect_callbacks b) of
     Inl e \<Rightarrow> (Inl e, b) | Inr cbs \<Rightarrow> (Inr (), b\<lparr>br_disconnect_callbacks := cbs\<rparr>))"

definition register_bridge_onoff :: "nat \<Rightarrow> 'b sig_bridge_scheme \<Rightarrow> 'b sig_bridge_scheme" where
  "register_bridge_onoff cb b = b\<lparr>sb_onoff_callbacks := sb_onoff_callbacks b @ [cb]\<rparr>"

definition unregister_bridge_onoff :: "nat \<Rightarrow> ('b sig_bridge_scheme, unit) action" where
  "unregister_bridge_onoff cb b = (case list_remove cb (sb_onoff_callbacks b) of
     Inl e \<Rightarrow> (Inl e, b) | Inr cbs \<Rightarrow> (Inr (), b\<lparr>sb_onoff_callbacks := cbs\<rparr>))"

definition register_bridge_vendor :: "nat \<Rightarrow> 'b sig_bridge_scheme \<Rightarrow> 'b sig_bridge_scheme" where
  "register_bridge_vendor cb b = b\<lparr>sb_vendor_callbacks := sb_vendor_callbacks b @ [cb]\<rparr>"

definition unregister_bridge_vendor :: "nat \<Rightarrow> ('b sig_bridge_scheme, unit) action" where
  "unregister_bridge_vendor cb b = (case list_remove cb (sb_vendor_callbacks b) of
     Inl e \<Rightarrow> (Inl e, b) | Inr cbs \<Rightarrow> (Inr (), b\<lparr>sb_vendor_callbacks := cbs\<rparr>))"

definition register_bridge_status :: "nat \<Rightarrow> 'b telink_bridge_scheme \<Rightarrow> 'b telink_bridge_scheme" where
  "register_bridge_status cb b = b\<lparr>tb_status_callbacks := tb_status_callbacks b @ [cb]\<rparr>"

definition unregister_bridge_status :: "nat \<Rightarrow> ('b telink_bridge_scheme, unit) action" where
  "unregister_bridge_status cb b = (case list_remove cb (tb_status_callbacks b) of
     Inl e \<Rightarrow> (Inl e, b) | Inr cbs \<Rightarrow> (Inr (), b\<lparr>tb_status_callbacks := cbs\<rparr>))"

subsection \<open>HTTP\<close>

definition log_event :: "bridge_event \<Rightarrow> 'b bridge_scheme \<Rightarrow> 'b bridge_scheme" where
  "log_event e b = b\<lparr>br_trace := br_trace b @ [e]\<rparr>"

text \<open>\<^verbatim>\<open>_http_get\<close> and \<^verbatim>\<open>_http_post\<close>, which both get the session first.\<close>

definition http :: "bridge_env \<Rightarrow> http_op \<Rightarrow> ('b bridge_scheme, json) action" where
  "http env op b =
     ((case be_http env (requests (br_trace b)) op of
         Inl e \<Rightarrow> Inl (if isinstance e TimeoutError \<or> isinstance e ClientError then MeshConnectionError else e)
       | Inr j \<Rightarrow> Inr j),
      log_event (Request op) (b\<lparr>br_session := True\<rparr>))"

definition sleep_for :: "seconds \<Rightarrow> ('b bridge_scheme, unit) action" where
  "sleep_for t b = (Inr (), log_event (Sleep t) b)"

text \<open>The attempts of \<^verbatim>\<open>connect\<close> that are left.\<close>

fun bridge_connect :: "bridge_env \<Rightarrow> string \<Rightarrow> nat \<Rightarrow> ('b bridge_scheme, unit) action" where
  "bridge_connect env version 0 b = (Inl MeshConnectionError, b)"
| "bridge_connect env version (Suc left) b =
     (case bindS (http env (Http_Get ''/health'')) (\<lambda>j. liftS (json_get j ''status'')) b of
        (Inr st, b1) \<Rightarrow>
          if st = Some (JStr ''ok'')
          then (Inr (), b1\<lparr>br_connected := True, br_firmware_version := Some version\<rparr>)
          else bridge_connect env version left b1
      | (Inl e, b1) \<Rightarrow>
          if isinstance e MeshConnectionError \<or> isinstance e ValueError \<or> isinstance e OSError then
            bridge_connect env version left
              (if left > 0 then snd (sleep_for BRIDGE_CONNECT_RETRY_DELAY b1) else b1)
          else (Inl e, b1))"

definition sig_bridge_connect :: "bridge_env \<Rightarrow> nat \<Rightarrow> ('b bridge_scheme, unit) action" where
  "sig_bridge_connect env = bridge_connect env ''bridge''"

definition telink_bridge_connect :: "bridge_env \<Rightarrow> nat \<Rightarrow> ('b bridge_scheme, unit) action" where
  "telink_bridge_connect env = bridge_connect env ''bridge-telink''"

definition bridge_disconnect :: "'b bridge_scheme \<Rightarrow> 'b bridge_scheme" where
  "bridge_disconnect b = b\<lparr>br_connected := False, br_session := False\<rparr>"

definition fire_disconnect :: "bridge_env \<Rightarrow> ('b bridge_scheme, unit) action" where
  "fire_disconnect env b =
     (let (r, calls) = call_each (be_disconnect_callback env) () (br_disconnect_callbacks b) (br_disconnect_log b)
      in (r, b\<lparr>br_disconnect_log := calls\<rparr>))"

text \<open>
  The polls that are left; \<open>check\<close> says what a result means: the value to return, an exception, or nothing.
  A poll goes on after the errors of its \<^verbatim>\<open>except\<close> clause.
\<close>

fun poll :: "bridge_env \<Rightarrow> (json \<Rightarrow> json option res) \<Rightarrow> nat \<Rightarrow> ('b bridge_scheme, json option) action" where
  "poll env check 0 b = (Inr None, b)"
| "poll env check (Suc left) b =
     (case bindS (http env (Http_Get ''/result'')) (\<lambda>j. liftS (check j)) (snd (sleep_for POLL_INTERVAL b)) of
        (Inr (Some j), b1) \<Rightarrow> (Inr (Some j), b1)
      | (Inr None, b1) \<Rightarrow> poll env check left b1
      | (Inl e, b1) \<Rightarrow>
          if isinstance e TimeoutError \<or> isinstance e ClientError \<or> isinstance e OSError
          then poll env check left b1 else (Inl e, b1))"

text \<open>Submitting a command and waiting for its result; \<open>k\<close> is what a timeout gives, after the disconnect callbacks.\<close>

definition await_result ::
  "bridge_env \<Rightarrow> http_op \<Rightarrow> (json \<Rightarrow> json option res) \<Rightarrow> json res \<Rightarrow> ('b bridge_scheme, json) action" where
  "await_result env op check k =
     bindS (http env op) (\<lambda>_. bindS (poll env check MAX_POLL_ATTEMPTS) (\<lambda>found. case found of
         Some j \<Rightarrow> liftS (Inr j)
       | None \<Rightarrow> (\<lambda>b. bindS (fire_disconnect env) (\<lambda>_. liftS k) (b\<lparr>br_connected := False\<rparr>))))"

text \<open>\<^verbatim>\<open>_parse_http_body\<close>: what follows the first empty line.\<close>

fun after_separator :: "string \<Rightarrow> string \<Rightarrow> string option" where
  "after_separator sep [] = None"
| "after_separator sep (c # cs) =
     (if take (length sep) (c # cs) = sep then Some (drop (length sep) (c # cs)) else after_separator sep cs)"

definition parse_http_body :: "string \<Rightarrow> string res" where
  "parse_http_body response =
     (if response = [] then Inl MeshConnectionError
      else case after_separator [CHR 0x0D, CHR 0x0A, CHR 0x0D, CHR 0x0A] response of
        None \<Rightarrow> Inl MeshConnectionError | Some body \<Rightarrow> Inr body)"

subsection \<open>The SIG Mesh plug\<close>

fun nibble_char :: "nat \<Rightarrow> char" where
  "nibble_char n = (if n < 10 then char_of (48 + n) else char_of (55 + n))"

text \<open>The format \<^verbatim>\<open>04X\<close> of a 16-bit address.\<close>

definition target_hex :: "int \<Rightarrow> string" where
  "target_hex v = map (\<lambda>i. nibble_char (nat (v div 16 ^ i mod 16))) [3, 2, 1, 0]"

definition sig_command_json :: "string \<Rightarrow> 'b sig_bridge_scheme \<Rightarrow> json" where
  "sig_command_json act b =
     JObj [(''action'', JStr act), (''target'', JStr (target_hex (sb_target_addr b))), (''mac'', JStr (br_address b))]"

text \<open>The test of a result: \<^verbatim>\<open>get\<close> is called for the timestamp only when the action is the right one.\<close>

definition check_action :: "string \<Rightarrow> json \<Rightarrow> json option res" where
  "check_action act j =
     bindR (json_get j ''action'') (\<lambda>a. if a = Some (JStr act)
       then bindR (json_get j ''timestamp'') (\<lambda>t. Inr (if truthy t then Some j else None)) else Inr None)"

definition timed_out_result :: json where
  "timed_out_result = JObj [(''success'', JBool False), (''error'', JStr ''Timed out waiting for bridge result'')]"

definition send_and_wait :: "bridge_env \<Rightarrow> string \<Rightarrow> ('b sig_bridge_scheme, json) action" where
  "send_and_wait env act b =
     await_result env (Http_Post ''/command'' (sig_command_json act b)) (check_action act) (Inr timed_out_result) b"

definition onoff_callbacks :: "bridge_env \<Rightarrow> bool \<Rightarrow> ('b sig_bridge_scheme, unit) action" where
  "onoff_callbacks env on b =
     (let (r, calls) = call_each (be_onoff_callback env) on (sb_onoff_callbacks b) (sb_onoff_log b)
      in (r, b\<lparr>sb_onoff_log := calls\<rparr>))"

text \<open>The attempts of \<^verbatim>\<open>send_power\<close> that are left, with the next backoff.\<close>

fun send_power_attempts :: "bridge_env \<Rightarrow> string \<Rightarrow> nat \<Rightarrow> seconds \<Rightarrow> ('b sig_bridge_scheme, unit) action" where
  "send_power_attempts env act 0 backoff b = (Inl SIGMeshError, b)"
| "send_power_attempts env act (Suc left) backoff b =
     (case bindS (send_and_wait env act)
         (\<lambda>j. liftS (bindR (json_get j ''success'') (\<lambda>s. Inr (j, s)))) b of
        (Inl e, b1) \<Rightarrow>
          if isinstance e SIGMeshError \<and> left > 0
          then send_power_attempts env act left (backoff * RETRY_BACKOFF_MULTIPLIER) (snd (sleep_for backoff b1))
          else (Inl e, b1)
      | (Inr (j, s), b1) \<Rightarrow>
          if truthy s then
            bindS (liftS (json_get j ''status'')) (\<lambda>st b2.
              onoff_callbacks env (st = Some (JStr ''ON'')) (b2\<lparr>sb_last_on_state := (st = Some (JStr ''ON''))\<rparr>)) b1
          else if left = 0 then (Inl SIGMeshError, b1)
          else send_power_attempts env act left (backoff * RETRY_BACKOFF_MULTIPLIER) (snd (sleep_for backoff b1)))"

definition sb_send_power :: "bridge_env \<Rightarrow> bool \<Rightarrow> nat \<Rightarrow> ('b sig_bridge_scheme, unit) action" where
  "sb_send_power env on max_retries b =
     (if \<not> br_connected b then (Inl SIGMeshError, b)
      else send_power_attempts env (if on then ''on'' else ''off'') max_retries RETRY_INITIAL_BACKOFF b)"

subsection \<open>The Telink light\<close>

definition telink_command_json :: "string \<Rightarrow> (string \<times> json) list \<Rightarrow> 'b telink_bridge_scheme \<Rightarrow> json" where
  "telink_command_json act params b =
     JObj ([(''action'', JStr act), (''mac'', JStr (br_address b)), (''device_type'', JStr ''telink'')]
       @ (if params = [] then [] else [(''params'', JObj params)]))"

definition check_telink :: "string \<Rightarrow> json \<Rightarrow> json option res" where
  "check_telink act j =
     bindR (json_get j ''action'') (\<lambda>a. if a \<noteq> Some (JStr act) then Inr None else
     bindR (json_get j ''device_type'') (\<lambda>d. if d \<noteq> Some (JStr ''telink'') then Inr None else
     bindR (json_get j ''timestamp'') (\<lambda>t. if \<not> truthy t then Inr None else
     bindR (json_get j ''success'') (\<lambda>s. if truthy s then Inr (Some j) else Inl SIGMeshError))))"

definition send_telink_cmd_once ::
  "bridge_env \<Rightarrow> string \<Rightarrow> (string \<times> json) list \<Rightarrow> ('b telink_bridge_scheme, json) action" where
  "send_telink_cmd_once env act params b =
     await_result env (Http_Post ''/command'' (telink_command_json act params b)) (check_telink act) (Inl SIGMeshError) b"

fun telink_attempts ::
  "bridge_env \<Rightarrow> string \<Rightarrow> (string \<times> json) list \<Rightarrow> nat \<Rightarrow> seconds \<Rightarrow> ('b telink_bridge_scheme, json) action" where
  "telink_attempts env act params 0 backoff b = (Inl SIGMeshError, b)"
| "telink_attempts env act params (Suc left) backoff b =
     (case send_telink_cmd_once env act params b of
        (Inr j, b1) \<Rightarrow> (Inr j, b1)
      | (Inl e, b1) \<Rightarrow>
          if \<not> isinstance e SIGMeshError \<or> left = 0 \<or> \<not> br_connected b1 then (Inl e, b1)
          else telink_attempts env act params left (backoff * RETRY_BACKOFF_MULTIPLIER) (snd (sleep_for backoff b1)))"

definition send_telink_cmd :: "bridge_env \<Rightarrow> string \<Rightarrow> (string \<times> json) list \<Rightarrow> ('b telink_bridge_scheme, json) action" where
  "send_telink_cmd env act params b =
     (if \<not> br_connected b then (Inl SIGMeshError, b)
      else telink_attempts env act params DEFAULT_MAX_RETRIES RETRY_INITIAL_BACKOFF b)"

definition synthetic_status :: "'b telink_bridge_scheme \<Rightarrow> status_response" where
  "synthetic_status b = \<lparr>sr_mesh_id = tb_mesh_id b, sr_mode = tb_mode b,
     sr_white_brightness = (if tb_is_on b then tb_brightness b else 0), sr_white_temp = tb_color_temp b,
     sr_color_brightness = (if tb_is_on b then tb_color_brightness b else 0),
     sr_red = tb_red b, sr_green = tb_green b, sr_blue = tb_blue b\<rparr>"

definition fire_status :: "bridge_env \<Rightarrow> ('b telink_bridge_scheme, unit) action" where
  "fire_status env b =
     (let (r, calls) = call_each (be_status_callback env) (synthetic_status b) (tb_status_callbacks b) (tb_status_log b)
      in (r, b\<lparr>tb_status_log := calls\<rparr>))"

text \<open>The commands, their actions and parameters, and what they change once the daemon has confirmed them.\<close>

datatype tb_command = TB_Power bool | TB_Brightness int | TB_Color_Temp int | TB_Color int int int | TB_Mode int
  | TB_Color_Brightness int

fun tb_request :: "tb_command \<Rightarrow> string \<times> (string \<times> json) list" where
  "tb_request (TB_Power on) = (if on then ''on'' else ''off'', [])"
| "tb_request (TB_Brightness v) = (''brightness'', [(''level'', JNum (of_int v))])"
| "tb_request (TB_Color_Temp v) = (''color_temp'', [(''temp'', JNum (of_int v))])"
| "tb_request (TB_Color r g b) = (''color'', [(''r'', JNum (of_int r)), (''g'', JNum (of_int g)), (''b'', JNum (of_int b))])"
| "tb_request (TB_Mode m) = (''light_mode'', [(''mode'', JNum (of_int m))])"
| "tb_request (TB_Color_Brightness v) = (''color_brightness'', [(''level'', JNum (of_int v))])"

fun tb_apply :: "tb_command \<Rightarrow> 'b telink_bridge_scheme \<Rightarrow> 'b telink_bridge_scheme" where
  "tb_apply (TB_Power on) b = b\<lparr>tb_brightness := (if on \<and> tb_brightness b = 0 then 100 else tb_brightness b), tb_is_on := on\<rparr>"
| "tb_apply (TB_Brightness v) b = b\<lparr>tb_brightness := v, tb_is_on := True\<rparr>"
| "tb_apply (TB_Color_Temp v) b = b\<lparr>tb_color_temp := v, tb_is_on := True\<rparr>"
| "tb_apply (TB_Color r g bl) b = b\<lparr>tb_red := r, tb_green := g, tb_blue := bl, tb_is_on := True\<rparr>"
| "tb_apply (TB_Mode m) b = b\<lparr>tb_mode := m\<rparr>"
| "tb_apply (TB_Color_Brightness v) b = b\<lparr>tb_color_brightness := v, tb_is_on := True\<rparr>"

definition tb_send :: "bridge_env \<Rightarrow> tb_command \<Rightarrow> ('b telink_bridge_scheme, unit) action" where
  "tb_send env c =
     bindS (send_telink_cmd env (fst (tb_request c)) (snd (tb_request c)))
       (\<lambda>_ b. fire_status env (tb_apply c b))"


subsection \<open>What the operations leave alone\<close>

lemma requests_simps [simp]:
  "requests [] = 0" "requests (Request op # es) = Suc (requests es)" "requests (Sleep t # es) = requests es"
  "requests (es @ fs) = requests es + requests fs"
  by (simp_all add: requests_def)

text \<open>
  An action makes at most \<open>n\<close> requests, and it changes nothing of what the two devices add to the shared state.
\<close>

definition costs :: "nat \<Rightarrow> ('b bridge_scheme, 'a) action \<Rightarrow> bool" where
  "costs n act \<longleftrightarrow> (\<forall>b. requests (br_trace (snd (act b))) \<le> requests (br_trace b) + n)"

definition shared_only :: "('b bridge_scheme, 'a) action \<Rightarrow> bool" where
  "shared_only act \<longleftrightarrow> (\<forall>b. bridge.more (snd (act b)) = bridge.more b \<and> br_address (snd (act b)) = br_address b)"

named_theorems bridge_rules

lemma costsD: "costs n act \<Longrightarrow> act b = (r, b1) \<Longrightarrow> requests (br_trace b1) \<le> requests (br_trace b) + n"
  unfolding costs_def by (metis snd_conv)

lemma shared_onlyD: "shared_only act \<Longrightarrow> act b = (r, b1) \<Longrightarrow> bridge.more b1 = bridge.more b \<and> br_address b1 = br_address b"
  unfolding shared_only_def by (metis snd_conv)

lemma costs_bindS [bridge_rules]:
  assumes "costs m act" "\<And>x. costs n (f x)" shows "costs (m + n) (bindS act f)"
  unfolding costs_def
proof
  fix b
  obtain r b1 where act: "act b = (r, b1)" by fastforce
  have f: "f x b1 = (fst (f x b1), snd (f x b1))" for x by simp
  show "requests (br_trace (snd (bindS act f b))) \<le> requests (br_trace b) + (m + n)"
    using costsD [OF assms(1) act] costsD [OF assms(2) f] act by (cases r) (force intro: order.trans)+
qed

lemma shared_only_bindS [bridge_rules]:
  assumes "shared_only act" "\<And>x. shared_only (f x)" shows "shared_only (bindS act f)"
  unfolding shared_only_def
proof
  fix b
  obtain r b1 where act: "act b = (r, b1)" by fastforce
  have f: "f x b1 = (fst (f x b1), snd (f x b1))" for x by simp
  show "bridge.more (snd (bindS act f b)) = bridge.more b \<and> br_address (snd (bindS act f b)) = br_address b"
    using shared_onlyD [OF assms(1) act] shared_onlyD [OF assms(2) f] act by (cases r) simp_all
qed

lemma bridge_simple [bridge_rules]:
  "costs 1 (http env op)" "costs 0 (liftS r)" "costs 0 (fire_disconnect env)"
  "shared_only (http env op)" "shared_only (liftS r)" "shared_only (fire_disconnect env)"
  by (auto simp: costs_def shared_only_def http_def liftS_def fire_disconnect_def log_event_def split: prod.splits)

lemma bridge_connected [bridge_rules]:
  "costs n act \<Longrightarrow> costs n (\<lambda>b. act (b\<lparr>br_connected := c\<rparr>))"
  "shared_only act \<Longrightarrow> shared_only (\<lambda>b. act (b\<lparr>br_connected := c\<rparr>))"
  by (simp_all add: costs_def shared_only_def) (metis bridge.select_convs(7) bridge.surjective bridge.update_convs(2))+

lemma poll_costs: "costs left (poll env check left :: ('b bridge_scheme, json option) action)"
proof (induction left)
  case (Suc left)
  show ?case unfolding costs_def
  proof
    fix b :: "'b bridge_scheme"
    obtain r b1 where step: "bindS (http env (Http_Get ''/result'')) (\<lambda>j. liftS (check j)) (snd (sleep_for POLL_INTERVAL b)) = (r, b1)"
      by fastforce
    have "costs (1 + 0) (bindS (http env (Http_Get ''/result'')) (\<lambda>j. liftS (check j)))"
      by (intro bridge_rules)
    from costsD [OF this step] have "requests (br_trace b1) \<le> requests (br_trace b) + 1"
      by (simp add: sleep_for_def log_event_def)
    moreover have "requests (br_trace (snd (poll env check left b1))) \<le> requests (br_trace b1) + left"
      using Suc.IH by (simp add: costs_def)
    ultimately show "requests (br_trace (snd (poll env check (Suc left) b))) \<le> requests (br_trace b) + Suc left"
      by (auto simp: step split: sum.splits option.splits)
  qed
qed (simp add: costs_def)

lemma poll_shared: "shared_only (poll env check left :: ('b bridge_scheme, json option) action)"
proof (induction left)
  case (Suc left)
  show ?case unfolding shared_only_def
  proof
    fix b :: "'b bridge_scheme"
    obtain r b1 where step: "bindS (http env (Http_Get ''/result'')) (\<lambda>j. liftS (check j)) (snd (sleep_for POLL_INTERVAL b)) = (r, b1)"
      by fastforce
    have "shared_only (bindS (http env (Http_Get ''/result'')) (\<lambda>j. liftS (check j)))"
      by (intro bridge_rules)
    from shared_onlyD [OF this step] have "bridge.more b1 = bridge.more b \<and> br_address b1 = br_address b"
      by (simp add: sleep_for_def log_event_def)
    with Suc.IH [unfolded shared_only_def, rule_format, of b1] show "bridge.more (snd (poll env check (Suc left) b)) = bridge.more b
        \<and> br_address (snd (poll env check (Suc left) b)) = br_address b"
      by (auto simp: step split: sum.splits option.splits)
  qed
qed (simp add: shared_only_def)

lemma await_result_rules [bridge_rules]:
  "costs (Suc MAX_POLL_ATTEMPTS) (await_result env op check k :: ('b bridge_scheme, json) action)"
  "shared_only (await_result env op check k :: ('b bridge_scheme, json) action)"
proof -
  let ?e = "\<lambda>found. case found of Some j \<Rightarrow> liftS (Inr j)
    | None \<Rightarrow> (\<lambda>b. bindS (fire_disconnect env) (\<lambda>_. liftS k) (b\<lparr>br_connected := False\<rparr>))"
  have "costs (0 + 0) (bindS (fire_disconnect env) (\<lambda>_. liftS k) :: ('b bridge_scheme, json) action)"
    by (intro costs_bindS bridge_simple)
  then have "costs 0 (?e found :: ('b bridge_scheme, json) action)" for found
    by (cases found) (simp_all add: bridge_simple bridge_connected)
  then have "costs (1 + (MAX_POLL_ATTEMPTS + 0)) (await_result env op check k :: ('b bridge_scheme, json) action)"
    unfolding await_result_def by (intro costs_bindS poll_costs bridge_simple)
  then show "costs (Suc MAX_POLL_ATTEMPTS) (await_result env op check k :: ('b bridge_scheme, json) action)" by simp
  have "shared_only (?e found :: ('b bridge_scheme, json) action)" for found
    by (auto split: option.split intro!: bridge_rules)
  then show "shared_only (await_result env op check k :: ('b bridge_scheme, json) action)"
    unfolding await_result_def by (intro shared_only_bindS poll_shared bridge_simple)
qed

lemma exchange_rules [bridge_rules]:
  "costs (Suc MAX_POLL_ATTEMPTS) (send_and_wait env act :: ('b sig_bridge_scheme, json) action)"
  "shared_only (send_telink_cmd_once env act params :: ('c telink_bridge_scheme, json) action)"
  using await_result_rules unfolding costs_def shared_only_def send_and_wait_def send_telink_cmd_once_def by blast+

lemma send_power_attempts_costs:
  "requests (br_trace (snd (send_power_attempts env act left backoff (b :: 'b sig_bridge_scheme))))
    \<le> requests (br_trace b) + left * Suc MAX_POLL_ATTEMPTS"
proof (induction left arbitrary: backoff b)
  case (Suc left)
  let ?one = "bindS (send_and_wait env act) (\<lambda>j. liftS (bindR (json_get j ''success'') (\<lambda>s. Inr (j, s))))"
  obtain r b1 where step: "?one b = (r, b1)" by fastforce
  have "costs (Suc MAX_POLL_ATTEMPTS + 0) ?one" by (intro costs_bindS exchange_rules bridge_simple)
  from costsD [OF this step] have one: "requests (br_trace b1) \<le> requests (br_trace b) + Suc MAX_POLL_ATTEMPTS" by simp
  have more: "requests (br_trace (snd (send_power_attempts env act left c (snd (sleep_for t b1)))))
      \<le> requests (br_trace b) + Suc left * Suc MAX_POLL_ATTEMPTS" for c t
    using Suc.IH [of c "snd (sleep_for t b1)"] one by (simp add: sleep_for_def log_event_def)
  have callbacks: "requests (br_trace (snd (onoff_callbacks env on b2))) = requests (br_trace b2)"
    for on and b2 :: "'b sig_bridge_scheme"
    by (simp add: onoff_callbacks_def split: prod.splits)
  show ?case
  proof (cases r)
    case (Inl e)
    with step one more show ?thesis by auto
  next
    case (Inr p)
    obtain j s where p: "p = (j, s)" by fastforce
    with Inr step one more show ?thesis
      by (cases "json_get j ''status''") (auto simp: callbacks bindS_def liftS_def)
  qed
qed simp

lemma telink_attempts_shared: "shared_only (telink_attempts env act params left backoff :: ('b telink_bridge_scheme, json) action)"
proof (induction left arbitrary: backoff)
  case (Suc left)
  show ?case unfolding shared_only_def
  proof
    fix b :: "'b telink_bridge_scheme"
    obtain r b1 where step: "send_telink_cmd_once env act params b = (r, b1)" by fastforce
    from shared_onlyD [OF exchange_rules(2) this] have same: "bridge.more b1 = bridge.more b" "br_address b1 = br_address b" by simp_all
    show "bridge.more (snd (telink_attempts env act params (Suc left) backoff b)) = bridge.more b
        \<and> br_address (snd (telink_attempts env act params (Suc left) backoff b)) = br_address b"
      using Suc.IH [of "backoff * RETRY_BACKOFF_MULTIPLIER", unfolded shared_only_def, rule_format, of "snd (sleep_for backoff b1)"] same
      by (auto simp: step sleep_for_def log_event_def split: sum.splits)
  qed
qed (simp add: shared_only_def)

lemma more_fields:
  fixes b b1 :: "'b telink_bridge_scheme"
  assumes "bridge.more b1 = bridge.more b"
  shows "tb_mesh_id b1 = tb_mesh_id b" "tb_mode b1 = tb_mode b" "tb_brightness b1 = tb_brightness b"
    "tb_color_temp b1 = tb_color_temp b" "tb_color_brightness b1 = tb_color_brightness b" "tb_red b1 = tb_red b"
    "tb_green b1 = tb_green b" "tb_blue b1 = tb_blue b" "tb_is_on b1 = tb_is_on b"
    "tb_status_callbacks b1 = tb_status_callbacks b" "tb_status_log b1 = tb_status_log b"
  using assms by (cases b; cases b1; simp)+

lemma call_each_all: "call_each f x cbs calls = (Inr (), calls1) \<Longrightarrow> calls1 = calls @ map (\<lambda>cb. (cb, x)) cbs"
  by (induction cbs arbitrary: calls) (fastforce split: option.splits if_splits)+

text \<open>The polls until the first one that is not an answer to the command: \<open>n\<close> requests were made before.\<close>

lemma poll_until_error:
  assumes "\<And>i. i < k \<Longrightarrow> \<exists>j. be_http env (requests (br_trace b) + i) (Http_Get ''/result'') = Inr j \<and> check j = Inr None"
    and "be_http env (requests (br_trace b) + k) (Http_Get ''/result'') = Inl e" "isinstance e TimeoutError \<or> isinstance e ClientError"
    and "k < left"
  shows "\<exists>b1. poll env check left b = (Inl MeshConnectionError, b1) \<and> requests (br_trace b1) = requests (br_trace b) + k + 1
    \<and> br_connected b1 = br_connected b"
  using assms
proof (induction k arbitrary: left b)
  case 0
  then obtain m where left: "left = Suc m" by (cases left) simp_all
  have "\<not> (isinstance MeshConnectionError TimeoutError \<or> isinstance MeshConnectionError ClientError
      \<or> isinstance MeshConnectionError OSError)" by (simp add: isinstance_def eval_nat_numeral)
  with 0 left show ?case by (auto simp: sleep_for_def log_event_def http_def bindS_def)
next
  case (Suc k)
  then obtain m where left: "left = Suc m" by (cases left) simp_all
  from Suc.prems(1) [of 0] obtain j where j: "be_http env (requests (br_trace b)) (Http_Get ''/result'') = Inr j" "check j = Inr None"
    by auto
  let ?b = "log_event (Request (Http_Get ''/result'')) (snd (sleep_for POLL_INTERVAL b)\<lparr>br_session := True\<rparr>)"
  have b: "requests (br_trace ?b) = Suc (requests (br_trace b))" "br_connected ?b = br_connected b"
    by (simp_all add: log_event_def sleep_for_def)
  have "\<exists>b1. poll env check m ?b = (Inl MeshConnectionError, b1) \<and> requests (br_trace b1) = requests (br_trace ?b) + k + 1
      \<and> br_connected b1 = br_connected ?b"
    using Suc.prems left b(1) by (intro Suc.IH) (auto dest: Suc.prems(1) [OF Suc_mono])
  moreover have "poll env check left b = poll env check m ?b"
    using j left by (simp add: bindS_def http_def liftS_def sleep_for_def log_event_def)
  ultimately show ?case using b by simp
qed

subsection \<open>Properties\<close>

text \<open>A power command of the bridge plug ends after at most 31 requests for each of its attempts: the command
  and thirty polls.\<close>

theorem bridge_requests_bounded:
  "requests (br_trace (snd (sb_send_power env on max_retries b))) \<le> requests (br_trace b) + 31 * max_retries"
  using send_power_attempts_costs [of env "if on then ''on'' else ''off''" max_retries RETRY_INITIAL_BACKOFF b]
  by (simp add: sb_send_power_def MAX_POLL_ATTEMPTS_def)


lemma status_as_shown:
  "let st = co_state (on_status_update now (synthetic_status b) co) in
    ds_mode st = tb_mode b \<and> ds_color_temp st = tb_color_temp b
    \<and> (ds_red st, ds_green st, ds_blue st) = (tb_red b, tb_green b, tb_blue b)
    \<and> (ds_is_on st \<longleftrightarrow> tb_is_on b \<and> (tb_brightness b > 0 \<or> tb_color_brightness b > 0))
    \<and> (tb_is_on b \<longrightarrow> ds_brightness st = tb_brightness b \<and> ds_color_brightness st = tb_color_brightness b)"
  by (auto simp: on_status_update_def notify_state_def synthetic_status_def Let_def)


text \<open>
  A colour or a colour temperature turns a light on that has no brightness yet, but its status then has
  none either, and Home Assistant shows it as off.
\<close>

theorem colour_shown_as_off:
  assumes "tb_send env (TB_Color x y z) b = (Inr (), b1)" "tb_brightness b = 0" "tb_color_brightness b = 0"
  shows "tb_is_on (tb_apply (TB_Color x y z) b) \<and> \<not> ds_is_on (co_state (on_status_update now (synthetic_status (tb_apply (TB_Color x y z) b)) co))"
  using assms by (simp add: on_status_update_def notify_state_def synthetic_status_def Let_def)

text \<open>
  A result is taken for fresh when its action is the right one and it has a timestamp, whatever it is: a
  result that was there before the command answers it.
\<close>

theorem stale_result_accepted:
  assumes "br_connected b" "\<And>n op. be_http env n op = Inr stale" "check_action ''on'' stale = Inr (Some stale)"
    and "json_get stale ''success'' = Inr (Some (JBool True))" "json_get stale ''status'' = Inr (Some (JStr ''ON''))"
    and "\<And>n cb. be_onoff_callback env n cb = None"
  shows "\<exists>b1. sb_send_power env True (Suc n) b = (Inr (), b1) \<and> sb_last_on_state b1
    \<and> requests (br_trace b1) = requests (br_trace b) + 2"
proof -
  have ok: "call_each (be_onoff_callback env) True cbs calls = (Inr (), calls @ map (\<lambda>cb. (cb, True)) cbs)" for cbs calls
    using assms(6) by (induction cbs arbitrary: calls) simp_all
  show ?thesis
    using assms(1-5)
    by (simp add: sb_send_power_def send_and_wait_def await_result_def MAX_POLL_ATTEMPTS_def eval_nat_numeral http_def
        sleep_for_def log_event_def liftS_def bindS_def onoff_callbacks_def ok)
qed

subsection \<open>Witnesses\<close>

text \<open>A daemon that answers the requests in the given order and is unreachable afterwards.\<close>

definition demo_bridge_env :: "json list \<Rightarrow> bridge_env" where
  "demo_bridge_env answers = \<lparr>be_http = (\<lambda>n op. if n < length answers then Inr (answers ! n) else Inl ClientError),
     be_disconnect_callback = (\<lambda>_ _. None), be_onoff_callback = (\<lambda>_ _. None), be_status_callback = (\<lambda>_ _. None)\<rparr>"

definition demo_sig_bridge :: sig_bridge where
  "demo_sig_bridge = \<lparr>br_address = ''AA'', br_connected = True, br_firmware_version = None, br_session = False,
     br_disconnect_callbacks = [], br_disconnect_log = [], br_trace = [], sb_target_addr = 0xB0,
     sb_last_on_state = False, sb_onoff_callbacks = [], sb_vendor_callbacks = [], sb_onoff_log = []\<rparr>"


definition demo_telink_bridge :: telink_bridge where
  "demo_telink_bridge = \<lparr>br_address = ''AA'', br_connected = True, br_firmware_version = None, br_session = False,
     br_disconnect_callbacks = [], br_disconnect_log = [], br_trace = [], tb_mesh_id = 0, tb_mode = 0,
     tb_brightness = 0, tb_color_temp = 0, tb_color_brightness = 0, tb_red = 0, tb_green = 0, tb_blue = 0,
     tb_is_on = False, tb_status_callbacks = [7], tb_status_log = []\<rparr>"


end
