(* ===== verification/Sig_Device.thy ===== *)
theory Sig_Device
  imports Sig_Commands
begin

text \<open>
  The life of a \<^verbatim>\<open>SIGMeshDevice\<close> (\<^verbatim>\<open>lib/tuya_ble_mesh/sig_mesh_device.py\<close>) around the receiving side and the
  commands: its callbacks, the loading of its keys from a secrets manager (\<^verbatim>\<open>secrets.py\<close>), the attempts of
  \<^verbatim>\<open>connect\<close> and \<^verbatim>\<open>disconnect\<close>.  The Bluetooth backend is the record \<open>link_env\<close>: how the calls of an attempt
  end, and \<open>le_meanwhile\<close>, what its callbacks and other tasks do to the device while a call is awaited.
  Attempts, and with them clients, are numbered over the life of the device; \<open>sl_attempts\<close> and
  \<open>sl_trace\<close> are not in the code.
\<close>

subsection \<open>Numbers in names\<close>

text \<open>The formats \<^verbatim>\<open>04x\<close> and \<^verbatim>\<open>04X\<close>; the sign counts for the width.\<close>

definition digits_of :: "bool \<Rightarrow> string" where
  "digits_of upper = (if upper then ''0123456789ABCDEF'' else ''0123456789abcdef'')"

fun hex_of_nat :: "bool \<Rightarrow> nat \<Rightarrow> string" where
  "hex_of_nat upper n =
     (if n < 16 then [digits_of upper ! n] else hex_of_nat upper (n div 16) @ [digits_of upper ! (n mod 16)])"

declare hex_of_nat.simps [simp del]

definition zero_fill :: "nat \<Rightarrow> string \<Rightarrow> string" where
  "zero_fill w s = replicate (w - length s) (CHR ''0'') @ s"

definition format_04x :: "bool \<Rightarrow> int \<Rightarrow> string" where
  "format_04x upper v =
     (if v < 0 then ''-'' @ zero_fill 3 (hex_of_nat upper (nat (- v))) else zero_fill 4 (hex_of_nat upper (nat v)))"

subsection \<open>Secrets\<close>

text \<open>\<^verbatim>\<open>DictSecretsManager.get\<close>.\<close>

definition dict_secrets_get :: "(string, 'v) dict \<Rightarrow> string \<Rightarrow> string \<Rightarrow> 'v res" where
  "dict_secrets_get secrets item field =
     (case dict_get secrets (item @ ''/'' @ field) of None \<Rightarrow> Inl SecretAccessError | Some v \<Rightarrow> Inr v)"

subsection \<open>State\<close>

definition BLUEZ_CACHE_CLEAR_DELAY :: seconds where "BLUEZ_CACHE_CLEAR_DELAY = 2"

text \<open>What names a characteristic: the UUIDs of the beginning, or the object found under the service.\<close>

datatype gatt_ref = Data_In_Uuid | Data_Out_Uuid | Characteristic nat

text \<open>
  What \<^verbatim>\<open>client.services\<close> says of the proxy service: there is no \<^verbatim>\<open>get_service\<close>, no such service, one without
  a UUID, or one with its two characteristics, if it has them.
\<close>

datatype proxy_service = No_Get_Service | No_Proxy_Service | No_Service_Uuid | Proxy_Service "nat option" "nat option"

datatype link_event = Find_Device | New_Client nat | Open_Client nat | Subscribe nat gatt_ref | Unsubscribe nat gatt_ref
  | Close_Client nat | Remove_From_Cache | Settle seconds | Cancel_Task nat | Mesh_Io io_event

text \<open>\<open>sl_client\<close> is the client in \<^verbatim>\<open>_client\<close> as long as the device of the node has one.\<close>

record 's sig_link =
  sl_node :: "'s sig_node"
  sl_adapter :: bool
  sl_connect_callback :: bool
  sl_op_item_prefix :: string
  sl_iv_index :: int
  sl_client :: nat
  sl_proxy_data_in :: gatt_ref
  sl_proxy_data_out :: gatt_ref
  sl_notify_tasks :: "nat list"
  sl_attempts :: nat
  sl_trace :: "link_event list"

record link_env =
  le_secret :: "string \<Rightarrow> string \<Rightarrow> pystr res"
  le_find :: "nat \<Rightarrow> bool res"
  le_open :: "nat \<Rightarrow> py_error option"
  le_services :: "nat \<Rightarrow> proxy_service"
  le_subscribe :: "nat \<Rightarrow> py_error option"
  le_unsubscribe :: "nat \<Rightarrow> py_error option"
  le_close :: "nat \<Rightarrow> py_error option"
  le_remove :: "nat \<Rightarrow> py_error option"
  le_interfere :: "nat \<Rightarrow> interference"
  le_write :: "nat \<Rightarrow> write_oracle"
  le_meanwhile :: "nat \<Rightarrow> link_event \<Rightarrow> sig_device \<Rightarrow> sig_device"

definition make_sig_receiver :: sig_device where
  "make_sig_receiver = \<lparr>sd_keys = None, sd_has_client = False, sd_segment_buffers = [], sd_pending_responses = [],
     sd_onoff_callbacks = [], sd_level_callbacks = [], sd_vendor_callbacks = [], sd_composition_callbacks = [],
     sd_disconnect_callbacks = [], sd_composition = None, sd_firmware_version = None\<rparr>"

definition make_sig_link ::
  "int \<Rightarrow> int \<Rightarrow> string \<Rightarrow> int \<Rightarrow> 's \<Rightarrow> bool \<Rightarrow> bool \<Rightarrow> int option \<Rightarrow> int \<Rightarrow> 's sig_link" where
  "make_sig_link target_addr our_addr op_item_prefix iv_index store connect_callback adapter
       level_target_addr brightness_model_id =
     \<lparr>sl_node = \<lparr>sn_device = make_sig_receiver, sn_our_addr = our_addr, sn_target_addr = target_addr,
        sn_level_target_addr = (case level_target_addr of None \<Rightarrow> target_addr | Some a \<Rightarrow> a),
        sn_brightness_model_id = brightness_model_id, sn_tid = 0, sn_correlation_id = 0, sn_seq_store = store\<rparr>,
      sl_adapter = adapter, sl_connect_callback = connect_callback, sl_op_item_prefix = op_item_prefix,
      sl_iv_index = iv_index, sl_client = 0, sl_proxy_data_in = Data_In_Uuid, sl_proxy_data_out = Data_Out_Uuid,
      sl_notify_tasks = [], sl_attempts = 0, sl_trace = []\<rparr>"

abbreviation sl_device :: "'s sig_link \<Rightarrow> sig_device" where
  "sl_device l \<equiv> sn_device (sl_node l)"

definition on_device :: "(sig_device \<Rightarrow> sig_device) \<Rightarrow> 's sig_link \<Rightarrow> 's sig_link" where
  "on_device f l = l\<lparr>sl_node := (sl_node l)\<lparr>sn_device := f (sl_device l)\<rparr>\<rparr>"

subsection \<open>Callbacks\<close>

definition register_onoff_callback :: "nat \<Rightarrow> sig_device \<Rightarrow> sig_device" where
  "register_onoff_callback cb d = d\<lparr>sd_onoff_callbacks := sd_onoff_callbacks d @ [cb]\<rparr>"

definition unregister_onoff_callback :: "nat \<Rightarrow> (sig_device, unit) action" where
  "unregister_onoff_callback cb d = (case list_remove cb (sd_onoff_callbacks d) of
     Inl e \<Rightarrow> (Inl e, d) | Inr cbs \<Rightarrow> (Inr (), d\<lparr>sd_onoff_callbacks := cbs\<rparr>))"

definition register_level_callback :: "nat \<Rightarrow> sig_device \<Rightarrow> sig_device" where
  "register_level_callback cb d = d\<lparr>sd_level_callbacks := sd_level_callbacks d @ [cb]\<rparr>"

definition unregister_level_callback :: "nat \<Rightarrow> (sig_device, unit) action" where
  "unregister_level_callback cb d = (case list_remove cb (sd_level_callbacks d) of
     Inl e \<Rightarrow> (Inl e, d) | Inr cbs \<Rightarrow> (Inr (), d\<lparr>sd_level_callbacks := cbs\<rparr>))"

definition register_vendor_callback :: "nat \<Rightarrow> sig_device \<Rightarrow> sig_device" where
  "register_vendor_callback cb d = d\<lparr>sd_vendor_callbacks := sd_vendor_callbacks d @ [cb]\<rparr>"

definition unregister_vendor_callback :: "nat \<Rightarrow> (sig_device, unit) action" where
  "unregister_vendor_callback cb d = (case list_remove cb (sd_vendor_callbacks d) of
     Inl e \<Rightarrow> (Inl e, d) | Inr cbs \<Rightarrow> (Inr (), d\<lparr>sd_vendor_callbacks := cbs\<rparr>))"

definition register_composition_callback :: "nat \<Rightarrow> sig_device \<Rightarrow> sig_device" where
  "register_composition_callback cb d = d\<lparr>sd_composition_callbacks := sd_composition_callbacks d @ [cb]\<rparr>"

definition unregister_composition_callback :: "nat \<Rightarrow> (sig_device, unit) action" where
  "unregister_composition_callback cb d = (case list_remove cb (sd_composition_callbacks d) of
     Inl e \<Rightarrow> (Inl e, d) | Inr cbs \<Rightarrow> (Inr (), d\<lparr>sd_composition_callbacks := cbs\<rparr>))"

definition register_sig_disconnect :: "nat \<Rightarrow> sig_device \<Rightarrow> sig_device" where
  "register_sig_disconnect cb d = d\<lparr>sd_disconnect_callbacks := sd_disconnect_callbacks d @ [cb]\<rparr>"

definition unregister_sig_disconnect :: "nat \<Rightarrow> (sig_device, unit) action" where
  "unregister_sig_disconnect cb d = (case list_remove cb (sd_disconnect_callbacks d) of
     Inl e \<Rightarrow> (Inl e, d) | Inr cbs \<Rightarrow> (Inr (), d\<lparr>sd_disconnect_callbacks := cbs\<rparr>))"

subsection \<open>Keys\<close>

definition load_keys :: "crypto_lib \<Rightarrow> link_env \<Rightarrow> ('s sig_link, unit) action" where
  "load_keys lib env l =
     (let item = (\<lambda>name. sl_op_item_prefix l @ name) in
      case bindR (le_secret env (item ''-net-key'') ''password'') (\<lambda>net_key.
           bindR (le_secret env (item (''-dev-key-'' @ format_04x False (sn_target_addr (sl_node l)))) ''password'') (\<lambda>dev_key.
           bindR (le_secret env (item ''-app-key'') ''password'') (\<lambda>app_key. Inr (net_key, dev_key, app_key)))) of
        Inl e \<Rightarrow> (Inl (if isinstance e SecretAccessError \<or> isinstance e OSError \<or> isinstance e ValueError
                          \<or> isinstance e RuntimeError then SIGMeshKeyError else e), l)
      | Inr (net_key, dev_key, app_key) \<Rightarrow>
         (case make_mesh_keys lib net_key dev_key (Some app_key) (sl_iv_index l) of
            Inl e \<Rightarrow> (Inl e, l)
          | Inr keys \<Rightarrow> (Inr (), on_device (\<lambda>d. d\<lparr>sd_keys := Some keys\<rparr>) l)))"

subsection \<open>Connecting\<close>

text \<open>An awaited call is one event of the trace.\<close>

definition awaited :: "link_env \<Rightarrow> nat \<Rightarrow> link_event \<Rightarrow> 's sig_link \<Rightarrow> 's sig_link" where
  "awaited env k e l = on_device (le_meanwhile env k e) (l\<lparr>sl_trace := sl_trace l @ [e]\<rparr>)"

definition log_link :: "link_event \<Rightarrow> 's sig_link \<Rightarrow> 's sig_link" where
  "log_link e l = l\<lparr>sl_trace := sl_trace l @ [e]\<rparr>"

fun resolve_proxy_characteristics :: "proxy_service \<Rightarrow> ('s sig_link, unit) action" where
  "resolve_proxy_characteristics No_Get_Service l = (Inr (), l)"
| "resolve_proxy_characteristics No_Proxy_Service l = (Inl MeshConnectionError, l)"
| "resolve_proxy_characteristics No_Service_Uuid l = (Inr (), l)"
| "resolve_proxy_characteristics (Proxy_Service (Some i) (Some out)) l =
     (Inr (), l\<lparr>sl_proxy_data_in := Characteristic i, sl_proxy_data_out := Characteristic out\<rparr>)"
| "resolve_proxy_characteristics (Proxy_Service _ _) l = (Inl MeshConnectionError, l)"

text \<open>
  The client of the k-th attempt: created before it connects, or handed out connected by the callback of
  Home Assistant.  The second result is the local variable \<^verbatim>\<open>client\<close>.
\<close>

definition open_client :: "link_env \<Rightarrow> nat \<Rightarrow> 's sig_link \<Rightarrow> unit res \<times> nat option \<times> 's sig_link" where
  "open_client env k l =
     (if \<not> sl_adapter l \<and> sl_connect_callback l then
        (case le_open env k of
           Some e \<Rightarrow> (Inl e, None, awaited env k (Open_Client k) l)
         | None \<Rightarrow> (Inr (), Some k, log_link (New_Client k) (awaited env k (Open_Client k) l)))
      else
        (let l1 = awaited env k (Open_Client k) (log_link (New_Client k) l) in
         case le_open env k of Some e \<Rightarrow> (Inl e, Some k, l1) | None \<Rightarrow> (Inr (), Some k, l1)))"

definition subscribe_client :: "link_env \<Rightarrow> nat \<Rightarrow> ('s sig_link, unit) action" where
  "subscribe_client env k l =
     (case le_subscribe env k of None \<Rightarrow> Inr ()
      | Some e \<Rightarrow> if isinstance e EOFError \<or> isinstance e BleakError \<or> isinstance e OSError then Inr () else Inl e,
      awaited env k (Subscribe k (sl_proxy_data_out l)) l)"

definition use_client :: "nat \<Rightarrow> 's sig_link \<Rightarrow> 's sig_link" where
  "use_client k l = on_device (\<lambda>d. d\<lparr>sd_has_client := True\<rparr>) (l\<lparr>sl_client := k\<rparr>)"

text \<open>The request for the composition data, whose usual errors do not matter.\<close>

definition ask_composition ::
  "('s \<Rightarrow> int) \<Rightarrow> (int \<Rightarrow> 's \<Rightarrow> 's) \<Rightarrow> crypto_lib \<Rightarrow> link_env \<Rightarrow> nat \<Rightarrow> ('s sig_link, unit) action" where
  "ask_composition get_seq set_seq lib env k l =
     (case request_composition_data get_seq set_seq lib (le_interfere env k) (le_write env k) (sl_node l) of
        (r, n, io) \<Rightarrow>
          (case r of Inr _ \<Rightarrow> Inr ()
           | Inl e \<Rightarrow> if isinstance e TimeoutError \<or> isinstance e SIGMeshError \<or> isinstance e BleakError
               then Inr () else Inl e,
           l\<lparr>sl_node := n, sl_trace := sl_trace l @ map Mesh_Io io\<rparr>))"

definition attempt_body ::
  "('s \<Rightarrow> int) \<Rightarrow> (int \<Rightarrow> 's \<Rightarrow> 's) \<Rightarrow> crypto_lib \<Rightarrow> link_env \<Rightarrow> nat \<Rightarrow> 's sig_link
    \<Rightarrow> unit res \<times> nat option \<times> 's sig_link" where
  "attempt_body get_seq set_seq lib env k l =
     (let l0 = awaited env k Find_Device l in
      case le_find env k of
        Inl e \<Rightarrow> (Inl e, None, l0)
      | Inr found \<Rightarrow>
         if \<not> found then (Inl MeshConnectionError, None, l0)
         else (case open_client env k l0 of
           (Inl e, client, l1) \<Rightarrow> (Inl e, client, l1)
         | (Inr _, client, l1) \<Rightarrow>
            (let (r, l2) = bindS (resolve_proxy_characteristics (le_services env k)) (\<lambda>_.
                   bindS (subscribe_client env k) (\<lambda>_ l. ask_composition get_seq set_seq lib env k (use_client k l))) l1
             in (r, client, l2))))"

definition close_client :: "link_env \<Rightarrow> nat \<Rightarrow> ('s sig_link, unit) action" where
  "close_client env c l =
     (case le_close env c of None \<Rightarrow> Inr ()
      | Some e \<Rightarrow> if isinstance e BleakError \<or> isinstance e OSError then Inr () else Inl e,
      awaited env c (Close_Client c) l)"

definition bluetoothctl_remove :: "link_env \<Rightarrow> nat \<Rightarrow> ('s sig_link, unit) action" where
  "bluetoothctl_remove env k l =
     (case le_remove env k of None \<Rightarrow> Inr ()
      | Some e \<Rightarrow> if isinstance e TimeoutError \<or> isinstance e OSError then Inr () else Inl e,
      awaited env k Remove_From_Cache l)"

text \<open>The \<^verbatim>\<open>except\<close> clause of an attempt.\<close>

definition clean_up :: "link_env \<Rightarrow> nat \<Rightarrow> nat option \<Rightarrow> ('s sig_link, unit) action" where
  "clean_up env k client l =
     bindS (case client of None \<Rightarrow> liftS (Inr ()) | Some c \<Rightarrow> close_client env c) (\<lambda>_.
     bindS (if sl_adapter l then bluetoothctl_remove env k else liftS (Inr ())) (\<lambda>_ l1.
       (Inr (), awaited env k (Settle BLUEZ_CACHE_CLEAR_DELAY) l1))) l"

definition retried :: "py_error \<Rightarrow> bool" where
  "retried e \<longleftrightarrow> isinstance e BleakError \<or> isinstance e MeshConnectionError \<or> isinstance e OSError"

text \<open>One attempt, and whether it connected.\<close>

definition connect_attempt ::
  "('s \<Rightarrow> int) \<Rightarrow> (int \<Rightarrow> 's \<Rightarrow> 's) \<Rightarrow> crypto_lib \<Rightarrow> link_env \<Rightarrow> ('s sig_link, bool) action" where
  "connect_attempt get_seq set_seq lib env l =
     (let k = sl_attempts l in
      case attempt_body get_seq set_seq lib env k (l\<lparr>sl_attempts := Suc k\<rparr>) of
        (Inr _, client, l1) \<Rightarrow> (Inr True, l1)
      | (Inl e, client, l1) \<Rightarrow>
          if retried e then bindS (clean_up env k client) (\<lambda>_. liftS (Inr False)) l1 else (Inl e, l1))"

fun connect_attempts ::
  "('s \<Rightarrow> int) \<Rightarrow> (int \<Rightarrow> 's \<Rightarrow> 's) \<Rightarrow> crypto_lib \<Rightarrow> link_env \<Rightarrow> nat \<Rightarrow> ('s sig_link, unit) action" where
  "connect_attempts get_seq set_seq lib env 0 l = (Inl MeshConnectionError, l)"
| "connect_attempts get_seq set_seq lib env (Suc left) l =
     (case connect_attempt get_seq set_seq lib env l of
        (Inl e, l1) \<Rightarrow> (Inl e, l1)
      | (Inr ok, l1) \<Rightarrow>
          if ok then (Inr (), l1) else connect_attempts get_seq set_seq lib env left l1)"

definition sig_connect ::
  "('s \<Rightarrow> int) \<Rightarrow> (int \<Rightarrow> 's \<Rightarrow> 's) \<Rightarrow> crypto_lib \<Rightarrow> link_env \<Rightarrow> nat \<Rightarrow> ('s sig_link, unit) action" where
  "sig_connect get_seq set_seq lib env max_retries =
     bindS (load_keys lib env) (\<lambda>_. connect_attempts get_seq set_seq lib env max_retries)"

subsection \<open>Notifications and disconnecting\<close>

text \<open>\<^verbatim>\<open>_on_notify\<close> starts the task \<open>t\<close>, which is \<open>process_notify\<close>; it leaves the set when it is done.\<close>

definition on_notify :: "nat \<Rightarrow> 's sig_link \<Rightarrow> 's sig_link" where
  "on_notify t l = (if sd_keys (sl_device l) = None then l else l\<lparr>sl_notify_tasks := List.insert t (sl_notify_tasks l)\<rparr>)"

definition notify_done :: "nat \<Rightarrow> 's sig_link \<Rightarrow> 's sig_link" where
  "notify_done t l = l\<lparr>sl_notify_tasks := removeAll t (sl_notify_tasks l)\<rparr>"

definition stop_notify :: "link_env \<Rightarrow> ('s sig_link, unit) action" where
  "stop_notify env l =
     (case le_unsubscribe env (sl_client l) of None \<Rightarrow> Inr ()
      | Some e \<Rightarrow> if isinstance e BleakError \<or> isinstance e OSError then Inr () else Inl e,
      awaited env (sl_client l) (Unsubscribe (sl_client l) (sl_proxy_data_out l)) l)"

text \<open>Closing the client: \<^verbatim>\<open>self._client\<close> is read again, and \<^verbatim>\<open>None\<close> has no \<^verbatim>\<open>disconnect\<close>.\<close>

definition close_own_client :: "link_env \<Rightarrow> ('s sig_link, unit) action" where
  "close_own_client env l =
     (if \<not> sd_has_client (sl_device l) then (Inl AttributeError, l) else close_client env (sl_client l) l)"

text \<open>
  The keys are dropped; their attributes are of type \<^verbatim>\<open>bytes\<close>, so the loop that fills a \<^verbatim>\<open>bytearray\<close> with
  zeros changes nothing.  The last step cancels the tasks and waits for them.
\<close>

definition drop_sig_client :: "'s sig_link \<Rightarrow> 's sig_link" where
  "drop_sig_client = on_device (\<lambda>d. d\<lparr>sd_has_client := False\<rparr>)"

definition drop_keys_and_tasks :: "'s sig_link \<Rightarrow> 's sig_link" where
  "drop_keys_and_tasks l =
     (on_device (\<lambda>d. d\<lparr>sd_keys := None\<rparr>) l)
       \<lparr>sl_notify_tasks := [], sl_trace := sl_trace l @ map Cancel_Task (sl_notify_tasks l)\<rparr>"

definition sig_disconnect :: "link_env \<Rightarrow> ('s sig_link, unit) action" where
  "sig_disconnect env l =
     bindS (if sd_has_client (sl_device l)
            then bindS (stop_notify env) (\<lambda>_. bindS (close_own_client env) (\<lambda>_ l1. (Inr (), drop_sig_client l1)))
            else liftS (Inr ()))
       (\<lambda>_ l1. (Inr (), drop_keys_and_tasks l1)) l"

subsection \<open>The clients of a trace\<close>

fun clients_of :: "link_event list \<Rightarrow> nat list" where
  "clients_of [] = []"
| "clients_of (New_Client k # es) = k # clients_of es"
| "clients_of (e # es) = clients_of es"

text \<open>The clients that were created and not closed.\<close>

definition held :: "link_event list \<Rightarrow> nat list" where
  "held es = filter (\<lambda>k. Close_Client k \<notin> set es) (clients_of es)"

lemma clients_of_append [simp]: "clients_of (es @ fs) = clients_of es @ clients_of fs"
  by (induction es rule: clients_of.induct) simp_all

lemma clients_of_io [simp]: "clients_of (map Mesh_Io io) = []"
  by (induction io) simp_all

lemma held_append:
  assumes "\<And>k. k \<in> set (clients_of es) \<Longrightarrow> Close_Client k \<notin> set fs" "\<And>k. k \<in> set (clients_of fs) \<Longrightarrow> Close_Client k \<notin> set es"
  shows "held (es @ fs) = held es @ held fs"
  using assms by (auto simp: held_def intro!: arg_cong2 [where f = append] filter_cong)

text \<open>What an operation appends to the trace.\<close>

definition adds :: "(link_event list \<Rightarrow> bool) \<Rightarrow> 's sig_link \<Rightarrow> 's sig_link \<Rightarrow> bool" where
  "adds P l l1 \<longleftrightarrow> (\<exists>es. sl_trace l1 = sl_trace l @ es \<and> P es)"

lemma adds_trans:
  "adds P l l1 \<Longrightarrow> adds Q l1 l2 \<Longrightarrow> (\<And>es fs. P es \<Longrightarrow> Q fs \<Longrightarrow> R (es @ fs)) \<Longrightarrow> adds R l l2"
  unfolding adds_def by (metis append.assoc)

lemma on_device_simps [simp]:
  "sl_trace (on_device f l) = sl_trace l" "sl_attempts (on_device f l) = sl_attempts l"
  "sl_client (on_device f l) = sl_client l" "sl_adapter (on_device f l) = sl_adapter l"
  "sl_notify_tasks (on_device f l) = sl_notify_tasks l" "sl_device (on_device f l) = f (sl_device l)"
  "sl_connect_callback (on_device f l) = sl_connect_callback l" "sl_proxy_data_out (on_device f l) = sl_proxy_data_out l"
  by (simp_all add: on_device_def)

lemma awaited_simps [simp]:
  "sl_trace (awaited env k e l) = sl_trace l @ [e]" "sl_attempts (awaited env k e l) = sl_attempts l"
  "sl_client (awaited env k e l) = sl_client l" "sl_adapter (awaited env k e l) = sl_adapter l"
  "sl_notify_tasks (awaited env k e l) = sl_notify_tasks l" "sl_device (awaited env k e l) = le_meanwhile env k e (sl_device l)"
  "sl_connect_callback (awaited env k e l) = sl_connect_callback l" "sl_proxy_data_out (awaited env k e l) = sl_proxy_data_out l"
  by (simp_all add: awaited_def)

lemma log_link_simps [simp]:
  "sl_trace (log_link e l) = sl_trace l @ [e]" "sl_attempts (log_link e l) = sl_attempts l"
  "sl_client (log_link e l) = sl_client l" "sl_adapter (log_link e l) = sl_adapter l"
  by (simp_all add: log_link_def)

lemma open_client_adds:
  assumes "open_client env k l = (r, client, l1)"
  shows "adds (\<lambda>es. clients_of es = (case client of None \<Rightarrow> [] | Some c \<Rightarrow> [c]) \<and> (\<forall>c. Close_Client c \<notin> set es)) l l1"
    and "client \<in> {None, Some k}" "r = Inr () \<longrightarrow> client = Some k" "sl_attempts l1 = sl_attempts l" "sl_adapter l1 = sl_adapter l"
  using assms by (auto simp: open_client_def adds_def Let_def split: if_splits option.splits)

lemma resolve_adds:
  assumes "resolve_proxy_characteristics sv l = (r, l1)"
  shows "sl_trace l1 = sl_trace l" "sl_attempts l1 = sl_attempts l" "sl_adapter l1 = sl_adapter l" "sl_client l1 = sl_client l"
  using assms by (cases "(sv, l)" rule: resolve_proxy_characteristics.cases; auto)+

lemma after_open_adds:
  assumes "bindS (resolve_proxy_characteristics sv) (\<lambda>_.
      bindS (subscribe_client env k) (\<lambda>_ l. ask_composition get_seq set_seq lib env k (use_client k l))) l = (r, l1)"
  shows "adds (\<lambda>es. clients_of es = [] \<and> (\<forall>c. Close_Client c \<notin> set es)) l l1"
    and "sl_attempts l1 = sl_attempts l" "sl_adapter l1 = sl_adapter l" "r = Inr () \<longrightarrow> sl_client l1 = k"
  using assms resolve_adds [of sv l]
  by (auto simp: bindS_def subscribe_client_def ask_composition_def use_client_def adds_def
      split: prod.splits sum.splits if_splits option.splits)

lemma attempt_body_adds:
  assumes "attempt_body get_seq set_seq lib env k l = (r, client, l1)"
  shows "adds (\<lambda>es. clients_of es = (case client of None \<Rightarrow> [] | Some c \<Rightarrow> [c]) \<and> (\<forall>c. Close_Client c \<notin> set es)) l l1
    \<and> client \<in> {None, Some k} \<and> sl_attempts l1 = sl_attempts l \<and> sl_adapter l1 = sl_adapter l
    \<and> (r = Inr () \<longrightarrow> client = Some k \<and> sl_client l1 = k)"
proof -
  let ?P = "\<lambda>client es. clients_of es = (case client of None \<Rightarrow> [] | Some c \<Rightarrow> [c]) \<and> (\<forall>c. Close_Client c \<notin> set es)"
  let ?l0 = "awaited env k Find_Device l"
  have l0: "adds (?P None) l ?l0" by (simp add: adds_def)
  show ?thesis
  proof (cases "le_find env k = Inr True")
    case False
    then show ?thesis using assms l0 by (auto simp: attempt_body_def Let_def split: sum.splits)
  next
    case True
    obtain r1 c l2 where opened: "open_client env k ?l0 = (r1, c, l2)" using prod_cases3 by blast
    note o = open_client_adds [OF opened]
    have l2: "adds (?P c) l l2" by (rule adds_trans [OF l0 o(1)]) auto
    show ?thesis
    proof (cases r1)
      case (Inl e)
      then show ?thesis using assms True opened o l2 by (auto simp: attempt_body_def Let_def)
    next
      case (Inr u)
      have "adds (?P c) l l1"
        using assms True opened Inr after_open_adds(1) [of "le_services env k" env k get_seq set_seq lib l2 r l1]
        by (intro adds_trans [OF l2, where Q = "?P None"]) (auto simp: attempt_body_def Let_def split: prod.splits option.splits)
      then show ?thesis
        using assms True opened Inr o after_open_adds(2-4) [of "le_services env k" env k get_seq set_seq lib l2 r l1]
        by (auto simp: attempt_body_def Let_def split: prod.splits)
    qed
  qed
qed

lemma clean_up_adds:
  assumes "clean_up env k client l = (r, l1)"
  shows "adds (\<lambda>es. clients_of es = [] \<and> (\<forall>c. Close_Client c \<in> set es \<longleftrightarrow> client = Some c)) l l1
    \<and> sl_attempts l1 = sl_attempts l"
  using assms
  by (auto simp: clean_up_def bindS_def liftS_def close_client_def bluetoothctl_remove_def adds_def
      split: option.splits if_splits prod.splits sum.splits)

text \<open>What the attempt \<open>k\<close> leaves: the client when it connects, none when another attempt may follow.\<close>

definition attempt_trace :: "nat \<Rightarrow> bool res \<Rightarrow> link_event list \<Rightarrow> bool" where
  "attempt_trace k r es \<longleftrightarrow> set (clients_of es) \<subseteq> {k} \<and> (\<forall>c. Close_Client c \<in> set es \<longrightarrow> c = k)
    \<and> (case r of Inr ok \<Rightarrow> held es = (if ok then [k] else [])
       | Inl e \<Rightarrow> length (held es) \<le> 1 \<and> (retried e \<longrightarrow> held es = []))"

lemma connect_attempt_adds:
  assumes "connect_attempt get_seq set_seq lib env l = (r, l1)"
  shows "adds (attempt_trace (sl_attempts l) r) l l1 \<and> sl_attempts l1 = Suc (sl_attempts l)
    \<and> (r = Inr True \<longrightarrow> sl_client l1 = sl_attempts l)"
proof -
  let ?k = "sl_attempts l" and ?P = "\<lambda>client es. clients_of es = (case client of None \<Rightarrow> [] | Some c \<Rightarrow> [c]) \<and> (\<forall>c. Close_Client c \<notin> set es)"
  obtain rb client l2 where body: "attempt_body get_seq set_seq lib env ?k (l\<lparr>sl_attempts := Suc ?k\<rparr>) = (rb, client, l2)"
    using prod_cases3 by blast
  from attempt_body_adds [OF body] have b: "adds (?P client) l l2" "client \<in> {None, Some ?k}" "sl_attempts l2 = Suc ?k"
    "rb = Inr () \<longrightarrow> client = Some ?k \<and> sl_client l2 = ?k"
    by (auto simp: adds_def)
  show ?thesis
  proof (cases rb)
    case (Inr u)
    then have "r = Inr True" "l1 = l2" using assms body by (simp_all add: connect_attempt_def)
    with b Inr show ?thesis by (auto simp: adds_def attempt_trace_def held_def)
  next
    case (Inl e)
    show ?thesis
    proof (cases "retried e")
      case False
      then have "r = Inl e" "l1 = l2" using assms body Inl by (simp_all add: connect_attempt_def)
      with b False show ?thesis by (auto simp: adds_def attempt_trace_def held_def)
    next
      case True
      obtain rc l3 where clean: "clean_up env ?k client l2 = (rc, l3)" by fastforce
      note c = clean_up_adds [OF clean]
      have "r \<noteq> Inr True" "l1 = l3" using assms body Inl True clean by (auto simp: connect_attempt_def bindS_def liftS_def split: sum.splits)
      moreover from this have "adds (attempt_trace ?k r) l l1"
        using b(2) by (intro adds_trans [OF b(1) conjunct1 [OF c], unfolded \<open>l1 = l3\<close> [symmetric]])
          (auto simp: attempt_trace_def held_def split: sum.splits)
      ultimately show ?thesis using b(3) c by simp
    qed
  qed
qed

lemma retried_connection_error: "retried MeshConnectionError"
  by (simp add: retried_def)

lemma connect_attempts_adds:
  assumes "connect_attempts get_seq set_seq lib env n l = (r, l1)"
  shows "adds (\<lambda>es. (\<forall>c \<in> set (clients_of es). sl_attempts l \<le> c) \<and> (\<forall>c. Close_Client c \<in> set es \<longrightarrow> sl_attempts l \<le> c)
      \<and> (case r of Inr _ \<Rightarrow> held es = [sl_client l1]
         | Inl e \<Rightarrow> length (held es) \<le> 1 \<and> (retried e \<longrightarrow> held es = []))) l l1
    \<and> sl_attempts l1 \<le> sl_attempts l + n"
  using assms
proof (induction n arbitrary: l)
  case 0
  then show ?case by (auto simp: adds_def held_def)
next
  case (Suc n)
  obtain r2 l2 where first: "connect_attempt get_seq set_seq lib env l = (r2, l2)" by fastforce
  note f = connect_attempt_adds [OF first]
  show ?case
  proof (cases "r2 = Inr False")
    case False
    then have "(r2 = Inr True \<and> r = Inr () \<and> l1 = l2) \<or> (\<exists>e. r2 = Inl e \<and> r = Inl e \<and> l1 = l2)"
      using Suc.prems first by (auto split: sum.splits if_splits)
    with f show ?thesis by (fastforce simp: adds_def attempt_trace_def)
  next
    case True
    then have rest: "connect_attempts get_seq set_seq lib env n l2 = (r, l1)" using Suc.prems first by simp
    note i = Suc.IH [OF rest]
    have "adds (\<lambda>es. (\<forall>c \<in> set (clients_of es). sl_attempts l \<le> c) \<and> (\<forall>c. Close_Client c \<in> set es \<longrightarrow> sl_attempts l \<le> c)
      \<and> (case r of Inr _ \<Rightarrow> held es = [sl_client l1]
         | Inl e \<Rightarrow> length (held es) \<le> 1 \<and> (retried e \<longrightarrow> held es = []))) l l1"
    proof (rule adds_trans [OF conjunct1 [OF f] conjunct1 [OF i]])
      fix es fs
      assume es: "attempt_trace (sl_attempts l) r2 es" and fs: "(\<forall>c \<in> set (clients_of fs). sl_attempts l2 \<le> c)
        \<and> (\<forall>c. Close_Client c \<in> set fs \<longrightarrow> sl_attempts l2 \<le> c) \<and> (case r of Inr _ \<Rightarrow> held fs = [sl_client l1]
         | Inl e \<Rightarrow> length (held fs) \<le> 1 \<and> (retried e \<longrightarrow> held fs = []))"
      have "held (es @ fs) = held es @ held fs"
        using es fs f by (intro held_append) (fastforce simp: attempt_trace_def)+
      with es fs f True show "(\<forall>c \<in> set (clients_of (es @ fs)). sl_attempts l \<le> c)
        \<and> (\<forall>c. Close_Client c \<in> set (es @ fs) \<longrightarrow> sl_attempts l \<le> c) \<and> (case r of Inr _ \<Rightarrow> held (es @ fs) = [sl_client l1]
         | Inl e \<Rightarrow> length (held (es @ fs)) \<le> 1 \<and> (retried e \<longrightarrow> held (es @ fs) = []))"
        by (fastforce simp: attempt_trace_def split: sum.splits)
    qed
    with f i show ?thesis by simp
  qed
qed

lemma load_keys_link:
  assumes "load_keys lib env l = (r, l1)"
  shows "sl_trace l1 = sl_trace l" "sl_attempts l1 = sl_attempts l" "sl_client l1 = sl_client l"
  using assms by (auto simp: load_keys_def Let_def split: sum.splits)

subsection \<open>Properties\<close>

text \<open>C27: Whatever the Bluetooth backend does, \<^verbatim>\<open>connect\<close> makes at most \<^verbatim>\<open>max_retries\<close> attempts.  When it
  returns, exactly one of the clients that it created has not been closed, the one that the device
  uses; when it raises MeshConnectionError, or any error that an attempt is repeated for, none; with any
  other error at most one is left open.\<close>

theorem connect_disposes_clients:
  assumes "sig_connect get_seq set_seq lib env max_retries l = (r, l1)"
  shows "sl_attempts l1 \<le> sl_attempts l + max_retries
    \<and> (\<exists>es. sl_trace l1 = sl_trace l @ es
      \<and> (case r of Inr _ \<Rightarrow> held es = [sl_client l1]
         | Inl e \<Rightarrow> length (held es) \<le> 1
             \<and> (isinstance e BleakError \<or> isinstance e MeshConnectionError \<or> isinstance e OSError \<longrightarrow> held es = [])))"
proof -
  obtain r2 l2 where keys: "load_keys lib env l = (r2, l2)" by fastforce
  note k = load_keys_link [OF keys]
  show ?thesis
  proof (cases r2)
    case (Inl e)
    with assms keys have "r = Inl e" "l1 = l2" by (simp_all add: sig_connect_def)
    with k show ?thesis by (simp add: held_def)
  next
    case (Inr u)
    then have "connect_attempts get_seq set_seq lib env max_retries l2 = (r, l1)" using assms keys by (simp add: sig_connect_def)
    from connect_attempts_adds [OF this] k show ?thesis by (auto simp: adds_def retried_def split: sum.splits)
  qed
qed


subsection \<open>Witnesses\<close>

text \<open>Keys of sixteen bytes; the first attempt cannot open its client, and the loss of the link is reported as \<open>lost\<close> says.\<close>

definition demo_link_env :: "bool \<Rightarrow> link_env" where
  "demo_link_env lost = \<lparr>le_secret = (\<lambda>_ _. Inr (concat (replicate 16 [48, 51]))), le_find = (\<lambda>_. Inr True),
     le_open = (\<lambda>k. if k = 0 then Some BleakError else None), le_services = (\<lambda>_. Proxy_Service (Some 4) (Some 7)),
     le_subscribe = (\<lambda>_. None), le_unsubscribe = (\<lambda>_. Some BleakError), le_close = (\<lambda>_. None), le_remove = (\<lambda>_. None),
     le_interfere = (\<lambda>_ _ d. d), le_write = (\<lambda>_ _. None),
     le_meanwhile = (\<lambda>k e d. case e of Unsubscribe c ch \<Rightarrow> if lost then fst (on_ble_disconnect (\<lambda>_. None) d) else d | _ \<Rightarrow> d)\<rparr>"

definition demo_link :: "in_memory_seq_store sig_link" where
  "demo_link = make_sig_link 0xB0 1 ''cfg'' 0 \<lparr>ims_seq = 7\<rparr> False False None 0x1002"

lemma demo_connect:
  "case sig_connect ims_get_seq ims_set_seq demo_lib (demo_link_env False) 3 demo_link of (r, l1) \<Rightarrow>
     (case r of Inl e \<Rightarrow> False | Inr u \<Rightarrow> sl_client l1 = 1 \<and> sl_attempts l1 = 2 \<and> sl_trace demo_link = [])"
  by code_simp

theorem connect_disposes_clients_witness:
  "\<exists>l1. sig_connect ims_get_seq ims_set_seq demo_lib (demo_link_env False) 3 demo_link = (Inr (), l1) \<and> held (sl_trace l1) = [1]"
proof -
  obtain r l1 where run: "sig_connect ims_get_seq ims_set_seq demo_lib (demo_link_env False) 3 demo_link = (r, l1)" by fastforce
  have "r = Inr ()" "sl_client l1 = 1" "sl_trace demo_link = []" using demo_connect unfolding run by (auto split: sum.splits)
  with run connect_disposes_clients [OF run] show ?thesis by auto
qed

definition demo_connected :: "in_memory_seq_store sig_link" where
  "demo_connected = demo_link\<lparr>sl_node := demo_node, sl_notify_tasks := [3]\<rparr>"


end
