(* ===== verification/Device_Factory.thy ===== *)
theory Device_Factory
  imports Sig_Device Bridge
begin

text \<open>
  From a config entry to a device: \<^verbatim>\<open>device_factory.py\<close>, \<^verbatim>\<open>device_capabilities.py\<close> and \<^verbatim>\<open>mac_to_bytes\<close> of
  \<^verbatim>\<open>lib/tuya_ble_mesh/scanner.py\<close>, with Python's \<^verbatim>\<open>int(text, base)\<close>.  The data of an entry is a dictionary
  of JSON values; a value of the wrong type is a TypeError where it is first used, the numbers of an entry are
  whole, and \<^verbatim>\<open>upper\<close> is meant for ASCII.  The callbacks for the Bluetooth backend are a flag.
\<close>

subsection \<open>Numbers in text\<close>

definition py_space :: "char \<Rightarrow> bool" where
  "py_space c \<longleftrightarrow> (let n = of_char c :: int in 9 \<le> n \<and> n \<le> 13 \<or> 28 \<le> n \<and> n \<le> 32 \<or> n = 133 \<or> n = 160)"

definition py_strip :: "string \<Rightarrow> string" where
  "py_strip s = rev (dropWhile py_space (rev (dropWhile py_space s)))"

definition digit_value :: "int \<Rightarrow> char \<Rightarrow> int option" where
  "digit_value base c =
     (let n = of_char c :: int;
          v = (if 48 \<le> n \<and> n \<le> 57 then n - 48 else if 97 \<le> n \<and> n \<le> 122 then n - 87
               else if 65 \<le> n \<and> n \<le> 90 then n - 55 else 36)
      in if v < base then Some v else None)"

text \<open>Digits with single underscores between them; the flag says whether a digit was last.\<close>

fun parse_digits :: "int \<Rightarrow> bool \<Rightarrow> int \<Rightarrow> string \<Rightarrow> int option" where
  "parse_digits base after_digit acc [] = (if after_digit then Some acc else None)"
| "parse_digits base after_digit acc (c # cs) =
     (if c = CHR ''_'' then (if after_digit then parse_digits base False acc cs else None)
      else case digit_value base c of None \<Rightarrow> None | Some d \<Rightarrow> parse_digits base True (acc * base + d) cs)"

text \<open>Base 16 allows a prefix, and one underscore after it.\<close>

definition parse_unsigned :: "int \<Rightarrow> string \<Rightarrow> int option" where
  "parse_unsigned base s =
     (if base = 16 \<and> (take 2 s = ''0x'' \<or> take 2 s = ''0X'')
      then parse_digits 16 False 0 (if take 1 (drop 2 s) = ''_'' then drop 3 s else drop 2 s)
      else parse_digits base False 0 s)"

definition parse_int :: "int \<Rightarrow> string \<Rightarrow> int res" where
  "parse_int base s =
     (let t = py_strip s;
          r = (if take 1 t = ''-'' then map_option uminus (parse_unsigned base (drop 1 t))
               else if take 1 t = ''+'' then parse_unsigned base (drop 1 t) else parse_unsigned base t)
      in case r of None \<Rightarrow> Inl ValueError | Some v \<Rightarrow> Inr v)"

fun split_on :: "char \<Rightarrow> string \<Rightarrow> string list" where
  "split_on c [] = [[]]"
| "split_on c (x # xs) =
     (if x = c then [] # split_on c xs else (case split_on c xs of [] \<Rightarrow> [[x]] | y # ys \<Rightarrow> (x # y) # ys))"

fun mapR :: "('a \<Rightarrow> 'b res) \<Rightarrow> 'a list \<Rightarrow> 'b list res" where
  "mapR f [] = Inr []"
| "mapR f (x # xs) = bindR (f x) (\<lambda>y. bindR (mapR f xs) (\<lambda>ys. Inr (y # ys)))"

definition mac_to_bytes :: "string \<Rightarrow> bytes res" where
  "mac_to_bytes mac =
     (if mac = [] then Inl ProtocolError
      else (let parts = split_on (CHR '':'') mac in
        if length parts \<noteq> 6 then Inl ProtocolError
        else case mapR (\<lambda>p. bindR (parse_int 16 p) (\<lambda>v. if 0 \<le> v \<and> v < 256 then Inr (word_of_int v) else Inl ValueError)) parts of
          Inl e \<Rightarrow> Inl (if isinstance e ValueError then ProtocolError else e)
        | Inr bs \<Rightarrow> Inr bs))"

definition upper_char :: "char \<Rightarrow> char" where
  "upper_char c = (let n = of_char c :: int in if 97 \<le> n \<and> n \<le> 122 then char_of (n - 32) else c)"

abbreviation upper :: "string \<Rightarrow> string" where
  "upper s \<equiv> map upper_char s"

subsection \<open>The data of an entry\<close>

definition CONF_DEVICE_TYPE :: string where "CONF_DEVICE_TYPE = ''device_type''"
definition CONF_MESH_NAME :: string where "CONF_MESH_NAME = ''mesh_name''"
definition CONF_MESH_PASSWORD :: string where "CONF_MESH_PASSWORD = ''mesh_password''"
definition CONF_MAC_ADDRESS :: string where "CONF_MAC_ADDRESS = ''mac_address''"
definition CONF_VENDOR_ID :: string where "CONF_VENDOR_ID = ''vendor_id''"
definition CONF_MESH_ADDRESS :: string where "CONF_MESH_ADDRESS = ''mesh_address''"
definition CONF_UNICAST_TARGET :: string where "CONF_UNICAST_TARGET = ''unicast_target''"
definition CONF_LEVEL_UNICAST_TARGET :: string where "CONF_LEVEL_UNICAST_TARGET = ''level_unicast_target''"
definition CONF_BRIGHTNESS_MODEL_ID :: string where "CONF_BRIGHTNESS_MODEL_ID = ''brightness_model_id''"
definition CONF_UNICAST_OUR :: string where "CONF_UNICAST_OUR = ''unicast_our''"
definition CONF_IV_INDEX :: string where "CONF_IV_INDEX = ''iv_index''"
definition CONF_INITIAL_SEQUENCE :: string where "CONF_INITIAL_SEQUENCE = ''initial_sequence''"
definition CONF_BIND_MODELS :: string where "CONF_BIND_MODELS = ''bind_models''"
definition CONF_BRIDGE_HOST :: string where "CONF_BRIDGE_HOST = ''bridge_host''"
definition CONF_BRIDGE_PORT :: string where "CONF_BRIDGE_PORT = ''bridge_port''"
definition CONF_NET_KEY :: string where "CONF_NET_KEY = ''net_key''"
definition CONF_DEV_KEY :: string where "CONF_DEV_KEY = ''dev_key''"
definition CONF_APP_KEY :: string where "CONF_APP_KEY = ''app_key''"
definition DEVICE_TYPE_LIGHT :: string where "DEVICE_TYPE_LIGHT = ''light''"
definition DEVICE_TYPE_PLUG :: string where "DEVICE_TYPE_PLUG = ''plug''"
definition DEVICE_TYPE_SIG_PLUG :: string where "DEVICE_TYPE_SIG_PLUG = ''sig_plug''"
definition DEVICE_TYPE_SIG_LIGHT :: string where "DEVICE_TYPE_SIG_LIGHT = ''sig_light''"
definition DEVICE_TYPE_SIG_BRIDGE_PLUG :: string where "DEVICE_TYPE_SIG_BRIDGE_PLUG = ''sig_bridge_plug''"
definition DEVICE_TYPE_TELINK_BRIDGE_LIGHT :: string where "DEVICE_TYPE_TELINK_BRIDGE_LIGHT = ''telink_bridge_light''"
definition DEFAULT_VENDOR_ID :: string where "DEFAULT_VENDOR_ID = ''0x1001''"
definition DEFAULT_MESH_ADDRESS :: int where "DEFAULT_MESH_ADDRESS = 0"
definition DEFAULT_IV_INDEX :: int where "DEFAULT_IV_INDEX = 0"

lemmas conf_names = CONF_DEVICE_TYPE_def CONF_MESH_NAME_def CONF_MESH_PASSWORD_def CONF_MAC_ADDRESS_def CONF_VENDOR_ID_def
  CONF_MESH_ADDRESS_def CONF_UNICAST_TARGET_def CONF_LEVEL_UNICAST_TARGET_def CONF_BRIGHTNESS_MODEL_ID_def CONF_UNICAST_OUR_def
  CONF_IV_INDEX_def CONF_INITIAL_SEQUENCE_def CONF_BIND_MODELS_def CONF_BRIDGE_HOST_def CONF_BRIDGE_PORT_def
  CONF_NET_KEY_def CONF_DEV_KEY_def CONF_APP_KEY_def

lemmas device_types = DEVICE_TYPE_LIGHT_def DEVICE_TYPE_PLUG_def DEVICE_TYPE_SIG_PLUG_def DEVICE_TYPE_SIG_LIGHT_def
  DEVICE_TYPE_SIG_BRIDGE_PLUG_def DEVICE_TYPE_TELINK_BRIDGE_LIGHT_def

type_synonym config = "(string, json) dict"

text \<open>\<^verbatim>\<open>data.get(key, default)\<close> and \<^verbatim>\<open>data[key]\<close>.\<close>

definition conf_get :: "config \<Rightarrow> string \<Rightarrow> json \<Rightarrow> json" where
  "conf_get data key dflt = (case dict_get data key of None \<Rightarrow> dflt | Some v \<Rightarrow> v)"

definition conf_item :: "config \<Rightarrow> string \<Rightarrow> json res" where
  "conf_item data key = (case dict_get data key of None \<Rightarrow> Inl KeyError | Some v \<Rightarrow> Inr v)"

fun as_string :: "json \<Rightarrow> string res" where
  "as_string (JStr s) = Inr s"
| "as_string _ = Inl TypeError"

fun as_int :: "json \<Rightarrow> int res" where
  "as_int (JNum q) = Inr \<lfloor>q\<rfloor>"
| "as_int (JBool b) = Inr (of_bool b)"
| "as_int _ = Inl TypeError"

text \<open>\<^verbatim>\<open>int(value, 16)\<close> and \<^verbatim>\<open>int(value)\<close>.\<close>

definition int16 :: "json \<Rightarrow> int res" where
  "int16 j = bindR (as_string j) (parse_int 16)"

fun int_of_json :: "json \<Rightarrow> int res" where
  "int_of_json (JStr s) = parse_int 10 s"
| "int_of_json j = as_int j"

text \<open>The code points of a text.\<close>

definition code_points :: "string \<Rightarrow> pystr" where
  "code_points s = map of_char s"

subsection \<open>The creators\<close>

record mesh_light =
  ml_address :: string
  ml_mac_bytes :: bytes
  ml_mesh_name :: bytes
  ml_mesh_password :: bytes
  ml_vendor_id :: bytes
  ml_device :: telink_device

datatype 's any_device = Mesh_Light mesh_light | Sig_Mesh "(string, json) dict" "'s sig_link"
  | Sig_Bridge sig_bridge | Telink_Bridge telink_bridge

definition create_sig_bridge_plug :: "string \<Rightarrow> config \<Rightarrow> sig_bridge res" where
  "create_sig_bridge_plug mac data =
     bindR (int16 (conf_get data CONF_UNICAST_TARGET (JStr ''00B0''))) (\<lambda>target_addr.
     bindR (conf_item data CONF_BRIDGE_HOST) (\<lambda>h.
     bindR (as_string h) (\<lambda>host. make_sig_bridge (upper mac) target_addr host)))"

definition create_telink_bridge_light :: "string \<Rightarrow> config \<Rightarrow> telink_bridge res" where
  "create_telink_bridge_light mac data =
     bindR (conf_item data CONF_BRIDGE_HOST) (\<lambda>h.
     bindR (as_string h) (\<lambda>host. make_telink_bridge (upper mac) host))"

definition secrets_dict :: "int \<Rightarrow> json \<Rightarrow> json \<Rightarrow> json \<Rightarrow> (string, json) dict" where
  "secrets_dict target_addr net_key dev_key app_key =
     [(''cfg-net-key/password'', net_key),
      (''cfg-dev-key-'' @ format_04x False target_addr @ ''/password'', dev_key),
      (''cfg-app-key/password'', app_key)]"

text \<open>\<^verbatim>\<open>_create_sig_plug\<close>: \<open>store\<close> is the shared store, or the new one in memory.\<close>

definition create_sig_plug ::
  "(int \<Rightarrow> 's \<Rightarrow> 's) \<Rightarrow> 's \<Rightarrow> bool \<Rightarrow> config \<Rightarrow> ((string, json) dict \<times> 's sig_link) res" where
  "create_sig_plug set_seq store connect_callback data =
     (let net_key = conf_get data CONF_NET_KEY (JStr []); dev_key = conf_get data CONF_DEV_KEY (JStr []);
          app_key = conf_get data CONF_APP_KEY (JStr []) in
      if \<not> truthy (Some net_key) \<or> \<not> truthy (Some dev_key) \<or> \<not> truthy (Some app_key) then Inl ValueError
      else
        bindR (int16 (conf_get data CONF_UNICAST_TARGET (JStr ''00B0''))) (\<lambda>target_addr.
        bindR (int16 (conf_get data CONF_LEVEL_UNICAST_TARGET (JStr (format_04x True target_addr)))) (\<lambda>level_target_addr.
        bindR (int_of_json (conf_get data CONF_BRIGHTNESS_MODEL_ID (JNum 0x1002))) (\<lambda>brightness_model_id.
        bindR (int16 (conf_get data CONF_UNICAST_OUR (JStr ''0001''))) (\<lambda>our_addr.
        bindR (as_int (conf_get data CONF_IV_INDEX (JNum (of_int DEFAULT_IV_INDEX)))) (\<lambda>iv_index.
        bindR (int_of_json (conf_get data CONF_INITIAL_SEQUENCE (JNum 0))) (\<lambda>initial_sequence.
          Inr (secrets_dict target_addr net_key dev_key app_key,
               make_sig_link target_addr our_addr ''cfg'' iv_index (set_seq initial_sequence store) connect_callback False
                 (Some level_target_addr) brightness_model_id))))))))"

definition create_default_mesh_device :: "string \<Rightarrow> config \<Rightarrow> mesh_light res" where
  "create_default_mesh_device mac data =
     bindR (conf_item data CONF_MESH_NAME) (\<lambda>name.
     bindR (conf_item data CONF_MESH_PASSWORD) (\<lambda>password.
     bindR (int16 (conf_get data CONF_VENDOR_ID (JStr DEFAULT_VENDOR_ID))) (\<lambda>vendor_id_int.
     bindR (to_bytes_le vendor_id_int 2) (\<lambda>vendor_id_bytes.
     bindR (bindR (as_string name) (\<lambda>s. utf8_encode (code_points s))) (\<lambda>mesh_name.
     bindR (bindR (as_string password) (\<lambda>s. utf8_encode (code_points s))) (\<lambda>mesh_password.
     bindR (as_int (conf_get data CONF_MESH_ADDRESS (JNum (of_int DEFAULT_MESH_ADDRESS)))) (\<lambda>mesh_addr.
     bindR (mac_to_bytes mac) (\<lambda>mac_bytes.
       Inr \<lparr>ml_address = upper mac, ml_mac_bytes = mac_bytes, ml_mesh_name = mesh_name, ml_mesh_password = mesh_password,
            ml_vendor_id = vendor_id_bytes, ml_device = make_telink_device mesh_addr\<rparr>))))))))"

text \<open>\<^verbatim>\<open>create_device\<close>: an unknown type is the default one.\<close>

definition create_device ::
  "(int \<Rightarrow> 's \<Rightarrow> 's) \<Rightarrow> 's \<Rightarrow> bool \<Rightarrow> string \<Rightarrow> string \<Rightarrow> config \<Rightarrow> 's any_device res" where
  "create_device set_seq store connect_callback device_type mac data =
     (if device_type = DEVICE_TYPE_SIG_PLUG \<or> device_type = DEVICE_TYPE_SIG_LIGHT
      then bindR (create_sig_plug set_seq store connect_callback data) (\<lambda>(secrets, l). Inr (Sig_Mesh secrets l))
      else if device_type = DEVICE_TYPE_SIG_BRIDGE_PLUG
      then bindR (create_sig_bridge_plug mac data) (\<lambda>b. Inr (Sig_Bridge b))
      else if device_type = DEVICE_TYPE_TELINK_BRIDGE_LIGHT
      then bindR (create_telink_bridge_light mac data) (\<lambda>b. Inr (Telink_Bridge b))
      else bindR (create_default_mesh_device mac data) (\<lambda>m. Inr (Mesh_Light m)))"

text \<open>The secrets of a created device, as \<open>le_secret\<close> of its environment.\<close>

definition entry_secret :: "(string, json) dict \<Rightarrow> string \<Rightarrow> string \<Rightarrow> pystr res" where
  "entry_secret secrets item field =
     bindR (dict_secrets_get secrets item field) (\<lambda>v. bindR (as_string v) (\<lambda>s. Inr (code_points s)))"

subsection \<open>Capabilities\<close>

record device_capabilities =
  has_status_callback :: bool
  has_onoff_callback :: bool
  has_level_callback :: bool
  has_vendor_callback :: bool
  has_composition_callback :: bool
  has_sig_sequence :: bool
  has_light_control :: bool
  has_power_monitoring :: bool
  protocol_label :: string

text \<open>The attributes that the four classes define.\<close>

fun has_attribute :: "'s any_device \<Rightarrow> string \<Rightarrow> bool" where
  "has_attribute (Mesh_Light _) a \<longleftrightarrow> a \<in> {''register_status_callback'', ''send_brightness''}"
| "has_attribute (Sig_Mesh _ _) a \<longleftrightarrow> a \<in> {''register_onoff_callback'', ''register_level_callback'', ''register_vendor_callback'',
     ''register_composition_callback'', ''set_seq'', ''get_seq''}"
| "has_attribute (Sig_Bridge _) a \<longleftrightarrow> a \<in> {''register_onoff_callback'', ''register_vendor_callback''}"
| "has_attribute (Telink_Bridge _) a \<longleftrightarrow> a \<in> {''register_status_callback'', ''send_brightness''}"

definition from_device :: "'s any_device \<Rightarrow> device_capabilities" where
  "from_device d = \<lparr>has_status_callback = has_attribute d ''register_status_callback'',
     has_onoff_callback = has_attribute d ''register_onoff_callback'',
     has_level_callback = has_attribute d ''register_level_callback'',
     has_vendor_callback = has_attribute d ''register_vendor_callback'',
     has_composition_callback = has_attribute d ''register_composition_callback'',
     has_sig_sequence = has_attribute d ''set_seq'' \<and> has_attribute d ''get_seq'',
     has_light_control = has_attribute d ''send_brightness'',
     has_power_monitoring = has_attribute d ''supports_power_monitoring'',
     protocol_label = (if has_attribute d ''set_seq'' then ''SIG_Mesh'' else ''Tuya_BLE'')\<rparr>"


subsection \<open>Reading numbers\<close>

lemma digit_value_range: "digit_value base c = Some d \<Longrightarrow> 0 \<le> d \<and> d < base"
  by (auto simp: digit_value_def Let_def split: if_splits)

lemma digit_value_underscore: "base \<le> 36 \<Longrightarrow> digit_value base (CHR ''_'') = None"
  by (simp add: digit_value_def)

lemma digit_value_space: "base \<le> 36 \<Longrightarrow> py_space c \<Longrightarrow> digit_value base c = None"
  by (auto simp: digit_value_def py_space_def Let_def)

lemma parse_digits_total:
  assumes "base \<le> 36" "list_all (\<lambda>c. digit_value base c \<noteq> None) s" "s \<noteq> [] \<or> after_digit" "0 \<le> acc"
  shows "\<exists>v. parse_digits base after_digit acc s = Some v \<and> 0 \<le> v \<and> v < (acc + 1) * base ^ length s"
  using assms(2-)
proof (induction s arbitrary: after_digit acc)
  case (Cons c s)
  then obtain d where d: "digit_value base c = Some d" by auto
  note r = digit_value_range [OF d]
  have c: "c \<noteq> CHR ''_''" using d digit_value_underscore [OF assms(1)] by auto
  have "0 \<le> acc * base + d" using Cons.prems(3) r by simp
  from Cons.IH [OF _ _ this, of True] obtain v where v: "parse_digits base True (acc * base + d) s = Some v" "0 \<le> v"
    "v < (acc * base + d + 1) * base ^ length s" using Cons.prems(1) by auto
  have "acc * base + d + 1 \<le> (acc + 1) * base" using r by (simp add: algebra_simps)
  then have "(acc * base + d + 1) * base ^ length s \<le> (acc + 1) * base * base ^ length s"
    using r by (intro mult_right_mono) auto
  with v(3) have "v < (acc + 1) * base ^ length (c # s)" by (simp add: algebra_simps)
  with v(1,2) c d show ?case by simp
qed simp

lemma py_strip_no_space:
  assumes "s = [] \<or> \<not> py_space (hd s) \<and> \<not> py_space (last s)" shows "py_strip s = s"
proof -
  have "dropWhile py_space s = s" "dropWhile py_space (rev s) = rev s"
    using assms by (auto simp: dropWhile_eq_self_iff hd_rev)
  then show ?thesis by (simp add: py_strip_def)
qed

lemma py_strip_ends: "py_strip s = [] \<or> \<not> py_space (hd (py_strip s)) \<and> \<not> py_space (last (py_strip s))"
proof -
  let ?t = "dropWhile py_space s"
  have last: "\<not> py_space (last (py_strip s))" if "py_strip s \<noteq> []"
    using that hd_dropWhile [of py_space "rev ?t"] by (auto simp: py_strip_def last_rev)
  have hd: "\<not> py_space (hd (py_strip s))" if "py_strip s \<noteq> []"
  proof -
    have split: "?t = py_strip s @ rev (takeWhile py_space (rev ?t))"
      unfolding py_strip_def by (metis rev_append rev_rev_ident takeWhile_dropWhile_id)
    then have "hd ?t = hd (py_strip s)" using that by (metis hd_append2)
    moreover have "?t \<noteq> []" using split that by (metis Nil_is_append_conv)
    ultimately show ?thesis using hd_dropWhile [of py_space s] by auto
  qed
  from last hd show ?thesis by blast
qed

lemma py_strip_idem [simp]: "py_strip (py_strip s) = py_strip s"
  using py_strip_ends by (rule py_strip_no_space)

lemma parse_int_strip [simp]: "parse_int base (py_strip s) = parse_int base s"
  by (simp add: parse_int_def)

text \<open>Hexadecimal digits, with spaces around them or not, are read as the number that they are.\<close>

lemma parse_unsigned_hex:
  assumes "list_all (\<lambda>c. digit_value 16 c \<noteq> None) h" "h \<noteq> []"
  shows "\<exists>v. parse_unsigned 16 h = Some v \<and> 0 \<le> v \<and> v < 16 ^ length h"
proof -
  have "take 2 h \<noteq> ''0x''" "take 2 h \<noteq> ''0X''"
    using assms by (cases h; cases "tl h"; auto simp: digit_value_def)+
  then show ?thesis using parse_digits_total [of 16 h False 0] assms by (simp add: parse_unsigned_def)
qed

lemma parse_int_hex:
  assumes "py_strip s = h" "list_all (\<lambda>c. digit_value 16 c \<noteq> None) h" "h \<noteq> []"
  shows "\<exists>v. parse_int 16 s = Inr v \<and> 0 \<le> v \<and> v < 16 ^ length h"
proof -
  have "take 1 h \<noteq> ''-''" "take 1 h \<noteq> ''+''"
    using assms by (cases h; auto simp: digit_value_def)+
  then show ?thesis using parse_unsigned_hex [OF assms(2,3)] assms(1) by (auto simp: parse_int_def)
qed

lemma parse_int_prefixed:
  assumes "py_strip s = p @ h" "p = ''0x'' \<or> p = ''0X''" "list_all (\<lambda>c. digit_value 16 c \<noteq> None) h" "h \<noteq> []"
  shows "\<exists>v. parse_int 16 s = Inr v \<and> 0 \<le> v \<and> v < 16 ^ length h"
proof -
  have "take 1 h \<noteq> ''_''"
    using assms(3,4) by (cases h; auto simp: digit_value_def)
  then have "parse_unsigned 16 (p @ h) = parse_digits 16 False 0 h"
    using assms(2) by (auto simp: parse_unsigned_def)
  with parse_digits_total [of 16 h False 0] assms show ?thesis by (auto simp: parse_int_def)
qed

text \<open>Reading back what the formats \<^verbatim>\<open>04x\<close> and \<^verbatim>\<open>04X\<close> print.\<close>

lemma digits_of_value:
  assumes "n < 16" shows "digit_value 16 (digits_of u ! n) = Some (int n)"
proof -
  have "list_all (\<lambda>n. digit_value 16 (digits_of True ! n) = Some (int n) \<and> digit_value 16 (digits_of False ! n) = Some (int n)) [0..<16]"
    by code_simp
  with assms show ?thesis by (cases u) (simp_all add: list_all_iff)
qed

lemma parse_hex_of_nat:
  "parse_digits 16 after_digit acc (hex_of_nat u n @ t) = parse_digits 16 True (acc * 16 ^ length (hex_of_nat u n) + int n) t
    \<and> hex_of_nat u n \<noteq> [] \<and> list_all (\<lambda>c. digit_value 16 c \<noteq> None) (hex_of_nat u n)"
proof (induction u n arbitrary: after_digit acc t rule: hex_of_nat.induct)
  case (1 u n)
  have step: "parse_digits 16 f a (digits_of u ! k # t) = parse_digits 16 True (a * 16 + int k) t" if "k < 16" for f a k t
    using digits_of_value [OF that, of u] digit_value_underscore [of 16] by auto
  show ?case
  proof (cases "n < 16")
    case True
    then show ?thesis using step [OF True] digits_of_value [OF True, of u] by (simp add: hex_of_nat.simps [of u n])
  next
    case False
    have "n mod 16 < 16" by simp
    from 1 [OF False] step [OF this] digits_of_value [OF this, of u] False show ?thesis
      by (simp add: hex_of_nat.simps [of u n] algebra_simps zdiv_int zmod_int flip: power_Suc)
  qed
qed

lemma parse_zeros:
  "parse_digits 16 after_digit 0 (replicate k (CHR ''0'') @ s) = parse_digits 16 (after_digit \<or> 0 < k) 0 s"
  by (induction k arbitrary: after_digit) (simp_all add: digit_value_def)

lemma parse_int_format [simp]:
  assumes "0 \<le> v" shows "parse_int 16 (format_04x u v) = Inr v"
proof -
  let ?h = "replicate (4 - length (hex_of_nat u (nat v))) (CHR ''0'') @ hex_of_nat u (nat v)"
  note h = parse_hex_of_nat [of _ _ u "nat v"]
  have zero: "digit_value 16 (CHR ''0'') = Some 0" by (simp add: digit_value_def)
  have hex: "list_all (\<lambda>c. digit_value 16 c \<noteq> None) ?h" "?h \<noteq> []"
    using h [of True 0 "[]"] zero by (auto simp: list_all_iff)
  have no: "\<forall>c \<in> set ?h. \<not> py_space c"
    using hex(1) digit_value_space [of 16] by (force simp only: list_all_iff)
  have strip: "py_strip ?h = ?h"
    using no hd_in_set [OF hex(2)] last_in_set [OF hex(2)] by (intro py_strip_no_space) blast
  have differs: "take k ?h \<noteq> t" if "c \<in> set t" "digit_value 16 c = None" for k t c
  proof
    assume "take k ?h = t"
    with that(1) have "c \<in> set ?h" using set_take_subset [of k ?h] by blast
    with that(2) hex(1) show False unfolding list_all_iff by blast
  qed
  have "\<not> (take 1 ?h = ''-'' \<or> take 1 ?h = ''+'') \<and> \<not> (take 2 ?h = ''0x'' \<or> take 2 ?h = ''0X'')"
    using differs [of "CHR ''-''" "''-''" 1] differs [of "CHR ''+''" "''+''" 1] differs [of "CHR ''x''" "''0x''" 2]
      differs [of "CHR ''X''" "''0X''" 2] by (simp add: digit_value_def del: append_Cons take_append)
  moreover have "parse_digits 16 False 0 ?h = Some v"
    using h [of _ 0 "[]"] assms by (simp only: parse_zeros) simp
  ultimately show ?thesis
    using strip assms by (simp add: parse_int_def parse_unsigned_def format_04x_def zero_fill_def)
qed

text \<open>Upper case letters are read as the lower case ones.\<close>

lemma upper_char_facts:
  "digit_value 16 (upper_char c) = digit_value 16 c" "py_space (upper_char c) = py_space c"
  "(upper_char c = CHR ''_'') = (c = CHR ''_'')"
proof -
  show "digit_value 16 (upper_char c) = digit_value 16 c" "py_space (upper_char c) = py_space c"
    by (auto simp: upper_char_def digit_value_def py_space_def Let_def)
  have "char_of (of_char c - 32 :: int) \<noteq> CHR ''_''" if "97 \<le> (of_char c :: int)" "(of_char c :: int) \<le> 122"
  proof
    assume "char_of (of_char c - 32 :: int) = CHR ''_''"
    from arg_cong [where f = "of_char :: char \<Rightarrow> int", OF this] that show False by simp
  qed
  then show "(upper_char c = CHR ''_'') = (c = CHR ''_'')" by (auto simp: upper_char_def Let_def)
qed

lemma py_strip_upper: "py_strip (upper s) = upper (py_strip s)"
  by (simp add: py_strip_def dropWhile_map rev_map comp_def upper_char_facts)

lemma parse_digits_upper: "parse_digits 16 f acc (upper s) = parse_digits 16 f acc s"
  by (induction s arbitrary: f acc) (simp_all add: upper_char_facts split: option.splits)

subsection \<open>The secrets of a device\<close>

text \<open>
  A device is created exactly when it has the three keys and the numbers of its entry can be read; then it
  finds its keys under the names that it asks for.
\<close>

lemma created_device_loads_its_keys:
  assumes "create_sig_plug set_seq store connect_callback data = Inr (secrets, l)" "le_secret env = entry_secret secrets"
    and "dict_get data CONF_NET_KEY = Some (JStr net)" "dict_get data CONF_DEV_KEY = Some (JStr dev)"
    and "dict_get data CONF_APP_KEY = Some (JStr app)"
  shows "load_keys lib env l =
    (case make_mesh_keys lib (code_points net) (code_points dev) (Some (code_points app)) (sl_iv_index l) of
       Inl e \<Rightarrow> (Inl e, l) | Inr keys \<Rightarrow> (Inr (), on_device (\<lambda>d. d\<lparr>sd_keys := Some keys\<rparr>) l))"
proof -
  from assms(1,3-5) obtain target level model our iv q where
    created: "secrets = secrets_dict target (JStr net) (JStr dev) (JStr app)"
    "l = make_sig_link target our ''cfg'' iv (set_seq q store) connect_callback False (Some level) model"
    by (auto simp: create_sig_plug_def conf_get_def Let_def res_simps split: if_splits)
  have names: "entry_secret secrets ''cfg-net-key'' ''password'' = Inr (code_points net)"
    "entry_secret secrets (''cfg-dev-key-'' @ format_04x False target) ''password'' = Inr (code_points dev)"
    "entry_secret secrets ''cfg-app-key'' ''password'' = Inr (code_points app)"
    by (simp_all add: entry_secret_def created(1) secrets_dict_def dict_secrets_get_def)
  have "sl_op_item_prefix l = ''cfg''" "sn_target_addr (sl_node l) = target"
    by (simp_all add: created(2) make_sig_link_def)
  with names show ?thesis by (simp add: load_keys_def assms(2) split: sum.splits)
qed

end
