(* ===== verification/Config_Validators.thy ===== *)
theory Config_Validators
  imports Device_Factory
begin

text \<open>
  \<^verbatim>\<open>config_flow_validators.py\<close>: the checks of what a user enters.  The regular expressions are written out
  as predicates; \<^verbatim>\<open>$\<close> also matches before a final line break.  \<open>ip_address\<close> is what Python's
  \<^verbatim>\<open>ipaddress.ip_address\<close> reads out of a host name that the expression has let through, which has no colon
  together with a full stop.
\<close>

subsection \<open>Characters\<close>

definition is_hex :: "char \<Rightarrow> bool" where
  "is_hex c \<longleftrightarrow> digit_value 16 c \<noteq> None"

definition is_digit :: "char \<Rightarrow> bool" where
  "is_digit c \<longleftrightarrow> digit_value 10 c \<noteq> None"

definition is_alnum :: "char \<Rightarrow> bool" where
  "is_alnum c \<longleftrightarrow> digit_value 36 c \<noteq> None"

definition at_end :: "string \<Rightarrow> bool" where
  "at_end s \<longleftrightarrow> s = [] \<or> s = [CHR 0x0A]"

subsection \<open>Keys, addresses and numbers\<close>

definition validate_hex_key :: "string \<Rightarrow> bool" where
  "validate_hex_key value \<longleftrightarrow> 32 \<le> length value \<and> list_all is_hex (take 32 value) \<and> at_end (drop 32 value)"

text \<open>Five pairs of digits with a colon, and a last pair.\<close>

definition validate_mac :: "string \<Rightarrow> string option" where
  "validate_mac mac =
     (if 17 \<le> length mac \<and> (\<forall>i < 17. if i mod 3 = 2 then mac ! i = CHR '':'' else is_hex (mac ! i)) \<and> at_end (drop 17 mac)
      then None else Some ''invalid_mac'')"

definition MESH_CREDENTIAL_MAX_LEN :: nat where "MESH_CREDENTIAL_MAX_LEN = 16"

definition validate_mesh_credential :: "string \<Rightarrow> string option res" where
  "validate_mesh_credential value =
     bindR (utf8_encode (code_points value)) (\<lambda>bs.
       Inr (if length bs > MESH_CREDENTIAL_MAX_LEN then Some ''invalid_credential_length'' else None))"

definition short_hex :: "string \<Rightarrow> bool" where
  "short_hex s \<longleftrightarrow> (let h = takeWhile is_hex s in 1 \<le> length h \<and> length h \<le> 4 \<and> at_end (drop (length h) s))"

definition validate_vendor_id :: "string \<Rightarrow> string option" where
  "validate_vendor_id value =
     (let v = py_strip value in
      if (take 2 v = ''0x'' \<or> take 2 v = ''0X'') \<and> short_hex (drop 2 v) \<or> short_hex v then None
      else Some ''invalid_vendor_id'')"

fun validate_iv_index :: "json \<Rightarrow> string option" where
  "validate_iv_index (JNum q) = (if 0 \<le> q \<and> q \<le> 0xFFFFFFFF then None else Some ''invalid_iv_index'')"
| "validate_iv_index _ = Some ''invalid_iv_index''"

definition validate_unicast_address :: "string \<Rightarrow> string option" where
  "validate_unicast_address value =
     (let v = py_strip value in
      if \<not> (4 \<le> length v \<and> list_all is_hex (take 4 v) \<and> at_end (drop 4 v)) then Some ''invalid_unicast_address''
      else case parse_int 16 v of
        Inl e \<Rightarrow> Some ''invalid_unicast_address''
      | Inr parsed \<Rightarrow> if 1 \<le> parsed \<and> parsed \<le> 0x7FFF then None else Some ''invalid_unicast_address'')"

subsection \<open>Bridge hosts\<close>

text \<open>A label: at most 63 letters, digits and hyphens, no hyphen at its ends.\<close>

definition host_label :: "string \<Rightarrow> bool" where
  "host_label s \<longleftrightarrow> s \<noteq> [] \<and> length s \<le> 63 \<and> is_alnum (hd s) \<and> is_alnum (last s)
     \<and> list_all (\<lambda>c. is_alnum c \<or> c = CHR ''-'') s"

definition host_pattern :: "string \<Rightarrow> bool" where
  "host_pattern s \<longleftrightarrow>
     length (split_on (CHR ''.'') s) = 4
       \<and> list_all (\<lambda>p. 1 \<le> length p \<and> length p \<le> 3 \<and> list_all is_digit p) (split_on (CHR ''.'') s)
     \<or> s \<noteq> [] \<and> list_all (\<lambda>c. is_hex c \<or> c = CHR '':'') s
     \<or> list_all host_label (split_on (CHR ''.'') s)"

datatype ip = IPv4 int | IPv6 int

definition parse_octet :: "string \<Rightarrow> int option" where
  "parse_octet s =
     (if s = [] \<or> \<not> list_all is_digit s \<or> length s > 3 \<or> s \<noteq> ''0'' \<and> hd s = CHR ''0'' then None
      else case parse_digits 10 False 0 s of None \<Rightarrow> None | Some v \<Rightarrow> if v > 255 then None else Some v)"

definition parse_hextet :: "string \<Rightarrow> int option" where
  "parse_hextet s = (if \<not> list_all is_hex s \<or> length s > 4 then None else parse_digits 16 False 0 s)"

text \<open>The number with the given digits, if all of them could be read.\<close>

fun join_parts :: "int \<Rightarrow> int \<Rightarrow> int option list \<Rightarrow> int option" where
  "join_parts base acc [] = Some acc"
| "join_parts base acc (None # ps) = None"
| "join_parts base acc (Some v # ps) = join_parts base (acc * base + v) ps"

definition ipv4_address :: "string \<Rightarrow> int option" where
  "ipv4_address s =
     (let octets = split_on (CHR ''.'') s in
      if length octets \<noteq> 4 then None else join_parts 256 0 (map parse_octet octets))"

text \<open>The positions of the inner parts that are empty: two colons in a row.\<close>

definition skips :: "string list \<Rightarrow> nat list" where
  "skips parts = filter (\<lambda>i. parts ! i = []) [1..<length parts - 1]"

definition ipv6_address :: "string \<Rightarrow> int option" where
  "ipv6_address s =
     (let parts = split_on (CHR '':'') s; n = length parts in
      if n < 3 \<or> n > 9 then None
      else case skips parts of
        [] \<Rightarrow> if n \<noteq> 8 \<or> hd parts = [] \<or> last parts = [] then None
              else join_parts 65536 0 (map parse_hextet parts)
      | [k] \<Rightarrow>
          (let hi = (if hd parts = [] then k - 1 else k);
               lo = (if last parts = [] then n - k - 2 else n - k - 1) in
           if hd parts = [] \<and> hi \<noteq> 0 \<or> last parts = [] \<and> lo \<noteq> 0 \<or> hi + lo > 7 then None
           else join_parts 65536 0 (map parse_hextet (take hi parts) @ replicate (8 - (hi + lo)) (Some 0)
                  @ map parse_hextet (drop (n - lo) parts)))
      | _ \<Rightarrow> None)"

definition ip_address :: "string \<Rightarrow> ip option" where
  "ip_address s =
     (case ipv4_address s of Some a \<Rightarrow> Some (IPv4 a) | None \<Rightarrow> map_option IPv6 (ipv6_address s))"

text \<open>The networks: first address and length of the prefix.\<close>

definition PRIVATE_IPV4_NETS :: "(int \<times> nat) list" where
  "PRIVATE_IPV4_NETS = [(0x7F000000, 8), (0xA9FE0000, 16), (0x64400000, 10), (0xC0000200, 24), (0xC6336400, 24), (0xCB007100, 24)]"

definition PRIVATE_IPV6_NETS :: "(int \<times> nat) list" where
  "PRIVATE_IPV6_NETS = [(1, 128), (0xFE800000000000000000000000000000, 10)]"

fun in_private_net :: "ip \<Rightarrow> bool" where
  "in_private_net (IPv4 a) \<longleftrightarrow> list_ex (\<lambda>(net, l). a div 2 ^ (32 - l) = net div 2 ^ (32 - l)) PRIVATE_IPV4_NETS"
| "in_private_net (IPv6 a) \<longleftrightarrow> list_ex (\<lambda>(net, l). a div 2 ^ (128 - l) = net div 2 ^ (128 - l)) PRIVATE_IPV6_NETS"

definition is_ssrf_risk :: "string \<Rightarrow> bool" where
  "is_ssrf_risk host \<longleftrightarrow> take 2 host = ''0x'' \<or> take 2 host = ''0X''
     \<or> (case ip_address host of None \<Rightarrow> False | Some a \<Rightarrow> in_private_net a)"

text \<open>The expression is matched against the text without spaces around it, so \<open>at_end\<close> is the end.\<close>

fun contains :: "string \<Rightarrow> string \<Rightarrow> bool" where
  "contains sub [] = (sub = [])"
| "contains sub (c # cs) = (take (length sub) (c # cs) = sub \<or> contains sub cs)"

definition validate_bridge_host :: "string \<Rightarrow> string option" where
  "validate_bridge_host value =
     (let host = py_strip value in
      if host = [] \<or> contains ''://'' host \<or> CHR ''/'' \<in> set host \<or> CHR 0x5C \<in> set host
        \<or> \<not> host_pattern host \<or> is_ssrf_risk host
      then Some ''invalid_bridge_host'' else None)"

subsection \<open>Testing a bridge\<close>

text \<open>The answer of the daemon: an exception, or a status and the JSON value of the body, if it is one.\<close>

datatype bridge_answer = Answer_Error | Answer int "json option"

fun parse_json_body :: "json option \<Rightarrow> (string \<times> json) list" where
  "parse_json_body (Some (JObj kvs)) = kvs"
| "parse_json_body _ = []"

fun test_bridge_with_session :: "bridge_answer \<Rightarrow> bool" where
  "test_bridge_with_session Answer_Error = False"
| "test_bridge_with_session (Answer status body) =
     (status = 200 \<and> map_of (parse_json_body body) ''status'' = Some (JStr ''ok''))"


subsection \<open>What the checks guarantee\<close>

lemma is_hex_iff: "is_hex = (\<lambda>c. digit_value 16 c \<noteq> None)"
  by (simp add: fun_eq_iff is_hex_def)

lemma hex_digit_char: "hex_digit (of_char c) = digit_value 16 c"
  by (auto simp: hex_digit_def digit_value_def Let_def)

lemma ascii_space_hex: "digit_value 16 c \<noteq> None \<Longrightarrow> \<not> ascii_space (of_char c)"
  by (auto simp: ascii_space_def digit_value_def Let_def split: if_splits)

lemma bytes_fromhex_hex:
  "list_all is_hex h \<Longrightarrow> length h = 2 * n \<Longrightarrow> at_end r
    \<Longrightarrow> \<exists>b. bytes_fromhex (code_points (h @ r)) = Inr b \<and> length b = n"
proof (induction n arbitrary: h)
  case 0
  then show ?case by (auto simp: at_end_def code_points_def ascii_space_def)
next
  case (Suc n)
  then obtain c d t where h: "h = c # d # t" by (metis length_Suc_conv mult_Suc_right add_2_eq_Suc)
  with Suc.prems obtain x y where xy: "digit_value 16 c = Some x" "digit_value 16 d = Some y" by (auto simp: is_hex_def)
  from Suc.IH [of t] Suc.prems h obtain b where "bytes_fromhex (code_points (t @ r)) = Inr b" "length b = n" by auto
  with xy show ?case using ascii_space_hex [of c] by (auto simp: h code_points_def hex_digit_char)
qed

text \<open>A key that is accepted is sixteen bytes, also with a line break after it.\<close>

lemma valid_key_bytes:
  assumes "validate_hex_key value"
  shows "\<exists>b. bytes_fromhex (code_points value) = Inr b \<and> length b = 16" "value \<noteq> []"
  using bytes_fromhex_hex [of "take 32 value" 16 "drop 32 value"] assms by (auto simp: validate_hex_key_def)

lemma stripped_end: "at_end (drop n (py_strip s)) \<Longrightarrow> n \<le> length (py_strip s) \<Longrightarrow> 0 < n \<Longrightarrow> length (py_strip s) = n"
proof (rule ccontr)
  assume at: "at_end (drop n (py_strip s))" and n: "n \<le> length (py_strip s)" "0 < n" and "length (py_strip s) \<noteq> n"
  then have "drop n (py_strip s) = [CHR 0x0A]" by (auto simp: at_end_def)
  then have "last (py_strip s) = CHR 0x0A" by (metis last_drop last.simps not_Cons_self2 drop_eq_Nil not_le)
  moreover have "py_strip s \<noteq> []" using n by auto
  ultimately show False using py_strip_ends [of s] by (simp add: py_space_def)
qed

lemma valid_unicast_address:
  assumes "validate_unicast_address value = None"
  shows "\<exists>a. int16 (JStr value) = Inr a \<and> 1 \<le> a \<and> a \<le> 0x7FFF"
  using assms by (auto simp: validate_unicast_address_def int16_def Let_def split: if_splits sum.splits)

lemma valid_vendor_id:
  assumes "validate_vendor_id value = None"
  shows "\<exists>v b. int16 (JStr value) = Inr v \<and> to_bytes_le v 2 = Inr b \<and> length b = 2"
proof -
  have two: "\<exists>b. to_bytes_le v 2 = Inr b \<and> length b = 2" if "0 \<le> v" "v < 16 ^ n" "n \<le> 4" for v :: int and n
  proof -
    have "(16 :: int) ^ n \<le> 16 ^ 4" using that(3) by (intro power_increasing) auto
    with that show ?thesis by (auto simp: to_bytes_le_def fits_unsigned_def)
  qed
  have split: "\<exists>h. t = h \<and> list_all (\<lambda>c. digit_value 16 c \<noteq> None) h \<and> h \<noteq> [] \<and> length h \<le> 4"
    if "short_hex t" "t = drop k (py_strip value)" "k \<le> length (py_strip value)" for t k
  proof -
    let ?h = "takeWhile is_hex t"
    from that(1) have h: "1 \<le> length ?h" "length ?h \<le> 4" "at_end (drop (length ?h) t)" by (simp_all add: short_hex_def Let_def)
    have le: "length ?h \<le> length t" by (simp add: length_takeWhile_le)
    have "length (py_strip value) = k + length ?h"
    proof (rule stripped_end)
      show "at_end (drop (k + length ?h) (py_strip value))" using h(3) that(2) by (simp add: add.commute)
      show "k + length ?h \<le> length (py_strip value)" using le that(2,3) by simp
      show "0 < k + length ?h" using h(1) by linarith
    qed
    then have "length ?h = length t" using that(2,3) by simp
    then have same: "?h = t" by (metis takeWhile_eq_take take_all order_refl)
    have "list_all is_hex ?h" by (simp add: list_all_iff) (blast dest: set_takeWhileD)
    then have "list_all is_hex t" "1 \<le> length t" "length t \<le> 4" using h(1,2) unfolding same by simp_all
    then show ?thesis by (intro exI [of _ t]) (auto simp: list_all_iff is_hex_def)
  qed
  let ?v = "py_strip value"
  have "\<exists>x. parse_int 16 value = Inr x \<and> 0 \<le> x \<and> (\<exists>n \<le> 4. x < 16 ^ n)"
  proof (cases "(take 2 ?v = ''0x'' \<or> take 2 ?v = ''0X'') \<and> short_hex (drop 2 ?v)")
    case True
    then have "2 \<le> length ?v" by (cases "length ?v \<le> 2") (auto simp: short_hex_def Let_def)
    with True split [of "drop 2 ?v" 2] parse_int_prefixed [of "value" "take 2 ?v" "drop 2 ?v"] show ?thesis
      by (auto simp: append_take_drop_id [of 2 ?v])
  next
    case False
    then have "short_hex ?v" using assms by (auto simp: validate_vendor_id_def Let_def split: if_splits)
    with split [of ?v 0] parse_int_hex [of "value" ?v] show ?thesis by auto
  qed
  then obtain x n where "parse_int 16 value = Inr x" "0 \<le> x" "n \<le> 4" "x < 16 ^ n" by blast
  with two [of x n] show ?thesis by (auto simp: int16_def)
qed

lemma two_hex_digits:
  assumes "is_hex a" "is_hex b" "at_end r"
  shows "\<exists>v. parse_int 16 (a # b # r) = Inr v \<and> 0 \<le> v \<and> v < 256"
proof -
  have hex: "list_all (\<lambda>c. digit_value 16 c \<noteq> None) [a, b]" using assms(1,2) by (simp add: is_hex_def)
  then have no: "\<not> py_space a" "\<not> py_space b" using digit_value_space [of 16] by auto
  have "py_space (CHR 0x0A)" by (simp add: py_space_def)
  with no assms(3) have "py_strip (a # b # r) = [a, b]" by (auto simp: at_end_def py_strip_def)
  from parse_int_hex [OF this hex] show ?thesis by simp
qed

lemma valid_mac_bytes:
  assumes "validate_mac mac = None"
  shows "\<exists>b. mac_to_bytes mac = Inr b \<and> length b = 6"
proof -
  from assms have len: "17 \<le> length mac" and at: "at_end (drop 17 mac)"
    and m: "\<And>i. i < 17 \<Longrightarrow> if i mod 3 = 2 then mac ! i = CHR '':'' else is_hex (mac ! i)"
    by (auto simp: validate_mac_def split: if_splits)
  let ?r = "drop 17 mac"
  have positions: "[0..<17] = [0 :: nat, 1, 2, 3, 4, 5, 6, 7, 8, 9, 10, 11, 12, 13, 14, 15, 16]" by code_simp
  have "take 17 mac = map ((!) mac) [0..<17]" using len by (intro nth_equalityI) auto
  then have "mac = map ((!) mac) [0..<17] @ ?r" by (metis append_take_drop_id)
  then have mac: "mac = [mac ! 0, mac ! 1, CHR '':'', mac ! 3, mac ! 4, CHR '':'', mac ! 6, mac ! 7, CHR '':'', mac ! 9, mac ! 10,
      CHR '':'', mac ! 12, mac ! 13, CHR '':'', mac ! 15, mac ! 16] @ ?r"
    using m [of 2] m [of 5] m [of 8] m [of 11] m [of 14] unfolding positions by simp
  have hex: "is_hex (mac ! i)" if "i \<in> {0, 1, 3, 4, 6, 7, 9, 10, 12, 13, 15, 16}" for i
    using m [of i] that by (auto split: if_splits)
  have colon: "c \<noteq> CHR '':''" if "is_hex c" for c using that by (auto simp: is_hex_def digit_value_def)
  have r: "?r = [] \<or> ?r = [CHR 0x0A]" using at by (simp add: at_end_def)
  have split: "split_on (CHR '':'') mac = [[mac ! 0, mac ! 1], [mac ! 3, mac ! 4], [mac ! 6, mac ! 7], [mac ! 9, mac ! 10],
      [mac ! 12, mac ! 13], mac ! 15 # mac ! 16 # ?r]"
    using r hex [THEN colon] by (subst mac) (elim disjE; simp)
  have two: "\<exists>v. parse_int 16 (mac ! i # mac ! j # t) = Inr v \<and> 0 \<le> v \<and> v < 256"
    if "i \<in> {0, 1, 3, 4, 6, 7, 9, 10, 12, 13, 15, 16}" "j \<in> {0, 1, 3, 4, 6, 7, 9, 10, 12, 13, 15, 16}" "at_end t" for i j t
    using two_hex_digits [OF hex [OF that(1)] hex [OF that(2)] that(3)] .
  have e: "at_end []" by (simp add: at_end_def)
  show ?thesis
    using two [of 0 1, OF _ _ e] two [of 3 4, OF _ _ e] two [of 6 7, OF _ _ e] two [of 9 10, OF _ _ e] two [of 12 13, OF _ _ e]
      two [of 15 16, OF _ _ at]
    by (subst mac_to_bytes_def) (use len split in \<open>auto\<close>)
qed

subsection \<open>Dotted addresses\<close>

fun decimal :: "nat \<Rightarrow> string" where
  "decimal n = (if n < 10 then [char_of (48 + n)] else decimal (n div 10) @ [char_of (48 + n mod 10)])"

declare decimal.simps [simp del]

definition dotted :: "nat \<Rightarrow> nat \<Rightarrow> nat \<Rightarrow> nat \<Rightarrow> string" where
  "dotted a b c d = decimal a @ ''.'' @ decimal b @ ''.'' @ decimal c @ ''.'' @ decimal d"

text \<open>One, two or three digits, the first not zero.\<close>

lemma decimal_digit:
  assumes "k < 10"
  shows "digit_value 10 (char_of (48 + k)) = Some (int k)" "(char_of (48 + k) = CHR ''0'') = (k = 0)"
    "char_of (48 + k) \<notin> {CHR ''.'', CHR ''x'', CHR ''X'', CHR ''_''}"
proof -
  have "list_all (\<lambda>k. digit_value 10 (char_of (48 + k)) = Some (int k) \<and> (char_of (48 + k) = CHR ''0'') = (k = 0)
      \<and> char_of (48 + k) \<notin> {CHR ''.'', CHR ''x'', CHR ''X'', CHR ''_''}) [0..<10]"
    by code_simp
  with assms show "digit_value 10 (char_of (48 + k)) = Some (int k)" "(char_of (48 + k) = CHR ''0'') = (k = 0)"
    "char_of (48 + k) \<notin> {CHR ''.'', CHR ''x'', CHR ''X'', CHR ''_''}"
    unfolding list_all_iff by auto
qed

lemma decimal_three:
  "n < 1000 \<Longrightarrow> decimal n =
    (if n < 10 then [char_of (48 + n)] else if n < 100 then [char_of (48 + n div 10), char_of (48 + n mod 10)]
     else [char_of (48 + n div 100), char_of (48 + n div 10 mod 10), char_of (48 + n mod 10)])"
proof -
  assume "n < 1000"
  then have "(n div 10 < 10) = (n < 100)" "n div 100 < 10" by linarith+
  then show ?thesis
    by (simp add: decimal.simps [of n] decimal.simps [of "n div 10"] decimal.simps [of "n div 100"] div_mult2_eq [symmetric])
qed

lemma three_digits: "(n div 100 * 10 + n div 10 mod 10) * 10 + n mod 10 = (n :: nat)"
proof -
  have "n div 100 = n div 10 div 10" by (simp add: div_mult2_eq [symmetric])
  then show ?thesis by (simp only: div_mult_mod_eq)
qed

lemma octets:
  assumes "n < 256"
  shows "parse_octet (decimal n) = Some (int n)" "set (decimal n) \<inter> {CHR ''.'', CHR ''x'', CHR ''X''} = {}"
proof -
  consider "n < 10" | "10 \<le> n" "n < 100" | "100 \<le> n" by linarith
  then have "parse_octet (decimal n) = Some (int n) \<and> set (decimal n) \<inter> {CHR ''.'', CHR ''x'', CHR ''X''} = {}"
  proof cases
    case 1
    with decimal_digit [of n] show ?thesis by (auto simp: decimal_three parse_octet_def is_digit_def)
  next
    case 2
    then have "n div 10 < 10" "n mod 10 < 10" "n div 10 \<noteq> 0" by auto
    moreover have "int (n div 10) * 10 + int (n mod 10) = int n" by (simp add: zdiv_int zmod_int)
    ultimately show ?thesis using 2 decimal_digit [of "n div 10"] decimal_digit [of "n mod 10"]
      by (auto simp: decimal_three parse_octet_def is_digit_def)
  next
    case 3
    then have "n div 100 < 10" "n div 10 mod 10 < 10" "n mod 10 < 10" "n div 100 \<noteq> 0" using assms by auto
    moreover have "(int (n div 100) * 10 + int (n div 10 mod 10)) * 10 + int (n mod 10) = int n"
      using arg_cong [where f = int, OF three_digits [of n]] by (simp only: of_nat_add of_nat_mult of_nat_numeral)
    ultimately show ?thesis
      using 3 assms decimal_digit [of "n div 100"] decimal_digit [of "n div 10 mod 10"] decimal_digit [of "n mod 10"]
      by (auto simp: decimal_three parse_octet_def is_digit_def)
  qed
  then show "parse_octet (decimal n) = Some (int n)" "set (decimal n) \<inter> {CHR ''.'', CHR ''x'', CHR ''X''} = {}" by simp_all
qed

lemma split_on_append: "c \<notin> set s \<Longrightarrow> split_on c (s @ c # t) = s # split_on c t"
  by (induction s) auto

lemma split_on_none: "c \<notin> set s \<Longrightarrow> split_on c s = [s]"
  by (induction s) auto

lemma digit_eq:
  fixes x y u v :: int
  assumes "0 \<le> x" "x < 256" "0 \<le> y" "y < 256" shows "(u * 256 + x = v * 256 + y) = (u = v \<and> x = y)"
proof -
  have "(u * 256 + x) div 256 = u" "(u * 256 + x) mod 256 = x" "(v * 256 + y) div 256 = v" "(v * 256 + y) mod 256 = y"
    using assms by simp_all
  then show ?thesis by metis
qed

text \<open>On an address in dotted decimal notation the check against server-side request forgery is exact: it finds
  the addresses of the loopback, link-local, carrier-grade NAT and documentation networks, and no others.\<close>

theorem ssrf_check_exact:
  assumes "a < 256" "b < 256" "c < 256" "d < 256"
  shows "is_ssrf_risk (dotted a b c d) \<longleftrightarrow> a = 127 \<or> (a, b) = (169, 254) \<or> a = 100 \<and> 64 \<le> b \<and> b < 128
    \<or> (a, b, c) \<in> {(192, 0, 2), (198, 51, 100), (203, 0, 113)}"
proof -
  note o = octets [OF assms(1)] octets [OF assms(2)] octets [OF assms(3)] octets [OF assms(4)]
  have "split_on (CHR ''.'') (dotted a b c d) = [decimal a, decimal b, decimal c, decimal d]"
    using o by (auto simp: dotted_def split_on_append split_on_none)
  then have addr: "ip_address (dotted a b c d) = Some (IPv4 (((int a * 256 + int b) * 256 + int c) * 256 + int d))"
    using o by (simp add: ip_address_def ipv4_address_def)
  have prefix: "take 2 (dotted a b c d) \<noteq> ''0x''" "take 2 (dotted a b c d) \<noteq> ''0X''"
  proof -
    have "CHR ''x'' \<notin> set (dotted a b c d)" "CHR ''X'' \<notin> set (dotted a b c d)"
      using o by (auto simp: dotted_def)
    moreover have "set (take 2 (dotted a b c d)) \<subseteq> set (dotted a b c d)" by (rule set_take_subset)
    ultimately show "take 2 (dotted a b c d) \<noteq> ''0x''" "take 2 (dotted a b c d) \<noteq> ''0X''" by auto
  qed
  let ?x = "((int a * 256 + int b) * 256 + int c) * 256 + int d"
  obtain q r where qr: "int b div 64 = q" "int b mod 64 = r" "int b = 64 * q + r" "0 \<le> r" "r < 64"
    using mult_div_mod_eq [of 64 "int b"] pos_mod_bound [of 64 "int b"] pos_mod_sign [of 64 "int b"] by (metis zero_less_numeral)
  have d8: "?x div 16777216 = int a"
    by (rule int_div_pos_eq [where r = "(int b * 256 + int c) * 256 + int d"]) (use assms in \<open>simp_all add: algebra_simps\<close>)
  have d16: "?x div 65536 = int a * 256 + int b"
    by (rule int_div_pos_eq [where r = "int c * 256 + int d"]) (use assms in \<open>simp_all add: algebra_simps\<close>)
  have d10: "?x div 4194304 = int a * 4 + q"
    by (rule int_div_pos_eq [where r = "(r * 256 + int c) * 256 + int d"]) (use assms qr(3-5) in \<open>simp_all add: algebra_simps\<close>)
  have d24: "?x div 256 = (int a * 256 + int b) * 256 + int c"
    by (rule int_div_pos_eq [where r = "int d"]) (use assms in \<open>simp_all add: algebra_simps\<close>)
  have "0 \<le> q" "q < 4" using assms(2) qr(3-5) by linarith+
  then have "(int a * 4 + q = 401) = (a = 100 \<and> q = 1)" by presburger
  moreover have "(q = 1) = (64 \<le> b \<and> b < 128)" using qr(3-5) by linarith
  ultimately have nets: "(int a * 4 + q = 401) = (a = 100 \<and> 64 \<le> b \<and> b < 128)"
    "(int a * 256 + int b = 43518) = (a = 169 \<and> b = 254)"
    "((int a * 256 + int b) * 256 + int c = 12582914) = (a = 192 \<and> b = 0 \<and> c = 2)"
    "((int a * 256 + int b) * 256 + int c = 12989284) = (a = 198 \<and> b = 51 \<and> c = 100)"
    "((int a * 256 + int b) * 256 + int c = 13303921) = (a = 203 \<and> b = 0 \<and> c = 113)"
    using assms digit_eq [of "int b" 254 "int a" 169]
      digit_eq [of "int c" 2 "int a * 256 + int b" 49152] digit_eq [of "int b" 0 "int a" 192]
      digit_eq [of "int c" 100 "int a * 256 + int b" 50739] digit_eq [of "int b" 51 "int a" 198]
      digit_eq [of "int c" 113 "int a * 256 + int b" 51968] digit_eq [of "int b" 0 "int a" 203] by simp_all
  show ?thesis
    by (simp add: is_ssrf_risk_def prefix addr PRIVATE_IPV4_NETS_def d8 d16 d10 d24 nets del: distrib_right_numeral)
qed

theorem ssrf_check_exact_witness:
  "is_ssrf_risk (dotted 127 0 0 1) \<and> \<not> is_ssrf_risk (dotted 192 168 1 20)"
  using ssrf_check_exact [of 127 0 0 1] ssrf_check_exact [of 192 168 1 20] by simp

text \<open>
  The same addresses in other notations that a resolver accepts get through, and so does a line break that the
  devices refuse.
\<close>

theorem bridge_host_accepted:
  "validate_bridge_host ''2130706433'' = None" "validate_bridge_host ''127.1'' = None" "validate_bridge_host ''localhost'' = None"
  "validate_bridge_host ''::ffff:7f00:1'' = None" "validate_bridge_host ''0.0.0.0'' = None"
  "validate_bridge_host (''pi.local'' @ [CHR 0x0A]) = None \<and> bad_host (''pi.local'' @ [CHR 0x0A])"
  by code_simp+

end
