(* ===== verification/Prov_Connection.thy ===== *)
theory Prov_Connection
  imports Sig_Device Sig_Provisioning
begin

text \<open>
  The provisioner around its exchange: \<^verbatim>\<open>lib/tuya_ble_mesh/sig_mesh_provisioner_connection.py\<close> and
  \<^verbatim>\<open>SIGMeshProvisioner\<close> of \<^verbatim>\<open>sig_mesh_provisioner.py\<close>.  The trace has the events of \<open>Sig_Device\<close>; the
  client of attempt \<open>k\<close> is \<open>k\<close>.  The record \<open>prov_link_env\<close> says how the awaited calls end, among them
  \<^verbatim>\<open>bluetoothctl\<close>: \<open>None\<close> when the process ended or was killed after its timeout.
\<close>

definition PROV_SERVICE :: string where "PROV_SERVICE = ''00001827-0000-1000-8000-00805f9b34fb''"
definition BLE_SLOT_RELEASE_DELAY :: seconds where "BLE_SLOT_RELEASE_DELAY = 1"
definition BLUEZ_CACHE_SETTLE_DELAY :: seconds where "BLUEZ_CACHE_SETTLE_DELAY = 1 / 2"
definition SCAN_RETRY_BACKOFF_BASE :: seconds where "SCAN_RETRY_BACKOFF_BASE = 2"
definition SCAN_RETRY_BACKOFF_EXPONENT :: rat where "SCAN_RETRY_BACKOFF_EXPONENT = 3 / 2"
definition SCAN_RETRY_MAX_BACKOFF :: seconds where "SCAN_RETRY_MAX_BACKOFF = 10"
definition CONNECT_RETRY_BACKOFF_BASE :: seconds where "CONNECT_RETRY_BACKOFF_BASE = 3"
definition CONNECT_RETRY_BACKOFF_EXPONENT :: rat where "CONNECT_RETRY_BACKOFF_EXPONENT = 3 / 2"
definition PROV_CONNECT_MAX_BACKOFF :: seconds where "PROV_CONNECT_MAX_BACKOFF = 15"
definition SLOTS_RETRY_BACKOFF_BASE :: seconds where "SLOTS_RETRY_BACKOFF_BASE = 5"
definition SLOTS_RETRY_BACKOFF_EXPONENT :: rat where "SLOTS_RETRY_BACKOFF_EXPONENT = 3 / 2"
definition SLOTS_RETRY_MAX_BACKOFF :: seconds where "SLOTS_RETRY_MAX_BACKOFF = 20"

lemmas prov_backoffs = SCAN_RETRY_BACKOFF_BASE_def SCAN_RETRY_BACKOFF_EXPONENT_def SCAN_RETRY_MAX_BACKOFF_def
  CONNECT_RETRY_BACKOFF_BASE_def CONNECT_RETRY_BACKOFF_EXPONENT_def PROV_CONNECT_MAX_BACKOFF_def
  SLOTS_RETRY_BACKOFF_BASE_def SLOTS_RETRY_BACKOFF_EXPONENT_def SLOTS_RETRY_MAX_BACKOFF_def

subsection \<open>State\<close>

text \<open>
  A managed connection is opened by the callback of Home Assistant, which may return no client.  The UUIDs of
  the services are \<open>None\<close> when there is no list of them.
\<close>

record prov_link_env =
  pe_managed :: bool
  pe_scan :: "nat \<Rightarrow> bool res"
  pe_open :: "nat \<Rightarrow> bool res"
  pe_is_connected :: "nat \<Rightarrow> bool"
  pe_services :: "nat \<Rightarrow> string list option res"
  pe_slot_error :: "nat \<Rightarrow> bool"
  pe_close :: "nat \<Rightarrow> py_error option"
  pe_stop_notify :: "nat \<Rightarrow> py_error option"
  pe_bluetoothctl :: "nat \<Rightarrow> py_error option"
  pe_exchange :: "nat \<Rightarrow> prov_env"

record prov_link =
  pl_trace :: "link_event list"
  pl_exchanged :: "prov_event list"

definition log_prov :: "link_event \<Rightarrow> prov_link \<Rightarrow> prov_link" where
  "log_prov e l = l\<lparr>pl_trace := pl_trace l @ [e]\<rparr>"

definition pause :: "seconds \<Rightarrow> (prov_link, unit) action" where
  "pause t l = (Inr (), log_prov (Settle t) l)"

text \<open>The checks of \<^verbatim>\<open>__init__\<close>; the key pair is the parameter \<open>our_pub_key_bytes\<close>.\<close>

definition make_provisioner :: "bytes \<Rightarrow> bytes \<Rightarrow> bytes \<Rightarrow> int \<Rightarrow> int \<Rightarrow> int \<Rightarrow> int \<Rightarrow> provisioner res" where
  "make_provisioner our_pub_key_bytes net_key app_key unicast_addr net_key_index iv_index flags =
     (if length net_key \<noteq> 16 then Inl ProvisioningError
      else if length app_key \<noteq> 16 then Inl ProvisioningError
      else Inr \<lparr>pv_our_pub_key_bytes = our_pub_key_bytes, pv_net_key = net_key, pv_app_key = app_key,
        pv_net_key_index = net_key_index, pv_iv_index = iv_index, pv_flags = flags, pv_unicast_addr = unicast_addr\<rparr>)"

subsection \<open>Connecting\<close>

definition cleanup_stale_connections :: "prov_link_env \<Rightarrow> nat \<Rightarrow> (prov_link, unit) action" where
  "cleanup_stale_connections env k l =
     (let l1 = log_prov Remove_From_Cache l in
      case pe_bluetoothctl env k of None \<Rightarrow> pause BLUEZ_CACHE_SETTLE_DELAY l1
      | Some e \<Rightarrow> (if isinstance e TimeoutError \<or> isinstance e OSError then Inr () else Inl e, l1))"

definition open_prov_client :: "prov_link_env \<Rightarrow> nat \<Rightarrow> prov_link \<Rightarrow> unit res \<times> nat option \<times> prov_link" where
  "open_prov_client env k l =
     (if pe_managed env then
        (let l1 = log_prov (Open_Client k) l in
         case pe_open env k of
           Inl e \<Rightarrow> (Inl e, None, l1)
         | Inr ok \<Rightarrow> if ok then (Inr (), Some k, log_prov (New_Client k) l1) else (Inl ProvisioningError, None, l1))
      else
        (let l1 = log_prov (Open_Client k) (log_prov (New_Client k) l) in
         case pe_open env k of Inl e \<Rightarrow> (Inl e, Some k, l1) | Inr _ \<Rightarrow> (Inr (), Some k, l1)))"

definition verify_services :: "prov_link_env \<Rightarrow> nat \<Rightarrow> unit res" where
  "verify_services env k =
     (if \<not> pe_is_connected env k then Inl ProvisioningError
      else case pe_services env k of
        Inl e \<Rightarrow> if isinstance e TimeoutError then Inr () else Inl e
      | Inr services \<Rightarrow>
          (case services of None \<Rightarrow> Inr ()
           | Some uuids \<Rightarrow> if uuids \<noteq> [] \<and> PROV_SERVICE \<notin> set uuids then Inl ProvisioningError else Inr ()))"

text \<open>The body of an attempt: whether a device was found, and the local variable \<^verbatim>\<open>client\<close>.\<close>

definition prov_attempt_body :: "prov_link_env \<Rightarrow> nat \<Rightarrow> prov_link \<Rightarrow> bool res \<times> nat option \<times> prov_link" where
  "prov_attempt_body env k l =
     (let l0 = log_prov Find_Device l in
      case pe_scan env k of
        Inl e \<Rightarrow> (Inl e, None, l0)
      | Inr found \<Rightarrow>
          if \<not> found then
            (Inr False, None,
             snd (pause (min (SCAN_RETRY_BACKOFF_BASE * SCAN_RETRY_BACKOFF_EXPONENT ^ (k - 1)) SCAN_RETRY_MAX_BACKOFF) l0))
          else (case open_prov_client env k l0 of
              (Inl e, client, l1) \<Rightarrow> (Inl e, client, l1)
            | (Inr _, client, l1) \<Rightarrow>
                (case verify_services env k of Inl e \<Rightarrow> (Inl e, client, l1) | Inr _ \<Rightarrow> (Inr True, client, l1))))"

text \<open>Closing a client: \<open>suppressed\<close> are the exceptions that the \<^verbatim>\<open>with\<close> statement drops.\<close>

definition close_prov_client :: "prov_link_env \<Rightarrow> (py_error \<Rightarrow> bool) \<Rightarrow> nat option \<Rightarrow> (prov_link, unit) action" where
  "close_prov_client env suppressed client l =
     (case client of None \<Rightarrow> (Inr (), l)
      | Some c \<Rightarrow>
         (case pe_close env c of None \<Rightarrow> Inr () | Some e \<Rightarrow> if suppressed e then Inr () else Inl e,
          log_prov (Close_Client c) l))"

definition bleak_or_os :: "py_error \<Rightarrow> bool" where
  "bleak_or_os e \<longleftrightarrow> isinstance e BleakError \<or> isinstance e OSError"

definition os_only :: "py_error \<Rightarrow> bool" where
  "os_only e \<longleftrightarrow> isinstance e OSError \<or> isinstance e TimeoutError"

definition connect_backoff :: "nat \<Rightarrow> seconds" where
  "connect_backoff k = min (CONNECT_RETRY_BACKOFF_BASE * CONNECT_RETRY_BACKOFF_EXPONENT ^ (k - 1)) PROV_CONNECT_MAX_BACKOFF"

definition slots_backoff :: "nat \<Rightarrow> seconds" where
  "slots_backoff k = min (SLOTS_RETRY_BACKOFF_BASE * SLOTS_RETRY_BACKOFF_EXPONENT ^ (k - 1)) SLOTS_RETRY_MAX_BACKOFF"

text \<open>One attempt with its \<^verbatim>\<open>except\<close> clauses: the client, or \<open>None\<close> when the loop goes on.\<close>

definition prov_attempt :: "prov_link_env \<Rightarrow> nat \<Rightarrow> (prov_link, nat option) action" where
  "prov_attempt env k l =
     (case prov_attempt_body env k l of
        (Inr found, client, l1) \<Rightarrow> (Inr (if found then client else None), l1)
      | (Inl e, client, l1) \<Rightarrow>
          if isinstance e ProvisioningError then
            bindS (close_prov_client env bleak_or_os client) (\<lambda>_. liftS (Inl e)) l1
          else if isinstance e TimeoutError then
            bindS (close_prov_client env os_only client) (\<lambda>_.
            bindS (pause (connect_backoff k)) (\<lambda>_. liftS (Inr None))) l1
          else if isinstance e OSError \<or> isinstance e BleakError then
            bindS (close_prov_client env os_only client) (\<lambda>_.
            bindS (if pe_slot_error env k then
                     bindS (if pe_managed env then liftS (Inr ()) else cleanup_stale_connections env k) (\<lambda>_.
                       pause (slots_backoff k))
                   else pause (connect_backoff k)) (\<lambda>_. liftS (Inr None))) l1
          else (Inl e, l1))"

text \<open>The attempts from number \<open>k\<close> on, of which \<open>left\<close> remain.\<close>

fun prov_attempts :: "prov_link_env \<Rightarrow> nat \<Rightarrow> nat \<Rightarrow> (prov_link, nat) action" where
  "prov_attempts env 0 k l = (Inl ProvisioningError, l)"
| "prov_attempts env (Suc left) k l =
     (case prov_attempt env k l of
        (Inl e, l1) \<Rightarrow> (Inl e, l1)
      | (Inr client, l1) \<Rightarrow> (case client of Some c \<Rightarrow> (Inr c, l1) | None \<Rightarrow> prov_attempts env left (Suc k) l1))"

definition prov_connect :: "prov_link_env \<Rightarrow> nat \<Rightarrow> (prov_link, nat) action" where
  "prov_connect env max_retries = prov_attempts env max_retries 1"

subsection \<open>Provisioning\<close>

definition exchange_with :: "prov_link_env \<Rightarrow> provisioner \<Rightarrow> nat \<Rightarrow> (prov_link, provisioning_result) action" where
  "exchange_with env pv c l =
     (case run_exchange (pe_exchange env c) pv start_state of (r, s) \<Rightarrow> (r, l\<lparr>pl_exchanged := pl_exchanged l @ es_trace s\<rparr>))"

text \<open>The \<^verbatim>\<open>finally\<close> clause.\<close>

definition release_client :: "prov_link_env \<Rightarrow> nat \<Rightarrow> (prov_link, unit) action" where
  "release_client env c =
     bindS (\<lambda>l. (case pe_stop_notify env c of None \<Rightarrow> Inr () | Some e \<Rightarrow> if bleak_or_os e then Inr () else Inl e,
                 log_prov (Unsubscribe c Data_Out_Uuid) l)) (\<lambda>_.
     bindS (close_prov_client env bleak_or_os (Some c)) (\<lambda>_. pause BLE_SLOT_RELEASE_DELAY))"

definition sig_provision :: "prov_link_env \<Rightarrow> provisioner \<Rightarrow> nat \<Rightarrow> (prov_link, provisioning_result) action" where
  "sig_provision env pv max_retries =
     bindS (if pe_managed env then liftS (Inr ()) else cleanup_stale_connections env 0) (\<lambda>_.
     bindS (prov_connect env max_retries) (\<lambda>c l.
       case exchange_with env pv c l of
         (r, l1) \<Rightarrow> (case release_client env c l1 of (Inl e, l2) \<Rightarrow> (Inl e, l2) | (Inr _, l2) \<Rightarrow> (r, l2))))"

subsection \<open>The clients of the trace\<close>

definition adds_prov :: "(link_event list \<Rightarrow> bool) \<Rightarrow> prov_link \<Rightarrow> prov_link \<Rightarrow> bool" where
  "adds_prov P l l1 \<longleftrightarrow> (\<exists>es. pl_trace l1 = pl_trace l @ es \<and> P es)"

lemma adds_prov_trans:
  "adds_prov P l l1 \<Longrightarrow> adds_prov Q l1 l2 \<Longrightarrow> (\<And>es fs. P es \<Longrightarrow> Q fs \<Longrightarrow> R (es @ fs)) \<Longrightarrow> adds_prov R l l2"
  unfolding adds_prov_def by (metis append.assoc)

lemma log_prov_trace [simp]: "pl_trace (log_prov e l) = pl_trace l @ [e]"
  by (simp add: log_prov_def)

lemma pause_result [simp]: "pause t l = (Inr (), log_prov (Settle t) l)"
  by (simp add: pause_def)

lemma held_prefix: "clients_of es = [] \<and> (\<forall>c. Close_Client c \<notin> set es) \<Longrightarrow> held (es @ fs) = held fs"
  by (simp add: held_def)

lemma cleanup_adds:
  "cleanup_stale_connections env k l = (r, l1) \<Longrightarrow> adds_prov (\<lambda>es. clients_of es = [] \<and> (\<forall>c. Close_Client c \<notin> set es)) l l1"
  by (auto simp: cleanup_stale_connections_def Let_def adds_prov_def split: option.splits)

lemma prov_body_adds:
  assumes "prov_attempt_body env k l = (r, client, l1)"
  shows "adds_prov (\<lambda>es. clients_of es = (case client of None \<Rightarrow> [] | Some c \<Rightarrow> [c]) \<and> (\<forall>c. Close_Client c \<notin> set es)) l l1"
    and "client \<in> {None, Some k}" "r = Inr True \<longrightarrow> client = Some k" "r = Inr False \<longrightarrow> client = None"
  using assms
  by (auto simp: prov_attempt_body_def open_prov_client_def Let_def adds_prov_def split: sum.splits if_splits prod.splits)

text \<open>An attempt leaves its client open when it returns it, and otherwise only with an exception that no clause names.\<close>

definition prov_attempt_trace :: "nat \<Rightarrow> nat option res \<Rightarrow> link_event list \<Rightarrow> bool" where
  "prov_attempt_trace k r es \<longleftrightarrow> set (clients_of es) \<subseteq> {k} \<and> (\<forall>c. Close_Client c \<in> set es \<longrightarrow> c = k)
    \<and> (case r of Inr client \<Rightarrow> (client = None \<and> held es = []) \<or> (client = Some k \<and> held es = [k])
       | Inl e \<Rightarrow> length (held es) \<le> 1 \<and> (isinstance e ProvisioningError \<longrightarrow> held es = []))"

lemma prov_attempt_adds:
  assumes "prov_attempt env k l = (r, l1)"
  shows "adds_prov (prov_attempt_trace k r) l l1"
proof -
  let ?P = "\<lambda>client es. clients_of es = (case client of None \<Rightarrow> [] | Some c \<Rightarrow> [c]) \<and> (\<forall>c. Close_Client c \<notin> set es)"
  let ?Q = "\<lambda>client es. clients_of es = [] \<and> (\<forall>c. Close_Client c \<in> set es \<longleftrightarrow> client = Some c)"
  obtain rb client l2 where body: "prov_attempt_body env k l = (rb, client, l2)" using prod_cases3 by blast
  note b = prov_body_adds [OF body]
  show ?thesis
  proof (cases "\<exists>e. rb = Inl e \<and> (isinstance e ProvisioningError \<or> isinstance e TimeoutError \<or> isinstance e OSError \<or> isinstance e BleakError)")
    case False
    then show ?thesis using assms body b
      by (fastforce simp: prov_attempt_def adds_prov_def prov_attempt_trace_def held_def split: sum.splits if_splits)
  next
    case True
    then obtain e where e: "rb = Inl e" "isinstance e ProvisioningError \<or> isinstance e TimeoutError \<or> isinstance e OSError \<or> isinstance e BleakError"
      by blast
    have "adds_prov (?Q client) l2 l1 \<and> (case r of Inr c \<Rightarrow> c = None | Inl _ \<Rightarrow> True)"
      using assms body e
      by (auto simp: prov_attempt_def close_prov_client_def cleanup_stale_connections_def adds_prov_def bindS_def liftS_def Let_def
          split: option.splits if_splits sum.splits prod.splits)
    then have q: "adds_prov (?Q client) l2 l1" and "case r of Inr c \<Rightarrow> c = None | Inl _ \<Rightarrow> True" by simp_all
    then show ?thesis
      using b(2) by (intro adds_prov_trans [OF b(1) q]) (auto simp: prov_attempt_trace_def held_def split: sum.splits)
  qed
qed

lemma prov_attempts_adds:
  assumes "prov_attempts env n k l = (r, l1)"
  shows "adds_prov (\<lambda>es. (\<forall>c \<in> set (clients_of es). k \<le> c) \<and> (\<forall>c. Close_Client c \<in> set es \<longrightarrow> k \<le> c)
    \<and> (case r of Inr c \<Rightarrow> held es = [c] \<and> k \<le> c \<and> c < k + n
       | Inl e \<Rightarrow> length (held es) \<le> 1 \<and> (isinstance e ProvisioningError \<longrightarrow> held es = []))) l l1"
  using assms
proof (induction n arbitrary: k l)
  case 0
  then show ?case by (auto simp: adds_prov_def held_def)
next
  case (Suc n)
  obtain r2 l2 where first: "prov_attempt env k l = (r2, l2)" by fastforce
  note f = prov_attempt_adds [OF first]
  show ?case
  proof (cases "r2 = Inr None")
    case False
    then show ?thesis using Suc.prems first f
      by (fastforce simp: adds_prov_def prov_attempt_trace_def split: sum.splits option.splits)
  next
    case True
    then have rest: "prov_attempts env n (Suc k) l2 = (r, l1)" using Suc.prems first by simp
    show ?thesis
    proof (rule adds_prov_trans [OF f Suc.IH [OF rest]])
      fix es fs
      assume es: "prov_attempt_trace k r2 es" and fs: "(\<forall>c \<in> set (clients_of fs). Suc k \<le> c)
        \<and> (\<forall>c. Close_Client c \<in> set fs \<longrightarrow> Suc k \<le> c) \<and> (case r of Inr c \<Rightarrow> held fs = [c] \<and> Suc k \<le> c \<and> c < Suc k + n
         | Inl e \<Rightarrow> length (held fs) \<le> 1 \<and> (isinstance e ProvisioningError \<longrightarrow> held fs = []))"
      have "held (es @ fs) = held es @ held fs"
        using es fs by (intro held_append) (fastforce simp: prov_attempt_trace_def)+
      with es fs True show "(\<forall>c \<in> set (clients_of (es @ fs)). k \<le> c)
        \<and> (\<forall>c. Close_Client c \<in> set (es @ fs) \<longrightarrow> k \<le> c) \<and> (case r of Inr c \<Rightarrow> held (es @ fs) = [c] \<and> k \<le> c \<and> c < k + Suc n
         | Inl e \<Rightarrow> length (held (es @ fs)) \<le> 1 \<and> (isinstance e ProvisioningError \<longrightarrow> held (es @ fs) = []))"
        by (fastforce simp: prov_attempt_trace_def split: sum.splits)
    qed
  qed
qed

lemma release_adds:
  assumes "release_client env c l = (r, l1)" "\<And>e. pe_stop_notify env c = Some e \<Longrightarrow> bleak_or_os e"
  shows "adds_prov (\<lambda>es. clients_of es = [] \<and> (\<forall>d. Close_Client d \<in> set es \<longleftrightarrow> d = c)) l l1"
  using assms
  by (auto simp: release_client_def bindS_def close_prov_client_def adds_prov_def split: option.splits if_splits sum.splits prod.splits)

subsection \<open>Properties\<close>

text \<open>C29: However the scans, the connections and the exchange end, provisioning leaves no client open when it
  returns a result, and none when it raises ProvisioningError; with any other exception at most one.  Stopping
  the notifications is expected to fail only with the errors that are suppressed.\<close>

theorem provisioning_releases_client:
  assumes "sig_provision env pv max_retries l = (r, l1)" and "\<And>c e. pe_stop_notify env c = Some e \<Longrightarrow> bleak_or_os e"
  shows "\<exists>es. pl_trace l1 = pl_trace l @ es
    \<and> (case r of Inr result \<Rightarrow> held es = []
       | Inl e \<Rightarrow> length (held es) \<le> 1 \<and> (isinstance e ProvisioningError \<longrightarrow> held es = []))"
proof -
  let ?P = "\<lambda>es. clients_of es = [] \<and> (\<forall>c. Close_Client c \<notin> set es)"
  obtain r0 l0 where clean: "(if pe_managed env then liftS (Inr ()) else cleanup_stale_connections env 0) l = (r0, l0)" by fastforce
  have c0: "adds_prov ?P l l0"
    using clean cleanup_adds [of env 0 l r0 l0] by (auto simp: liftS_def adds_prov_def split: if_splits)
  show ?thesis
  proof (cases r0)
    case (Inl e)
    with clean assms(1) have "r = Inl e" "l1 = l0" by (simp_all add: sig_provision_def bindS_def)
    with c0 show ?thesis by (auto simp: adds_prov_def held_def)
  next
    case (Inr u)
    obtain rc l2 where conn: "prov_connect env max_retries l0 = (rc, l2)" by fastforce
    let ?C = "\<lambda>es. case rc of Inr c \<Rightarrow> held es = [c]
        | Inl e \<Rightarrow> length (held es) \<le> 1 \<and> (isinstance e ProvisioningError \<longrightarrow> held es = [])"
    have "adds_prov ?C l0 l2"
      using prov_attempts_adds [OF conn [unfolded prov_connect_def]] by (auto simp: adds_prov_def split: sum.splits)
    then have c: "adds_prov ?C l l2"
    proof (rule adds_prov_trans [OF c0])
      fix es fs
      assume "?P es" and "?C fs"
      then show "?C (es @ fs)" by (simp only: held_prefix [OF \<open>?P es\<close>])
    qed
    show ?thesis
    proof (cases rc)
      case (Inl e)
      with clean Inr conn assms(1) have "r = Inl e" "l1 = l2" by (simp_all add: sig_provision_def bindS_def)
      with c Inl show ?thesis by (simp add: adds_prov_def)
    next
      case c_ok: (Inr k)
      obtain re l3 where ex: "exchange_with env pv k l2 = (re, l3)" by fastforce
      obtain rr l4 where rel: "release_client env k l3 = (rr, l4)" by fastforce
      have l1: "l1 = l4" using clean Inr conn c_ok ex rel assms(1) by (auto simp: sig_provision_def bindS_def split: sum.splits)
      have "pl_trace l3 = pl_trace l2" using ex by (auto simp: exchange_with_def split: prod.splits)
      with release_adds [OF rel assms(2)] have "adds_prov (\<lambda>es. clients_of es = [] \<and> (\<forall>d. Close_Client d \<in> set es \<longleftrightarrow> d = k)) l2 l4"
        by (simp add: adds_prov_def)
      then have "adds_prov (\<lambda>es. held es = []) l l4"
      proof (rule adds_prov_trans [OF c])
        fix es fs
        assume "?C es" and fs: "clients_of fs = [] \<and> (\<forall>d. Close_Client d \<in> set fs \<longleftrightarrow> d = k)"
        then have "\<forall>c \<in> set (clients_of es). Close_Client c \<in> set es \<or> c = k"
          using c_ok by (force simp: held_def filter_eq_Cons_iff dest: arg_cong [where f = set])
        with fs show "held (es @ fs) = []" by (auto simp: held_def filter_empty_conv)
      qed
      then show ?thesis by (auto simp: adds_prov_def l1 split: sum.splits)
    qed
  qed
qed

text \<open>
  The clauses for the errors that are retried suppress \<^verbatim>\<open>OSError\<close> only: when closing the client fails with the
  error of the Bluetooth library, the loop ends with that error, not with ProvisioningError.
\<close>

lemma close_error_ends_retries:
  assumes "\<not> pe_managed env" "pe_scan env k = Inr True" "pe_open env k = Inl TimeoutError" "pe_close env k = Some BleakError"
  shows "fst (prov_attempts env (Suc n) k l) = Inl BleakError"
proof -
  have "\<not> isinstance TimeoutError ProvisioningError" "isinstance TimeoutError TimeoutError" "\<not> os_only BleakError"
    by (simp_all add: isinstance_def os_only_def eval_nat_numeral)
  then show ?thesis
    using assms by (simp add: prov_attempt_def prov_attempt_body_def open_prov_client_def close_prov_client_def Let_def bindS_def)
qed


subsection \<open>Witnesses\<close>

text \<open>The first scan finds nothing, the second connection times out, and the exchange over the third fails.\<close>

definition demo_prov_link_env :: prov_link_env where
  "demo_prov_link_env = \<lparr>pe_managed = False, pe_scan = (\<lambda>k. Inr (k > 1)), pe_open = (\<lambda>k. if k = 2 then Inl TimeoutError else Inr True),
     pe_is_connected = (\<lambda>_. True), pe_services = (\<lambda>_. Inr (Some [PROV_SERVICE])), pe_slot_error = (\<lambda>_. False),
     pe_close = (\<lambda>_. None), pe_stop_notify = (\<lambda>_. Some BleakError), pe_bluetoothctl = (\<lambda>_. None),
     pe_exchange = (\<lambda>_. \<lparr>pe_lib = demo_lib, pe_ecdh = (\<lambda>pub. Inr (take 32 pub)), pe_random = [], pe_mtu = 23,
       pe_pair = None, pe_start_notify = Some ProvisioningError, pe_write = (\<lambda>k. None), pe_before = (\<lambda>i. []), pe_during = (\<lambda>i. [])\<rparr>)\<rparr>"

theorem provisioning_releases_client_witness:
  "\<exists>l1. sig_provision demo_prov_link_env demo_provisioner 5 \<lparr>pl_trace = [], pl_exchanged = []\<rparr> = (Inl ProvisioningError, l1)
    \<and> clients_of (pl_trace l1) = [2, 3] \<and> held (pl_trace l1) = []"
proof -
  let ?run = "sig_provision demo_prov_link_env demo_provisioner 5 \<lparr>pl_trace = [], pl_exchanged = []\<rparr>"
  obtain r l1 where run: "?run = (r, l1)" by fastforce
  have "(case fst ?run of Inl e \<Rightarrow> e = ProvisioningError | Inr x \<Rightarrow> False) \<and> clients_of (pl_trace (snd ?run)) = [2, 3]"
    by code_simp
  then have r: "r = Inl ProvisioningError" "clients_of (pl_trace l1) = [2, 3]" unfolding run by (simp_all split: sum.splits)
  have "bleak_or_os e" if "pe_stop_notify demo_prov_link_env c = Some e" for c e
    using that by (auto simp: demo_prov_link_env_def bleak_or_os_def)
  from provisioning_releases_client [OF run this] r run show ?thesis by auto
qed

end
