(* ===== verification/Sig_Setup.thy ===== *)
theory Sig_Setup
  imports Config_Validators Prov_Connection
begin

text \<open>
  Setting up SIG Mesh devices, \<^verbatim>\<open>config_flow_sig.py\<close> with \<^verbatim>\<open>_finalize_entry\<close> of \<^verbatim>\<open>config_flow.py\<close>:
  the elements of the composition data, the binding of an existing light, the provisioning of a plug, and the
  steps that turn what the user enters into a config entry.  The steps of a flow return \<open>flow_result\<close>; what
  Home Assistant does with it, and its check for an entry with the same identifier, is not modelled.  Values
  that the user enters are strings, numbers or flags, as the schema of the form makes them.
\<close>

definition UNICAST_PROVISIONER :: int where "UNICAST_PROVISIONER = 0x0001"
definition UNICAST_DEVICE_DEFAULT :: int where "UNICAST_DEVICE_DEFAULT = 0x00B0"
definition MODEL_GENERIC_ONOFF_SERVER :: int where "MODEL_GENERIC_ONOFF_SERVER = 0x1000"
definition MODEL_GENERIC_LEVEL_SERVER :: int where "MODEL_GENERIC_LEVEL_SERVER = 0x1002"
definition MODEL_LIGHT_LIGHTNESS_SERVER :: int where "MODEL_LIGHT_LIGHTNESS_SERVER = 0x1300"
definition POST_PROV_REBOOT_DELAY :: seconds where "POST_PROV_REBOOT_DELAY = 6"

subsection \<open>Elements\<close>

definition set_default :: "'k \<Rightarrow> 'v \<Rightarrow> ('k, 'v) dict \<Rightarrow> ('k, 'v) dict" where
  "set_default k v d = (case dict_get d k of None \<Rightarrow> d @ [(k, v)] | Some _ \<Rightarrow> d)"

definition model_ids :: "nat \<Rightarrow> bytes \<Rightarrow> int list" where
  "model_ids n bs = map (\<lambda>i. le_int (take 2 (drop (2 * i) bs))) [0..<n]"

text \<open>The loop over the elements: \<open>raw\<close> is what follows the offset.\<close>

function sig_elements :: "bytes \<Rightarrow> int \<Rightarrow> (int, int) dict \<Rightarrow> (int, int) dict res" where
  "sig_elements raw element_address result =
     (if raw = [] then Inr result
      else if length raw < 4 then Inl ValueError
      else (let num_sig = unat (raw ! 2); num_vendor = unat (raw ! 3); element_size = 4 + num_sig * 2 + num_vendor * 4 in
        if element_size > length raw then Inl ValueError
        else sig_elements (drop element_size raw) (element_address + 1)
               (fold (\<lambda>m. set_default m element_address) (model_ids num_sig (drop 4 raw)) result)))"
  by pat_completeness auto
termination by (relation "measure (\<lambda>(raw, a, d). length raw)") (auto simp: Let_def)

declare sig_elements.simps [simp del]

definition sig_model_elements :: "bytes \<Rightarrow> int \<Rightarrow> (int, int) dict res" where
  "sig_model_elements raw_elements primary_address = sig_elements raw_elements primary_address []"

subsection \<open>Binding an existing light\<close>

text \<open>How the \<open>i\<close>-th request for a binding goes: the other tasks, the writes, and its answer.\<close>

type_synonym bind_oracle = "nat \<Rightarrow> interference \<times> write_oracle \<times> bytes res"

definition bind_model ::
  "('s \<Rightarrow> int) \<Rightarrow> (int \<Rightarrow> 's \<Rightarrow> 's) \<Rightarrow> crypto_lib \<Rightarrow> interference \<times> write_oracle \<times> bytes res \<Rightarrow> int \<Rightarrow> int
    \<Rightarrow> ('s sig_link, bool) action" where
  "bind_model get_seq set_seq lib b element_address model_id l =
     (case b of (interfere, write, response) \<Rightarrow>
       case send_config_model_app_bind get_seq set_seq lib interfere write response element_address 0 model_id (sl_node l) of
         (r, n, io) \<Rightarrow> (r, l\<lparr>sl_node := n, sl_trace := sl_trace l @ map Mesh_Io io\<rparr>))"

fun bind_models ::
  "('s \<Rightarrow> int) \<Rightarrow> (int \<Rightarrow> 's \<Rightarrow> 's) \<Rightarrow> crypto_lib \<Rightarrow> bind_oracle \<Rightarrow> (int, int) dict \<Rightarrow> nat \<Rightarrow> int list
    \<Rightarrow> ('s sig_link, unit) action" where
  "bind_models get_seq set_seq lib binds elements i [] = liftS (Inr ())"
| "bind_models get_seq set_seq lib binds elements i (model_id # ids) =
     (case dict_get elements model_id of
        None \<Rightarrow> liftS (Inl RuntimeError)
      | Some element_address \<Rightarrow>
          bindS (bind_model get_seq set_seq lib (binds i) element_address model_id) (\<lambda>ok.
            if \<not> ok then liftS (Inl RuntimeError)
            else bind_models get_seq set_seq lib binds elements (Suc i) ids))"

definition brightness_model :: "(int, int) dict \<Rightarrow> int res" where
  "brightness_model elements =
     (if dict_get elements MODEL_GENERIC_LEVEL_SERVER \<noteq> None then Inr MODEL_GENERIC_LEVEL_SERVER
      else if dict_get elements MODEL_LIGHT_LIGHTNESS_SERVER \<noteq> None then Inr MODEL_LIGHT_LIGHTNESS_SERVER
      else Inl RuntimeError)"

text \<open>The composition data that the callback gets within five seconds, if it gets any.\<close>

definition bind_light ::
  "('s \<Rightarrow> int) \<Rightarrow> (int \<Rightarrow> 's \<Rightarrow> 's) \<Rightarrow> crypto_lib \<Rightarrow> bind_oracle \<Rightarrow> int res \<Rightarrow> composition_data option
    \<Rightarrow> ('s sig_link, int \<times> string \<times> int) action" where
  "bind_light get_seq set_seq lib binds target received =
     bindS (liftS target) (\<lambda>primary.
     bindS (liftS (case received of None \<Rightarrow> Inl RuntimeError | Some c \<Rightarrow> sig_model_elements (cd_raw_elements c) primary)) (\<lambda>elements.
     bindS (liftS (brightness_model elements)) (\<lambda>model.
     bindS (bind_models get_seq set_seq lib binds elements 0 [MODEL_GENERIC_ONOFF_SERVER, model]) (\<lambda>_ l.
       (case dict_get elements model of None \<Rightarrow> Inl KeyError
        | Some a \<Rightarrow> Inr (get_seq (sn_seq_store (sl_node l)), format_04x True a, model), l)))))"

text \<open>A \<^verbatim>\<open>finally\<close> clause: its own exception replaces the outcome.\<close>

definition with_finally :: "('s, 'a) action \<Rightarrow> ('s, unit) action \<Rightarrow> ('s, 'a) action" where
  "with_finally act final s =
     (case act s of (r, t) \<Rightarrow> (case final t of (Inl e, u) \<Rightarrow> (Inl e, u) | (Inr _, u) \<Rightarrow> (r, u)))"

definition unregister_composition :: "nat \<Rightarrow> ('s sig_link, unit) action" where
  "unregister_composition cb l =
     (case unregister_composition_callback cb (sl_device l) of (r, d) \<Rightarrow> (r, on_device (\<lambda>_. d) l))"

definition configure_existing_sig_light ::
  "('s \<Rightarrow> int) \<Rightarrow> (int \<Rightarrow> 's \<Rightarrow> 's) \<Rightarrow> crypto_lib \<Rightarrow> link_env \<Rightarrow> bind_oracle \<Rightarrow> composition_data option \<Rightarrow> nat
    \<Rightarrow> 's \<Rightarrow> string \<Rightarrow> config \<Rightarrow> (int \<times> string \<times> int) res \<times> 's sig_link option" where
  "configure_existing_sig_light get_seq set_seq lib env binds received cb store mac data =
     (case create_device set_seq store True DEVICE_TYPE_SIG_LIGHT mac data of
        Inr (Sig_Mesh secrets l) \<Rightarrow>
          (let env1 = env\<lparr>le_secret := entry_secret secrets\<rparr>;
               (r, l1) = with_finally
                 (bindS (sig_connect get_seq set_seq lib env1 3) (\<lambda>_.
                    bind_light get_seq set_seq lib binds (int16 (conf_get data CONF_UNICAST_TARGET (JStr ''00B0''))) received))
                 (bindS (unregister_composition cb) (\<lambda>_. sig_disconnect env1))
                 (on_device (register_composition_callback cb) l)
           in (r, Some l1))
      | Inr _ \<Rightarrow> (Inl TypeError, None)
      | Inl e \<Rightarrow> (Inl e, None))"

subsection \<open>Provisioning a plug\<close>

text \<open>\<^verbatim>\<open>bytes.hex\<close>.\<close>

definition hex_text :: "bytes \<Rightarrow> string" where
  "hex_text bs = concat (map (\<lambda>b. [digits_of False ! (unat b div 16), digits_of False ! (unat b mod 16)]) bs)"

text \<open>
  The methods of \<^verbatim>\<open>SIGMeshDevice\<close> that send a configuration message and return a flag, by their names; calling
  a name that the class does not define is an AttributeError.
\<close>

definition app_key_methods ::
  "('s \<Rightarrow> int) \<Rightarrow> (int \<Rightarrow> 's \<Rightarrow> 's) \<Rightarrow> crypto_lib \<Rightarrow> interference \<times> write_oracle \<times> bytes res \<Rightarrow> bytes
    \<Rightarrow> (string \<times> ('s sig_link, bool) action) list" where
  "app_key_methods get_seq set_seq lib b app_key =
     [(''send_config_appkey_add'', \<lambda>l. case b of (interfere, write, response) \<Rightarrow>
        case send_config_appkey_add get_seq set_seq lib interfere write response app_key 0 0 (sl_node l) of
          (r, n, io) \<Rightarrow> (r, l\<lparr>sl_node := n, sl_trace := sl_trace l @ map Mesh_Io io\<rparr>))]"

definition call_method :: "(string \<times> ('s, 'a) action) list \<Rightarrow> string \<Rightarrow> ('s, 'a) action" where
  "call_method methods name = (case map_of methods name of None \<Rightarrow> liftS (Inl AttributeError) | Some act \<Rightarrow> act)"

text \<open>An \<^verbatim>\<open>except Exception\<close> that only logs.\<close>

definition ignoring :: "('s, unit) action \<Rightarrow> ('s, unit) action" where
  "ignoring act s =
     (case act s of (Inl e, t) \<Rightarrow> (if isinstance e PyException then Inr () else Inl e, t) | (Inr _, t) \<Rightarrow> (Inr (), t))"

text \<open>Phase 3 on the new device; a status that is not successful is only logged.\<close>

definition configure_plug ::
  "('s \<Rightarrow> int) \<Rightarrow> (int \<Rightarrow> 's \<Rightarrow> 's) \<Rightarrow> crypto_lib \<Rightarrow> link_env \<Rightarrow> bind_oracle \<Rightarrow> bytes \<Rightarrow> ('s sig_link, unit) action" where
  "configure_plug get_seq set_seq lib env binds app_key =
     with_finally
       (ignoring (bindS (sig_connect get_seq set_seq lib env 5) (\<lambda>_.
          bindS (call_method (app_key_methods get_seq set_seq lib (binds 0) app_key) ''send_config_app_key_add'') (\<lambda>_.
          bindS (\<lambda>l. (Inr (), log_link (Settle (1 / 2)) l)) (\<lambda>_.
          bindS (bind_model get_seq set_seq lib (binds 1) UNICAST_DEVICE_DEFAULT MODEL_GENERIC_ONOFF_SERVER) (\<lambda>_.
            liftS (Inr ())))))))
       (sig_disconnect env)"

text \<open>
  \<^verbatim>\<open>run_provision\<close>: \<open>net_key\<close> and \<open>app_key\<close> are the random keys, \<open>late\<close> says that the sixty seconds of the first
  phase run out.  The result and the device of the third phase, when it came to that.
\<close>

definition run_provision ::
  "('s \<Rightarrow> int) \<Rightarrow> (int \<Rightarrow> 's \<Rightarrow> 's) \<Rightarrow> crypto_lib \<Rightarrow> prov_link_env \<Rightarrow> bool \<Rightarrow> link_env \<Rightarrow> bind_oracle \<Rightarrow> bytes \<Rightarrow> bytes \<Rightarrow> bytes \<Rightarrow> 's
    \<Rightarrow> (string \<times> string \<times> string) res \<times> 's sig_link option" where
  "run_provision get_seq set_seq lib penv late env binds our_pub_key net_key app_key store =
     (case bindR (make_provisioner our_pub_key net_key app_key UNICAST_DEVICE_DEFAULT 0 DEFAULT_IV_INDEX 0) (\<lambda>pv.
            if late then Inl TimeoutError
            else fst (sig_provision (penv\<lparr>pe_managed := True\<rparr>) pv 5 \<lparr>pl_trace = [], pl_exchanged = []\<rparr>)) of
        Inl e \<Rightarrow> (Inl e, None)
      | Inr result \<Rightarrow>
         (let dev_key = pr_dev_key result;
              secrets = secrets_dict UNICAST_DEVICE_DEFAULT (JStr (hex_text net_key)) (JStr (hex_text dev_key)) (JStr (hex_text app_key));
              device = make_sig_link UNICAST_DEVICE_DEFAULT UNICAST_PROVISIONER ''cfg'' DEFAULT_IV_INDEX store True False None 0x1002;
              rebooted = log_link (Settle POST_PROV_REBOOT_DELAY) device;
              (r, l) = configure_plug get_seq set_seq lib (env\<lparr>le_secret := entry_secret secrets\<rparr>) binds app_key rebooted
          in (bindR r (\<lambda>_. Inr (hex_text net_key, hex_text dev_key, hex_text app_key)), Some l)))"

subsection \<open>Steps\<close>

datatype flow_result = Show_Form string "(string \<times> string) list" | Create_Entry string config | Abort string | Raises py_error

text \<open>\<^verbatim>\<open>_finalize_entry\<close>: the names of the extra data are those of the entry.\<close>

definition type_label :: "string \<Rightarrow> string" where
  "type_label device_type =
     (case map_of [(DEVICE_TYPE_LIGHT, ''LED Light''), (DEVICE_TYPE_PLUG, ''Smart Plug''), (DEVICE_TYPE_SIG_PLUG, ''Smart Plug''),
         (DEVICE_TYPE_SIG_LIGHT, ''SIG Mesh Light''), (DEVICE_TYPE_SIG_BRIDGE_PLUG, ''Smart Plug''),
         (DEVICE_TYPE_TELINK_BRIDGE_LIGHT, ''LED Light'')] device_type of None \<Rightarrow> ''Smart Device'' | Some t \<Rightarrow> t)"

definition finalize_entry :: "string \<Rightarrow> string \<Rightarrow> string option \<Rightarrow> config \<Rightarrow> flow_result" where
  "finalize_entry mac device_type title extra =
     Create_Entry (case title of Some t \<Rightarrow> t | None \<Rightarrow> type_label device_type @ '' '' @ drop (length mac - 8) mac)
       (fold (\<lambda>(k, v). dict_set k v) extra [(CONF_MAC_ADDRESS, JStr mac), (CONF_DEVICE_TYPE, JStr device_type)])"

text \<open>\<^verbatim>\<open>str\<close> of a value.\<close>

fun json_str :: "json \<Rightarrow> string" where
  "json_str (JStr s) = s"
| "json_str (JNum q) = (if q < 0 then ''-'' else []) @ decimal (nat \<lfloor>\<bar>q\<bar>\<rfloor>)"
| "json_str (JBool b) = (if b then ''True'' else ''False'')"
| "json_str _ = ''None''"

text \<open>\<^verbatim>\<open>async_step_sig_plug\<close> after the confirmation, with the outcome of \<open>run_provision\<close>.\<close>

definition provision_error_key :: "py_error \<Rightarrow> string" where
  "provision_error_key e =
     (if isinstance e TimeoutError then ''timeout''
      else if isinstance e DeviceNotFoundError then ''device_not_found''
      else if isinstance e MeshTimeoutError then ''timeout'' else ''provisioning_failed'')"

definition sig_plug_step :: "string \<Rightarrow> (string \<times> string \<times> string) res \<Rightarrow> flow_result" where
  "sig_plug_step mac provisioned =
     (case provisioned of
        Inl e \<Rightarrow> if isinstance e PyException then Show_Form ''sig_plug'' [(''base'', provision_error_key e)] else Raises e
      | Inr (net_key, dev_key, app_key) \<Rightarrow>
          finalize_entry mac DEVICE_TYPE_SIG_PLUG None
            [(CONF_UNICAST_TARGET, JStr (format_04x True UNICAST_DEVICE_DEFAULT)), (CONF_UNICAST_OUR, JStr (format_04x True UNICAST_PROVISIONER)),
             (CONF_IV_INDEX, JNum (of_int DEFAULT_IV_INDEX)), (CONF_NET_KEY, JStr net_key), (CONF_DEV_KEY, JStr dev_key),
             (CONF_APP_KEY, JStr app_key)])"

text \<open>The checks of \<^verbatim>\<open>async_step_sig_light\<close>: the errors, and the initial sequence number.\<close>

definition key_errors :: "config \<Rightarrow> (string \<times> string) list" where
  "key_errors input = map (\<lambda>field. (field, ''invalid_key''))
     (filter (\<lambda>field. \<not> validate_hex_key (json_str (conf_get input field (JStr [])))) [CONF_NET_KEY, CONF_DEV_KEY, CONF_APP_KEY])"

definition optional_error :: "string \<Rightarrow> string option \<Rightarrow> (string \<times> string) list" where
  "optional_error field err = (case err of None \<Rightarrow> [] | Some e \<Rightarrow> [(field, e)])"

definition initial_sequence_of :: "config \<Rightarrow> int option" where
  "initial_sequence_of input =
     (case int_of_json (conf_get input CONF_INITIAL_SEQUENCE (JNum 0)) of
        Inl e \<Rightarrow> None | Inr q \<Rightarrow> if 0 \<le> q \<and> q \<le> 0xFFFFFF then Some q else None)"

definition sig_light_errors :: "config \<Rightarrow> (string \<times> string) list" where
  "sig_light_errors input =
     key_errors input
     @ optional_error CONF_UNICAST_TARGET (validate_unicast_address (json_str (conf_get input CONF_UNICAST_TARGET (JStr ''00B0''))))
     @ optional_error CONF_UNICAST_OUR (validate_unicast_address (json_str (conf_get input CONF_UNICAST_OUR (JStr ''0001''))))
     @ optional_error CONF_IV_INDEX (validate_iv_index (conf_get input CONF_IV_INDEX (JNum (of_int DEFAULT_IV_INDEX))))
     @ (if initial_sequence_of input = None then [(CONF_INITIAL_SEQUENCE, ''invalid_sequence'')] else [])"

text \<open>The entry: \<open>bound\<close> is what the binding returned, if it was asked for.\<close>

definition sig_light_entry :: "config \<Rightarrow> (int \<times> string \<times> int) option \<Rightarrow> config" where
  "sig_light_entry input bound =
     [(CONF_UNICAST_TARGET, JStr (upper (json_str (conf_get input CONF_UNICAST_TARGET (JStr ''00B0''))))),
      (CONF_UNICAST_OUR, JStr (upper (json_str (conf_get input CONF_UNICAST_OUR (JStr ''0001''))))),
      (CONF_IV_INDEX, conf_get input CONF_IV_INDEX (JNum (of_int DEFAULT_IV_INDEX))),
      (CONF_NET_KEY, JStr (json_str (conf_get input CONF_NET_KEY (JStr [])))),
      (CONF_DEV_KEY, JStr (json_str (conf_get input CONF_DEV_KEY (JStr [])))),
      (CONF_APP_KEY, JStr (json_str (conf_get input CONF_APP_KEY (JStr []))))]
     @ (case bound of
          None \<Rightarrow> if dict_get input CONF_INITIAL_SEQUENCE = None then []
                  else [(CONF_INITIAL_SEQUENCE, JNum (of_int (case initial_sequence_of input of None \<Rightarrow> 0 | Some q \<Rightarrow> q)))]
        | Some (q, level, model) \<Rightarrow>
            [(CONF_INITIAL_SEQUENCE, JNum (of_int q)), (CONF_LEVEL_UNICAST_TARGET, JStr level), (CONF_BRIGHTNESS_MODEL_ID, JNum (of_int model))])"

definition sig_light_step :: "string \<Rightarrow> string option \<Rightarrow> (int \<times> string \<times> int) res \<Rightarrow> config \<Rightarrow> flow_result" where
  "sig_light_step address name bound input =
     (let mac = upper address in
      if sig_light_errors input \<noteq> [] then Show_Form ''sig_light'' (sig_light_errors input)
      else if \<not> truthy (dict_get input CONF_BIND_MODELS)
      then finalize_entry mac DEVICE_TYPE_SIG_LIGHT name (sig_light_entry input None)
      else case bound of
        Inl e \<Rightarrow> if isinstance e PyException then Show_Form ''sig_light'' [(''base'', ''model_bind_failed'')] else Raises e
      | Inr b \<Rightarrow> finalize_entry mac DEVICE_TYPE_SIG_LIGHT name (sig_light_entry input (Some b)))"


subsection \<open>The elements that a device describes\<close>

record mesh_element =
  me_location :: int
  me_models :: "int list"
  me_vendor_models :: "bytes list"

definition element_ok :: "mesh_element \<Rightarrow> bool" where
  "element_ok e \<longleftrightarrow> length (me_models e) < 256 \<and> length (me_vendor_models e) < 256
     \<and> (\<forall>m \<in> set (me_models e). 0 \<le> m \<and> m < 65536) \<and> (\<forall>v \<in> set (me_vendor_models e). length v = 4)"

text \<open>Its description in the composition data, section 4.2.1 of the Mesh Profile.\<close>

definition element_bytes :: "mesh_element \<Rightarrow> bytes" where
  "element_bytes e = le_bytes 2 (me_location e)
     @ [word_of_nat (length (me_models e)), word_of_nat (length (me_vendor_models e))]
     @ concat (map (le_bytes 2) (me_models e)) @ concat (me_vendor_models e)"

text \<open>The first element with a model.\<close>

fun first_element :: "int \<Rightarrow> mesh_element list \<Rightarrow> nat option" where
  "first_element m [] = None"
| "first_element m (e # es) = (if m \<in> set (me_models e) then Some 0 else map_option Suc (first_element m es))"

lemma model_ids_Suc: "model_ids (Suc n) bs = le_int (take 2 bs) # model_ids n (drop 2 bs)"
  by (simp add: model_ids_def upt_conv_Cons map_Suc_upt [symmetric] comp_def del: upt_Suc)

lemma model_ids_concat:
  "\<forall>m \<in> set ms. 0 \<le> m \<and> m < 65536 \<Longrightarrow> model_ids (length ms) (concat (map (le_bytes 2) ms) @ rest) = ms"
proof (induction ms)
  case (Cons m ms)
  have "le_int (le_bytes 2 m) = m" using Cons.prems by (simp add: le_int_le_bytes)
  with Cons show ?case by (simp add: model_ids_Suc)
qed (simp add: model_ids_def)

lemma get_set_default: "dict_get (set_default k v d) j = (case dict_get d j of Some x \<Rightarrow> Some x | None \<Rightarrow> if j = k then Some v else None)"
  by (auto simp: set_default_def map_add_def split: option.splits)

lemma get_set_defaults:
  "dict_get (fold (\<lambda>m. set_default m a) ms d) j = (case dict_get d j of Some x \<Rightarrow> Some x | None \<Rightarrow> if j \<in> set ms then Some a else None)"
  by (induction ms arbitrary: d) (auto simp: get_set_default split: option.splits)

lemma length_concat_4: "\<forall>v \<in> set vs. length v = 4 \<Longrightarrow> length (concat vs) = 4 * length vs"
  by (induction vs) auto

lemma length_concat_2: "length (concat (map (le_bytes 2) ms)) = 2 * length ms"
  by (induction ms) auto

lemma sig_elements_Cons:
  "sig_elements (b0 # b1 # b2 # b3 # t) a d =
    (if unat b2 * 2 + unat b3 * 4 > length t then Inl ValueError
     else sig_elements (drop (unat b2 * 2 + unat b3 * 4) t) (a + 1) (fold (\<lambda>m. set_default m a) (model_ids (unat b2) t) d))"
proof -
  have "drop (4 + n) (b0 # b1 # b2 # b3 # t) = drop n t" for n by (simp add: numeral_eq_Suc)
  from this [of "unat b2 * 2 + unat b3 * 4"] show ?thesis
    by (subst sig_elements.simps) (simp add: Let_def add.assoc)
qed

lemma sig_elements_step:
  assumes "element_ok e"
  shows "sig_elements (element_bytes e @ rest) a d = sig_elements rest (a + 1) (fold (\<lambda>m. set_default m a) (me_models e) d)"
proof -
  let ?h = "le_bytes 2 (me_location e)" and ?c = "concat (map (le_bytes 2) (me_models e))" and ?v = "concat (me_vendor_models e)"
  have two: "le_bytes 2 x = [word_of_int x, word_of_int (x div 256)]" for x by (simp add: numeral_2_eq_2)
  have counts: "unat (word_of_nat (length (me_models e)) :: byte) = length (me_models e)"
    "unat (word_of_nat (length (me_vendor_models e)) :: byte) = length (me_vendor_models e)"
    using assms by (simp_all add: element_ok_def unat_of_nat)
  have len: "length ?c = 2 * length (me_models e)" "length ?v = 4 * length (me_vendor_models e)"
    using assms by (simp_all add: element_ok_def length_concat_4 length_concat_2)
  have raw: "element_bytes e @ rest = word_of_int (me_location e) # word_of_int (me_location e div 256)
      # word_of_nat (length (me_models e)) # word_of_nat (length (me_vendor_models e)) # ?c @ ?v @ rest"
    by (simp add: element_bytes_def two)
  have ids: "model_ids (length (me_models e)) (?c @ ?v @ rest) = me_models e"
    using model_ids_concat [of "me_models e" "?v @ rest"] assms by (simp add: element_ok_def)
  have "drop (2 * length (me_models e) + 4 * length (me_vendor_models e)) (?c @ ?v @ rest) = rest"
    using len by simp
  then show ?thesis
    unfolding raw sig_elements_Cons by (simp add: counts len ids mult.commute)
qed

lemma sig_elements_all:
  "list_all element_ok es \<Longrightarrow> \<exists>r. sig_elements (concat (map element_bytes es)) a d = Inr r
    \<and> (\<forall>m. dict_get r m = (case dict_get d m of Some x \<Rightarrow> Some x | None \<Rightarrow> map_option (\<lambda>i. a + int i) (first_element m es)))"
proof (induction es arbitrary: a d)
  case Nil
  then show ?case by (subst list.map, subst concat.simps, subst sig_elements.simps) (simp split: option.splits)
next
  case (Cons e es)
  let ?d = "fold (\<lambda>m. set_default m a) (me_models e) d"
  from Cons.IH [of "a + 1" ?d] Cons.prems obtain r where r: "sig_elements (concat (map element_bytes es)) (a + 1) ?d = Inr r"
    "\<forall>m. dict_get r m = (case dict_get ?d m of Some x \<Rightarrow> Some x | None \<Rightarrow> map_option (\<lambda>i. a + 1 + int i) (first_element m es))"
    by auto
  have "sig_elements (concat (map element_bytes (e # es))) a d = Inr r"
    using sig_elements_step [of e] Cons.prems r(1) by simp
  moreover have "dict_get r m = (case dict_get d m of Some x \<Rightarrow> Some x | None \<Rightarrow> map_option (\<lambda>i. a + int i) (first_element m (e # es)))" for m
    using r(2) by (simp add: get_set_defaults option.map_comp comp_def algebra_simps split: option.splits)
  ultimately show ?case by blast
qed

text \<open>C40: From the description of any elements, the address that is found for a model is that of the first
  element with it, and none is found for a model that no element has.\<close>

theorem sig_model_elements_first:
  assumes "list_all element_ok es"
  shows "\<exists>r. sig_model_elements (concat (map element_bytes es)) primary_address = Inr r
    \<and> (\<forall>m. dict_get r m = map_option (\<lambda>i. primary_address + int i) (first_element m es))"
  using sig_elements_all [OF assms, where a = primary_address and d = "[]"] by (simp add: sig_model_elements_def)

theorem sig_model_elements_first_witness:
  "\<exists>r. sig_model_elements [0, 0, 1, 0, 0x00, 0x10, 0, 0, 2, 1, 0x00, 0x10, 0x02, 0x10, 1, 2, 3, 4] 0xB0 = Inr r
    \<and> dict_get r 0x1000 = Some 0xB0 \<and> dict_get r 0x1002 = Some 0xB1 \<and> dict_get r 0x1300 = None"
proof -
  let ?es = "[\<lparr>me_location = 0, me_models = [0x1000], me_vendor_models = []\<rparr>,
    \<lparr>me_location = 0, me_models = [0x1000, 0x1002], me_vendor_models = [[1, 2, 3, 4]]\<rparr>]"
  have "list_all element_ok ?es" by (simp add: element_ok_def)
  moreover have "concat (map element_bytes ?es) = [0, 0, 1, 0, 0x00, 0x10, 0, 0, 2, 1, 0x00, 0x10, 0x02, 0x10, 1, 2, 3, 4]"
    by code_simp
  ultimately show ?thesis using sig_model_elements_first [where es = ?es and primary_address = "0xB0"] by auto
qed

subsection \<open>A bound light\<close>


lemma bind_model_ok:
  assumes "bind_model get_seq set_seq lib b a m l = (Inr True, l1)"
  shows "\<exists>params. snd (snd b) = Inr params \<and> status_ok params"
proof -
  obtain interfere wr response where b: "b = (interfere, wr, response)" by (cases b)
  obtain n io where sent: "send_config_model_app_bind get_seq set_seq lib interfere wr response a 0 m (sl_node l) = (Inr True, n, io)"
    using assms b by (auto simp: bind_model_def split: prod.splits)
  have answered: "\<exists>params. result = Inr params \<and> status_ok params" if "finish_request key result n' = (Inr True, n4)"
    for key n4 result and n' :: "'a sig_node"
    using finish_request_fields [OF that, of True] by auto
  show ?thesis
    using sent by (auto simp: send_config_model_app_bind_def b Let_def dest: answered split: if_splits prod.splits sum.splits)
qed

lemma sig_disconnect_ok:
  assumes "sig_disconnect env l = (Inr u, l1)"
  shows "\<not> sd_has_client (sl_device l1) \<and> sd_keys (sl_device l1) = None \<and> sl_notify_tasks l1 = []"
  using assms
  by (auto simp: sig_disconnect_def bindS_eq_Inr liftS_def drop_keys_and_tasks_def drop_sig_client_def split: if_splits)

lemma bind_light_ok:
  assumes "bind_light get_seq set_seq lib binds target received l = (Inr (q, level, model), l1)"
  shows "\<exists>primary c elements a. target = Inr primary \<and> received = Some c \<and> sig_model_elements (cd_raw_elements c) primary = Inr elements
    \<and> dict_get elements MODEL_GENERIC_ONOFF_SERVER \<noteq> None
    \<and> brightness_model elements = Inr model \<and> dict_get elements model = Some a \<and> level = format_04x True a
    \<and> (\<forall>i < 2. \<exists>params. snd (snd (binds i)) = Inr params \<and> status_ok params)"
proof -
  from assms obtain primary c elements u where
    h: "target = Inr primary" "received = Some c" "sig_model_elements (cd_raw_elements c) primary = Inr elements"
    "brightness_model elements = Inr model"
    and bound: "bind_models get_seq set_seq lib binds elements 0 [MODEL_GENERIC_ONOFF_SERVER, model] l = (Inr (), u)"
    and level: "(case dict_get elements model of None \<Rightarrow> Inl KeyError
        | Some a \<Rightarrow> Inr (get_seq (sn_seq_store (sl_node u)), format_04x True a, model)) = Inr (q, level, model)"
    by (auto simp: bind_light_def bindS_eq_Inr liftS_def split: option.splits)
  from bound obtain a0 u0 where b0: "dict_get elements MODEL_GENERIC_ONOFF_SERVER = Some a0"
    "bind_model get_seq set_seq lib (binds 0) a0 MODEL_GENERIC_ONOFF_SERVER l = (Inr True, u0)"
    and rest: "bind_models get_seq set_seq lib binds elements (Suc 0) [model] u0 = (Inr (), u)"
    by (auto simp: bindS_eq_Inr liftS_def simp del: bind_models.simps(2) simp: bind_models.simps(2) [of _ _ _ _ _ 0]
        split: option.splits if_splits)
  from rest obtain a1 u1 where "bind_model get_seq set_seq lib (binds (Suc 0)) a1 model u0 = (Inr True, u1)"
    by (auto simp: bindS_eq_Inr liftS_def split: option.splits if_splits)
  with bind_model_ok [OF b0(2)] bind_model_ok [of get_seq set_seq lib "binds (Suc 0)"]
  have "\<exists>params. snd (snd (binds i)) = Inr params \<and> status_ok params" if "i < 2" for i
    using that by (cases "i = 0") (auto simp: less_2_cases_iff)
  with h b0(1) level show ?thesis by (auto split: option.splits)
qed

text \<open>C23: An existing light is configured only when its composition data came and lists both the OnOff server and
  a brightness model, when the answers to both bindings are successful statuses, and then the level
  address is that of the brightness model's element; afterwards the device has no client, no keys and no
  tasks.\<close>

theorem configured_light_is_bound:
  assumes "configure_existing_sig_light get_seq set_seq lib env binds received cb store mac data = (Inr (q, level, model), Some l)"
  shows "\<exists>primary c elements a. int16 (conf_get data CONF_UNICAST_TARGET (JStr ''00B0'')) = Inr primary
    \<and> received = Some c \<and> sig_model_elements (cd_raw_elements c) primary = Inr elements
    \<and> dict_get elements 0x1000 \<noteq> None \<and> model = (if dict_get elements 0x1002 \<noteq> None then 0x1002 else 0x1300)
    \<and> dict_get elements model = Some a \<and> level = format_04x True a
    \<and> (\<forall>i < 2. \<exists>params. snd (snd (binds i)) = Inr params \<and> status_ok params)
    \<and> \<not> sd_has_client (sl_device l) \<and> sd_keys (sl_device l) = None \<and> sl_notify_tasks l = []"
proof -
  from assms obtain env1 l0 l2 l3 l4 u where
    "bind_light get_seq set_seq lib binds (int16 (conf_get data CONF_UNICAST_TARGET (JStr ''00B0''))) received l2
       = (Inr (q, level, model), l3)"
    and "sig_disconnect env1 l4 = (Inr u, l)"
    by (auto simp: configure_existing_sig_light_def with_finally_def bindS_eq_Inr Let_def
        split: sum.splits prod.splits any_device.splits)
  from bind_light_ok [OF this(1)] sig_disconnect_ok [OF this(2)] show ?thesis
    by (auto simp: brightness_model_def MODEL_GENERIC_ONOFF_SERVER_def MODEL_GENERIC_LEVEL_SERVER_def
        MODEL_LIGHT_LIGHTNESS_SERVER_def split: if_splits)
qed


definition demo_key :: string where
  "demo_key = concat (replicate 16 ''03'')"

definition demo_entry :: config where
  "demo_entry = [(CONF_NET_KEY, JStr demo_key), (CONF_DEV_KEY, JStr demo_key), (CONF_APP_KEY, JStr demo_key),
     (CONF_UNICAST_TARGET, JStr ''00b0'')]"

definition demo_binds :: bind_oracle where
  "demo_binds i = (\<lambda>_ d. d, \<lambda>_. None, Inr [0])"

definition demo_composition :: composition_data where
  "demo_composition = \<lparr>cd_cid = 0x07D0, cd_pid = 1, cd_vid = 1, cd_crpl = 10, cd_features = 3,
     cd_raw_elements = [0, 0, 1, 0, 0x00, 0x10, 0, 0, 2, 1, 0x00, 0x10, 0x02, 0x10, 1, 2, 3, 4]\<rparr>"

theorem configured_light_is_bound_witness:
  "\<exists>l q. configure_existing_sig_light ims_get_seq ims_set_seq demo_lib (demo_link_env False) demo_binds (Some demo_composition) 5
       \<lparr>ims_seq = 7\<rparr> ''DC:23:4D:21:43:A5'' demo_entry = (Inr (q, ''00B1'', 0x1002), Some l)
     \<and> sd_keys (sl_device l) = None"
proof -
  let ?c = "configure_existing_sig_light ims_get_seq ims_set_seq demo_lib (demo_link_env False) demo_binds (Some demo_composition) 5
       \<lparr>ims_seq = 7\<rparr> ''DC:23:4D:21:43:A5'' demo_entry"
  have c: "case ?c of (r, d) \<Rightarrow> (case r of Inl e \<Rightarrow> False | Inr x \<Rightarrow> snd x = (''00B1'', 0x1002)) \<and> \<not> Option.is_none d"
    by code_simp
  obtain q l where run: "?c = (Inr (q, ''00B1'', 0x1002), Some l)"
    using c by (cases ?c) (auto split: sum.splits option.splits simp: Option.is_none_def)
  then show ?thesis using configured_light_is_bound [OF run] by blast
qed


subsection \<open>A provisioned plug\<close>



subsection \<open>An imported light\<close>

lemma upper_char_other:
  assumes "\<not> (65 \<le> (of_char d :: int) \<and> (of_char d :: int) \<le> 90)" "\<not> (97 \<le> (of_char d :: int) \<and> (of_char d :: int) \<le> 122)"
  shows "upper_char c = d \<longleftrightarrow> c = d"
proof -
  have "char_of (of_char c - 32 :: int) \<noteq> d" if "97 \<le> (of_char c :: int)" "(of_char c :: int) \<le> 122"
  proof
    assume "char_of (of_char c - 32 :: int) = d"
    from arg_cong [where f = "of_char :: char \<Rightarrow> int", OF this] that assms(1) show False by simp
  qed
  moreover have "c = d \<Longrightarrow> upper_char c = d" using assms(2) by (auto simp: upper_char_def Let_def)
  ultimately show ?thesis by (auto simp: upper_char_def Let_def)
qed

lemma upper_char_x: "upper_char c = CHR ''x'' \<or> upper_char c = CHR ''X'' \<longleftrightarrow> c = CHR ''x'' \<or> c = CHR ''X''"
proof -
  have "c = CHR ''x''" if "97 \<le> (of_char c :: int)" "(of_char c :: int) \<le> 122" "char_of (of_char c - 32 :: int) = CHR ''X''"
  proof -
    from arg_cong [where f = "of_char :: char \<Rightarrow> int", OF that(3)] that(1,2) have "(of_char c :: int) = of_char (CHR ''x'')" by simp
    then show ?thesis by (simp only: of_char_eq_iff)
  qed
  moreover have "char_of (of_char c - 32 :: int) \<noteq> CHR ''x''" if "97 \<le> (of_char c :: int)" "(of_char c :: int) \<le> 122"
  proof
    assume "char_of (of_char c - 32 :: int) = CHR ''x''"
    from arg_cong [where f = "of_char :: char \<Rightarrow> int", OF this] that show False by simp
  qed
  moreover have "char_of (88 :: int) = CHR ''X''" by code_simp
  ultimately show ?thesis by (auto simp: upper_char_def Let_def)
qed

lemma parse_unsigned_upper: "parse_unsigned 16 (upper s) = parse_unsigned 16 s"
proof -
  have 0: "upper_char c = CHR ''0'' \<longleftrightarrow> c = CHR ''0''" "upper_char c = CHR ''_'' \<longleftrightarrow> c = CHR ''_''" for c
    by (rule upper_char_other; simp)+
  have prefix: "take 2 (upper s) = ''0x'' \<or> take 2 (upper s) = ''0X'' \<longleftrightarrow> take 2 s = ''0x'' \<or> take 2 s = ''0X''"
  proof (cases s)
    case (Cons c t)
    then show ?thesis using upper_char_x [of "hd t"] by (cases t) (auto simp: 0)
  qed simp
  have under: "take 1 (drop 2 (upper s)) = ''_'' \<longleftrightarrow> take 1 (drop 2 s) = ''_''"
    by (cases "drop 2 s") (simp_all add: drop_map 0)
  show ?thesis
    unfolding parse_unsigned_def prefix under by (simp add: drop_map parse_digits_upper)
qed

lemma parse_int_upper: "parse_int 16 (upper s) = parse_int 16 s"
proof -
  let ?t = "py_strip s"
  have 0: "upper_char c = CHR ''-'' \<longleftrightarrow> c = CHR ''-''" "upper_char c = CHR ''+'' \<longleftrightarrow> c = CHR ''+''" for c
    by (rule upper_char_other; simp)+
  have "take 1 (upper ?t) = ''-'' \<longleftrightarrow> take 1 ?t = ''-''" "take 1 (upper ?t) = ''+'' \<longleftrightarrow> take 1 ?t = ''+''"
    by (cases ?t; simp add: 0)+
  moreover have "drop 1 (upper ?t) = upper (drop 1 ?t)" by (simp add: drop_map)
  ultimately show ?thesis by (simp only: parse_int_def py_strip_upper Let_def parse_unsigned_upper)
qed

lemma key_errors_none:
  "key_errors input = [] \<longleftrightarrow> (\<forall>field \<in> {CONF_NET_KEY, CONF_DEV_KEY, CONF_APP_KEY}.
     validate_hex_key (json_str (conf_get input field (JStr []))))"
  by (auto simp: key_errors_def)

lemma optional_error_none: "optional_error field err = [] \<longleftrightarrow> err = None"
  by (simp add: optional_error_def split: option.splits)

lemma valid_iv_index:
  assumes "validate_iv_index j = None" shows "\<exists>q. as_int j = Inr q \<and> 0 \<le> q \<and> q < 2 ^ 32"
proof (cases j)
  case (JNum q)
  with assms have q: "0 \<le> q" "q \<le> 0xFFFFFFFF" by (auto split: if_splits)
  then have "0 \<le> \<lfloor>q\<rfloor>" by simp
  moreover have "\<lfloor>q\<rfloor> \<le> 0xFFFFFFFF" using floor_mono [OF q(2)] by simp
  ultimately show ?thesis using JNum by simp
qed (use assms in auto)

text \<open>Three keys that the form accepts give the keys of a node.\<close>

lemma valid_keys_derive:
  assumes "block_cipher (cl_aes lib)" and valid: "validate_hex_key net_key" "validate_hex_key dev_key" "validate_hex_key app_key"
    and "0 \<le> iv" "iv < 2 ^ 32"
  shows "\<exists>ks. make_mesh_keys lib (code_points net_key) (code_points dev_key) (Some (code_points app_key)) iv = Inr ks
    \<and> mesh_keys_ok ks \<and> mk_app_key ks \<noteq> None"
proof -
  from valid_key_bytes(1) [OF valid(1)] valid_key_bytes(1) [OF valid(2)] valid_key_bytes(1) [OF valid(3)] obtain net dev app where
    bytes: "bytes_fromhex (code_points net_key) = Inr net" "length net = 16" "bytes_fromhex (code_points dev_key) = Inr dev" "length dev = 16"
    "bytes_fromhex (code_points app_key) = Inr app" "length app = 16" by blast
  have nonempty: "code_points app_key \<noteq> []" using valid_key_bytes(2) [OF valid(3)] by (simp add: code_points_def)
  obtain ks where "make_mesh_keys lib (code_points net_key) (code_points dev_key) (Some (code_points app_key)) iv = Inr ks"
    "mk_dev_key ks = dev" "mk_app_key ks = Some app" "mk_iv_index ks = iv" "mk_nid ks \<in> {0..<128}"
    "length (mk_enc_key ks) = 16" "length (mk_priv_key ks) = 16"
    using mesh_keys_derived [OF assms(1) bytes(1,3), of "Some (code_points app_key)" "Some app" iv] bytes nonempty by auto
  with bytes assms(5,6) show ?thesis by (auto simp: mesh_keys_ok_def)
qed

subsection \<open>Entries of SIG Mesh devices\<close>

definition sig_type :: "string \<Rightarrow> bool" where
  "sig_type t \<longleftrightarrow> t = DEVICE_TYPE_SIG_PLUG \<or> t = DEVICE_TYPE_SIG_LIGHT"

text \<open>The values from which \<^verbatim>\<open>create_device\<close> makes a device that can derive its keys.\<close>

definition stored :: "(json \<Rightarrow> bool) \<Rightarrow> json option \<Rightarrow> bool" where
  "stored P v = (case v of None \<Rightarrow> True | Some j \<Rightarrow> P j)"

definition sig_entry_ok :: "config \<Rightarrow> bool" where
  "sig_entry_ok data \<longleftrightarrow>
     (\<forall>field \<in> {CONF_NET_KEY, CONF_DEV_KEY, CONF_APP_KEY}. \<exists>k. dict_get data field = Some (JStr k) \<and> validate_hex_key k)
     \<and> stored (\<lambda>j. \<exists>a. int16 j = Inr a \<and> a \<in> {1..0x7FFF}) (dict_get data CONF_UNICAST_TARGET)
     \<and> stored (\<lambda>j. \<exists>a. int16 j = Inr a \<and> a \<in> {1..0x7FFF}) (dict_get data CONF_UNICAST_OUR)
     \<and> stored (\<lambda>j. validate_iv_index j = None) (dict_get data CONF_IV_INDEX)
     \<and> stored (\<lambda>j. \<exists>a. int16 j = Inr a) (dict_get data CONF_LEVEL_UNICAST_TARGET)
     \<and> stored (\<lambda>j. \<exists>m. int_of_json j = Inr m) (dict_get data CONF_BRIGHTNESS_MODEL_ID)
     \<and> stored (\<lambda>j. \<exists>q. int_of_json j = Inr q \<and> q \<in> {0..0xFFFFFF}) (dict_get data CONF_INITIAL_SEQUENCE)"

lemma stored_get: "stored P (dict_get d k) \<Longrightarrow> P dflt \<Longrightarrow> P (conf_get d k dflt)"
  by (simp add: stored_def conf_get_def split: option.splits)

text \<open>Such an entry gives a device with valid addresses that derives its keys.\<close>

lemma sig_entry_device:
  assumes "sig_entry_ok data" "sig_type t" "block_cipher (cl_aes lib)"
  shows "\<exists>secrets l keys. create_device set_seq store connect_callback t mac data = Inr (Sig_Mesh secrets l)
    \<and> sn_target_addr (sl_node l) \<in> {1..0x7FFF} \<and> sn_our_addr (sl_node l) \<in> {1..0x7FFF} \<and> mesh_keys_ok keys \<and> mk_app_key keys \<noteq> None
    \<and> (\<exists>q \<in> {0..0xFFFFFF}. sn_seq_store (sl_node l) = set_seq q store)
    \<and> (\<forall>env. load_keys lib (env\<lparr>le_secret := entry_secret secrets\<rparr>) l = (Inr (), on_device (\<lambda>d. d\<lparr>sd_keys := Some keys\<rparr>) l))"
proof -
  from assms(1) obtain net dev app where keys: "dict_get data CONF_NET_KEY = Some (JStr net)" "dict_get data CONF_DEV_KEY = Some (JStr dev)"
    "dict_get data CONF_APP_KEY = Some (JStr app)" and valid: "validate_hex_key net" "validate_hex_key dev" "validate_hex_key app"
    by (auto simp: sig_entry_ok_def)
  have default: "int16 (JStr ''00B0'') = Inr 0xB0" "int16 (JStr ''0001'') = Inr 1" by code_simp+
  from assms(1) stored_get [of "\<lambda>j. \<exists>a. int16 j = Inr a \<and> a \<in> {1..0x7FFF}" data CONF_UNICAST_TARGET "JStr ''00B0''"]
    stored_get [of "\<lambda>j. \<exists>a. int16 j = Inr a \<and> a \<in> {1..0x7FFF}" data CONF_UNICAST_OUR "JStr ''0001''"] default
  obtain target our where addr: "int16 (conf_get data CONF_UNICAST_TARGET (JStr ''00B0'')) = Inr target" "target \<in> {1..0x7FFF}"
    "int16 (conf_get data CONF_UNICAST_OUR (JStr ''0001'')) = Inr our" "our \<in> {1..0x7FFF}" by (auto simp: sig_entry_ok_def)
  have "int16 (JStr (format_04x True target)) = Inr target" using addr(2) by (simp add: int16_def)
  then obtain level where level: "int16 (conf_get data CONF_LEVEL_UNICAST_TARGET (JStr (format_04x True target))) = Inr level"
    using assms(1) stored_get [of "\<lambda>j. \<exists>a. int16 j = Inr a" data CONF_LEVEL_UNICAST_TARGET "JStr (format_04x True target)"]
    by (auto simp: sig_entry_ok_def)
  obtain model q where nums: "int_of_json (conf_get data CONF_BRIGHTNESS_MODEL_ID (JNum 0x1002)) = Inr model"
    "int_of_json (conf_get data CONF_INITIAL_SEQUENCE (JNum 0)) = Inr q" "q \<in> {0..0xFFFFFF}"
    using assms(1) stored_get [of "\<lambda>j. \<exists>m. int_of_json j = Inr m" data CONF_BRIGHTNESS_MODEL_ID "JNum 0x1002"]
      stored_get [of "\<lambda>j. \<exists>q. int_of_json j = Inr q \<and> q \<in> {0..0xFFFFFF}" data CONF_INITIAL_SEQUENCE "JNum 0"]
    by (auto simp: sig_entry_ok_def)
  have "validate_iv_index (conf_get data CONF_IV_INDEX (JNum (of_int DEFAULT_IV_INDEX))) = None"
    using assms(1) stored_get [of "\<lambda>j. validate_iv_index j = None" data CONF_IV_INDEX "JNum (of_int DEFAULT_IV_INDEX)"]
    by (simp add: sig_entry_ok_def DEFAULT_IV_INDEX_def)
  from valid_iv_index [OF this] obtain i where i: "as_int (conf_get data CONF_IV_INDEX (JNum (of_int DEFAULT_IV_INDEX))) = Inr i"
    "0 \<le> i" "i < 2 ^ 32" by blast
  let ?secrets = "secrets_dict target (JStr net) (JStr dev) (JStr app)"
  let ?l = "make_sig_link target our ''cfg'' i (set_seq q store) connect_callback False (Some level) model"
  have created: "create_sig_plug set_seq store connect_callback data = Inr (?secrets, ?l)"
    using keys valid valid_key_bytes(2) addr level nums i
    by (simp add: create_sig_plug_def conf_get_def [of data CONF_NET_KEY] conf_get_def [of data CONF_DEV_KEY] conf_get_def [of data CONF_APP_KEY])
  from valid_keys_derive [OF assms(3) valid i(2,3)] obtain ks where
    ks: "make_mesh_keys lib (code_points net) (code_points dev) (Some (code_points app)) i = Inr ks" "mesh_keys_ok ks" "mk_app_key ks \<noteq> None"
    by blast
  have "load_keys lib (env\<lparr>le_secret := entry_secret ?secrets\<rparr>) ?l = (Inr (), on_device (\<lambda>d. d\<lparr>sd_keys := Some ks\<rparr>) ?l)" for env
    using created_device_loads_its_keys [OF created, of "env\<lparr>le_secret := entry_secret ?secrets\<rparr>"] keys ks(1) by (simp add: make_sig_link_def)
  moreover have "create_device set_seq store connect_callback t mac data = Inr (Sig_Mesh ?secrets ?l)"
    using assms(2) by (auto simp: create_device_def created sig_type_def)
  moreover have "sn_target_addr (sl_node ?l) = target" "sn_our_addr (sl_node ?l) = our"
    "sn_seq_store (sl_node ?l) = set_seq q store" by (simp_all add: make_sig_link_def)
  ultimately show ?thesis using addr nums(3) ks(2,3) by (intro exI [of _ ?secrets] exI [of _ ?l] exI [of _ ks]) auto
qed

lemma validated_unicast: "validate_unicast_address s = None \<Longrightarrow> \<exists>a. int16 (JStr (upper s)) = Inr a \<and> a \<in> {1..0x7FFF}"
  using valid_unicast_address [of s] by (auto simp: int16_def parse_int_upper)

lemma imported_entry_ok:
  assumes "sig_light_step address name bound input = Create_Entry title entry"
    and "\<And>q level model. bound = Inr (q, level, model) \<Longrightarrow> 0 \<le> q \<and> q \<le> 0xFFFFFF \<and> (\<exists>a \<ge> 0. level = format_04x True a)"
  shows "sig_entry_ok entry \<and> dict_get entry CONF_DEVICE_TYPE = Some (JStr DEVICE_TYPE_SIG_LIGHT)
    \<and> dict_get entry CONF_MAC_ADDRESS = Some (JStr (upper address))"
proof -
  let ?v = "\<lambda>field dflt. json_str (conf_get input field (JStr dflt))"
  have ok: "sig_light_errors input = []" using assms(1) by (auto simp: sig_light_step_def Let_def split: if_splits)
  obtain b where entry: "entry = fold (\<lambda>(k, v). dict_set k v) (sig_light_entry input b)
      [(CONF_MAC_ADDRESS, JStr (upper address)), (CONF_DEVICE_TYPE, JStr DEVICE_TYPE_SIG_LIGHT)]"
    and b: "b = None \<or> (\<exists>x. bound = Inr x \<and> b = Some x)"
    using assms(1) ok by (auto simp: sig_light_step_def finalize_entry_def Let_def split: if_splits sum.splits)
  from ok obtain s where seq: "initial_sequence_of input = Some s" "s \<in> {0..0xFFFFFF}"
    by (auto simp: sig_light_errors_def initial_sequence_of_def split: if_splits sum.splits)
  from ok have keys: "validate_hex_key (?v CONF_NET_KEY [])" "validate_hex_key (?v CONF_DEV_KEY [])" "validate_hex_key (?v CONF_APP_KEY [])"
    and addr: "validate_unicast_address (?v CONF_UNICAST_TARGET ''00B0'') = None" "validate_unicast_address (?v CONF_UNICAST_OUR ''0001'') = None"
    and iv: "validate_iv_index (conf_get input CONF_IV_INDEX (JNum (of_int DEFAULT_IV_INDEX))) = None"
    by (auto simp: sig_light_errors_def key_errors_none optional_error_none split: if_splits)
  have get: "dict_get entry CONF_NET_KEY = Some (JStr (?v CONF_NET_KEY []))" "dict_get entry CONF_DEV_KEY = Some (JStr (?v CONF_DEV_KEY []))"
    "dict_get entry CONF_APP_KEY = Some (JStr (?v CONF_APP_KEY []))"
    "dict_get entry CONF_UNICAST_TARGET = Some (JStr (upper (?v CONF_UNICAST_TARGET ''00B0'')))"
    "dict_get entry CONF_UNICAST_OUR = Some (JStr (upper (?v CONF_UNICAST_OUR ''0001'')))"
    "dict_get entry CONF_IV_INDEX = Some (conf_get input CONF_IV_INDEX (JNum (of_int DEFAULT_IV_INDEX)))"
    "dict_get entry CONF_DEVICE_TYPE = Some (JStr DEVICE_TYPE_SIG_LIGHT)" "dict_get entry CONF_MAC_ADDRESS = Some (JStr (upper address))"
    using entry by (simp_all add: sig_light_entry_def conf_names dict_get_set split: option.splits if_splits prod.splits)
  have "stored (\<lambda>j. \<exists>a. int16 j = Inr a) (dict_get entry CONF_LEVEL_UNICAST_TARGET)"
    "stored (\<lambda>j. \<exists>m. int_of_json j = Inr m) (dict_get entry CONF_BRIGHTNESS_MODEL_ID)"
    "stored (\<lambda>j. \<exists>q. int_of_json j = Inr q \<and> q \<in> {0..0xFFFFFF}) (dict_get entry CONF_INITIAL_SEQUENCE)"
    using b assms(2) seq
    by (auto simp: entry stored_def sig_light_entry_def conf_names dict_get_set int16_def split: option.splits if_splits)
  with keys validated_unicast [OF addr(1)] validated_unicast [OF addr(2)] iv show ?thesis
    by (auto simp: sig_entry_ok_def get stored_def [of _ "Some x" for x])
qed

text \<open>What the form for an existing light accepts is an entry from which a device can be made: its addresses are
  unicast addresses, the sequence number is within 24 bits, and when it connects it derives its keys, all of the
  right size, from the three strings.\<close>

theorem imported_light_loads_keys:
  assumes "sig_light_step address name bound input = Create_Entry title entry"
    and "\<And>q level model. bound = Inr (q, level, model) \<Longrightarrow> 0 \<le> q \<and> q \<le> 0xFFFFFF \<and> (\<exists>a \<ge> 0. level = format_04x True a)"
    and "block_cipher (cl_aes lib)"
  shows "\<exists>secrets l keys. create_device set_seq store connect_callback DEVICE_TYPE_SIG_LIGHT (upper address) entry = Inr (Sig_Mesh secrets l)
    \<and> dict_get entry CONF_DEVICE_TYPE = Some (JStr DEVICE_TYPE_SIG_LIGHT) \<and> dict_get entry CONF_MAC_ADDRESS = Some (JStr (upper address))
    \<and> sn_target_addr (sl_node l) \<in> {1..0x7FFF} \<and> sn_our_addr (sl_node l) \<in> {1..0x7FFF}
    \<and> (\<exists>q \<in> {0..0xFFFFFF}. sn_seq_store (sl_node l) = set_seq q store)
    \<and> mesh_keys_ok keys \<and> mk_app_key keys \<noteq> None
    \<and> (\<forall>env. load_keys lib (env\<lparr>le_secret := entry_secret secrets\<rparr>) l = (Inr (), on_device (\<lambda>d. d\<lparr>sd_keys := Some keys\<rparr>) l))"
proof -
  have ok: "sig_entry_ok entry \<and> dict_get entry CONF_DEVICE_TYPE = Some (JStr DEVICE_TYPE_SIG_LIGHT)
    \<and> dict_get entry CONF_MAC_ADDRESS = Some (JStr (upper address))"
    by (rule imported_entry_ok [OF assms(1)]) (rule assms(2))
  have "sig_type DEVICE_TYPE_SIG_LIGHT" by (simp add: sig_type_def)
  from sig_entry_device [OF conjunct1 [OF ok] this assms(3), where set_seq = set_seq and store = store
      and connect_callback = connect_callback and mac = "upper address"]
  obtain secrets l keys where
    d: "create_device set_seq store connect_callback DEVICE_TYPE_SIG_LIGHT (upper address) entry = Inr (Sig_Mesh secrets l)"
    "sn_target_addr (sl_node l) \<in> {1..0x7FFF}" "sn_our_addr (sl_node l) \<in> {1..0x7FFF}" "mesh_keys_ok keys" "mk_app_key keys \<noteq> None"
    "\<exists>q \<in> {0..0xFFFFFF}. sn_seq_store (sl_node l) = set_seq q store"
    "\<forall>env. load_keys lib (env\<lparr>le_secret := entry_secret secrets\<rparr>) l = (Inr (), on_device (\<lambda>d. d\<lparr>sd_keys := Some keys\<rparr>) l)" by blast
  show ?thesis by (intro exI [of _ secrets] exI [of _ l] exI [of _ keys] conjI d) (use ok in simp_all)
qed

theorem imported_light_loads_keys_witness:
  "\<exists>title entry secrets l keys. sig_light_step ''dc:23:4d:21:43:a5'' None (Inl MeshConnectionError) demo_entry = Create_Entry title entry
     \<and> create_device ims_set_seq \<lparr>ims_seq = 0\<rparr> True DEVICE_TYPE_SIG_LIGHT (upper ''dc:23:4d:21:43:a5'') entry = Inr (Sig_Mesh secrets l)
     \<and> load_keys demo_lib ((demo_link_env False)\<lparr>le_secret := entry_secret secrets\<rparr>) l = (Inr (), on_device (\<lambda>d. d\<lparr>sd_keys := Some keys\<rparr>) l)"
proof -
  let ?s = "sig_light_step ''dc:23:4d:21:43:a5'' None (Inl MeshConnectionError) demo_entry"
  have "case ?s of Create_Entry title entry \<Rightarrow> True | _ \<Rightarrow> False" by code_simp
  then obtain title entry where step: "?s = Create_Entry title entry" by (auto split: flow_result.splits)
  have "block_cipher (cl_aes demo_lib)" by (simp add: demo_lib_def demo_aes_block_cipher)
  from imported_light_loads_keys [OF step _ this] step show ?thesis by (metis Inl_not_Inr)
qed


subsection \<open>The keys of a plug\<close>

lemma hex_text_Cons: "hex_text (b # bs) = digits_of False ! (unat b div 16) # digits_of False ! (unat b mod 16) # hex_text bs"
  by (simp add: hex_text_def)

lemma bytes_fromhex_hex_text: "bytes_fromhex (code_points (hex_text bs)) = Inr bs"
proof (induction bs)
  case Nil
  then show ?case by (simp add: hex_text_def code_points_def)
next
  case (Cons b bs)
  have b: "unat b < 256" using unsigned_less [of b] by simp
  then have d: "digit_value 16 (digits_of False ! (unat b div 16)) = Some (int (unat b div 16))"
    "digit_value 16 (digits_of False ! (unat b mod 16)) = Some (int (unat b mod 16))"
    by (intro digits_of_value; simp)+
  have whole: "16 * int (unat b div 16) + int (unat b mod 16) = int (unat b)"
    by (metis mult_div_mod_eq of_nat_add of_nat_mult of_nat_numeral)
  have byte: "word_of_int (16 * int (unat b div 16) + int (unat b mod 16)) = b"
    unfolding whole by simp
  show ?case using Cons d ascii_space_hex [of "digits_of False ! (unat b div 16)"] byte
    by (simp add: hex_text_Cons code_points_def hex_digit_char del: of_int_add)
qed

lemma hex_text_Nil_iff: "hex_text bs = [] \<longleftrightarrow> bs = []"
  by (cases bs) (simp_all add: hex_text_def)

text \<open>C38: The entry of a provisioned plug gives back the keys: the device that is made from it derives its keys from the
  same network, device and application key, and has the addresses that the provisioning used.\<close>

theorem plug_entry_keeps_keys:
  assumes "length net = 16" "dev \<noteq> []" "length app = 16" "block_cipher (cl_aes lib)"
  shows "\<exists>title entry secrets l keys.
      sig_plug_step mac (Inr (hex_text net, hex_text dev, hex_text app)) = Create_Entry title entry
    \<and> create_device set_seq store connect_callback DEVICE_TYPE_SIG_PLUG mac entry = Inr (Sig_Mesh secrets l)
    \<and> sn_target_addr (sl_node l) = 0xB0 \<and> sn_our_addr (sl_node l) = 1
    \<and> mk_net_key keys = net \<and> mk_dev_key keys = dev \<and> mk_app_key keys = Some app \<and> mk_iv_index keys = 0
    \<and> load_keys lib (env\<lparr>le_secret := entry_secret secrets\<rparr>) l = (Inr (), on_device (\<lambda>d. d\<lparr>sd_keys := Some keys\<rparr>) l)"
proof -
  obtain title entry where step: "sig_plug_step mac (Inr (hex_text net, hex_text dev, hex_text app)) = Create_Entry title entry"
    by (simp add: sig_plug_step_def finalize_entry_def)
  then have "entry = fold (\<lambda>(k, v). dict_set k v)
      [(CONF_UNICAST_TARGET, JStr (format_04x True 0xB0)), (CONF_UNICAST_OUR, JStr (format_04x True 1)),
       (CONF_IV_INDEX, JNum 0), (CONF_NET_KEY, JStr (hex_text net)), (CONF_DEV_KEY, JStr (hex_text dev)), (CONF_APP_KEY, JStr (hex_text app))]
      [(CONF_MAC_ADDRESS, JStr mac), (CONF_DEVICE_TYPE, JStr DEVICE_TYPE_SIG_PLUG)]"
    by (simp add: sig_plug_step_def finalize_entry_def UNICAST_DEVICE_DEFAULT_def UNICAST_PROVISIONER_def DEFAULT_IV_INDEX_def)
  then have get: "dict_get entry CONF_NET_KEY = Some (JStr (hex_text net))" "dict_get entry CONF_DEV_KEY = Some (JStr (hex_text dev))"
    "dict_get entry CONF_APP_KEY = Some (JStr (hex_text app))" "dict_get entry CONF_UNICAST_TARGET = Some (JStr (format_04x True 0xB0))"
    "dict_get entry CONF_UNICAST_OUR = Some (JStr (format_04x True 1))" "dict_get entry CONF_IV_INDEX = Some (JNum 0)"
    "dict_get entry CONF_LEVEL_UNICAST_TARGET = None" "dict_get entry CONF_BRIGHTNESS_MODEL_ID = None"
    "dict_get entry CONF_INITIAL_SEQUENCE = None"
    by (simp_all add: conf_names dict_get_set)
  have nonempty: "net \<noteq> []" "app \<noteq> []" using assms by auto
  let ?secrets = "secrets_dict 0xB0 (JStr (hex_text net)) (JStr (hex_text dev)) (JStr (hex_text app))"
  let ?l = "make_sig_link 0xB0 1 ''cfg'' 0 (set_seq 0 store) connect_callback False (Some 0xB0) 0x1002"
  have created: "create_sig_plug set_seq store connect_callback entry = Inr (?secrets, ?l)"
    using nonempty assms(2) by (simp add: create_sig_plug_def conf_get_def get int16_def hex_text_Nil_iff)
  obtain keys where "make_mesh_keys lib (code_points (hex_text net)) (code_points (hex_text dev)) (Some (code_points (hex_text app))) 0 = Inr keys"
    "mk_net_key keys = net" "mk_dev_key keys = dev" "mk_app_key keys = Some app" "mk_iv_index keys = 0"
    using mesh_keys_derived [OF assms(4) bytes_fromhex_hex_text [of net] bytes_fromhex_hex_text [of dev], where app_hex = "Some (code_points (hex_text app))" and app = "Some app" and iv = 0]
      assms bytes_fromhex_hex_text [of app] nonempty by (auto simp: code_points_def hex_text_Nil_iff)
  moreover from this have "load_keys lib (env\<lparr>le_secret := entry_secret ?secrets\<rparr>) ?l = (Inr (), on_device (\<lambda>d. d\<lparr>sd_keys := Some keys\<rparr>) ?l)"
    using created_device_loads_its_keys [OF created, of "env\<lparr>le_secret := entry_secret ?secrets\<rparr>"] get(1-3) by (simp add: make_sig_link_def)
  moreover have "create_device set_seq store connect_callback DEVICE_TYPE_SIG_PLUG mac entry = Inr (Sig_Mesh ?secrets ?l)"
    by (simp add: create_device_def created)
  moreover have "sn_target_addr (sl_node ?l) = 0xB0" "sn_our_addr (sl_node ?l) = 1" by (simp_all add: make_sig_link_def)
  ultimately show ?thesis using step by blast
qed

theorem plug_entry_keeps_keys_witness:
  "\<exists>title entry secrets l keys.
      sig_plug_step ''DC:23:4D:21:43:A5'' (Inr (hex_text (replicate 16 1), hex_text (replicate 16 2), hex_text (replicate 16 3)))
        = Create_Entry title entry
    \<and> create_device ims_set_seq \<lparr>ims_seq = 0\<rparr> True DEVICE_TYPE_SIG_PLUG ''DC:23:4D:21:43:A5'' entry = Inr (Sig_Mesh secrets l)
    \<and> mk_app_key keys = Some (replicate 16 3)
    \<and> load_keys demo_lib ((demo_link_env False)\<lparr>le_secret := entry_secret secrets\<rparr>) l = (Inr (), on_device (\<lambda>d. d\<lparr>sd_keys := Some keys\<rparr>) l)"
  using plug_entry_keeps_keys [of "replicate 16 1" "replicate 16 2" "replicate 16 3" demo_lib "''DC:23:4D:21:43:A5''" ims_set_seq "\<lparr>ims_seq = 0\<rparr>" True "demo_link_env False"]
    demo_aes_block_cipher by (auto simp: demo_lib_def)

end
