(* ===== verification/Telink_Setup.thy ===== *)
theory Telink_Setup
  imports Sig_Setup Telink_Connection
begin

text \<open>
  Setting up Telink devices and bridges: \<^verbatim>\<open>config_flow_telink.py\<close>, \<^verbatim>\<open>config_flow_ble.py\<close>,
  \<^verbatim>\<open>config_flow_discovery.py\<close>, and the steps \<^verbatim>\<open>user\<close> and \<^verbatim>\<open>import\<close> of \<^verbatim>\<open>config_flow.py\<close>.  The Bluetooth
  backend is the record \<open>validate_env\<close>.  A ValueError of these modules carries an error key as its text, so the
  exceptions of the validation are \<open>flow_error\<close>; the text of other exceptions matters only when they are
  ValueErrors, and then it is part of the environment.
\<close>

subsection \<open>Errors\<close>

datatype flow_error = Value_Error string | Other_Error py_error

type_synonym 'a flow_res = "flow_error + 'a"

definition is_exception :: "flow_error \<Rightarrow> bool" where
  "is_exception e = (case e of Value_Error k \<Rightarrow> True | Other_Error x \<Rightarrow> isinstance x PyException)"

text \<open>A result of the library, whose ValueErrors have the text \<open>txt\<close>.\<close>

definition flow_of :: "string \<Rightarrow> 'a res \<Rightarrow> 'a flow_res" where
  "flow_of msg r = (case r of Inr x \<Rightarrow> Inr x
     | Inl e \<Rightarrow> Inl (if isinstance e ValueError then Value_Error msg else Other_Error e))"

subsection \<open>Calling the encoder\<close>

text \<open>
  An argument of any type.  \<^verbatim>\<open>encode_command_packet\<close> first calls \<^verbatim>\<open>to_bytes\<close> of the sequence number, which
  \<^verbatim>\<open>bytes\<close> does not have; a wrong type of another argument, which does not occur, is taken for a TypeError.
\<close>

datatype py_value = Val_Int int | Val_Bytes bytes

fun to_bytes_method :: "py_value \<Rightarrow> nat \<Rightarrow> bytes res" where
  "to_bytes_method (Val_Int x) n = to_bytes_le x n"
| "to_bytes_method (Val_Bytes bs) n = Inl AttributeError"

definition call_encode_command_packet ::
  "(bytes \<Rightarrow> bytes \<Rightarrow> bytes) \<Rightarrow> py_value \<Rightarrow> py_value \<Rightarrow> py_value \<Rightarrow> py_value \<Rightarrow> py_value \<Rightarrow> py_value \<Rightarrow> bytes res" where
  "call_encode_command_packet aes key mac_bytes sequence dest_id opcode params =
     bindR (to_bytes_method sequence 3) (\<lambda>_.
       case (key, mac_bytes, sequence, dest_id, opcode, params) of
         (Val_Bytes k, Val_Bytes m, Val_Int s, Val_Int d, Val_Int c, Val_Bytes p) \<Rightarrow>
           encode_command_packet aes k m s d c p TELINK_VENDOR_ID
       | _ \<Rightarrow> Inl TypeError)"

subsection \<open>Pairing and verification\<close>

definition TELINK_SERVICE_PREFIX :: string where "TELINK_SERVICE_PREFIX = ''00010203-0405-0607-0809-0a0b0c0d''"
definition SIG_MESH_PROV_UUID :: string where "SIG_MESH_PROV_UUID = ''00001827-0000-1000-8000-00805f9b34fb''"
definition SIG_MESH_PROXY_UUID :: string where "SIG_MESH_PROXY_UUID = ''00001828-0000-1000-8000-00805f9b34fb''"
definition VERIFY_TIMEOUT :: seconds where "VERIFY_TIMEOUT = 5"

definition starts_with :: "string \<Rightarrow> string \<Rightarrow> bool" where
  "starts_with p s \<longleftrightarrow> take (length p) s = p"

definition has_telink :: "string list \<Rightarrow> bool" where
  "has_telink uuids \<longleftrightarrow> list_ex (starts_with TELINK_SERVICE_PREFIX) uuids"

definition has_sig_mesh :: "string list \<Rightarrow> bool" where
  "has_sig_mesh uuids \<longleftrightarrow> SIG_MESH_PROV_UUID \<in> set uuids \<or> SIG_MESH_PROXY_UUID \<in> set uuids"

text \<open>
  What the backend does: whether the device is advertised, how the stale connections are closed, how connecting
  ends (an error, and whether its text says that the adapter is busy), the UUIDs of the services in lower
  case, the client of the pairing and its random numbers, how the calls of the verification and the final
  disconnect end, and whether the thirty seconds run out; an error of the last disconnect after that is left out.
\<close>

record validate_env =
  ve_advertised :: bool
  ve_close_stale :: "flow_error option"
  ve_connect :: "(flow_error \<times> bool) option"
  ve_services :: "string list"
  ve_aes :: "bytes \<Rightarrow> bytes \<Rightarrow> bytes"
  ve_gatt :: gatt_oracle
  ve_client_random :: bytes
  ve_start_notify :: "flow_error option"
  ve_write :: "bytes \<Rightarrow> flow_error option"
  ve_answered :: bool
  ve_stop_notify :: "flow_error option"
  ve_disconnect :: "flow_error option"
  ve_late :: bool
  ve_message :: string

text \<open>\<^verbatim>\<open>mac_to_bytes\<close> of the flow does not check the number of parts.\<close>

definition flow_mac_to_bytes :: "string \<Rightarrow> bytes res" where
  "flow_mac_to_bytes mac =
     mapR (\<lambda>p. bindR (parse_int 16 p) (\<lambda>v. if 0 \<le> v \<and> v < 256 then Inr (word_of_int v) else Inl ValueError)) (split_on (CHR '':'') mac)"

text \<open>A step that ends normally or with an exception, and a \<^verbatim>\<open>finally\<close> clause.\<close>

definition step :: "flow_error option \<Rightarrow> unit flow_res" where
  "step e = (case e of None \<Rightarrow> Inr () | Some x \<Rightarrow> Inl x)"

definition bindF :: "'a flow_res \<Rightarrow> ('a \<Rightarrow> 'b flow_res) \<Rightarrow> 'b flow_res" where
  "bindF r f = (case r of Inl e \<Rightarrow> Inl e | Inr x \<Rightarrow> f x)"

definition finallyF :: "'a flow_res \<Rightarrow> flow_error option \<Rightarrow> 'a flow_res" where
  "finallyF r e = (case e of Some x \<Rightarrow> Inl x | None \<Rightarrow> r)"

definition start_world :: world where
  "start_world = \<lparr>w_count = 0, w_trace = [], w_attempts = 0, w_sleeps = [], w_called = []\<rparr>"

definition pair_for_flow :: "validate_env \<Rightarrow> string \<Rightarrow> string \<Rightarrow> bytes flow_res" where
  "pair_for_flow env mesh_name mesh_password =
     (case bindR (utf8_encode (code_points mesh_name)) (\<lambda>n. bindR (utf8_encode (code_points mesh_password)) (\<lambda>p.
             fst (pair (ve_aes env) (ve_gatt env) (ve_client_random env) n p start_world))) of
        Inr (session_key, _) \<Rightarrow> Inr session_key
      | Inl e \<Rightarrow> Inl (if isinstance e PyException then Value_Error ''pairing_failed'' else Other_Error e))"

text \<open>The query, with its arguments in the order in which the code passes them.\<close>

definition status_query :: "validate_env \<Rightarrow> string \<Rightarrow> bytes \<Rightarrow> bytes flow_res" where
  "status_query env mac session_key =
     flow_of (ve_message env) (bindR (flow_mac_to_bytes mac) (\<lambda>mac_bytes.
       call_encode_command_packet (ve_aes env) (Val_Int TELINK_CMD_STATUS_QUERY) (Val_Bytes [0x10]) (Val_Bytes session_key)
         (Val_Int 0) (Val_Int 0) (Val_Bytes mac_bytes)))"

definition perform_telink_pairing :: "validate_env \<Rightarrow> string \<Rightarrow> string \<Rightarrow> string \<Rightarrow> config flow_res" where
  "perform_telink_pairing env mac mesh_name mesh_password =
     (if \<not> has_telink (ve_services env) then Inl (Value_Error ''device_type_mismatch'')
      else bindF (pair_for_flow env mesh_name mesh_password) (\<lambda>session_key.
           bindF (status_query env mac session_key) (\<lambda>query.
           bindF (step (ve_start_notify env)) (\<lambda>_.
           bindF (finallyF (bindF (step (ve_write env query)) (\<lambda>_.
               if ve_answered env then Inr () else Inl (Value_Error ''verify_failed''))) (ve_stop_notify env)) (\<lambda>_.
             Inr [])))))"

subsection \<open>Validation\<close>

definition detect_type :: "string list \<Rightarrow> string flow_res" where
  "detect_type uuids =
     (if has_sig_mesh uuids then Inr DEVICE_TYPE_SIG_PLUG
      else if has_telink uuids then Inr DEVICE_TYPE_LIGHT else Inl (Value_Error ''unknown_device_type''))"

definition validate_connected :: "validate_env \<Rightarrow> string \<Rightarrow> string option \<Rightarrow> string \<Rightarrow> string \<Rightarrow> (string \<times> config) flow_res" where
  "validate_connected env mac device_type mesh_name mesh_password =
     bindF (case device_type of None \<Rightarrow> detect_type (ve_services env) | Some t \<Rightarrow> Inr t) (\<lambda>detected.
     bindF (if detected = DEVICE_TYPE_SIG_PLUG then
              (if has_sig_mesh (ve_services env) then Inr [] else Inl (Value_Error ''device_type_mismatch''))
            else if detected = DEVICE_TYPE_LIGHT \<or> detected = DEVICE_TYPE_PLUG then
              perform_telink_pairing env mac mesh_name mesh_password
            else Inl (Value_Error ''unknown_device_type'')) (\<lambda>extra_data.
       Inr (detected, extra_data)))"

definition validate_inner :: "validate_env \<Rightarrow> string \<Rightarrow> string option \<Rightarrow> string \<Rightarrow> string \<Rightarrow> (string \<times> config) flow_res" where
  "validate_inner env mac device_type mesh_name mesh_password =
     (if \<not> ve_advertised env then Inl (Value_Error ''device_not_found'')
      else bindF (step (ve_close_stale env)) (\<lambda>_.
        case ve_connect env of
          Some (e, busy) \<Rightarrow>
            Inl (if is_exception e then Value_Error (if busy then ''ble_adapter_busy'' else ''cannot_connect_ble'') else e)
        | None \<Rightarrow> finallyF (validate_connected env mac device_type mesh_name mesh_password) (ve_disconnect env)))"

text \<open>\<^verbatim>\<open>validate_and_connect\<close>; a TimeoutError from inside looks like that of \<^verbatim>\<open>wait_for\<close>.\<close>

definition validate_and_connect :: "validate_env \<Rightarrow> string \<Rightarrow> string option \<Rightarrow> string \<Rightarrow> string \<Rightarrow> (string \<times> config) flow_res" where
  "validate_and_connect env mac device_type mesh_name mesh_password =
     (case if ve_late env then Inl (Other_Error TimeoutError) else validate_inner env mac device_type mesh_name mesh_password of
        Inr x \<Rightarrow> Inr x
      | Inl e \<Rightarrow> Inl (case e of Other_Error x \<Rightarrow> if isinstance x TimeoutError then Value_Error ''timeout_validation'' else e
                       | Value_Error k \<Rightarrow> e))"

subsection \<open>Discovery and confirmation\<close>

text \<open>\<^verbatim>\<open>_discovery_info\<close>.\<close>

record discovery =
  di_address :: string
  di_name :: string
  di_rssi :: "int option"
  di_category :: string
  di_auto_type :: "string option"

definition rssi_to_signal_quality :: "int option \<Rightarrow> string" where
  "rssi_to_signal_quality rssi =
     (case rssi of None \<Rightarrow> ''Unknown''
      | Some r \<Rightarrow> if r \<ge> -65 then ''Excellent'' else if r \<ge> -75 then ''Good'' else if r \<ge> -85 then ''Fair'' else ''Weak'')"

text \<open>
  \<^verbatim>\<open>async_step_bluetooth\<close> for a device that is not configured: \<open>advertised\<close> is whether Home Assistant still
  sees it, or the RuntimeError that it has no Bluetooth manager.
\<close>

definition in_pairing_mode :: "string \<Rightarrow> string list \<Rightarrow> bool" where
  "in_pairing_mode name uuids \<longleftrightarrow> \<not> starts_with ''tymesh'' name
     \<and> (starts_with ''S17'' name \<or> starts_with ''out_of_mesh'' name \<or> SIG_MESH_PROV_UUID \<in> set uuids)"

definition discovery_of :: "string \<Rightarrow> string \<Rightarrow> string list \<Rightarrow> int option \<Rightarrow> discovery" where
  "discovery_of address name uuids rssi =
     (let is_sig_mesh = starts_with ''S17'' name \<or> has_sig_mesh uuids in
      \<lparr>di_address = address, di_name = name, di_rssi = rssi, di_category = (if is_sig_mesh then ''Smart Plug'' else ''LED Light''),
       di_auto_type = (if is_sig_mesh then Some DEVICE_TYPE_SIG_PLUG
         else if has_telink uuids then Some DEVICE_TYPE_LIGHT else None)\<rparr>)"

definition bluetooth_step :: "string \<Rightarrow> string \<Rightarrow> string list \<Rightarrow> int option \<Rightarrow> bool res \<Rightarrow> discovery option \<times> flow_result" where
  "bluetooth_step address name uuids rssi advertised =
     (if \<not> in_pairing_mode name uuids then (None, Abort ''not_in_pairing_mode'')
      else case advertised of
        Inl e \<Rightarrow> if isinstance e RuntimeError
          then (let d = discovery_of address name uuids rssi in
                (Some d, Show_Form (if di_auto_type d = Some DEVICE_TYPE_SIG_PLUG then ''sig_plug'' else ''confirm'') []))
          else (None, Raises e)
      | Inr found \<Rightarrow>
         if \<not> found then (None, Abort ''device_not_available'')
         else (let d = discovery_of address name uuids rssi in
               (Some d, Show_Form (if di_auto_type d = Some DEVICE_TYPE_SIG_PLUG then ''sig_plug'' else ''confirm'') [])))"

definition strip_quotes :: "string \<Rightarrow> string" where
  "strip_quotes s = (let q = (\<lambda>c. c = CHR 0x27 \<or> c = CHR 0x22) in rev (dropWhile q (rev (dropWhile q s))))"

definition mesh_entry :: "string \<Rightarrow> string \<Rightarrow> config \<Rightarrow> flow_result" where
  "mesh_entry mac device_type input =
     finalize_entry mac device_type None
       [(CONF_MESH_NAME, conf_get input CONF_MESH_NAME (JStr ''out_of_mesh'')),
        (CONF_MESH_PASSWORD, conf_get input CONF_MESH_PASSWORD (JStr ''123456'')),
        (CONF_VENDOR_ID, conf_get input CONF_VENDOR_ID (JStr DEFAULT_VENDOR_ID)),
        (CONF_MESH_ADDRESS, conf_get input CONF_MESH_ADDRESS (JNum (of_int DEFAULT_MESH_ADDRESS)))]"

text \<open>The step \<^verbatim>\<open>confirm\<close> after the form was submitted.\<close>

definition default_device_type :: "discovery \<Rightarrow> string" where
  "default_device_type d =
     (case di_auto_type d of None \<Rightarrow> DEVICE_TYPE_LIGHT
      | Some t \<Rightarrow> if t = DEVICE_TYPE_LIGHT \<or> t = DEVICE_TYPE_PLUG then t else DEVICE_TYPE_LIGHT)"

definition confirm_step :: "validate_env \<Rightarrow> discovery \<Rightarrow> config \<Rightarrow> flow_result" where
  "confirm_step env d input =
     (case validate_vendor_id (json_str (conf_get input CONF_VENDOR_ID (JStr DEFAULT_VENDOR_ID))) of
        Some e \<Rightarrow> Show_Form ''confirm'' [(CONF_VENDOR_ID, e)]
      | None \<Rightarrow>
         (case validate_and_connect env (di_address d) (Some (json_str (conf_get input CONF_DEVICE_TYPE (JStr (default_device_type d)))))
                 (json_str (conf_get input CONF_MESH_NAME (JStr ''out_of_mesh'')))
                 (json_str (conf_get input CONF_MESH_PASSWORD (JStr ''123456''))) of
            Inl (Value_Error k) \<Rightarrow> Show_Form ''confirm'' [(''base'', strip_quotes k)]
          | Inl (Other_Error e) \<Rightarrow>
              if isinstance e PyException then Show_Form ''confirm'' [(''base'', ''cannot_connect_ble'')] else Raises e
          | Inr (validated_type, _) \<Rightarrow> mesh_entry (di_address d) validated_type input))"

subsection \<open>Manual setup\<close>

definition KNOWN_BLE_ERROR_KEYS :: "string list" where
  "KNOWN_BLE_ERROR_KEYS = [''device_not_found'', ''ble_adapter_busy'', ''cannot_connect_ble'', ''unknown_device_type'',
     ''device_type_mismatch'', ''timeout_validation'', ''pairing_failed'', ''verify_failed'']"

text \<open>A name or password that cannot be encoded is a UnicodeEncodeError.\<close>

definition user_errors :: "config \<Rightarrow> (string \<times> string) list res" where
  "user_errors input =
     bindR (validate_mesh_credential (json_str (conf_get input CONF_MESH_NAME (JStr [])))) (\<lambda>name_error.
     bindR (validate_mesh_credential (json_str (conf_get input CONF_MESH_PASSWORD (JStr [])))) (\<lambda>pass_error.
       Inr (optional_error CONF_MAC_ADDRESS (validate_mac (json_str (conf_get input CONF_MAC_ADDRESS (JStr []))))
          @ optional_error CONF_MESH_NAME name_error @ optional_error CONF_MESH_PASSWORD pass_error
          @ optional_error CONF_VENDOR_ID (validate_vendor_id (json_str (conf_get input CONF_VENDOR_ID (JStr DEFAULT_VENDOR_ID)))))))"

text \<open>\<open>configured\<close> are the addresses of the entries; the other steps begin with their forms.\<close>

definition next_form :: "string \<Rightarrow> string option" where
  "next_form device_type =
     map_of [(DEVICE_TYPE_SIG_BRIDGE_PLUG, ''sig_bridge''), (DEVICE_TYPE_TELINK_BRIDGE_LIGHT, ''telink_bridge''),
       (DEVICE_TYPE_SIG_LIGHT, ''sig_light''), (DEVICE_TYPE_SIG_PLUG, ''sig_plug'')] device_type"

definition validated_user :: "validate_env \<Rightarrow> string \<Rightarrow> string \<Rightarrow> config \<Rightarrow> flow_result" where
  "validated_user env mac device_type input =
     (case validate_and_connect env (upper mac) (Some device_type)
             (json_str (conf_get input CONF_MESH_NAME (JStr ''out_of_mesh'')))
             (json_str (conf_get input CONF_MESH_PASSWORD (JStr ''123456''))) of
        Inl (Value_Error k) \<Rightarrow>
          Show_Form ''user'' [(''base'', if strip_quotes k \<in> set KNOWN_BLE_ERROR_KEYS then strip_quotes k else ''cannot_connect_ble'')]
      | Inl (Other_Error e) \<Rightarrow>
          if isinstance e PyException then Show_Form ''user'' [(''base'', ''cannot_connect_ble'')] else Raises e
      | Inr (validated_type, _) \<Rightarrow> mesh_entry (upper mac) validated_type input)"

definition user_step :: "validate_env \<Rightarrow> string list \<Rightarrow> config \<Rightarrow> flow_result" where
  "user_step env configured input =
     (let mac = json_str (conf_get input CONF_MAC_ADDRESS (JStr []));
          device_type = json_str (conf_get input CONF_DEVICE_TYPE (JStr DEVICE_TYPE_LIGHT)) in
      case user_errors input of
        Inl e \<Rightarrow> Raises e
      | Inr errors \<Rightarrow>
         if errors \<noteq> [] then Show_Form ''user'' errors
         else if upper mac \<in> set (map upper configured) then Abort ''already_configured''
         else (case next_form device_type of
            Some form \<Rightarrow> Show_Form form []
          | None \<Rightarrow> validated_user env mac device_type input))"

text \<open>The name of the entry of an imported light is never empty.\<close>

definition import_step :: "(int \<times> string \<times> int) res \<Rightarrow> config \<Rightarrow> flow_result" where
  "import_step bound input =
     (let mac = upper (json_str (conf_get input CONF_MAC_ADDRESS (JStr []))) in
      if validate_mac mac \<noteq> None \<or> dict_get input CONF_DEVICE_TYPE \<noteq> Some (JStr DEVICE_TYPE_SIG_LIGHT) then Abort ''invalid_import''
      else sig_light_step mac
        (Some (if truthy (dict_get input ''name'') then json_str (conf_get input ''name'' JNull)
               else ''SIG Mesh Light '' @ drop (length mac - 8) mac)) bound input)"

subsection \<open>Bridges\<close>

definition DEFAULT_BRIDGE_PORT :: int where "DEFAULT_BRIDGE_PORT = 8099"

definition telink_bridge_step :: "string \<Rightarrow> bridge_answer \<Rightarrow> config \<Rightarrow> flow_result" where
  "telink_bridge_step mac answer input =
     (let host = json_str (conf_get input CONF_BRIDGE_HOST (JStr []));
          port = conf_get input CONF_BRIDGE_PORT (JNum (of_int DEFAULT_BRIDGE_PORT)) in
      case validate_bridge_host host of
        Some e \<Rightarrow> Show_Form ''telink_bridge'' [(CONF_BRIDGE_HOST, e)]
      | None \<Rightarrow>
         if \<not> test_bridge_with_session answer then Show_Form ''telink_bridge'' [(''base'', ''cannot_connect'')]
         else finalize_entry mac DEVICE_TYPE_TELINK_BRIDGE_LIGHT None [(CONF_BRIDGE_HOST, JStr host), (CONF_BRIDGE_PORT, port)])"

definition sig_bridge_step :: "string \<Rightarrow> bridge_answer \<Rightarrow> config \<Rightarrow> flow_result" where
  "sig_bridge_step mac answer input =
     (let host = json_str (conf_get input CONF_BRIDGE_HOST (JStr []));
          port = conf_get input CONF_BRIDGE_PORT (JNum (of_int DEFAULT_BRIDGE_PORT));
          unicast_target = conf_get input CONF_UNICAST_TARGET (JStr ''00B0'');
          errors = optional_error CONF_BRIDGE_HOST (validate_bridge_host host)
            @ optional_error CONF_UNICAST_TARGET (validate_unicast_address (json_str unicast_target)) in
      if errors \<noteq> [] then Show_Form ''sig_bridge'' errors
      else if \<not> test_bridge_with_session answer then Show_Form ''sig_bridge'' [(''base'', ''cannot_connect'')]
      else finalize_entry mac DEVICE_TYPE_SIG_BRIDGE_PLUG None
        [(CONF_UNICAST_TARGET, unicast_target), (CONF_BRIDGE_HOST, JStr host), (CONF_BRIDGE_PORT, port)])"



subsection \<open>Direct setup\<close>

lemma status_query_fails: "\<exists>e. status_query env mac session_key = Inl e"
  by (cases "flow_mac_to_bytes mac") (simp_all add: status_query_def flow_of_def call_encode_command_packet_def)

lemma pairing_fails: "\<exists>e. perform_telink_pairing env mac mesh_name mesh_password = Inl e"
proof (cases "pair_for_flow env mesh_name mesh_password")
  case (Inr session_key)
  then show ?thesis using status_query_fails [of env mac session_key] by (auto simp: perform_telink_pairing_def bindF_def)
qed (simp add: perform_telink_pairing_def bindF_def)

lemma validation_fails:
  assumes "t \<noteq> DEVICE_TYPE_SIG_PLUG"
  shows "validate_and_connect env mac (Some t) mesh_name mesh_password \<noteq> Inr x"
proof -
  have "\<exists>e. validate_connected env mac (Some t) mesh_name mesh_password = Inl e"
    using assms pairing_fails [of env mac mesh_name mesh_password] by (auto simp: validate_connected_def bindF_def)
  then have "\<exists>e. validate_inner env mac (Some t) mesh_name mesh_password = Inl e"
    by (auto simp: validate_inner_def bindF_def finallyF_def step_def split: option.splits)
  then show ?thesis by (auto simp: validate_and_connect_def)
qed


text \<open>What the user sees when everything else works.\<close>

lemma working_light_refused:
  assumes "ve_advertised env" "ve_close_stale env = None" "ve_connect env = None" "has_telink (ve_services env)" "\<not> ve_late env"
    and "ve_disconnect env = None" "pair_for_flow env n p = Inr key" "flow_mac_to_bytes (di_address d) = Inr mac_bytes"
    and "validate_vendor_id (json_str (conf_get input CONF_VENDOR_ID (JStr DEFAULT_VENDOR_ID))) = None"
    and "dict_get input CONF_DEVICE_TYPE = Some (JStr DEVICE_TYPE_LIGHT)"
    and "json_str (conf_get input CONF_MESH_NAME (JStr ''out_of_mesh'')) = n" "json_str (conf_get input CONF_MESH_PASSWORD (JStr ''123456'')) = p"
  shows "confirm_step env d input = Show_Form ''confirm'' [(''base'', ''cannot_connect_ble'')]"
proof -
  have types: "DEVICE_TYPE_LIGHT \<noteq> DEVICE_TYPE_SIG_PLUG" "\<not> isinstance AttributeError ValueError" "\<not> isinstance AttributeError TimeoutError"
    "isinstance AttributeError PyException" by (simp_all add: device_types isinstance_def eval_nat_numeral)
  have "status_query env (di_address d) key = Inl (Other_Error AttributeError)"
    using assms(8) types by (simp add: status_query_def flow_of_def call_encode_command_packet_def)
  then have "validate_and_connect env (di_address d) (Some DEVICE_TYPE_LIGHT) n p = Inl (Other_Error AttributeError)"
    using assms(1-7) types
    by (simp add: validate_and_connect_def validate_inner_def validate_connected_def perform_telink_pairing_def bindF_def step_def finallyF_def)
  with assms(9-12) types show ?thesis by (simp add: confirm_step_def conf_get_def [of input CONF_DEVICE_TYPE])
qed

end
