(* ===== verification/Entry_Updates.thy ===== *)
theory Entry_Updates
  imports Sig_Setup
begin

text \<open>
  Changing a config entry: \<^verbatim>\<open>config_flow_reconfigure.py\<close>, \<^verbatim>\<open>config_flow_options.py\<close> and \<^verbatim>\<open>async_migrate_entry\<close> of
  \<^verbatim>\<open>__init__.py\<close>.  What is stored is the result; that Home Assistant reloads the entry is not modelled.  A
  name or password that cannot be encoded is a UnicodeEncodeError.
\<close>

definition CONF_ADAPTER :: string where "CONF_ADAPTER = ''adapter''"

definition bridge_type :: "string \<Rightarrow> bool" where
  "bridge_type t \<longleftrightarrow> t = DEVICE_TYPE_SIG_BRIDGE_PLUG \<or> t = DEVICE_TYPE_TELINK_BRIDGE_LIGHT"

definition entry_type :: "config \<Rightarrow> string" where
  "entry_type data = json_str (conf_get data CONF_DEVICE_TYPE (JStr DEVICE_TYPE_LIGHT))"

text \<open>\<^verbatim>\<open>{**data, **user_input}\<close> without the adapter.\<close>

definition merged :: "config \<Rightarrow> config \<Rightarrow> config" where
  "merged data input = dict_pop CONF_ADAPTER (fold (\<lambda>(k, v). dict_set k v) input data)"

definition sig_errors :: "config \<Rightarrow> (string \<times> string) list" where
  "sig_errors input =
     optional_error CONF_UNICAST_TARGET (validate_unicast_address (json_str (conf_get input CONF_UNICAST_TARGET (JStr ''00B0''))))
     @ optional_error CONF_IV_INDEX (validate_iv_index (conf_get input CONF_IV_INDEX (JNum 0)))"

text \<open>An empty name or password is not checked.\<close>

definition credential_error :: "string \<Rightarrow> config \<Rightarrow> (string \<times> string) list res" where
  "credential_error field input =
     (let v = conf_get input field (JStr []) in
      if truthy (Some v) then bindR (validate_mesh_credential (json_str v)) (\<lambda>e. Inr (optional_error field e)) else Inr [])"

definition credential_errors :: "config \<Rightarrow> (string \<times> string) list res" where
  "credential_errors input =
     bindR (credential_error CONF_MESH_NAME input) (\<lambda>a. bindR (credential_error CONF_MESH_PASSWORD input) (\<lambda>b. Inr (a @ b)))"

definition reconfigure_errors :: "bridge_answer \<Rightarrow> string \<Rightarrow> config \<Rightarrow> (string \<times> string) list res" where
  "reconfigure_errors answer t input =
     (if bridge_type t then
        Inr (case validate_bridge_host (json_str (conf_get input CONF_BRIDGE_HOST (JStr []))) of
               Some e \<Rightarrow> [(CONF_BRIDGE_HOST, e)]
             | None \<Rightarrow> if test_bridge_with_session answer then [] else [(''base'', ''cannot_connect'')])
      else if sig_type t then Inr (sig_errors input)
      else credential_errors input)"

text \<open>What a step stores, if it stores anything, and its result.\<close>

definition reconfigure_step :: "bridge_answer \<Rightarrow> config option \<Rightarrow> config \<Rightarrow> config option \<times> flow_result" where
  "reconfigure_step answer entry input =
     (case entry of None \<Rightarrow> (None, Abort ''entry_not_found'')
      | Some data \<Rightarrow>
         (case reconfigure_errors answer (entry_type data) input of
            Inl e \<Rightarrow> (None, Raises e)
          | Inr errors \<Rightarrow>
              if errors \<noteq> [] then (None, Show_Form ''reconfigure'' errors)
              else (Some (merged data input), Abort ''reconfigure_successful'')))"

text \<open>\<^verbatim>\<open>async_step_reauth_confirm\<close> checks nothing, and keeps the adapter.\<close>

definition reauth_confirm_step :: "config option \<Rightarrow> config option \<Rightarrow> config option \<times> flow_result" where
  "reauth_confirm_step entry input =
     (case (entry, input) of
        (Some data, Some new) \<Rightarrow> (Some (fold (\<lambda>(k, v). dict_set k v) new data), Abort ''reauth_successful'')
      | _ \<Rightarrow> (None, Show_Form ''reauth_confirm'' []))"

definition options_errors :: "string \<Rightarrow> config \<Rightarrow> (string \<times> string) list res" where
  "options_errors t input =
     (let host = conf_get input CONF_BRIDGE_HOST (JStr []) in
      bindR (if t = DEVICE_TYPE_LIGHT \<or> t = DEVICE_TYPE_PLUG then credential_errors input else Inr []) (\<lambda>credentials.
        Inr ((if sig_type t then sig_errors input else [])
          @ (if bridge_type t \<and> truthy (Some host)
             then optional_error CONF_BRIDGE_HOST (validate_bridge_host (json_str host)) else [])
          @ credentials)))"

definition options_step :: "config \<Rightarrow> config \<Rightarrow> config option \<times> flow_result" where
  "options_step data input =
     (case options_errors (entry_type data) input of
        Inl e \<Rightarrow> (None, Raises e)
      | Inr errors \<Rightarrow>
          if errors \<noteq> [] then (None, Show_Form ''init'' errors) else (Some (merged data input), Create_Entry [] []))"

definition migrate_entry :: "nat \<Rightarrow> config \<Rightarrow> nat \<times> config" where
  "migrate_entry version data = (if version = 1 then (2, dict_pop CONF_ADAPTER data) else (version, data))"



subsection \<open>Every entry of a SIG Mesh device\<close>

lemma get_merged:
  assumes "dict_ok input"
  shows "dict_get (merged data input) k = (if k = CONF_ADAPTER then None
    else case dict_get input k of Some v \<Rightarrow> Some v | None \<Rightarrow> dict_get data k)"
proof -
  have "dict_get (fold (\<lambda>(k, v). dict_set k v) input data) k = (case dict_get input k of Some v \<Rightarrow> Some v | None \<Rightarrow> dict_get data k)"
    using assms
  proof (induction input arbitrary: data)
    case (Cons p input)
    obtain a b where p: "p = (a, b)" by fastforce
    have "dict_get input a = None" using Cons.prems p by (simp add: map_of_eq_None_iff)
    with Cons.IH [of "dict_set a b data"] Cons.prems show ?case
      by (cases "k = a") (simp_all add: p dict_get_set split: option.splits)
  qed simp
  then show ?thesis by (simp add: merged_def dict_get_pop)
qed

text \<open>What the forms for a SIG Mesh device give: the two fields, of which the address is a text.\<close>

definition sig_form :: "config \<Rightarrow> bool" where
  "sig_form input \<longleftrightarrow> dict_ok input \<and> fst ` set input \<subseteq> {CONF_UNICAST_TARGET, CONF_IV_INDEX}
     \<and> (\<forall>j. dict_get input CONF_UNICAST_TARGET = Some j \<longrightarrow> (\<exists>s. j = JStr s))"

lemma sig_form_none: "sig_form input \<Longrightarrow> k \<notin> {CONF_UNICAST_TARGET, CONF_IV_INDEX} \<Longrightarrow> dict_get input k = None"
  unfolding sig_form_def map_of_eq_None_iff by blast

lemma merged_entry_ok:
  assumes ok: "sig_entry_ok data" and form: "sig_form input" and none: "sig_errors input = []"
  shows "sig_entry_ok (merged data input) \<and> entry_type (merged data input) = entry_type data"
proof -
  have other: "dict_get (merged data input) k = dict_get data k" if "k \<notin> {CONF_UNICAST_TARGET, CONF_IV_INDEX, CONF_ADAPTER}" for k
    using that form sig_form_none [OF form, of k] by (simp add: get_merged sig_form_def)
  have target: "stored (\<lambda>j. \<exists>a. int16 j = Inr a \<and> a \<in> {1..0x7FFF}) (dict_get (merged data input) CONF_UNICAST_TARGET)"
  proof (cases "dict_get input CONF_UNICAST_TARGET")
    case None
    then show ?thesis using ok form by (simp add: get_merged sig_form_def sig_entry_ok_def CONF_ADAPTER_def CONF_UNICAST_TARGET_def)
  next
    case (Some j)
    then obtain s where s: "j = JStr s" using form by (auto simp: sig_form_def)
    with Some none have "validate_unicast_address s = None" by (auto simp: sig_errors_def conf_get_def optional_error_none)
    from valid_unicast_address [OF this] Some s show ?thesis
      using form by (auto simp: get_merged sig_form_def stored_def CONF_ADAPTER_def CONF_UNICAST_TARGET_def)
  qed
  have "stored (\<lambda>j. validate_iv_index j = None) (dict_get (merged data input) CONF_IV_INDEX)"
  proof (cases "dict_get input CONF_IV_INDEX")
    case None
    then show ?thesis using ok form by (simp add: get_merged sig_form_def sig_entry_ok_def CONF_ADAPTER_def CONF_IV_INDEX_def)
  next
    case (Some j)
    then show ?thesis using none form
      by (auto simp: get_merged sig_form_def sig_errors_def conf_get_def optional_error_none stored_def CONF_ADAPTER_def CONF_IV_INDEX_def)
  qed
  with ok target show ?thesis
    by (simp add: sig_entry_ok_def entry_type_def conf_get_def other conf_names CONF_ADAPTER_def)
qed

lemma is_hex_text: "list_all is_hex (hex_text bs) \<and> length (hex_text bs) = 2 * length bs"
proof (induction bs)
  case (Cons b bs)
  have "unat b < 256" using unsigned_less [of b] by simp
  then have "digit_value 16 (digits_of False ! (unat b div 16)) \<noteq> None" "digit_value 16 (digits_of False ! (unat b mod 16)) \<noteq> None"
    using digits_of_value [of "unat b div 16" False] digits_of_value [of "unat b mod 16" False] by simp_all
  with Cons show ?case by (simp add: hex_text_Cons is_hex_def)
qed (simp add: hex_text_def)

lemma valid_hex_text: "length bs = 16 \<Longrightarrow> validate_hex_key (hex_text bs)"
  using is_hex_text [of bs] by (simp add: validate_hex_key_def at_end_def)

lemma plug_entry_ok:
  assumes "sig_plug_step mac (Inr (hex_text net, hex_text dev, hex_text app)) = Create_Entry title entry"
    and "length net = 16" "length dev = 16" "length app = 16"
  shows "sig_entry_ok entry \<and> entry_type entry = DEVICE_TYPE_SIG_PLUG"
proof -
  have "validate_iv_index (JNum (of_int DEFAULT_IV_INDEX)) = None" by (simp add: DEFAULT_IV_INDEX_def)
  with assms valid_hex_text [of net] valid_hex_text [of dev] valid_hex_text [of app] show ?thesis
    by (auto simp: sig_plug_step_def finalize_entry_def sig_entry_ok_def stored_def entry_type_def conf_get_def conf_names dict_get_set int16_def
        UNICAST_DEVICE_DEFAULT_def UNICAST_PROVISIONER_def)
qed

text \<open>
  The entries of SIG Mesh devices: created by provisioning a plug or importing a light, and then reconfigured, changed by
  the options or migrated.  A level address that the binding found is printed, and a sequence number is
  one of 24 bits.
\<close>

inductive sig_entry :: "config \<Rightarrow> bool" where
  provisioned: "sig_entry entry"
    if "sig_plug_step mac (Inr (hex_text net, hex_text dev, hex_text app)) = Create_Entry title entry"
      and "length net = 16" "length dev = 16" "length app = 16"
| imported: "sig_entry entry"
    if "sig_light_step address name bound input = Create_Entry title entry"
      and "\<And>q level model. bound = Inr (q, level, model) \<Longrightarrow> 0 \<le> q \<and> q \<le> 0xFFFFFF \<and> (\<exists>a \<ge> 0. level = format_04x True a)"
| reconfigured: "sig_entry new"
    if "sig_entry entry" "sig_form input" "reconfigure_step answer (Some entry) input = (Some new, r)"
| changed: "sig_entry new" if "sig_entry entry" "sig_form input" "options_step entry input = (Some new, r)"
| migrated: "sig_entry (snd (migrate_entry version entry))" if "sig_entry entry"

lemma sig_type_facts: "sig_type t \<Longrightarrow> \<not> bridge_type t \<and> t \<noteq> DEVICE_TYPE_LIGHT \<and> t \<noteq> DEVICE_TYPE_PLUG"
  by (auto simp: sig_type_def bridge_type_def device_types)

lemma sig_entry_valid: "sig_entry entry \<Longrightarrow> sig_entry_ok entry \<and> sig_type (entry_type entry)"
proof (induction rule: sig_entry.induct)
  case (provisioned mac net dev app title entry)
  with plug_entry_ok show ?case by (metis sig_type_def)
next
  case (imported address name bound input title entry)
  have "sig_entry_ok entry \<and> dict_get entry CONF_DEVICE_TYPE = Some (JStr DEVICE_TYPE_SIG_LIGHT)
    \<and> dict_get entry CONF_MAC_ADDRESS = Some (JStr (upper address))"
    by (rule imported_entry_ok [OF imported(1)]) (rule imported(2))
  then show ?case by (simp add: entry_type_def conf_get_def sig_type_def)
next
  case (reconfigured entry input answer new r)
  then have "sig_errors input = []" "new = merged entry input"
    using sig_type_facts [of "entry_type entry"] by (auto simp: reconfigure_step_def reconfigure_errors_def split: if_splits)
  with merged_entry_ok reconfigured show ?case by metis
next
  case (changed entry input new r)
  then have "sig_errors input = []" "new = merged entry input"
    using sig_type_facts [of "entry_type entry"] by (auto simp: options_step_def options_errors_def Let_def res_simps split: if_splits sum.splits)
  with merged_entry_ok changed show ?case by metis
next
  case (migrated entry version)
  have "dict_get (dict_pop CONF_ADAPTER entry) k = dict_get entry k" if "k \<noteq> CONF_ADAPTER" for k
    using that by (simp add: dict_get_pop)
  with migrated.IH show ?case
    by (simp add: migrate_entry_def sig_entry_ok_def entry_type_def conf_get_def CONF_ADAPTER_def conf_names)
qed



end
