(* ===== verification/Device_Registry.thy ===== *)
theory Device_Registry
  imports Device_Factory
begin

text \<open>
  The metadata of devices that is kept over restarts, \<^verbatim>\<open>device_registry.py\<close>.  The registry is the dictionary
  \<^verbatim>\<open>_devices\<close>; what the store of Home Assistant holds is a JSON value, \<open>None\<close> at first.  The clock is an
  argument, and timestamps are rational seconds.  A stored value whose type \<^verbatim>\<open>to_dict\<close> never writes is a TypeError
  when it is loaded, where Python would keep it.
\<close>

definition RSSI_HISTORY_MAXLEN :: nat where "RSSI_HISTORY_MAXLEN = 50"

record device_metadata =
  dm_address :: string
  dm_name :: string
  dm_device_type :: string
  dm_first_seen :: seconds
  dm_last_seen :: seconds
  dm_connection_count :: int
  dm_error_count :: int
  dm_last_error :: "string option"
  dm_last_error_time :: "seconds option"
  dm_rssi_history :: "int list"
  dm_firmware_version :: "string option"

type_synonym registry = "(string, device_metadata) dict"

subsection \<open>Entries\<close>

definition or_null :: "('a \<Rightarrow> json) \<Rightarrow> 'a option \<Rightarrow> json" where
  "or_null f v = (case v of None \<Rightarrow> JNull | Some x \<Rightarrow> f x)"

definition metadata_to_dict :: "device_metadata \<Rightarrow> json" where
  "metadata_to_dict m = JObj
     [(''address'', JStr (dm_address m)), (''name'', JStr (dm_name m)), (''device_type'', JStr (dm_device_type m)),
      (''first_seen'', JNum (dm_first_seen m)), (''last_seen'', JNum (dm_last_seen m)),
      (''connection_count'', JNum (of_int (dm_connection_count m))), (''error_count'', JNum (of_int (dm_error_count m))),
      (''last_error'', or_null JStr (dm_last_error m)), (''last_error_time'', or_null JNum (dm_last_error_time m)),
      (''firmware_version'', or_null JStr (dm_firmware_version m))]"

fun as_number :: "json \<Rightarrow> rat res" where
  "as_number (JNum q) = Inr q"
| "as_number _ = Inl TypeError"

definition as_optional :: "(json \<Rightarrow> 'a res) \<Rightarrow> json \<Rightarrow> 'a option res" where
  "as_optional f j = (if j = JNull then Inr None else bindR (f j) (\<lambda>x. Inr (Some x)))"

fun metadata_from_dict :: "seconds \<Rightarrow> json \<Rightarrow> device_metadata res" where
  "metadata_from_dict now (JObj data) =
     bindR (bindR (conf_item data ''address'') as_string) (\<lambda>address.
     bindR (bindR (conf_item data ''name'') as_string) (\<lambda>name.
     bindR (bindR (conf_item data ''device_type'') as_string) (\<lambda>device_type.
     bindR (as_number (conf_get data ''first_seen'' (JNum now))) (\<lambda>first_seen.
     bindR (as_number (conf_get data ''last_seen'' (JNum now))) (\<lambda>last_seen.
     bindR (as_int (conf_get data ''connection_count'' (JNum 0))) (\<lambda>connection_count.
     bindR (as_int (conf_get data ''error_count'' (JNum 0))) (\<lambda>error_count.
     bindR (as_optional as_string (conf_get data ''last_error'' JNull)) (\<lambda>last_error.
     bindR (as_optional as_number (conf_get data ''last_error_time'' JNull)) (\<lambda>last_error_time.
     bindR (as_optional as_string (conf_get data ''firmware_version'' JNull)) (\<lambda>firmware_version.
       Inr \<lparr>dm_address = address, dm_name = name, dm_device_type = device_type, dm_first_seen = first_seen, dm_last_seen = last_seen,
            dm_connection_count = connection_count, dm_error_count = error_count, dm_last_error = last_error,
            dm_last_error_time = last_error_time, dm_rssi_history = [], dm_firmware_version = firmware_version\<rparr>))))))))))"
| "metadata_from_dict now _ = Inl TypeError"

definition avg_rssi :: "device_metadata \<Rightarrow> rat option" where
  "avg_rssi m = (if dm_rssi_history m = [] then None
     else Some (of_int (sum_list (dm_rssi_history m)) / of_nat (length (dm_rssi_history m))))"

definition uptime_fraction :: "device_metadata \<Rightarrow> rat" where
  "uptime_fraction m =
     (let total = dm_connection_count m + dm_error_count m in
      if total = 0 then 1 else of_int (dm_connection_count m) / of_int total)"

subsection \<open>The registry\<close>

text \<open>\<^verbatim>\<open>async_load\<close>: an entry that cannot be read is skipped.\<close>

fun load_entries :: "seconds \<Rightarrow> (string \<times> json) list \<Rightarrow> registry \<Rightarrow> registry" where
  "load_entries now [] reg = reg"
| "load_entries now ((addr, data) # rest) reg =
     load_entries now rest (case metadata_from_dict now data of Inr m \<Rightarrow> dict_set (upper addr) m reg | Inl e \<Rightarrow> reg)"

fun registry_load :: "seconds \<Rightarrow> json option \<Rightarrow> registry \<Rightarrow> registry" where
  "registry_load now (Some (JObj data)) reg = load_entries now data reg"
| "registry_load now _ reg = reg"

definition registry_save :: "registry \<Rightarrow> json" where
  "registry_save reg = JObj (map (\<lambda>(addr, m). (addr, metadata_to_dict m)) reg)"

definition register_device :: "seconds \<Rightarrow> string \<Rightarrow> string \<Rightarrow> string \<Rightarrow> registry \<Rightarrow> registry" where
  "register_device now address name device_type reg =
     (let key = upper address in
      case dict_get reg key of
        None \<Rightarrow> dict_set key \<lparr>dm_address = key, dm_name = name, dm_device_type = device_type, dm_first_seen = now, dm_last_seen = now,
            dm_connection_count = 0, dm_error_count = 0, dm_last_error = None, dm_last_error_time = None, dm_rssi_history = [],
            dm_firmware_version = None\<rparr> reg
      | Some m \<Rightarrow> dict_set key (m\<lparr>dm_name := name, dm_device_type := device_type\<rparr>) reg)"

definition get_device :: "string \<Rightarrow> registry \<Rightarrow> device_metadata option" where
  "get_device address reg = dict_get reg (upper address)"

text \<open>Sorting in reverse keeps the order of equal elements.\<close>

definition get_all_devices :: "registry \<Rightarrow> device_metadata list" where
  "get_all_devices reg = sort_key (\<lambda>m. - dm_last_seen m) (map snd reg)"

definition modify_device :: "string \<Rightarrow> (device_metadata \<Rightarrow> device_metadata) \<Rightarrow> registry \<Rightarrow> registry" where
  "modify_device address f reg =
     (case dict_get reg (upper address) of None \<Rightarrow> reg | Some m \<Rightarrow> dict_set (upper address) (f m) reg)"

definition record_connection :: "seconds \<Rightarrow> string \<Rightarrow> registry \<Rightarrow> registry" where
  "record_connection now address =
     modify_device address (\<lambda>m. m\<lparr>dm_last_seen := now, dm_connection_count := dm_connection_count m + 1\<rparr>)"

definition record_device_error :: "seconds \<Rightarrow> string \<Rightarrow> string \<Rightarrow> registry \<Rightarrow> registry" where
  "record_device_error now address err =
     modify_device address (\<lambda>m. m\<lparr>dm_error_count := dm_error_count m + 1, dm_last_error := Some err, dm_last_error_time := Some now\<rparr>)"

text \<open>A deque of bounded length drops its oldest element.\<close>

definition record_rssi :: "string \<Rightarrow> int \<Rightarrow> registry \<Rightarrow> registry" where
  "record_rssi address rssi =
     modify_device address (\<lambda>m. m\<lparr>dm_rssi_history :=
       (let h = dm_rssi_history m @ [rssi] in drop (length h - RSSI_HISTORY_MAXLEN) h)\<rparr>)"

definition update_firmware_version :: "string \<Rightarrow> string \<Rightarrow> registry \<Rightarrow> registry" where
  "update_firmware_version address version = modify_device address (\<lambda>m. m\<lparr>dm_firmware_version := Some version\<rparr>)"

definition remove_device :: "string \<Rightarrow> registry \<Rightarrow> bool \<times> registry" where
  "remove_device address reg =
     (if dict_get reg (upper address) \<noteq> None then (True, dict_pop (upper address) reg) else (False, reg))"

subsection \<open>Runs\<close>

datatype registry_op = Register string string string | Connected string | Failed string string | Rssi string int
  | Firmware string string | Remove string | Restart

text \<open>A restart saves the registry and loads it into an empty one.\<close>

fun registry_step :: "seconds \<Rightarrow> registry_op \<Rightarrow> registry \<Rightarrow> registry" where
  "registry_step now (Register a n t) reg = register_device now a n t reg"
| "registry_step now (Connected a) reg = record_connection now a reg"
| "registry_step now (Failed a e) reg = record_device_error now a e reg"
| "registry_step now (Rssi a r) reg = record_rssi a r reg"
| "registry_step now (Firmware a v) reg = update_firmware_version a v reg"
| "registry_step now (Remove a) reg = snd (remove_device a reg)"
| "registry_step now Restart reg = registry_load now (Some (registry_save reg)) []"

fun registry_run :: "(seconds \<times> registry_op) list \<Rightarrow> registry \<Rightarrow> registry" where
  "registry_run [] reg = reg"
| "registry_run ((now, op) # ops) reg = registry_run ops (registry_step now op reg)"

text \<open>Every device is stored under its address in upper case, with counters and a history within their bounds.\<close>

definition metadata_ok :: "string \<Rightarrow> device_metadata \<Rightarrow> bool" where
  "metadata_ok key m \<longleftrightarrow> dm_address m = key \<and> upper key = key \<and> 0 \<le> dm_connection_count m \<and> 0 \<le> dm_error_count m
     \<and> length (dm_rssi_history m) \<le> RSSI_HISTORY_MAXLEN"

definition registry_ok :: "registry \<Rightarrow> bool" where
  "registry_ok reg \<longleftrightarrow> dict_ok reg \<and> (\<forall>(key, m) \<in> set reg. metadata_ok key m)"

lemma upper_char_upper [simp]: "upper_char (upper_char c) = upper_char c"
  by (auto simp: upper_char_def Let_def)

lemma metadata_roundtrip: "metadata_from_dict now (metadata_to_dict m) = Inr (m\<lparr>dm_rssi_history := []\<rparr>)"
  by (simp add: metadata_to_dict_def conf_item_def conf_get_def as_optional_def or_null_def split: option.splits)

definition forget_rssi :: "registry \<Rightarrow> registry" where
  "forget_rssi reg = map (\<lambda>(key, m). (key, m\<lparr>dm_rssi_history := []\<rparr>)) reg"

lemma set_new: "k \<notin> fst ` set d \<Longrightarrow> dict_set k v d = d @ [(k, v)]"
  by (induction d) auto

lemma fst_forget_rssi [simp]: "map fst (forget_rssi reg) = map fst reg"
  by (induction reg) (auto simp: forget_rssi_def)

lemma load_entries_saved:
  "dict_ok (acc @ reg) \<Longrightarrow> \<forall>key \<in> fst ` set reg. upper key = key
    \<Longrightarrow> load_entries now (map (\<lambda>(addr, m). (addr, metadata_to_dict m)) reg) acc = acc @ forget_rssi reg"
proof (induction reg arbitrary: acc)
  case (Cons p reg)
  obtain a m where p: "p = (a, m)" by fastforce
  have "dict_set a (m\<lparr>dm_rssi_history := []\<rparr>) acc = acc @ [(a, m\<lparr>dm_rssi_history := []\<rparr>)]"
    using Cons.prems(1) p by (intro set_new) auto
  with Cons.IH [of "acc @ [(a, m\<lparr>dm_rssi_history := []\<rparr>)]"] Cons.prems p show ?case
    by (simp add: metadata_roundtrip forget_rssi_def)
qed (simp add: forget_rssi_def)

lemma restart_keeps:
  assumes "registry_ok reg"
  shows "registry_load now (Some (registry_save reg)) [] = forget_rssi reg"
  using assms load_entries_saved [of "[]" reg now] by (fastforce simp: registry_ok_def registry_save_def metadata_ok_def)

lemma set_dict_set: "set (dict_set k v d) \<subseteq> insert (k, v) (set d)"
  by (induction d) auto

lemma registry_ok_set:
  assumes "registry_ok reg" "metadata_ok k m" shows "registry_ok (dict_set k m reg)"
  using assms set_dict_set [of k m reg] by (fastforce simp: registry_ok_def dict_ok_set)

lemma registry_ok_get: "registry_ok reg \<Longrightarrow> dict_get reg k = Some m \<Longrightarrow> metadata_ok k m"
  by (auto simp: registry_ok_def dest: map_of_SomeD)

lemma modify_ok:
  assumes "registry_ok reg" "\<And>m. metadata_ok (upper a) m \<Longrightarrow> metadata_ok (upper a) (f m)"
  shows "registry_ok (modify_device a f reg)"
  using assms registry_ok_get [OF assms(1)] by (auto simp: modify_device_def intro: registry_ok_set split: option.splits)

lemma registry_step_ok:
  assumes "registry_ok reg" shows "registry_ok (registry_step now op reg)"
proof (cases op)
  case (Register a n t)
  with assms show ?thesis
    using registry_ok_get [OF assms, of "upper a"]
    by (auto simp: register_device_def Let_def metadata_ok_def intro!: registry_ok_set split: option.splits)
next
  case Restart
  have "\<forall>(key, m) \<in> set (forget_rssi reg). metadata_ok key m"
    using assms by (auto simp: registry_ok_def forget_rssi_def metadata_ok_def)
  with assms have "registry_ok (forget_rssi reg)" by (simp add: registry_ok_def)
  then show ?thesis by (simp add: Restart restart_keeps [OF assms] del: registry_load.simps)
next
  case (Remove a)
  have "set (dict_pop (upper a) reg) \<subseteq> set reg" by (auto simp: dict_pop_filter)
  with assms Remove show ?thesis by (auto simp: remove_device_def registry_ok_def dict_ok_pop)
qed (use assms in \<open>auto simp: record_connection_def record_device_error_def record_rssi_def update_firmware_version_def metadata_ok_def
  Let_def intro!: modify_ok\<close>)

lemma registry_run_ok: "registry_ok reg \<Longrightarrow> registry_ok (registry_run ops reg)"
  by (induction ops reg rule: registry_run.induct) (simp_all add: registry_step_ok)

lemma get_forget_rssi: "dict_get (forget_rssi reg) k = map_option (\<lambda>m. m\<lparr>dm_rssi_history := []\<rparr>) (dict_get reg k)"
  by (induction reg) (auto simp: forget_rssi_def)

text \<open>C39: After any operations, restarts among them, on the empty registry, a restart gives every device back with its names,
  timestamps, counters and last error; only the signal history is empty, and no device appears or disappears.\<close>

theorem registry_survives_restart:
  "get_device address (registry_step now Restart (registry_run ops []))
     = map_option (\<lambda>m. m\<lparr>dm_rssi_history := []\<rparr>) (get_device address (registry_run ops []))"
proof -
  have "registry_ok (registry_run ops [])" by (rule registry_run_ok) (simp add: registry_ok_def)
  then show ?thesis by (simp add: get_device_def restart_keeps get_forget_rssi)
qed

text \<open>What every registered device satisfies.\<close>

lemma registry_bounds:
  assumes "get_device address (registry_run ops []) = Some m"
  shows "dm_address m = upper address \<and> length (dm_rssi_history m) \<le> 50 \<and> 0 \<le> uptime_fraction m \<and> uptime_fraction m \<le> 1"
proof -
  have "registry_ok (registry_run ops [])" by (rule registry_run_ok) (simp add: registry_ok_def)
  then have m: "metadata_ok (upper address) m" using assms registry_ok_get by (auto simp: get_device_def)
  then have c: "(0 :: rat) \<le> of_int (dm_connection_count m)" "of_int (dm_connection_count m) \<le> (of_int (dm_connection_count m + dm_error_count m) :: rat)"
    by (simp_all add: metadata_ok_def)
  with m show ?thesis by (auto simp: uptime_fraction_def Let_def metadata_ok_def RSSI_HISTORY_MAXLEN_def divide_le_eq)
qed

end
