(* ===== verification/Spec2Isabelle.thy ===== *)
theory Spec2Isabelle
  imports Sig_Commands Sig_Provisioning Dispatcher Light Bridge Telink_Setup Entry_Updates Device_Registry
begin

text \<open>
  A model of the Tuya BLE Mesh integration for Home Assistant
  (\<^verbatim>\<open>src/custom_components/tuya_ble_mesh\<close>, below \<^verbatim>\<open>HA/\<close>) and of its protocol library
  (\<^verbatim>\<open>lib/tuya_ble_mesh\<close> in it, below \<^verbatim>\<open>lib/\<close>).

  \<^bold>\<open>The program.\<close>  The library drives two kinds of devices over Bluetooth.  Telink devices are paired with the name and
  password of their mesh, which gives a session key; commands are 20 byte packets encrypted with it, queued by the
  device and sent by a worker over one connection that is kept alive.  SIG Mesh devices are nodes of a Bluetooth mesh:
  messages go through an access, a transport and a network layer, in segments when they are long, under keys derived
  from a network, a device and an application key and under sequence numbers that must never be used twice.  Devices of
  both kinds can also be reached by HTTP through a bridge daemon.  On top of the devices the integration has a
  coordinator, which turns what a device reports into the state that entities show, a connection manager, which
  reconnects with growing delays, the light entities, and the flows in which a user adds or changes a device.

  \<^bold>\<open>Theories\<close>, in the order in which they build on each other, with the files that they model:
  \<^item> \<open>Prelude\<close>: bytes, slices, integer conversions, exceptions (\<^verbatim>\<open>lib/exceptions.py\<close> and those of Python) with their
    subclass relation \<open>isinstance\<close>, results \<open>'a res\<close>, dictionaries as association lists, and actions, functions from a
    state to a result and a state.
  \<^item> \<open>Utf8\<close>: encoding and lossy decoding of texts.
  \<^item> \<open>Telink_Crypto\<close> (\<^verbatim>\<open>lib/crypto.py\<close>) and \<open>Telink_Protocol\<close> (\<^verbatim>\<open>lib/protocol.py\<close>): key derivation, the CTR and CBC-MAC
    constructions, packets, notifications, pairing answers and data points.
  \<^item> \<open>Sig_Codec\<close> (\<^verbatim>\<open>lib/sig_mesh_protocol_codec.py\<close>), \<open>Sig_Crypto\<close> (\<^verbatim>\<open>lib/sig_mesh_crypto.py\<close>), \<open>Sig_Protocol\<close>
    (\<^verbatim>\<open>lib/sig_mesh_protocol.py\<close>): access messages, AES-CMAC and the key derivations, the network and transport layers.
  \<^item> \<open>Sequence\<close> (\<^verbatim>\<open>lib/sig_mesh_device.py\<close>, \<^verbatim>\<open>HA/ha_sequence.py\<close>): the stores of sequence numbers and their allocation.
  \<^item> \<open>Sig_Segments\<close> (\<^verbatim>\<open>lib/sig_mesh_device_segments.py\<close>) and \<open>Sig_Commands\<close> (\<^verbatim>\<open>lib/sig_mesh_device_commands.py\<close>): what a
    SIG Mesh device does with a notification, and its commands.  The receiving state is the record \<open>sig_device\<close>; a
    command works on \<open>sig_node\<close>, which contains it.
  \<^item> \<open>Sig_Device\<close> (\<^verbatim>\<open>lib/sig_mesh_device.py\<close>, \<^verbatim>\<open>lib/secrets.py\<close>): its connection (\<open>sig_link\<close>, around the node), its
    keys and callbacks.
  \<^item> \<open>Sig_Provisioning\<close> (\<^verbatim>\<open>lib/sig_mesh_provisioner_exchange.py\<close>) and \<open>Prov_Connection\<close>
    (\<^verbatim>\<open>lib/sig_mesh_provisioner_connection.py\<close>, \<^verbatim>\<open>lib/sig_mesh_provisioner.py\<close>): adding a node to the mesh.
  \<^item> \<open>Transport\<close> and \<open>Dispatcher\<close> (\<^verbatim>\<open>lib/transport\<close>): requests, correlation of answers, metrics, and the
    dispatcher of commands as a relation between its states at the awaits.
  \<^item> \<open>Telink_Connection\<close> (\<^verbatim>\<open>lib/provisioner.py\<close>, \<^verbatim>\<open>lib/connection.py\<close>) and \<open>Telink_Device\<close> (\<^verbatim>\<open>lib/device.py\<close>,
    \<^verbatim>\<open>lib/device_dispatcher.py\<close>, \<^verbatim>\<open>lib/device_commands.py\<close>): pairing, the life of a connection, the queue and its worker.
  \<^item> \<open>Connection_Manager\<close> (\<^verbatim>\<open>HA/connection_manager.py\<close>, \<^verbatim>\<open>HA/error_classifier.py\<close>), \<open>Coordinator\<close>
    (\<^verbatim>\<open>HA/coordinator.py\<close>), \<open>Light\<close> (\<^verbatim>\<open>HA/light.py\<close>): from the device to what a user sees, and back.
  \<^item> \<open>Bridge\<close> (\<^verbatim>\<open>lib/sig_mesh_bridge.py\<close>): the two devices behind the daemon.
  \<^item> \<open>Device_Factory\<close> (\<^verbatim>\<open>HA/device_factory.py\<close>, \<^verbatim>\<open>HA/device_capabilities.py\<close>), \<open>Config_Validators\<close>
    (\<^verbatim>\<open>HA/config_flow_validators.py\<close>): from the data of a config entry to a device, and the checks of what a user enters.
  \<^item> \<open>Sig_Setup\<close> (\<^verbatim>\<open>HA/config_flow_sig.py\<close>), \<open>Telink_Setup\<close> (\<^verbatim>\<open>HA/config_flow_telink.py\<close>, \<^verbatim>\<open>HA/config_flow_ble.py\<close>,
    \<^verbatim>\<open>HA/config_flow_discovery.py\<close>, \<^verbatim>\<open>HA/config_flow.py\<close>), \<open>Entry_Updates\<close> (\<^verbatim>\<open>HA/config_flow_reconfigure.py\<close>,
    \<^verbatim>\<open>HA/config_flow_options.py\<close>): the flows that make and change config entries.
  \<^item> \<open>Device_Registry\<close> (\<^verbatim>\<open>HA/device_registry.py\<close>): the metadata of devices over restarts.
  A definition has the name of the Python function or class that it models, in the style of the file; the fields of a
  record carry the initials of its class.

  \<^bold>\<open>Parameters.\<close>  What is not in the repository is an argument: one AES block (required to be a function from 16 to 16
  bytes, \<open>block_cipher\<close>), AES-CCM and ECDH of the package \<^verbatim>\<open>cryptography\<close> (\<open>crypto_lib_ok\<close>: decryption inverts encryption
  and accepts nothing else, and the lengths), the Bluetooth client and
  scanner, \<^verbatim>\<open>bluetoothctl\<close>, the HTTP client, random bytes, callbacks and Home Assistant.  They are oracles that say how the
  n-th call ends, so a theorem about all oracles covers every behaviour of them.  The clock and the random jitter are
  arguments; floats are exact rationals, and texts of log messages and exceptions are left out unless the code reads them.

  \<^bold>\<open>Concurrency.\<close>  The code runs in one event loop, so what happens between two awaits is atomic.  The dispatcher, the worker
  of the Telink device and the tasks of the connection manager are step functions or relations between awaits, so every
  interleaving is covered.  Elsewhere an operation is a sequence of its calls, and what other tasks do while it waits is a
  parameter (\<open>interference\<close>, \<open>le_meanwhile\<close>); operations of the Telink connection and of the bridges run one at a time.

  \<^bold>\<open>Loops.\<close>  All definitions are total; no fuel is used.  A loop over attempts or
  polls counts down the attempts that are left, which start at the limit of the code; the
  loops over bytes end because the rest gets shorter.  That a command or a reconnection comes to an end is proved over the
  runs of the step functions.

  \<^bold>\<open>What the lemmas show.\<close>
  \<^item> Codecs and crypto: packets, data points, network and transport PDUs are read back as they were built; a packet or
    PDU that was changed is refused; AES-CMAC is that of RFC 4493; every failing branch has its exception.
  \<^item> Segmentation: a message sent in segments is delivered once and unchanged, the buffers stay within their bounds, and
    receiving a notification is the same as reading the access payload from the layers.
  \<^item> Sequence numbers: none is allocated twice, and what is lost over a restart.
  \<^item> Connections: an invariant of the states of a Telink connection, also for the zeroing of session keys; for SIG
    Mesh devices and the provisioner, which clients are left open.
  \<^item> Queues: the limits of the dispatcher hold, every command is completed, its future once; every command of
    a Telink device is sent, expired, dropped or failed, and which packets it causes.
  \<^item> Integration: reconnecting ends or restores the availability, its delays have bounds, listeners are called exactly
    when what is shown changes, brightness reaches the device in its scale and comes back, transitions end at their target.
  \<^item> Setup: an entry that was accepted gives a device that can derive its keys, also after changes; the SSRF check of
    bridge hosts; what the provisioning of a plug and the direct setup of a Telink light lack; a saved
    registry of devices is read back.
  Some theorems state what the code does against its comments or its purpose; their texts say so.

  \<^bold>\<open>Interfaces\<close> are locales: \<open>stream_cipher\<close>, \<open>aead\<close>, \<open>seq_store\<close> with \<open>monotone_store\<close>, \<open>correlator\<close> and \<open>command_sink\<close>,
  each interpreted on the functions of the code that provide it.

  \<^bold>\<open>Not modelled\<close>: the platforms of sensors, switches, buttons, binary sensors, updates, triggers and the logbook, the
  repair issues and diagnostics, and the setup of an entry in \<^verbatim>\<open>HA/__init__.py\<close>, which mostly call Home Assistant; the YAML profiles of \<^verbatim>\<open>lib/dps.py\<close>, the
  smart plug client \<^verbatim>\<open>lib/power.py\<close>, the 1Password command line of
  \<^verbatim>\<open>lib/secrets.py\<close> and the scanner, which are input and output; and the scripts under
  \<^verbatim>\<open>src/scripts\<close>, tools for the developer that repeat parts of the library.
\<close>

end
